(* ===== verification/Korri_Prelude.thy ===== *)
theory Korri_Prelude
  imports
    Main
    "HOL-Library.Char_ord"
    "HOL-Library.List_Lexorder"
    "HOL-Library.Word"
begin

text \<open>
  Shared vocabulary of the development.

  \<^item> Rust's \<open>Result\<close> as a datatype, so that every \<open>?\<close>, early return and error of the
    source is a branch of the model;
  \<^item> the byte predicates that the identifier checks of several components share;
  \<^item> the list iterations (\<open>position\<close>, loops over indices) the sources use;
  \<^item> the locale \<open>machine\<close>: a component as a step function with an invariant, and what
    follows for every run of it;
  \<^item> the collections \<open>korri_defs\<close> (definitions to unfold in a component proof) and
    \<open>korri_inv\<close> (preservation lemmas).

  Strings are lists of bytes (\<^typ>\<open>char\<close>), as Rust's \<open>String::len\<close> and \<open>bytes()\<close> see
  them. The order on strings is the lexicographic byte order of \<open>Ord for String\<close>.
  Millisecond clocks (\<open>u64\<close>) are \<^typ>\<open>nat\<close>: the sources only compare them and
  subtract with \<open>saturating_sub\<close>, which is subtraction on \<^typ>\<open>nat\<close>.
\<close>

named_theorems korri_defs
named_theorems korri_inv

subsection \<open>Results\<close>

datatype ('a, 'e) result = Ok 'a | Err 'e

primrec is_ok :: "('a, 'e) result \<Rightarrow> bool" where
  "is_ok (Ok _) = True"
| "is_ok (Err _) = False"

primrec ok_value :: "('a, 'e) result \<Rightarrow> 'a" where
  "ok_value (Ok a) = a"

lemma ok_value_eq: "is_ok r \<Longrightarrow> r = Ok (ok_value r)"
  by (cases r) simp_all

lemma is_ok_iff: "is_ok r \<longleftrightarrow> (\<exists>a. r = Ok a)"
  by (cases r) simp_all

primrec map_err :: "('e \<Rightarrow> 'f) \<Rightarrow> ('a, 'e) result \<Rightarrow> ('a, 'f) result" where
  "map_err f (Ok a) = Ok a"
| "map_err f (Err e) = Err (f e)"

definition ok_or :: "'e \<Rightarrow> 'a option \<Rightarrow> ('a, 'e) result" where
  "ok_or e x = (case x of None \<Rightarrow> Err e | Some a \<Rightarrow> Ok a)"

subsection \<open>Bytes and text\<close>

definition is_ascii_digit :: "char \<Rightarrow> bool" where
  "is_ascii_digit c \<longleftrightarrow> CHR ''0'' \<le> c \<and> c \<le> CHR ''9''"

definition is_lower_hex :: "char \<Rightarrow> bool" where
  "is_lower_hex c \<longleftrightarrow> is_ascii_digit c \<or> (CHR ''a'' \<le> c \<and> c \<le> CHR ''f'')"

definition lower_hex_text :: "nat \<Rightarrow> string \<Rightarrow> bool" where
  "lower_hex_text n s \<longleftrightarrow> length s = n \<and> list_all is_lower_hex s"

fun join_with :: "string \<Rightarrow> string list \<Rightarrow> string" where
  "join_with sep [] = []"
| "join_with sep [x] = x"
| "join_with sep (x # y # xs) = x @ sep @ join_with sep (y # xs)"

fun decimal :: "nat \<Rightarrow> string" where
  "decimal n = (if n < 10 then [char_of (48 + n)] else decimal (n div 10) @ [char_of (48 + n mod 10)])"

declare decimal.simps [simp del]

subsection \<open>Searching a list\<close>

fun position :: "('a \<Rightarrow> bool) \<Rightarrow> 'a list \<Rightarrow> nat option" where
  "position P [] = None"
| "position P (x # xs) = (if P x then Some 0 else map_option Suc (position P xs))"

lemma position_None [simp]: "position P xs = None \<longleftrightarrow> (\<forall>x \<in> set xs. \<not> P x)"
  by (induction xs) auto

lemma position_SomeD:
  "position P xs = Some i \<Longrightarrow> i < length xs \<and> P (xs ! i) \<and> (\<forall>j < i. \<not> P (xs ! j))"
proof (induction xs arbitrary: i)
  case (Cons x xs)
  then show ?case
    by (auto split: if_splits simp: less_Suc_eq_0_disj nth_Cons')
qed simp

lemma position_Some_iff:
  "position P xs = Some i \<longleftrightarrow> i < length xs \<and> P (xs ! i) \<and> (\<forall>j < i. \<not> P (xs ! j))"
proof
  assume r: "i < length xs \<and> P (xs ! i) \<and> (\<forall>j < i. \<not> P (xs ! j))"
  then have "xs ! i \<in> set xs" and "P (xs ! i)" by simp_all
  then have "position P xs \<noteq> None" unfolding position_None by blast
  then obtain k where k: "position P xs = Some k" by (cases "position P xs") simp_all
  from position_SomeD [OF this] r have "k = i"
    by (metis linorder_neqE_nat)
  with k show "position P xs = Some i" by simp
qed (rule position_SomeD)

lemma position_cong:
  "length xs = length ys \<Longrightarrow> (\<And>i. i < length xs \<Longrightarrow> P (xs ! i) = Q (ys ! i)) \<Longrightarrow>
   position P xs = position Q ys"
proof (induction xs ys rule: list_induct2)
  case (Cons x xs y ys)
  from Cons.prems [of 0] have "P x = Q y" by simp
  moreover have "position P xs = position Q ys"
    using Cons.prems [of "Suc i" for i] by (intro Cons.IH) simp
  ultimately show ?case by simp
qed simp

subsection \<open>Runs of a component\<close>

text \<open>
  A component is a state, a step function over its inputs and an invariant that every step
  keeps. Its runs are the left folds of the step function over lists of inputs.
\<close>

locale machine =
  fixes step :: "'s \<Rightarrow> 'i \<Rightarrow> 's"
    and inv :: "'s \<Rightarrow> bool"
  assumes inv_step: "inv s \<Longrightarrow> inv (step s i)"
begin

lemma inv_run: "inv s \<Longrightarrow> inv (foldl step s xs)"
  by (induction xs arbitrary: s) (auto intro: inv_step)

lemma inv_run_prefix: "inv s \<Longrightarrow> inv (foldl step s (take n xs))"
  by (rule inv_run)

text \<open>A relation that a step establishes and that is transitive holds across a run.\<close>

lemma rel_run:
  assumes "inv s"
    and "\<And>s. R s s"
    and "\<And>s t u. R s t \<Longrightarrow> R t u \<Longrightarrow> R s u"
    and "\<And>s i. inv s \<Longrightarrow> R s (step s i)"
  shows "R s (foldl step s xs)"
  using assms(1)
proof (induction xs arbitrary: s)
  case Nil
  show ?case by (simp add: assms(2))
next
  case (Cons i xs)
  from Cons.prems have "inv (step s i)" by (rule inv_step)
  then have "R (step s i) (foldl step (step s i) xs)" by (rule Cons.IH)
  moreover from Cons.prems have "R s (step s i)" by (rule assms(4))
  ultimately show ?case by (auto intro: assms(3))
qed

end

end
