(* ===== verification/Controls.thy ===== *)
theory Controls
  imports Korri_Prelude
begin

text \<open>
  The logical controls of \<open>services/inputd/core/src/controls.rs\<close>: the control names, the
  wire values and the D-pad axes. \<open>Control\<close> derives \<open>Ord\<close>, the order of its declaration,
  which \<open>BTreeSet<Control>\<close> and the sorted \<open>required_controls\<close> use.
\<close>

datatype control =
    Home | L1 | R1 | Start | Select | L3 | R3 | Back | X
  | VolumeUp | VolumeDown | DpadUp | DpadDown | DpadLeft | DpadRight

primrec control_rank :: "control \<Rightarrow> nat" where
  "control_rank Home = 0"
| "control_rank L1 = 1"
| "control_rank R1 = 2"
| "control_rank Start = 3"
| "control_rank Select = 4"
| "control_rank L3 = 5"
| "control_rank R3 = 6"
| "control_rank Back = 7"
| "control_rank X = 8"
| "control_rank VolumeUp = 9"
| "control_rank VolumeDown = 10"
| "control_rank DpadUp = 11"
| "control_rank DpadDown = 12"
| "control_rank DpadLeft = 13"
| "control_rank DpadRight = 14"

lemma control_rank_inj: "control_rank a = control_rank b \<Longrightarrow> a = b"
  by (cases a; cases b) simp_all

instantiation control :: linorder
begin

definition less_eq_control :: "control \<Rightarrow> control \<Rightarrow> bool" where
  "less_eq_control a b \<longleftrightarrow> control_rank a \<le> control_rank b"

definition less_control :: "control \<Rightarrow> control \<Rightarrow> bool" where
  "less_control a b \<longleftrightarrow> control_rank a < control_rank b"

instance
  by standard (auto simp: less_eq_control_def less_control_def intro: control_rank_inj)

end

lemma UNIV_control:
  "UNIV = {Home, L1, R1, Start, Select, L3, R3, Back, X, VolumeUp, VolumeDown,
           DpadUp, DpadDown, DpadLeft, DpadRight}"
  by (auto intro: control.exhaust)

instance control :: finite
  by standard (simp add: UNIV_control)

datatype unknown_control = UnknownControl

definition control_from_str :: "string \<Rightarrow> (control, unknown_control) result" where
  "control_from_str s =
     (if s = ''home'' then Ok Home
      else if s = ''l1'' then Ok L1
      else if s = ''r1'' then Ok R1
      else if s = ''start'' then Ok Start
      else if s = ''select'' then Ok Select
      else if s = ''l3'' then Ok L3
      else if s = ''r3'' then Ok R3
      else if s = ''back'' then Ok Back
      else if s = ''x'' then Ok X
      else if s = ''volume-up'' then Ok VolumeUp
      else if s = ''volume-down'' then Ok VolumeDown
      else if s = ''dpad-up'' then Ok DpadUp
      else if s = ''dpad-down'' then Ok DpadDown
      else if s = ''dpad-left'' then Ok DpadLeft
      else if s = ''dpad-right'' then Ok DpadRight
      else Err UnknownControl)"

datatype control_transition = Pressed | Released

record control_event =
  ev_source :: string
  ev_control :: control
  ev_transition :: control_transition

definition event_pressed :: "string \<Rightarrow> control \<Rightarrow> control_event" where
  "event_pressed s c = \<lparr>ev_source = s, ev_control = c, ev_transition = Pressed\<rparr>"

definition event_released :: "string \<Rightarrow> control \<Rightarrow> control_event" where
  "event_released s c = \<lparr>ev_source = s, ev_control = c, ev_transition = Released\<rparr>"

datatype control_value = ValueReleased | ValuePressed | ValueRepeat

definition control_value_from_i32 :: "int \<Rightarrow> control_value option" where
  "control_value_from_i32 v =
     (if v = 0 then Some ValueReleased
      else if v = 1 then Some ValuePressed
      else if v = 2 then Some ValueRepeat
      else None)"

datatype dpad_axis = Horizontal | Vertical

fun control_for :: "dpad_axis \<Rightarrow> int \<Rightarrow> control option" where
  "control_for Horizontal v = (if v < 0 then Some DpadLeft else if 0 < v then Some DpadRight else None)"
| "control_for Vertical v = (if v < 0 then Some DpadUp else if 0 < v then Some DpadDown else None)"

lemmas event_defs = event_pressed_def event_released_def

lemma event_sel [simp]:
  "ev_source (event_pressed s c) = s" "ev_control (event_pressed s c) = c"
  "ev_transition (event_pressed s c) = Pressed"
  "ev_source (event_released s c) = s" "ev_control (event_released s c) = c"
  "ev_transition (event_released s c) = Released"
  by (simp_all add: event_defs)

lemma event_cases:
  obtains s c where "e = event_pressed s c" | s c where "e = event_released s c"
  by (cases e; cases "ev_transition e") (auto simp: event_defs)

end
