(* ===== verification/Ordered_Map.thy ===== *)
theory Ordered_Map
  imports Korri_Prelude
begin

text \<open>
  Rust's \<open>BTreeMap\<close> as an association list in ascending key order. Iteration visits the
  keys in that order, which is observable wherever a component collects, emits or allocates
  while it iterates. \<open>bt_wf\<close> says that the keys ascend strictly; every operation keeps it.
  The locale \<open>finite_map\<close> is the interface the components rely on: what a lookup returns after
  an insertion, a removal and a \<open>retain\<close>.
\<close>

type_synonym ('k, 'v) btree = "('k \<times> 'v) list"

definition bt_get :: "('k, 'v) btree \<Rightarrow> 'k \<Rightarrow> 'v option" where
  "bt_get m k = map_of m k"

fun bt_insert :: "'k::linorder \<Rightarrow> 'v \<Rightarrow> ('k, 'v) btree \<Rightarrow> ('k, 'v) btree" where
  "bt_insert k v [] = [(k, v)]"
| "bt_insert k v ((k', v') # m) =
     (if k < k' then (k, v) # (k', v') # m
      else if k = k' then (k, v) # m
      else (k', v') # bt_insert k v m)"

definition bt_remove :: "'k \<Rightarrow> ('k, 'v) btree \<Rightarrow> ('k, 'v) btree" where
  "bt_remove k m = filter (\<lambda>(k', _). k' \<noteq> k) m"

definition bt_retain :: "('k \<Rightarrow> 'v \<Rightarrow> bool) \<Rightarrow> ('k, 'v) btree \<Rightarrow> ('k, 'v) btree" where
  "bt_retain P m = filter (\<lambda>(k, v). P k v) m"

definition bt_keys :: "('k, 'v) btree \<Rightarrow> 'k list" where
  "bt_keys m = map fst m"

definition bt_values :: "('k, 'v) btree \<Rightarrow> 'v list" where
  "bt_values m = map snd m"

definition bt_contains_key :: "('k, 'v) btree \<Rightarrow> 'k \<Rightarrow> bool" where
  "bt_contains_key m k \<longleftrightarrow> k \<in> set (bt_keys m)"

definition bt_map_values :: "('v \<Rightarrow> 'v) \<Rightarrow> ('k, 'v) btree \<Rightarrow> ('k, 'v) btree" where
  "bt_map_values f m = map (\<lambda>(k, v). (k, f v)) m"

definition bt_wf :: "('k::linorder, 'v) btree \<Rightarrow> bool" where
  "bt_wf m \<longleftrightarrow> sorted_wrt (<) (bt_keys m)"

subsection \<open>Lookup\<close>

lemma bt_get_Nil [simp]: "bt_get [] k = None"
  by (simp add: bt_get_def)

lemma bt_get_insert [simp]: "bt_get (bt_insert k v m) k' = (if k' = k then Some v else bt_get m k')"
  by (induction m) (auto simp: bt_get_def)

lemma bt_get_remove [simp]: "bt_get (bt_remove k m) k' = (if k' = k then None else bt_get m k')"
  by (induction m) (auto simp: bt_get_def bt_remove_def)

lemma bt_get_map_values [simp]: "bt_get (bt_map_values f m) k = map_option f (bt_get m k)"
  by (induction m) (auto simp: bt_get_def bt_map_values_def)

lemma bt_get_None_iff: "bt_get m k = None \<longleftrightarrow> k \<notin> set (bt_keys m)"
  by (simp add: bt_get_def bt_keys_def map_of_eq_None_iff)

lemma bt_contains_key_iff: "bt_contains_key m k \<longleftrightarrow> bt_get m k \<noteq> None"
  by (simp add: bt_contains_key_def bt_get_None_iff)

lemma bt_get_in_set: "bt_get m k = Some v \<Longrightarrow> (k, v) \<in> set m"
  by (simp add: bt_get_def map_of_SomeD)

lemma bt_get_keys: "bt_get m k = Some v \<Longrightarrow> k \<in> set (bt_keys m)"
  using bt_get_None_iff by (metis option.distinct(1))

subsection \<open>Well-formed maps\<close>

lemma bt_wf_Nil [simp]: "bt_wf []"
  by (simp add: bt_wf_def bt_keys_def)

lemma bt_wf_Cons: "bt_wf ((k, v) # m) \<longleftrightarrow> (\<forall>k' \<in> set (bt_keys m). k < k') \<and> bt_wf m"
  by (auto simp: bt_wf_def bt_keys_def)

lemma bt_keys_Cons [simp]: "bt_keys ((k, v) # m) = k # bt_keys m"
  by (simp add: bt_keys_def)

lemma bt_keys_Nil [simp]: "bt_keys [] = []"
  by (simp add: bt_keys_def)

lemma bt_keys_insert: "set (bt_keys (bt_insert k v m)) = insert k (set (bt_keys m))"
  by (induction k v m rule: bt_insert.induct) auto

lemma bt_keys_remove: "set (bt_keys (bt_remove k m)) = set (bt_keys m) - {k}"
  by (auto simp: bt_keys_def bt_remove_def image_iff)

lemma bt_keys_map_values [simp]: "bt_keys (bt_map_values f m) = bt_keys m"
  by (induction m) (auto simp: bt_keys_def bt_map_values_def)

lemma bt_wf_insert [simp, intro]: "bt_wf m \<Longrightarrow> bt_wf (bt_insert k v m)"
proof (induction m)
  case (Cons p m)
  obtain k' v' where p: "p = (k', v')" by (cases p)
  from Cons.prems have lt: "\<forall>x \<in> set (bt_keys m). k' < x" and wf: "bt_wf m"
    by (simp_all add: p bt_wf_Cons)
  from wf have "bt_wf (bt_insert k v m)" by (rule Cons.IH)
  with lt wf show ?case
    by (cases "k < k'") (auto simp: p bt_wf_Cons bt_keys_insert)
qed (simp add: bt_wf_def bt_keys_def)

lemma bt_wf_filter: "bt_wf m \<Longrightarrow> bt_wf (filter P m)"
  by (simp add: bt_wf_def bt_keys_def sorted_wrt_map sorted_wrt_filter)

lemma bt_wf_remove [simp, intro]: "bt_wf m \<Longrightarrow> bt_wf (bt_remove k m)"
  by (simp add: bt_remove_def bt_wf_filter)

lemma bt_wf_retain [simp, intro]: "bt_wf m \<Longrightarrow> bt_wf (bt_retain P m)"
  by (simp add: bt_retain_def bt_wf_filter)

lemma bt_wf_map_values [simp]: "bt_wf (bt_map_values f m) = bt_wf m"
  by (simp add: bt_wf_def)

lemma bt_wf_distinct: "bt_wf m \<Longrightarrow> distinct (bt_keys m)"
  by (simp add: bt_wf_def strict_sorted_iff)

lemma bt_get_iff: "bt_wf m \<Longrightarrow> bt_get m k = Some v \<longleftrightarrow> (k, v) \<in> set m"
  using bt_wf_distinct [of m] by (auto simp: bt_get_def bt_keys_def dest: map_of_SomeD)

lemma bt_values_get: "bt_wf m \<Longrightarrow> v \<in> set (bt_values m) \<longleftrightarrow> (\<exists>k. bt_get m k = Some v)"
  by (force simp: bt_get_iff bt_values_def)

lemma bt_values_ex: "bt_wf m \<Longrightarrow> (\<exists>v \<in> set (bt_values m). P v) \<longleftrightarrow> (\<exists>k v. bt_get m k = Some v \<and> P v)"
  by (metis bt_values_get)

lemma bt_get_retain:
  assumes "bt_wf m"
  shows "bt_get (bt_retain P m) k =
    (case bt_get m k of None \<Rightarrow> None | Some v \<Rightarrow> if P k v then Some v else None)"
  using assms
proof (induction m)
  case (Cons p m)
  obtain k' v' where p: "p = (k', v')" by (cases p)
  from Cons.prems have "bt_wf m" and "k' \<notin> set (bt_keys m)"
    by (auto simp: p bt_wf_Cons)
  with Cons.IH have IH: "bt_get (bt_retain P m) k =
      (case bt_get m k of None \<Rightarrow> None | Some v \<Rightarrow> if P k v then Some v else None)"
    and none: "bt_get m k' = None"
    by (simp_all add: bt_get_None_iff)
  then show ?case
    by (cases "k = k'") (auto simp: p bt_get_def bt_retain_def split: option.splits)
qed (simp add: bt_retain_def)

subsection \<open>The interface\<close>

locale finite_map =
  fixes get :: "'m \<Rightarrow> 'k \<Rightarrow> 'v option"
    and insert :: "'k \<Rightarrow> 'v \<Rightarrow> 'm \<Rightarrow> 'm"
    and remove :: "'k \<Rightarrow> 'm \<Rightarrow> 'm"
    and retain :: "('k \<Rightarrow> 'v \<Rightarrow> bool) \<Rightarrow> 'm \<Rightarrow> 'm"
    and wf :: "'m \<Rightarrow> bool"
  assumes get_insert: "wf m \<Longrightarrow> get (insert k v m) k' = (if k' = k then Some v else get m k')"
    and get_remove: "wf m \<Longrightarrow> get (remove k m) k' = (if k' = k then None else get m k')"
    and get_retain: "wf m \<Longrightarrow> get (retain P m) k =
      (case get m k of None \<Rightarrow> None | Some v \<Rightarrow> if P k v then Some v else None)"
    and wf_insert: "wf m \<Longrightarrow> wf (insert k v m)"
    and wf_remove: "wf m \<Longrightarrow> wf (remove k m)"
    and wf_retain: "wf m \<Longrightarrow> wf (retain P m)"
begin

lemma all_insert:
  "wf m \<Longrightarrow> (\<And>k v. get m k = Some v \<Longrightarrow> Q k v) \<Longrightarrow> Q k v \<Longrightarrow>
   get (insert k v m) k' = Some v' \<Longrightarrow> Q k' v'"
  by (auto simp: get_insert split: if_splits)

lemma all_remove:
  "wf m \<Longrightarrow> (\<And>k v. get m k = Some v \<Longrightarrow> Q k v) \<Longrightarrow> get (remove k m) k' = Some v' \<Longrightarrow> Q k' v'"
  by (auto simp: get_remove split: if_splits)

lemma all_retain:
  "wf m \<Longrightarrow> (\<And>k v. get m k = Some v \<Longrightarrow> Q k v) \<Longrightarrow> get (retain P m) k' = Some v' \<Longrightarrow>
   Q k' v' \<and> P k' v'"
  by (auto simp: get_retain split: option.splits if_splits)

lemma insert_then_remove: "wf m \<Longrightarrow> get m k = None \<Longrightarrow> get (remove k (insert k v m)) = get m"
  by (rule ext) (auto simp: get_insert get_remove wf_insert)

end

interpretation bt: finite_map bt_get bt_insert bt_remove bt_retain bt_wf
  by unfold_locales (auto simp: bt_get_retain)

lemmas bt_defs = bt_get_def bt_remove_def bt_retain_def bt_keys_def bt_values_def
  bt_contains_key_def bt_map_values_def

end
