(* ===== verification/Shortcuts.thy ===== *)
theory Shortcuts
  imports Controls Ordered_Map
begin

text \<open>
  The shortcut policy of \<open>services/inputd/core/src/shortcuts.rs\<close>. It turns presses and
  releases from several input sources into matches of configured shortcuts and taps.
  A destructive shortcut (\<open>SourceRule::Same\<close>) must be held exactly, on one source, and is
  disarmed until every control of every destructive shortcut was seen released.

  \<^item> data: \<open>shortcut_definition\<close>, \<open>tap_definition\<close>, \<open>source_state\<close>, \<open>shortcut_policy\<close>;
  \<^item> operations: \<open>policy_new\<close>, \<open>handle\<close>, \<open>handle_value\<close>, \<open>handle_dpad_axis\<close>,
    \<open>clear_source\<close>, \<open>policy_reset\<close>, and the queries;
  \<^item> \<open>policy_inv\<close> and its preservation, then what a match of a destructive shortcut means,
    that an action does not fire twice in one hold, and when a tap is reported.
\<close>

datatype source_rule = Any | Same

record shortcut_definition =
  sd_id :: string
  required_controls :: "control list"
  exact :: bool
  sd_rule :: source_rule

definition shortcut_new ::
  "string \<Rightarrow> control list \<Rightarrow> bool \<Rightarrow> source_rule \<Rightarrow> shortcut_definition" where
  "shortcut_new i cs ex r =
     \<lparr>sd_id = i, required_controls = sort (remdups cs), exact = ex, sd_rule = r\<rparr>"

definition non_destructive :: "string \<Rightarrow> control list \<Rightarrow> bool \<Rightarrow> shortcut_definition" where
  "non_destructive i cs ex = shortcut_new i cs ex Any"

definition destructive :: "string \<Rightarrow> control list \<Rightarrow> shortcut_definition" where
  "destructive i cs = shortcut_new i cs True Same"

record tap_definition =
  tap_id :: string
  tap_control :: control

definition tap_new :: "string \<Rightarrow> control \<Rightarrow> tap_definition" where
  "tap_new i c = \<lparr>tap_id = i, tap_control = c\<rparr>"

datatype shortcut_match = ShortcutMatch (match_id: string)

record source_state =
  pressed :: "control set"
  horizontal :: "control option"
  vertical :: "control option"

definition source_default :: source_state where
  "source_default = \<lparr>pressed = {}, horizontal = None, vertical = None\<rparr>"

record shortcut_policy =
  shortcuts :: "shortcut_definition list"
  taps :: "tap_definition list"
  sources :: "(string, source_state) btree"
  fired_ids :: "string set"
  consumed_taps :: "control set"
  destructive_controls :: "control set"
  destructive_disarmed_controls :: "control set"

definition policy_new :: "shortcut_definition list \<Rightarrow> tap_definition list \<Rightarrow> shortcut_policy" where
  "policy_new scs tps =
     (let dc = set (concat (map required_controls (filter (\<lambda>d. sd_rule d = Same) scs))) in
      \<lparr>shortcuts = scs, taps = tps, sources = [], fired_ids = {}, consumed_taps = {},
       destructive_controls = dc, destructive_disarmed_controls = dc\<rparr>)"

subsection \<open>Queries\<close>

definition is_pressed :: "shortcut_policy \<Rightarrow> control \<Rightarrow> bool" where
  "is_pressed p c \<longleftrightarrow> list_ex (\<lambda>st. c \<in> pressed st) (bt_values (sources p))"

definition active_controls :: "shortcut_policy \<Rightarrow> control set" where
  "active_controls p = \<Union> (set (map pressed (bt_values (sources p))))"

definition definition_matches :: "shortcut_policy \<Rightarrow> shortcut_definition \<Rightarrow> string \<Rightarrow> bool" where
  "definition_matches p d src =
     (case sd_rule d of
        Any \<Rightarrow>
          (let active = active_controls p in
           list_all (\<lambda>c. c \<in> active) (required_controls d) \<and>
           (\<not> exact d \<or> card active = length (required_controls d)))
      | Same \<Rightarrow>
          destructive_disarmed_controls p = {} \<and>
          (case bt_get (sources p) src of
             None \<Rightarrow> False
           | Some st \<Rightarrow>
               list_all (\<lambda>c. c \<in> pressed st) (required_controls d) \<and>
               (\<not> exact d \<or> card (pressed st) = length (required_controls d))))"

definition definition_assembled :: "shortcut_policy \<Rightarrow> shortcut_definition \<Rightarrow> bool" where
  "definition_assembled p d =
     (case sd_rule d of
        Any \<Rightarrow> list_all (is_pressed p) (required_controls d)
      | Same \<Rightarrow> list_ex (\<lambda>st. list_all (\<lambda>c. c \<in> pressed st) (required_controls d))
                 (bt_values (sources p)))"

definition is_action_active :: "shortcut_policy \<Rightarrow> string \<Rightarrow> bool" where
  "is_action_active p i =
     (case find (\<lambda>d. sd_id d = i) (shortcuts p) of
        None \<Rightarrow> False
      | Some d \<Rightarrow> definition_assembled p d)"

subsection \<open>Internal updates\<close>

definition rearm_inactive_actions :: "shortcut_policy \<Rightarrow> shortcut_policy" where
  "rearm_inactive_actions p =
     (let still_active = set (map sd_id (filter (definition_assembled p) (shortcuts p))) in
      p\<lparr>fired_ids := {i \<in> fired_ids p. i \<in> still_active}\<rparr>)"

definition remove_empty_sources :: "shortcut_policy \<Rightarrow> shortcut_policy" where
  "remove_empty_sources p =
     p\<lparr>sources := bt_retain (\<lambda>_ st. pressed st \<noteq> {} \<or> horizontal st \<noteq> None \<or> vertical st \<noteq> None)
                    (sources p)\<rparr>"

definition disarm_destructive_matching :: "shortcut_policy \<Rightarrow> shortcut_policy" where
  "disarm_destructive_matching p =
     p\<lparr>destructive_disarmed_controls := destructive_controls p\<rparr>"

definition source_or_default :: "shortcut_policy \<Rightarrow> string \<Rightarrow> source_state" where
  "source_or_default p src =
     (case bt_get (sources p) src of None \<Rightarrow> source_default | Some st \<Rightarrow> st)"

fun press_matches ::
  "string \<Rightarrow> control \<Rightarrow> shortcut_definition list \<Rightarrow> shortcut_policy
     \<Rightarrow> shortcut_policy \<times> shortcut_match list" where
  "press_matches src c [] p = (p, [])"
| "press_matches src c (d # ds) p =
     (if c \<notin> set (required_controls d) \<or> sd_id d \<in> fired_ids p \<or> \<not> definition_matches p d src
      then press_matches src c ds p
      else
        let p' = p\<lparr>fired_ids := insert (sd_id d) (fired_ids p),
                   consumed_taps := consumed_taps p \<union> set (required_controls d)\<rparr>;
            (q, ms) = press_matches src c ds p'
        in (q, ShortcutMatch (sd_id d) # ms))"

definition press ::
  "shortcut_policy \<Rightarrow> string \<Rightarrow> control \<Rightarrow> shortcut_policy \<times> shortcut_match list" where
  "press p src c =
     (let st = source_or_default p src;
          p1 = p\<lparr>sources := bt_insert src (st\<lparr>pressed := insert c (pressed st)\<rparr>) (sources p)\<rparr>
      in if c \<in> pressed st then (p1, [])
         else press_matches src c (shortcuts p1) p1)"

definition release ::
  "shortcut_policy \<Rightarrow> string \<Rightarrow> control \<Rightarrow> shortcut_policy \<times> shortcut_match list" where
  "release p src c =
     (case bt_get (sources p) src of
        None \<Rightarrow> (p, [])
      | Some st \<Rightarrow>
          if c \<notin> pressed st then (p, [])
          else
            let p1 = p\<lparr>sources := bt_insert src (st\<lparr>pressed := pressed st - {c}\<rparr>) (sources p)\<rparr>;
                p2 = rearm_inactive_actions (remove_empty_sources p1)
            in if is_pressed p2 c then (p2, [])
               else
                 let p3 = p2\<lparr>consumed_taps := consumed_taps p2 - {c}\<rparr>
                 in if c \<in> consumed_taps p2 then (p3, [])
                    else (p3, map (\<lambda>t. ShortcutMatch (tap_id t))
                                (filter (\<lambda>t. tap_control t = c) (taps p3))))"

subsection \<open>Operations\<close>

definition handle :: "shortcut_policy \<Rightarrow> control_event \<Rightarrow> shortcut_policy \<times> shortcut_match list" where
  "handle p e =
     (case ev_transition e of
        Pressed \<Rightarrow> press p (ev_source e) (ev_control e)
      | Released \<Rightarrow>
          release (p\<lparr>destructive_disarmed_controls :=
                      destructive_disarmed_controls p - {ev_control e}\<rparr>)
            (ev_source e) (ev_control e))"

definition handle_value ::
  "shortcut_policy \<Rightarrow> string \<Rightarrow> string \<Rightarrow> int \<Rightarrow> shortcut_policy \<times> shortcut_match list" where
  "handle_value p src name v =
     (case control_from_str name of
        Err _ \<Rightarrow> (p, [])
      | Ok c \<Rightarrow>
          (case control_value_from_i32 v of
             None \<Rightarrow> (p, [])
           | Some ValueReleased \<Rightarrow> handle p (event_released src c)
           | Some ValuePressed \<Rightarrow> handle p (event_pressed src c)
           | Some ValueRepeat \<Rightarrow> (p, [])))"

definition axis_current :: "dpad_axis \<Rightarrow> source_state \<Rightarrow> control option" where
  "axis_current a st = (case a of Horizontal \<Rightarrow> horizontal st | Vertical \<Rightarrow> vertical st)"

definition axis_replace :: "dpad_axis \<Rightarrow> control option \<Rightarrow> source_state \<Rightarrow> source_state" where
  "axis_replace a c st =
     (case a of Horizontal \<Rightarrow> st\<lparr>horizontal := c\<rparr> | Vertical \<Rightarrow> st\<lparr>vertical := c\<rparr>)"

definition handle_dpad_axis ::
  "shortcut_policy \<Rightarrow> string \<Rightarrow> dpad_axis \<Rightarrow> int \<Rightarrow> shortcut_policy \<times> shortcut_match list" where
  "handle_dpad_axis p src a v =
     (let nxt = control_for a v;
          st = source_or_default p src;
          previous = axis_current a st
      in if previous = nxt then (p\<lparr>sources := bt_insert src st (sources p)\<rparr>, [])
         else
           let p0 = p\<lparr>sources := bt_insert src (axis_replace a nxt st) (sources p)\<rparr>;
               (p1, ms1) = (case previous of
                              None \<Rightarrow> (p0, [])
                            | Some c \<Rightarrow> handle p0 (event_released src c));
               (p2, ms2) = (case nxt of
                              None \<Rightarrow> (p1, [])
                            | Some c \<Rightarrow> handle p1 (event_pressed src c))
           in (p2, ms1 @ ms2))"

definition clear_source :: "shortcut_policy \<Rightarrow> string \<Rightarrow> shortcut_policy" where
  "clear_source p src =
     (let p1 = rearm_inactive_actions (remove_empty_sources
                 (p\<lparr>sources := bt_remove src (sources p)\<rparr>))
      in disarm_destructive_matching
           (p1\<lparr>consumed_taps :=
                 {c \<in> consumed_taps p1. list_ex (\<lambda>st. c \<in> pressed st) (bt_values (sources p1))}\<rparr>))"

definition policy_reset :: "shortcut_policy \<Rightarrow> shortcut_policy" where
  "policy_reset p =
     disarm_destructive_matching (p\<lparr>sources := [], fired_ids := {}, consumed_taps := {}\<rparr>)"


subsection \<open>Inputs, and the controls each source holds\<close>

datatype shortcut_input =
    Event control_event
  | Value string string int
  | Axis string dpad_axis int
  | ClearSource string
  | Reset

fun shortcut_step :: "shortcut_policy \<Rightarrow> shortcut_input \<Rightarrow> shortcut_policy \<times> shortcut_match list" where
  "shortcut_step p (Event e) = handle p e"
| "shortcut_step p (Value s n v) = handle_value p s n v"
| "shortcut_step p (Axis s a v) = handle_dpad_axis p s a v"
| "shortcut_step p (ClearSource s) = (clear_source p s, [])"
| "shortcut_step p Reset = (policy_reset p, [])"

definition shortcut_next :: "shortcut_policy \<Rightarrow> shortcut_input \<Rightarrow> shortcut_policy" where
  "shortcut_next p i = fst (shortcut_step p i)"

definition held :: "shortcut_policy \<Rightarrow> string \<Rightarrow> control set" where
  "held p s = (case bt_get (sources p) s of None \<Rightarrow> {} | Some st \<Rightarrow> pressed st)"

definition held_all :: "(string \<Rightarrow> control set) \<Rightarrow> shortcut_definition \<Rightarrow> bool" where
  "held_all h d \<longleftrightarrow>
     (case sd_rule d of
        Any \<Rightarrow> \<forall>c \<in> set (required_controls d). \<exists>s. c \<in> h s
      | Same \<Rightarrow> \<exists>s. set (required_controls d) \<subseteq> h s)"

definition policy_inv :: "shortcut_policy \<Rightarrow> bool" where
  "policy_inv p \<longleftrightarrow>
     bt_wf (sources p) \<and>
     (\<forall>i \<in> fired_ids p. \<exists>d \<in> set (shortcuts p). sd_id d = i \<and> definition_assembled p d) \<and>
     consumed_taps p \<subseteq> (\<Union>s. held p s) \<and>
     destructive_disarmed_controls p \<subseteq> destructive_controls p"

lemma bt_values_held:
  assumes "bt_wf (sources p)"
  shows "(\<exists>st \<in> set (bt_values (sources p)). c \<in> pressed st) \<longleftrightarrow> (\<exists>s. c \<in> held p s)"
  using assms by (auto simp: bt_values_ex held_def split: option.splits)

lemma is_pressed_iff: "bt_wf (sources p) \<Longrightarrow> is_pressed p c \<longleftrightarrow> (\<exists>s. c \<in> held p s)"
  by (simp add: is_pressed_def list_ex_iff bt_values_held)

lemma active_controls_eq: "bt_wf (sources p) \<Longrightarrow> active_controls p = (\<Union>s. held p s)"
  using bt_values_held [of p] by (auto simp: active_controls_def)

lemma definition_assembled_iff:
  assumes "bt_wf (sources p)" and "required_controls d \<noteq> []"
  shows "definition_assembled p d \<longleftrightarrow> held_all (held p) d"
proof (cases "sd_rule d")
  case Any
  then show ?thesis
    by (simp add: definition_assembled_def held_all_def list_all_iff is_pressed_iff [OF assms(1)])
next
  case Same
  have "set (required_controls d) \<subseteq> held p s \<longleftrightarrow>
        (\<exists>st. bt_get (sources p) s = Some st \<and> set (required_controls d) \<subseteq> pressed st)" for s
    using assms(2) by (cases "bt_get (sources p) s") (auto simp: held_def)
  then have "(\<exists>st \<in> set (bt_values (sources p)). set (required_controls d) \<subseteq> pressed st) \<longleftrightarrow>
        (\<exists>s. set (required_controls d) \<subseteq> held p s)"
    by (simp add: bt_values_ex [OF assms(1)])
  with Same show ?thesis
    by (simp add: definition_assembled_def held_all_def list_ex_iff list_all_iff subset_eq)
qed

lemma held_all_mono: "held_all h d \<Longrightarrow> (\<And>s. h s \<subseteq> h' s) \<Longrightarrow> held_all h' d"
  unfolding held_all_def by (cases "sd_rule d") (simp_all, blast+)

lemma definition_matches_held:
  "definition_matches p d s \<Longrightarrow> bt_wf (sources p) \<Longrightarrow> held_all (held p) d"
  by (cases "sd_rule d"; cases "bt_get (sources p) s")
     (auto simp: definition_matches_def held_all_def active_controls_eq list_all_iff held_def Let_def
       intro!: exI [of _ s])

lemma definition_matches_cong:
  "sources p = sources q \<Longrightarrow> destructive_disarmed_controls p = destructive_disarmed_controls q \<Longrightarrow>
   definition_matches p d s = definition_matches q d s"
  by (cases "sd_rule d") (simp_all add: definition_matches_def active_controls_def)

lemma held_cong: "sources p = sources q \<Longrightarrow> held p = held q"
  by (simp add: held_def fun_eq_iff)

subsection \<open>What each internal update changes\<close>

lemma remove_empty_sources_simps [simp]:
  "shortcuts (remove_empty_sources p) = shortcuts p"
  "taps (remove_empty_sources p) = taps p"
  "fired_ids (remove_empty_sources p) = fired_ids p"
  "consumed_taps (remove_empty_sources p) = consumed_taps p"
  "destructive_controls (remove_empty_sources p) = destructive_controls p"
  "destructive_disarmed_controls (remove_empty_sources p) = destructive_disarmed_controls p"
  by (simp_all add: remove_empty_sources_def)

lemma remove_empty_sources_wf [simp]:
  "bt_wf (sources p) \<Longrightarrow> bt_wf (sources (remove_empty_sources p))"
  by (simp add: remove_empty_sources_def)

lemma held_remove_empty_sources [simp]:
  "bt_wf (sources p) \<Longrightarrow> held (remove_empty_sources p) = held p"
  by (rule ext) (auto simp: held_def remove_empty_sources_def bt_get_retain split: option.splits)

lemma rearm_simps [simp]:
  "shortcuts (rearm_inactive_actions p) = shortcuts p"
  "taps (rearm_inactive_actions p) = taps p"
  "sources (rearm_inactive_actions p) = sources p"
  "consumed_taps (rearm_inactive_actions p) = consumed_taps p"
  "destructive_controls (rearm_inactive_actions p) = destructive_controls p"
  "destructive_disarmed_controls (rearm_inactive_actions p) = destructive_disarmed_controls p"
  by (simp_all add: rearm_inactive_actions_def Let_def)

lemma held_rearm [simp]: "held (rearm_inactive_actions p) = held p"
  by (rule held_cong) simp

lemma fired_ids_rearm:
  "fired_ids (rearm_inactive_actions p) =
     {i \<in> fired_ids p. \<exists>d \<in> set (shortcuts p). sd_id d = i \<and> definition_assembled p d}"
  by (auto simp: rearm_inactive_actions_def Let_def)

lemma press_matches_ConsE:
  assumes "press_matches s c (d # ds) p = (q, ms)"
  obtains
    (skip) "press_matches s c ds p = (q, ms)"
  | (fire) ms' where "c \<in> set (required_controls d)" "sd_id d \<notin> fired_ids p"
      "definition_matches p d s" "ms = ShortcutMatch (sd_id d) # ms'"
      "press_matches s c ds
         (p\<lparr>fired_ids := insert (sd_id d) (fired_ids p),
            consumed_taps := consumed_taps p \<union> set (required_controls d)\<rparr>) = (q, ms')"
  using assms
  by (cases "c \<notin> set (required_controls d) \<or> sd_id d \<in> fired_ids p \<or> \<not> definition_matches p d s")
     (auto split: prod.splits)

lemma press_matches_frame:
  "press_matches s c ds p = (q, ms) \<Longrightarrow>
   sources q = sources p \<and> shortcuts q = shortcuts p \<and> taps q = taps p \<and>
   destructive_controls q = destructive_controls p \<and>
   destructive_disarmed_controls q = destructive_disarmed_controls p"
proof (induction ds arbitrary: p ms)
  case (Cons d ds)
  from Cons.prems show ?case
    by (cases rule: press_matches_ConsE) (auto dest: Cons.IH)
qed simp

lemma press_matches_char:
  "press_matches s c ds p = (q, ms) \<Longrightarrow>
   fired_ids q = fired_ids p \<union> match_id ` set ms \<and>
   consumed_taps p \<subseteq> consumed_taps q \<and>
   (ms = [] \<longrightarrow> consumed_taps q = consumed_taps p) \<and>
   (ms \<noteq> [] \<longrightarrow> c \<in> consumed_taps q) \<and>
   (\<forall>k \<in> consumed_taps q. k \<in> consumed_taps p \<or>
      (\<exists>d. k \<in> set (required_controls d) \<and> definition_matches p d s)) \<and>
   (\<forall>m \<in> set ms. match_id m \<notin> fired_ids p \<and> (\<exists>d \<in> set ds. sd_id d = match_id m \<and>
      c \<in> set (required_controls d) \<and> definition_matches p d s))"
proof (induction ds arbitrary: p ms)
  case (Cons d ds)
  from Cons.prems show ?case
  proof (cases rule: press_matches_ConsE)
    case skip
    from Cons.IH [OF this] show ?thesis by auto
  next
    case (fire ms')
    let ?p = "p\<lparr>fired_ids := insert (sd_id d) (fired_ids p),
                consumed_taps := consumed_taps p \<union> set (required_controls d)\<rparr>"
    have m: "definition_matches ?p e s = definition_matches p e s" for e
      by (rule definition_matches_cong) simp_all
    from Cons.IH [OF fire(5)] fire(1-4) show ?thesis
      by (simp add: m) blast
  qed
qed simp

subsection \<open>Presses and releases\<close>

lemma definition_assembled_cong:
  "sources p = sources q \<Longrightarrow> definition_assembled p d = definition_assembled q d"
  by (cases "sd_rule d") (simp_all add: definition_assembled_def is_pressed_def list_all_iff)

lemma held_press_source:
  "sources q = bt_insert s (st\<lparr>pressed := P\<rparr>) (sources p) \<Longrightarrow> held q = (held p)(s := P)"
  by (rule ext) (simp add: held_def)

lemma pressed_source_or_default: "pressed (source_or_default p s) = held p s"
  by (simp add: source_or_default_def held_def source_default_def split: option.splits)

lemma press_char:
  assumes "press p s c = (q, ms)" and "bt_wf (sources p)"
  shows "bt_wf (sources q)" "held q = (held p)(s := insert c (held p s))"
    "shortcuts q = shortcuts p" "taps q = taps p"
    "destructive_controls q = destructive_controls p"
    "destructive_disarmed_controls q = destructive_disarmed_controls p"
    "fired_ids q = fired_ids p \<union> match_id ` set ms"
    "consumed_taps p \<subseteq> consumed_taps q"
    "ms = [] \<Longrightarrow> consumed_taps q = consumed_taps p"
    "ms \<noteq> [] \<Longrightarrow> c \<in> consumed_taps q"
    "k \<in> consumed_taps q \<Longrightarrow> k \<in> consumed_taps p \<or>
       (\<exists>d. k \<in> set (required_controls d) \<and> definition_matches q d s)"
    "m \<in> set ms \<Longrightarrow> match_id m \<notin> fired_ids p \<and> (\<exists>d \<in> set (shortcuts p). sd_id d = match_id m \<and>
       c \<in> set (required_controls d) \<and> definition_matches q d s)"
proof -
  let ?st = "source_or_default p s"
  let ?p1 = "p\<lparr>sources := bt_insert s (?st\<lparr>pressed := insert c (pressed ?st)\<rparr>) (sources p)\<rparr>"
  have h1: "held ?p1 = (held p)(s := insert c (held p s))"
    by (rule held_press_source [where st = "source_or_default p s"])
       (simp add: pressed_source_or_default)
  consider (again) "q = ?p1" "ms = []" | (loop) "press_matches s c (shortcuts p) ?p1 = (q, ms)"
    using assms(1) unfolding press_def Let_def by (cases "c \<in> pressed ?st") simp_all
  then have "sources q = sources ?p1 \<and> shortcuts q = shortcuts p \<and> taps q = taps p \<and>
      destructive_controls q = destructive_controls p \<and>
      destructive_disarmed_controls q = destructive_disarmed_controls p \<and>
      fired_ids q = fired_ids p \<union> match_id ` set ms \<and>
      consumed_taps p \<subseteq> consumed_taps q \<and>
      (ms = [] \<longrightarrow> consumed_taps q = consumed_taps p) \<and>
      (ms \<noteq> [] \<longrightarrow> c \<in> consumed_taps q) \<and>
      (\<forall>k \<in> consumed_taps q. k \<in> consumed_taps p \<or>
        (\<exists>d. k \<in> set (required_controls d) \<and> definition_matches ?p1 d s)) \<and>
      (\<forall>m \<in> set ms. match_id m \<notin> fired_ids p \<and> (\<exists>d \<in> set (shortcuts p). sd_id d = match_id m \<and>
        c \<in> set (required_controls d) \<and> definition_matches ?p1 d s))"
  proof cases
    case loop
    from press_matches_frame [OF loop] press_matches_char [OF loop] show ?thesis by simp
  qed simp
  moreover from this have "definition_matches ?p1 d s = definition_matches q d s" for d
    by (intro definition_matches_cong) simp_all
  moreover from calculation have "held q = held ?p1" by (intro held_cong) simp
  ultimately show "bt_wf (sources q)" "held q = (held p)(s := insert c (held p s))"
    "shortcuts q = shortcuts p" "taps q = taps p"
    "destructive_controls q = destructive_controls p"
    "destructive_disarmed_controls q = destructive_disarmed_controls p"
    "fired_ids q = fired_ids p \<union> match_id ` set ms"
    "consumed_taps p \<subseteq> consumed_taps q"
    "ms = [] \<Longrightarrow> consumed_taps q = consumed_taps p"
    "ms \<noteq> [] \<Longrightarrow> c \<in> consumed_taps q"
    "k \<in> consumed_taps q \<Longrightarrow> k \<in> consumed_taps p \<or>
       (\<exists>d. k \<in> set (required_controls d) \<and> definition_matches q d s)"
    "m \<in> set ms \<Longrightarrow> match_id m \<notin> fired_ids p \<and> (\<exists>d \<in> set (shortcuts p). sd_id d = match_id m \<and>
       c \<in> set (required_controls d) \<and> definition_matches q d s)"
    using assms(2) h1 by simp_all
qed

lemma release_idle: "c \<notin> held p s \<Longrightarrow> release p s c = (p, [])"
  by (auto simp: release_def held_def split: option.splits)

lemma release_char:
  assumes "release p s c = (q, ms)" and "bt_wf (sources p)" and "c \<in> held p s"
  shows "bt_wf (sources q)" "held q = (held p)(s := held p s - {c})"
    "shortcuts q = shortcuts p" "taps q = taps p"
    "destructive_controls q = destructive_controls p"
    "destructive_disarmed_controls q = destructive_disarmed_controls p"
    "fired_ids q = {i \<in> fired_ids p. \<exists>d \<in> set (shortcuts p). sd_id d = i \<and> definition_assembled q d}"
    "consumed_taps q = consumed_taps p - (if \<exists>s. c \<in> held q s then {} else {c})"
    "ms = (if (\<exists>s. c \<in> held q s) \<or> c \<in> consumed_taps p then []
           else map (\<lambda>t. ShortcutMatch (tap_id t)) (filter (\<lambda>t. tap_control t = c) (taps p)))"
proof -
  from assms(3) obtain st where st: "bt_get (sources p) s = Some st" "c \<in> pressed st"
    by (auto simp: held_def split: option.splits)
  let ?p1 = "p\<lparr>sources := bt_insert s (st\<lparr>pressed := pressed st - {c}\<rparr>) (sources p)\<rparr>"
  let ?p2 = "rearm_inactive_actions (remove_empty_sources ?p1)"
  have h1: "held ?p1 = (held p)(s := held p s - {c})"
    by (rule held_press_source [where st = st]) (simp add: held_def st)
  have wf: "bt_wf (sources ?p1)" using assms(2) by simp
  have wf2: "bt_wf (sources ?p2)" using wf by simp
  have h2: "held ?p2 = (held p)(s := held p s - {c})" using h1 wf by simp
  have q: "q = (if is_pressed ?p2 c then ?p2 else ?p2\<lparr>consumed_taps := consumed_taps ?p2 - {c}\<rparr>)"
    and ms: "ms = (if is_pressed ?p2 c \<or> c \<in> consumed_taps p then []
           else map (\<lambda>t. ShortcutMatch (tap_id t)) (filter (\<lambda>t. tap_control t = c) (taps p)))"
    using assms(1) st by (auto simp: release_def Let_def split: if_splits)
  have sq: "sources q = sources ?p2" by (simp add: q)
  then have hq: "held q = held ?p2" by (rule held_cong)
  have ip: "is_pressed ?p2 c \<longleftrightarrow> (\<exists>s. c \<in> held q s)"
    unfolding hq by (rule is_pressed_iff [OF wf2])
  have as: "definition_assembled (remove_empty_sources ?p1) d = definition_assembled q d" for d
    by (rule definition_assembled_cong) (simp add: sq)
  show "bt_wf (sources q)" "held q = (held p)(s := held p s - {c})"
    using wf2 h2 by (simp_all add: sq hq)
  show "ms = (if (\<exists>s. c \<in> held q s) \<or> c \<in> consumed_taps p then []
           else map (\<lambda>t. ShortcutMatch (tap_id t)) (filter (\<lambda>t. tap_control t = c) (taps p)))"
    using ms by (simp add: ip)
  show "fired_ids q = {i \<in> fired_ids p. \<exists>d \<in> set (shortcuts p). sd_id d = i \<and> definition_assembled q d}"
  proof -
    have "fired_ids q = fired_ids ?p2" by (simp add: q)
    then show ?thesis by (simp only: fired_ids_rearm as remove_empty_sources_simps) simp
  qed
  show "consumed_taps q = consumed_taps p - (if \<exists>s. c \<in> held q s then {} else {c})"
    unfolding ip [symmetric] by (simp add: q)
qed (use assms in \<open>auto simp: release_def Let_def split: if_splits option.splits\<close>)

subsection \<open>The invariant\<close>

lemma held_all_member: "held_all h d \<Longrightarrow> c \<in> set (required_controls d) \<Longrightarrow> \<exists>s. c \<in> h s"
  by (cases "sd_rule d") (auto simp: held_all_def)

lemma definition_assembled_mono:
  assumes "definition_assembled p d" and "bt_wf (sources p)" and "bt_wf (sources q)"
    and "\<And>s. held p s \<subseteq> held q s" and "sources q \<noteq> []"
  shows "definition_assembled q d"
proof (cases "required_controls d = []")
  case True
  with assms(5) show ?thesis
    by (cases "sd_rule d")
       (auto simp: definition_assembled_def list_ex_iff bt_values_def neq_Nil_conv)
next
  case False
  with assms show ?thesis
    by (auto simp: definition_assembled_iff intro: held_all_mono)
qed

lemma definition_matches_assembled:
  "definition_matches p d s \<Longrightarrow> bt_wf (sources p) \<Longrightarrow> c \<in> set (required_controls d) \<Longrightarrow>
   definition_assembled p d"
  by (subst definition_assembled_iff) (auto intro: definition_matches_held)

lemma held_nonempty_sources: "c \<in> held p s \<Longrightarrow> sources p \<noteq> []"
  by (auto simp: held_def)

lemma press_inv [korri_inv]:
  assumes "press p s c = (q, ms)" and inv: "policy_inv p"
  shows "policy_inv q"
proof -
  from inv have wf: "bt_wf (sources p)" by (simp add: policy_inv_def)
  note ch = press_char [OF assms(1) wf]
  have "c \<in> held q s" by (simp add: ch(2))
  then have ne: "sources q \<noteq> []" by (rule held_nonempty_sources)
  have mono: "held p t \<subseteq> held q t" for t by (auto simp: ch(2))
  have "\<exists>d \<in> set (shortcuts q). sd_id d = i \<and> definition_assembled q d" if "i \<in> fired_ids q" for i
  proof (cases "i \<in> fired_ids p")
    case True
    with inv obtain d where "d \<in> set (shortcuts p)" "sd_id d = i" "definition_assembled p d"
      by (auto simp: policy_inv_def)
    with ch(1,3) wf ne mono show ?thesis
      by (auto intro: definition_assembled_mono)
  next
    case False
    with that ch(7) obtain m where "m \<in> set ms" "match_id m = i" by auto
    with ch(12) [of m] ch(1,3) show ?thesis
      by (auto intro: definition_matches_assembled)
  qed
  moreover have "\<exists>t. k \<in> held q t" if "k \<in> consumed_taps q" for k
  proof (cases "k \<in> consumed_taps p")
    case True
    with inv mono show ?thesis by (fastforce simp: policy_inv_def)
  next
    case False
    with that ch(11) [of k] ch(1) show ?thesis
      by (auto dest: definition_matches_held held_all_member)
  qed
  ultimately show ?thesis
    using inv ch(1,5,6) by (auto simp: policy_inv_def)
qed

lemma release_inv [korri_inv]:
  assumes "release p s c = (q, ms)" and inv: "policy_inv p"
  shows "policy_inv q"
proof (cases "c \<in> held p s")
  case True
  from inv have wf: "bt_wf (sources p)" by (simp add: policy_inv_def)
  note ch = release_char [OF assms(1) wf True]
  have "\<exists>t. k \<in> held q t" if "k \<in> consumed_taps q" for k
  proof -
    from that have k: "k \<in> consumed_taps p" "k = c \<Longrightarrow> \<exists>t. c \<in> held q t"
      by (auto simp: ch(8) split: if_splits)
    with inv obtain t where "k \<in> held p t" by (auto simp: policy_inv_def)
    with k(2) show ?thesis
      by (cases "k = c") (auto simp: ch(2))
  qed
  then have "consumed_taps q \<subseteq> (\<Union>t. held q t)" by blast
  with inv ch(1,5,6) show ?thesis by (simp add: policy_inv_def ch(3,7))
qed (use assms release_idle in auto)

lemma policy_inv_disarmed:
  "policy_inv p \<Longrightarrow> D \<subseteq> destructive_controls p \<Longrightarrow>
   policy_inv (p\<lparr>destructive_disarmed_controls := D\<rparr>)"
  using definition_assembled_cong [of p "p\<lparr>destructive_disarmed_controls := D\<rparr>"]
    held_cong [of p "p\<lparr>destructive_disarmed_controls := D\<rparr>"]
  by (simp add: policy_inv_def)

lemma handle_inv [korri_inv]:
  assumes "policy_inv p"
  shows "policy_inv (fst (handle p e))"
proof (cases "ev_transition e")
  case Pressed
  then show ?thesis using assms press_inv [of p] by (simp add: handle_def) (metis prod.collapse)
next
  case Released
  have "policy_inv (p\<lparr>destructive_disarmed_controls :=
      destructive_disarmed_controls p - {ev_control e}\<rparr>)"
    using assms by (intro policy_inv_disarmed) (auto simp: policy_inv_def)
  with Released show ?thesis using release_inv by (simp add: handle_def) (metis prod.collapse)
qed

lemma policy_inv_axis:
  assumes "policy_inv p" and "pressed st = held p s"
  shows "policy_inv (p\<lparr>sources := bt_insert s st (sources p)\<rparr>)" (is "policy_inv ?q")
proof -
  from assms(1) have wf: "bt_wf (sources p)" by (simp add: policy_inv_def)
  have h: "held ?q = held p" using assms(2) by (intro ext) (auto simp: held_def)
  have "bt_get (sources ?q) s \<noteq> None" by simp
  then have "sources ?q \<noteq> []" by (metis bt_get_Nil)
  then have "definition_assembled p d \<Longrightarrow> definition_assembled ?q d" for d
    by (rule definition_assembled_mono [rotated 4]) (use wf h in auto)
  with assms(1) wf h show ?thesis by (simp add: policy_inv_def) blast
qed

lemma dpad_inv [korri_inv]:
  assumes "policy_inv p"
  shows "policy_inv (fst (handle_dpad_axis p s a v))"
proof -
  let ?st = "source_or_default p s"
  have "policy_inv (p\<lparr>sources := bt_insert s ?st (sources p)\<rparr>)"
    using assms by (rule policy_inv_axis) (rule pressed_source_or_default)
  moreover have "pressed (axis_replace a n ?st) = held p s" for n
    by (cases a) (simp_all add: axis_replace_def pressed_source_or_default)
  then have "policy_inv (p\<lparr>sources := bt_insert s (axis_replace a n ?st) (sources p)\<rparr>)" for n
    using assms by (intro policy_inv_axis) auto
  ultimately show ?thesis
    by (auto simp: handle_dpad_axis_def Let_def split: prod.splits option.splits
        dest!: arg_cong [of _ _ fst] intro!: handle_inv)
qed

lemma clear_source_inv [korri_inv]:
  assumes "policy_inv p"
  shows "policy_inv (clear_source p s)"
proof -
  let ?p0 = "remove_empty_sources (p\<lparr>sources := bt_remove s (sources p)\<rparr>)"
  let ?q = "clear_source p s"
  from assms have wf: "bt_wf (sources ?p0)" by (simp add: policy_inv_def)
  have sq: "sources ?q = sources ?p0"
    by (simp add: clear_source_def Let_def disarm_destructive_matching_def)
  have as: "definition_assembled ?p0 d = definition_assembled ?q d" for d
    by (rule definition_assembled_cong) (simp add: sq)
  have "fired_ids ?q = fired_ids (rearm_inactive_actions ?p0)" "shortcuts ?q = shortcuts ?p0"
    by (simp_all add: clear_source_def Let_def disarm_destructive_matching_def)
  moreover have "consumed_taps ?q \<subseteq> {c. is_pressed ?q c}"
    using sq by (auto simp: is_pressed_def clear_source_def Let_def disarm_destructive_matching_def)
  ultimately show ?thesis
    using wf is_pressed_iff [of ?q]
    by (auto simp: policy_inv_def sq fired_ids_rearm as clear_source_def Let_def
        disarm_destructive_matching_def)
qed

lemma policy_reset_inv [korri_inv]: "policy_inv (policy_reset p)"
  by (simp add: policy_inv_def policy_reset_def disarm_destructive_matching_def)

lemma policy_new_inv: "policy_inv (policy_new scs tps)"
  by (simp add: policy_inv_def policy_new_def Let_def)

lemma shortcut_next_inv: "policy_inv p \<Longrightarrow> policy_inv (shortcut_next p i)"
  by (cases i)
     (auto simp: shortcut_next_def handle_value_def split: result.splits option.splits control_value.splits
       intro: korri_inv)

interpretation shortcut_run: machine shortcut_next policy_inv
  by unfold_locales (rule shortcut_next_inv)

subsection \<open>Arming of destructive shortcuts along a run\<close>

text \<open>
  \<open>input_releases\<close> names the controls that an input reports as released, \<open>disarms\<close> the
  inputs that disarm destructive matching again, and \<open>released_since\<close> collects along a run
  the controls released after the last such input.
\<close>

fun input_releases :: "shortcut_policy \<Rightarrow> shortcut_input \<Rightarrow> control set" where
  "input_releases p (Event e) = (if ev_transition e = Released then {ev_control e} else {})"
| "input_releases p (Value s n v) =
     (case control_from_str n of Err _ \<Rightarrow> {} | Ok c \<Rightarrow> if v = 0 then {c} else {})"
| "input_releases p (Axis s a v) =
     (let previous = axis_current a (source_or_default p s)
      in if previous = control_for a v then {} else set_option previous)"
| "input_releases p _ = {}"

fun disarms :: "shortcut_input \<Rightarrow> bool" where
  "disarms (ClearSource _) = True"
| "disarms Reset = True"
| "disarms _ = False"

fun released_since :: "shortcut_policy \<Rightarrow> shortcut_input list \<Rightarrow> control set \<Rightarrow> control set" where
  "released_since p [] acc = acc"
| "released_since p (i # xs) acc =
     released_since (shortcut_next p i) xs (if disarms i then {} else acc \<union> input_releases p i)"

definition same_config :: "shortcut_policy \<Rightarrow> shortcut_policy \<Rightarrow> bool" where
  "same_config p q \<longleftrightarrow> shortcuts q = shortcuts p \<and> taps q = taps p \<and>
     destructive_controls q = destructive_controls p"

lemma handle_frame:
  assumes "handle p e = (q, ms)" and wf: "bt_wf (sources p)"
  shows "same_config p q \<and> bt_wf (sources q) \<and> destructive_disarmed_controls q =
    destructive_disarmed_controls p - (if ev_transition e = Released then {ev_control e} else {})"
proof (cases "ev_transition e")
  case Pressed
  with assms(1) have r: "press p (ev_source e) (ev_control e) = (q, ms)" by (simp add: handle_def)
  show ?thesis using press_char(1,3,4,5,6) [OF r wf] Pressed by (simp add: same_config_def)
next
  case Released
  let ?p = "p\<lparr>destructive_disarmed_controls := destructive_disarmed_controls p - {ev_control e}\<rparr>"
  from assms(1) Released have r: "release ?p (ev_source e) (ev_control e) = (q, ms)"
    by (simp add: handle_def)
  show ?thesis
  proof (cases "ev_control e \<in> held ?p (ev_source e)")
    case True
    have wf': "bt_wf (sources ?p)" using wf by simp
    show ?thesis
      using release_char(1,3,4,5,6) [OF r wf' True] Released by (simp add: same_config_def)
  next
    case False
    with r release_idle have "q = ?p" by fastforce
    with wf Released show ?thesis by (simp add: same_config_def)
  qed
qed

lemma same_config_trans: "same_config p q \<Longrightarrow> same_config q r \<Longrightarrow> same_config p r"
  by (simp add: same_config_def)

lemma handle_value_frame:
  assumes wf: "bt_wf (sources p)"
  shows "same_config p (fst (handle_value p s n v)) \<and>
    destructive_disarmed_controls (fst (handle_value p s n v)) =
      destructive_disarmed_controls p - input_releases p (Value s n v)"
proof (cases "\<exists>c. control_from_str n = Ok c \<and> (v = 0 \<or> v = 1)")
  case True
  then obtain c where c: "control_from_str n = Ok c" and v: "v = 0 \<or> v = 1" by blast
  let ?e = "if v = 0 then event_released s c else event_pressed s c"
  from v have next_eq: "fst (handle_value p s n v) = fst (handle p ?e)"
    by (auto simp: handle_value_def c control_value_from_i32_def)
  obtain q ms where r: "handle p ?e = (q, ms)" by (cases "handle p ?e")
  from handle_frame [OF this wf] v c show ?thesis
    unfolding next_eq r by auto
next
  case False
  then have "fst (handle_value p s n v) = p" and "input_releases p (Value s n v) = {}"
    by (auto simp: handle_value_def control_value_from_i32_def
        split: result.splits option.splits control_value.splits if_splits)
  then show ?thesis by (simp add: same_config_def)
qed

lemma optional_handle_frame:
  assumes "bt_wf (sources p)"
    and "q = (case oc of None \<Rightarrow> p | Some c \<Rightarrow> fst (handle p (ev c)))"
    and "\<And>c. ev_control (ev c) = c"
    and "\<And>c. ev_transition (ev c) = t"
  shows "same_config p q \<and> bt_wf (sources q) \<and> destructive_disarmed_controls q =
    destructive_disarmed_controls p - (if t = Released then set_option oc else {})"
proof (cases oc)
  case None
  with assms show ?thesis by (simp add: same_config_def)
next
  case (Some c)
  obtain r ms where r: "handle p (ev c) = (r, ms)" by (cases "handle p (ev c)")
  from handle_frame [OF this assms(1)] assms(3,4) show ?thesis
    unfolding assms(2) Some option.case r fst_conv by simp
qed

text \<open>An axis change is a release of the old direction followed by a press of the new one:
  \<open>dpad_base\<close> has the new axis value stored, \<open>dpad_mid\<close> has the old direction released.\<close>

definition dpad_base :: "shortcut_policy \<Rightarrow> string \<Rightarrow> dpad_axis \<Rightarrow> int \<Rightarrow> shortcut_policy" where
  "dpad_base p s a v =
     p\<lparr>sources := bt_insert s (axis_replace a (control_for a v) (source_or_default p s)) (sources p)\<rparr>"

definition dpad_mid :: "shortcut_policy \<Rightarrow> string \<Rightarrow> dpad_axis \<Rightarrow> int \<Rightarrow> shortcut_policy" where
  "dpad_mid p s a v =
     (case axis_current a (source_or_default p s) of
        None \<Rightarrow> dpad_base p s a v
      | Some c \<Rightarrow> fst (handle (dpad_base p s a v) (event_released s c)))"

lemma dpad_split:
  assumes "axis_current a (source_or_default p s) \<noteq> control_for a v"
  shows "fst (handle_dpad_axis p s a v) =
      (case control_for a v of None \<Rightarrow> dpad_mid p s a v
       | Some c \<Rightarrow> fst (handle (dpad_mid p s a v) (event_pressed s c)))"
    and "snd (handle_dpad_axis p s a v) =
      (case axis_current a (source_or_default p s) of
         None \<Rightarrow> [] | Some c \<Rightarrow> snd (handle (dpad_base p s a v) (event_released s c))) @
      (case control_for a v of
         None \<Rightarrow> [] | Some c \<Rightarrow> snd (handle (dpad_mid p s a v) (event_pressed s c)))"
  using assms
  by (auto simp: handle_dpad_axis_def Let_def dpad_base_def dpad_mid_def
      split: option.splits prod.splits)

lemma dpad_base_simps [simp]:
  "shortcuts (dpad_base p s a v) = shortcuts p" "taps (dpad_base p s a v) = taps p"
  "fired_ids (dpad_base p s a v) = fired_ids p"
  "destructive_controls (dpad_base p s a v) = destructive_controls p"
  "destructive_disarmed_controls (dpad_base p s a v) = destructive_disarmed_controls p"
  by (simp_all add: dpad_base_def)

lemma dpad_base_pressed: "pressed (axis_replace a n (source_or_default p s)) = held p s"
  by (cases a) (simp_all add: axis_replace_def pressed_source_or_default)

lemma dpad_base_inv: "policy_inv p \<Longrightarrow> policy_inv (dpad_base p s a v)"
  unfolding dpad_base_def by (rule policy_inv_axis) (auto simp: dpad_base_pressed)

lemma held_dpad_base: "held (dpad_base p s a v) = held p"
  by (rule ext) (simp add: held_def dpad_base_def dpad_base_pressed [unfolded held_def])

lemma dpad_mid_inv: "policy_inv p \<Longrightarrow> policy_inv (dpad_mid p s a v)"
  unfolding dpad_mid_def by (auto split: option.split intro: handle_inv dpad_base_inv)

lemma dpad_mid_frame:
  assumes "bt_wf (sources p)"
  shows "same_config p (dpad_mid p s a v) \<and> bt_wf (sources (dpad_mid p s a v)) \<and>
    destructive_disarmed_controls (dpad_mid p s a v) =
      destructive_disarmed_controls p - set_option (axis_current a (source_or_default p s))"
proof -
  have "bt_wf (sources (dpad_base p s a v))" using assms by (simp add: dpad_base_def)
  from optional_handle_frame [OF this dpad_mid_def, where t = Released] show ?thesis
    by (simp add: same_config_def)
qed

lemma dpad_frame:
  assumes wf: "bt_wf (sources p)"
  shows "same_config p (fst (handle_dpad_axis p s a v)) \<and>
    destructive_disarmed_controls (fst (handle_dpad_axis p s a v)) =
      destructive_disarmed_controls p - input_releases p (Axis s a v)"
proof (cases "axis_current a (source_or_default p s) = control_for a v")
  case True
  then show ?thesis
    by (simp add: handle_dpad_axis_def Let_def same_config_def)
next
  case False
  note mid = dpad_mid_frame [OF wf, of s a v]
  then have "bt_wf (sources (dpad_mid p s a v))" by simp
  from mid optional_handle_frame [OF this dpad_split(1) [OF False], where t = Pressed] False
  show ?thesis by (auto simp: Let_def intro: same_config_trans)
qed

lemma shortcut_next_frame:
  assumes wf: "bt_wf (sources p)"
  shows "same_config p (shortcut_next p i) \<and> destructive_disarmed_controls (shortcut_next p i) =
    (if disarms i then destructive_controls p
     else destructive_disarmed_controls p - input_releases p i)"
proof (cases i)
  case (Event e)
  obtain q ms where "handle p e = (q, ms)" by (cases "handle p e")
  with handle_frame [OF this wf] Event show ?thesis by (simp add: shortcut_next_def)
next
  case (Value s n v)
  with handle_value_frame [OF wf] show ?thesis by (simp add: shortcut_next_def)
next
  case (Axis s a v)
  with dpad_frame [OF wf] show ?thesis by (simp add: shortcut_next_def)
qed (simp_all add: shortcut_next_def clear_source_def policy_reset_def Let_def
      disarm_destructive_matching_def same_config_def)

lemma disarmed_after_run:
  assumes "policy_inv p" and "destructive_disarmed_controls p = destructive_controls p - acc"
  shows "same_config p (foldl shortcut_next p xs) \<and>
    destructive_disarmed_controls (foldl shortcut_next p xs) =
      destructive_controls p - released_since p xs acc"
  using assms
proof (induction xs arbitrary: p acc)
  case Nil
  then show ?case by (simp add: same_config_def)
next
  case (Cons i xs)
  from Cons.prems(1) have "bt_wf (sources p)" by (simp add: policy_inv_def)
  note fr = shortcut_next_frame [OF this, of i]
  have "destructive_disarmed_controls (shortcut_next p i) =
      destructive_controls (shortcut_next p i) - (if disarms i then {} else acc \<union> input_releases p i)"
    using fr Cons.prems(2) by (auto simp: same_config_def)
  from Cons.IH [OF shortcut_next_inv [OF Cons.prems(1)] this] fr show ?case
    by (auto simp: same_config_def)
qed

subsection \<open>Destructive shortcuts\<close>

text \<open>The fields of a definition are private: it is built by one of the two constructors.\<close>

definition constructed :: "shortcut_definition \<Rightarrow> bool" where
  "constructed d \<longleftrightarrow> distinct (required_controls d) \<and> (sd_rule d = Same \<longrightarrow> exact d)"

lemma constructed_non_destructive [simp]: "constructed (non_destructive i cs ex)"
  by (simp add: constructed_def non_destructive_def shortcut_new_def)

lemma constructed_destructive [simp]: "constructed (destructive i cs)"
  by (simp add: constructed_def destructive_def shortcut_new_def)

lemma same_source_match:
  assumes "definition_matches p d s" and "sd_rule d = Same" and "constructed d"
  shows "destructive_disarmed_controls p = {} \<and> held p s = set (required_controls d)"
proof -
  from assms obtain st where st: "bt_get (sources p) s = Some st"
    and sub: "set (required_controls d) \<subseteq> pressed st"
    and len: "card (pressed st) = length (required_controls d)"
    and none: "destructive_disarmed_controls p = {}"
    by (auto simp: definition_matches_def constructed_def list_all_iff split: option.splits)
  from len assms(3) have "card (pressed st) = card (set (required_controls d))"
    by (simp add: constructed_def distinct_card)
  with sub have "set (required_controls d) = pressed st"
    by (intro card_subset_eq) simp_all
  with st none show ?thesis by (simp add: held_def)
qed

lemma run_new_disarmed:
  "same_config (policy_new scs tps) (foldl shortcut_next (policy_new scs tps) xs) \<and>
   destructive_disarmed_controls (foldl shortcut_next (policy_new scs tps) xs) =
     destructive_controls (policy_new scs tps) - released_since (policy_new scs tps) xs {}"
  by (rule disarmed_after_run [OF policy_new_inv]) (simp add: policy_new_def Let_def)

lemma run_new_inv: "policy_inv (foldl shortcut_next (policy_new scs tps) xs)"
  by (rule shortcut_run.inv_run) (rule policy_new_inv)


text \<open>Witness of C1: \<open>Home\<close> and \<open>Start\<close> are seen released, then held together on one pad.\<close>

definition example_end :: shortcut_definition where
  "example_end = destructive ''end'' [Home, Start]"

definition example_armed :: shortcut_policy where
  "example_armed = foldl shortcut_next (policy_new [example_end] [tap_new ''home'' Home])
     [Event (event_released ''pad'' Home), Event (event_released ''pad'' Start),
      Event (event_pressed ''pad'' Home)]"


subsection \<open>One match per hold\<close>

lemma match_tap_id: "release p s c = (q, ms) \<Longrightarrow> ShortcutMatch k \<in> set ms \<Longrightarrow> k \<in> tap_id ` set (taps p)"
  by (auto simp: release_def Let_def split: option.splits if_splits)

lemma handle_keeps_fired:
  assumes inv: "policy_inv p" and k: "k \<in> fired_ids p" "k \<notin> tap_id ` set (taps p)"
    and d: "d \<in> set (shortcuts p)" "sd_id d = k" "definition_assembled q d"
    and step: "handle p e = (q, ms)"
  shows "k \<in> fired_ids q \<and> ShortcutMatch k \<notin> set ms"
proof (cases "ev_transition e")
  case Pressed
  with step have r: "press p (ev_source e) (ev_control e) = (q, ms)" by (simp add: handle_def)
  from inv have "bt_wf (sources p)" by (simp add: policy_inv_def)
  from press_char(7,12) [OF r this] k(1) show ?thesis by fastforce
next
  case Released
  let ?p = "p\<lparr>destructive_disarmed_controls := destructive_disarmed_controls p - {ev_control e}\<rparr>"
  from step Released have r: "release ?p (ev_source e) (ev_control e) = (q, ms)"
    by (simp add: handle_def)
  have "ShortcutMatch k \<notin> set ms" using match_tap_id [OF r] k(2) by auto
  moreover have "k \<in> fired_ids q"
  proof (cases "ev_control e \<in> held ?p (ev_source e)")
    case True
    have "bt_wf (sources ?p)" using inv by (simp add: policy_inv_def)
    from release_char(7) [OF r this True] k(1) d show ?thesis by auto
  next
    case False
    with r release_idle k(1) show ?thesis by fastforce
  qed
  ultimately show ?thesis by simp
qed

lemma held_handle:
  assumes "handle p e = (q, ms)" and "bt_wf (sources p)"
  shows "held q = (held p)(ev_source e :=
    (if ev_transition e = Pressed then insert (ev_control e) (held p (ev_source e))
     else held p (ev_source e) - {ev_control e}))"
proof (cases "ev_transition e")
  case Pressed
  with assms(1) have r: "press p (ev_source e) (ev_control e) = (q, ms)" by (simp add: handle_def)
  from press_char(2) [OF r assms(2)] Pressed show ?thesis by simp
next
  case Released
  let ?p = "p\<lparr>destructive_disarmed_controls := destructive_disarmed_controls p - {ev_control e}\<rparr>"
  from assms(1) Released have r: "release ?p (ev_source e) (ev_control e) = (q, ms)"
    by (simp add: handle_def)
  have hp: "held ?p = held p" by (rule held_cong) simp
  show ?thesis
  proof (cases "ev_control e \<in> held ?p (ev_source e)")
    case True
    have "bt_wf (sources ?p)" using assms(2) by simp
    from release_char(2) [OF r this True] Released show ?thesis by (simp add: hp)
  next
    case False
    with r release_idle have "q = ?p" by fastforce
    with False Released show ?thesis by (auto simp: hp)
  qed
qed

text \<open>Between the two halves of an axis change a combination stays assembled that is assembled
  before and after it: the released and the pressed direction differ.\<close>

lemma held_all_between:
  assumes "held_all h d" and "held_all ((h(s := h s - {a}))(s := insert b (h s - {a}))) d" and "a \<noteq> b"
  shows "held_all (h(s := h s - {a})) d"
proof (cases "sd_rule d")
  case Any
  have "\<exists>u. c \<in> (h(s := h s - {a})) u" if "c \<in> set (required_controls d)" for c
  proof (cases "c = a")
    case True
    from assms(2) that have "\<exists>u. c \<in> ((h(s := h s - {a}))(s := insert b (h s - {a}))) u"
      by (rule held_all_member)
    then obtain u where "c \<in> ((h(s := h s - {a}))(s := insert b (h s - {a}))) u" ..
    with True assms(3) show ?thesis by (intro exI [of _ u]) (auto split: if_splits)
  next
    case False
    from held_all_member [OF assms(1) that] obtain u where "c \<in> h u" ..
    with False show ?thesis by (intro exI [of _ u]) auto
  qed
  with Any show ?thesis by (simp add: held_all_def)
next
  case Same
  with assms(1,2) obtain t t' where t: "set (required_controls d) \<subseteq> h t"
    and t': "set (required_controls d) \<subseteq> ((h(s := h s - {a}))(s := insert b (h s - {a}))) t'"
    by (auto simp: held_all_def)
  have "\<exists>u. set (required_controls d) \<subseteq> (h(s := h s - {a})) u"
  proof (cases "t = s \<and> t' = s")
    case True
    with t t' assms(3) have "set (required_controls d) \<subseteq> h s - {a}" by auto
    then show ?thesis by (intro exI [of _ s]) simp
  next
    case False
    with t t' show ?thesis by (metis fun_upd_other)
  qed
  with Same show ?thesis by (simp add: held_all_def)
qed

lemma dpad_mid_assembled:
  assumes inv: "policy_inv p" and "required_controls d \<noteq> []"
    and before: "definition_assembled p d"
    and after: "definition_assembled (fst (handle_dpad_axis p s a v)) d"
    and change: "axis_current a (source_or_default p s) \<noteq> control_for a v"
  shows "definition_assembled (dpad_mid p s a v) d"
proof (cases "axis_current a (source_or_default p s)"; cases "control_for a v")
  fix c b
  assume c: "axis_current a (source_or_default p s) = Some c" and b: "control_for a v = Some b"
  have wf: "bt_wf (sources p)" "bt_wf (sources (dpad_base p s a v))" "bt_wf (sources (dpad_mid p s a v))"
    "bt_wf (sources (fst (handle_dpad_axis p s a v)))"
    using inv dpad_base_inv [OF inv] dpad_mid_inv [OF inv] dpad_inv [OF inv]
    by (simp_all add: policy_inv_def)
  have mid: "held (dpad_mid p s a v) = (held p)(s := held p s - {c})"
    using held_handle [OF prod.collapse [symmetric] wf(2), of "event_released s c"]
    by (simp add: dpad_mid_def c held_dpad_base)
  have "held (fst (handle_dpad_axis p s a v)) =
      (held (dpad_mid p s a v))(s := insert b (held (dpad_mid p s a v) s))"
    using held_handle [OF prod.collapse [symmetric] wf(3), of "event_pressed s b"]
    by (simp add: dpad_split(1) [OF change] b)
  with held_all_between [of "held p" d s c b] assms(2) before after change b c wf show ?thesis
    by (simp add: definition_assembled_iff mid)
next
  fix b
  assume "axis_current a (source_or_default p s) = None" and "control_for a v = Some b"
  moreover have "bt_wf (sources p)" "bt_wf (sources (dpad_base p s a v))"
    using inv dpad_base_inv [OF inv] by (simp_all add: policy_inv_def)
  ultimately show ?thesis
    using before assms(2) by (simp add: dpad_mid_def definition_assembled_iff held_dpad_base)
qed (use after change in \<open>simp_all add: dpad_split(1)\<close>)

lemma dpad_keeps_fired:
  assumes inv: "policy_inv p" and k: "k \<in> fired_ids p" "k \<notin> tap_id ` set (taps p)"
    and d: "d \<in> set (shortcuts p)" "sd_id d = k" "required_controls d \<noteq> []"
    and before: "definition_assembled p d"
    and after: "definition_assembled (fst (handle_dpad_axis p s a v)) d"
    and change: "axis_current a (source_or_default p s) \<noteq> control_for a v"
  shows "k \<in> fired_ids (fst (handle_dpad_axis p s a v)) \<and>
    ShortcutMatch k \<notin> set (snd (handle_dpad_axis p s a v))"
proof -
  let ?p1 = "dpad_mid p s a v"
  have mid: "definition_assembled ?p1 d" by (rule dpad_mid_assembled [OF inv d(3) before after change])
  have "bt_wf (sources p)" using inv by (simp add: policy_inv_def)
  from dpad_mid_frame [OF this] have cfg: "taps ?p1 = taps p" "shortcuts ?p1 = shortcuts p"
    by (simp_all add: same_config_def)
  have first: "k \<in> fired_ids ?p1 \<and> ShortcutMatch k \<notin>
      set (case axis_current a (source_or_default p s) of None \<Rightarrow> []
           | Some c \<Rightarrow> snd (handle (dpad_base p s a v) (event_released s c)))"
  proof (cases "axis_current a (source_or_default p s)")
    case (Some c)
    let ?r = "handle (dpad_base p s a v) (event_released s c)"
    have r: "?r = (?p1, snd ?r)" by (simp add: dpad_mid_def Some)
    from handle_keeps_fired [OF dpad_base_inv [OF inv] _ _ _ d(2) mid r] k d(1) Some
    show ?thesis by simp
  qed (use k in \<open>simp add: dpad_mid_def\<close>)
  show ?thesis
  proof (cases "control_for a v")
    case None
    with first show ?thesis by (simp add: dpad_split [OF change])
  next
    case (Some b)
    let ?r = "handle ?p1 (event_pressed s b)"
    have r: "?r = (fst (handle_dpad_axis p s a v), snd ?r)" by (simp add: dpad_split [OF change] Some)
    from handle_keeps_fired [OF dpad_mid_inv [OF inv] _ _ _ d(2) after r] first k(2) d(1) Some cfg
    show ?thesis by (simp add: dpad_split [OF change])
  qed
qed

lemma clear_source_keeps_fired:
  assumes "k \<in> fired_ids p" and "d \<in> set (shortcuts p)" "sd_id d = k"
    and "definition_assembled (clear_source p s) d"
  shows "k \<in> fired_ids (clear_source p s)"
proof -
  let ?p0 = "remove_empty_sources (p\<lparr>sources := bt_remove s (sources p)\<rparr>)"
  have "definition_assembled ?p0 d = definition_assembled (clear_source p s) d"
    by (rule definition_assembled_cong)
       (simp add: clear_source_def Let_def disarm_destructive_matching_def)
  moreover have "fired_ids (clear_source p s) = fired_ids (rearm_inactive_actions ?p0)"
    by (simp add: clear_source_def Let_def disarm_destructive_matching_def)
  ultimately show ?thesis using assms by (auto simp: fired_ids_rearm)
qed

lemma fired_steps:
  assumes inv: "policy_inv p" and k: "k \<in> fired_ids p" "k \<notin> tap_id ` set (taps p)"
    and d: "d \<in> set (shortcuts p)" "sd_id d = k" "required_controls d \<noteq> []"
    and before: "definition_assembled p d"
    and after: "definition_assembled (shortcut_next p i) d"
  shows "k \<in> fired_ids (shortcut_next p i) \<and> ShortcutMatch k \<notin> set (snd (shortcut_step p i))"
proof -
  have handled: "k \<in> fired_ids (fst (handle p e)) \<and> ShortcutMatch k \<notin> set (snd (handle p e))"
    if "definition_assembled (fst (handle p e)) d" for e
    using handle_keeps_fired [OF inv k d(1,2) that] by (metis prod.collapse)
  show ?thesis
  proof (cases i)
    case (Event e)
    with handled after show ?thesis by (simp add: shortcut_next_def)
  next
    case (Value s n v)
    with handled after k(1) show ?thesis
      by (auto simp: shortcut_next_def handle_value_def
          split: result.splits option.splits control_value.splits)
  next
    case (Axis s a v)
    show ?thesis
    proof (cases "axis_current a (source_or_default p s) = control_for a v")
      case True
      with k(1) show ?thesis
        by (simp add: Axis shortcut_next_def handle_dpad_axis_def Let_def)
    next
      case False
      with dpad_keeps_fired [OF inv k d before _ False] after show ?thesis
        by (simp add: Axis shortcut_next_def)
    qed
  next
    case (ClearSource s)
    with clear_source_keeps_fired [OF k(1) d(1,2)] after show ?thesis
      by (simp add: shortcut_next_def)
  next
    case Reset
    with after d(3) show ?thesis
      by (cases "sd_rule d"; cases "required_controls d")
         (simp_all add: shortcut_next_def policy_reset_def disarm_destructive_matching_def
           definition_assembled_def is_pressed_def bt_values_def)
  qed
qed

lemma fired_run:
  assumes "policy_inv p" and "k \<in> fired_ids p" and "k \<notin> tap_id ` set (taps p)"
    and "d \<in> set (shortcuts p)" "sd_id d = k" "required_controls d \<noteq> []"
    and "\<And>n. n \<le> length xs \<Longrightarrow> definition_assembled (foldl shortcut_next p (take n xs)) d"
    and "n < length xs"
  shows "ShortcutMatch k \<notin> set (snd (shortcut_step (foldl shortcut_next p (take n xs)) (xs ! n)))"
  using assms
proof (induction xs arbitrary: p n)
  case (Cons i xs)
  have "bt_wf (sources p)" using Cons.prems(1) by (simp add: policy_inv_def)
  from shortcut_next_frame [OF this, of i]
  have cfg: "taps (shortcut_next p i) = taps p" "shortcuts (shortcut_next p i) = shortcuts p"
    by (simp_all add: same_config_def)
  from Cons.prems(7) [of 0] Cons.prems(7) [of 1]
  have a: "definition_assembled p d" "definition_assembled (shortcut_next p i) d" by simp_all
  note st = fired_steps [OF Cons.prems(1-6) a]
  show ?case
  proof (cases n)
    case 0
    with st show ?thesis by simp
  next
    case (Suc m)
    have "ShortcutMatch k \<notin>
        set (snd (shortcut_step (foldl shortcut_next (shortcut_next p i) (take m xs)) (xs ! m)))"
    proof (rule Cons.IH [OF shortcut_next_inv [OF Cons.prems(1)]])
      show "definition_assembled (foldl shortcut_next (shortcut_next p i) (take j xs)) d"
        if "j \<le> length xs" for j
        using Cons.prems(7) [of "Suc j"] that by simp
    qed (use st cfg Cons.prems Suc in auto)
    then show ?thesis by (simp add: Suc)
  qed
qed simp

text \<open>
  C2. One match per hold: after a press reported the shortcut \<open>d\<close>, no later input reports it
  again as long as the combination stays assembled, whatever the inputs are (presses,
  releases, repeats, D-pad movements, lost sources). The id of \<open>d\<close> is not also a tap's id.
\<close>

theorem one_match_per_hold:
  assumes p: "p = foldl shortcut_next (policy_new scs tps) xs"
    and d: "d \<in> set scs" "sd_id d \<notin> tap_id ` set tps" "required_controls d \<noteq> []"
    and step: "handle p (event_pressed s c) = (q, ms)" "ShortcutMatch (sd_id d) \<in> set ms"
    and hold: "\<And>n. n \<le> length ys \<Longrightarrow> definition_assembled (foldl shortcut_next q (take n ys)) d"
    and n: "n < length ys"
  shows "ShortcutMatch (sd_id d) \<notin>
    set (snd (shortcut_step (foldl shortcut_next q (take n ys)) (ys ! n)))"
proof -
  have inv: "policy_inv p" unfolding p by (rule run_new_inv)
  then have wf: "bt_wf (sources p)" by (simp add: policy_inv_def)
  have cfg: "shortcuts p = scs" "taps p = tps"
    using run_new_disarmed [of scs tps xs] by (simp_all add: p same_config_def policy_new_def Let_def)
  from step(1) have press: "press p s c = (q, ms)" by (simp add: handle_def)
  from press_char(7) [OF press wf] step(2) have "sd_id d \<in> fired_ids q" by force
  moreover have "policy_inv q" using press_inv [OF press inv] .
  ultimately show ?thesis
    using d cfg press_char(3,4) [OF press wf] hold n
    by (intro fired_run [where p = q]) auto
qed

text \<open>Witness of C2: after the match the pad repeats \<open>Start\<close> and a second pad presses \<open>Back\<close>.\<close>

definition example_fired :: shortcut_policy where
  "example_fired = fst (handle example_armed (event_pressed ''pad'' Start))"

definition example_inputs :: "shortcut_input list" where
  "example_inputs = [Value ''pad'' ''start'' 2, Event (event_pressed ''pad'' Start),
     Event (event_pressed ''second'' Back)]"

theorem one_match_per_hold_witness:
  "ShortcutMatch (sd_id example_end) \<notin>
    set (snd (shortcut_step (foldl shortcut_next example_fired (take 2 example_inputs))
      (example_inputs ! 2)))"
proof (rule one_match_per_hold [OF example_armed_def])
  show "handle example_armed (event_pressed ''pad'' Start) =
      (example_fired, snd (handle example_armed (event_pressed ''pad'' Start)))"
    by (simp add: example_fired_def)
  show "ShortcutMatch (sd_id example_end)
      \<in> set (snd (handle example_armed (event_pressed ''pad'' Start)))"
    by code_simp
  have "\<forall>n \<in> {0, 1, 2, 3}. definition_assembled (foldl shortcut_next example_fired (take n example_inputs)) example_end"
    by code_simp
  then show "definition_assembled (foldl shortcut_next example_fired (take n example_inputs)) example_end"
    if "n \<le> length example_inputs" for n
    using that by (auto simp: example_inputs_def le_Suc_eq numeral_2_eq_2 numeral_3_eq_3)
  show "sd_id example_end \<notin> tap_id ` set [tap_new ''home'' Home]" by code_simp
  show "required_controls example_end \<noteq> []" by code_simp
qed (simp_all add: example_inputs_def)

subsection \<open>Taps\<close>

text \<open>
  Tap or shortcut, never both and never neither: when a control that no source holds is
  pressed and then released by the same source, the release reports exactly the taps
  configured for the control if the press fired no shortcut, and nothing if it fired one.
\<close>

theorem tap_unless_consumed:
  assumes p: "p = foldl shortcut_next (policy_new scs tps) xs"
    and free: "\<not> is_pressed p c"
    and press: "handle p (event_pressed s c) = (q, ms)"
    and release: "handle q (event_released s c) = (r, ms')"
  shows "ms' = (if ms = [] then map (\<lambda>t. ShortcutMatch (tap_id t)) (filter (\<lambda>t. tap_control t = c) tps)
                else [])"
proof -
  have inv: "policy_inv p" unfolding p by (rule run_new_inv)
  then have wf: "bt_wf (sources p)" by (simp add: policy_inv_def)
  have tps: "taps p = tps"
    using run_new_disarmed [of scs tps xs] by (simp add: p same_config_def policy_new_def Let_def)
  from free have nh: "c \<notin> held p t" for t by (simp add: is_pressed_iff [OF wf])
  with inv have nc: "c \<notin> consumed_taps p" by (auto simp: policy_inv_def)
  from press have "press p s c = (q, ms)" by (simp add: handle_def)
  note pc = press_char [OF this wf]
  let ?q = "q\<lparr>destructive_disarmed_controls := destructive_disarmed_controls q - {c}\<rparr>"
  from release have rel: "release ?q s c = (r, ms')" by (simp add: handle_def)
  have hq: "held ?q = held q" by (rule held_cong) simp
  have "bt_wf (sources ?q)" "c \<in> held ?q s" using pc(1,2) by (simp_all add: hq)
  note rc = release_char [OF rel this]
  have "\<not> (\<exists>t. c \<in> held r t)" using nh by (auto simp: rc(2) hq pc(2))
  with rc(9) pc(4,9,10) nc tps show ?thesis by (cases "ms = []") simp_all
qed

text \<open>An instance: a tap of \<open>Home\<close> on a fresh policy with one tap configured.\<close>

theorem tap_unless_consumed_witness:
  "snd (handle (fst (handle (policy_new [example_end] [tap_new ''home'' Home])
      (event_pressed ''pad'' Home))) (event_released ''pad'' Home)) = [ShortcutMatch ''home'']"
proof -
  let ?p = "policy_new [example_end] [tap_new ''home'' Home]"
  have "\<not> is_pressed ?p Home" by code_simp
  from tap_unless_consumed [of ?p "[example_end]" "[tap_new ''home'' Home]" "[]", OF _ this
      prod.collapse [symmetric] prod.collapse [symmetric]]
  have "snd (handle (fst (handle ?p (event_pressed ''pad'' Home))) (event_released ''pad'' Home)) =
      (if snd (handle ?p (event_pressed ''pad'' Home)) = []
       then map (\<lambda>t. ShortcutMatch (tap_id t))
              (filter (\<lambda>t. tap_control t = Home) [tap_new ''home'' Home])
       else [])" by simp
  also have "snd (handle ?p (event_pressed ''pad'' Home)) = []" by code_simp
  finally show ?thesis by (simp add: tap_new_def)
qed

end
