(* ===== verification/Hold.thy ===== *)
theory Hold
  imports Complex_Main Ordered_Map
begin

text \<open>
  The hold policy of \<open>services/inputd/core/src/hold.rs\<close>: how long an action is held, reported
  as press, progress, fired, tap or cancel.

  Durations and clocks are \<open>u64\<close> milliseconds (\<^typ>\<open>nat\<close>, subtraction saturates). A progress
  value is an \<open>f64\<close>. Its rounding is a parameter \<open>fl\<close> of the operations: converting an integer
  and dividing both yield \<open>fl\<close> of the exact rational. What is proved needs of \<open>fl\<close> at most
  that it is monotone and keeps \<open>1\<close>, as IEEE rounding is and does.

  \<^item> data: \<open>hold_config\<close>, \<open>hold_update\<close>, \<open>hold_state\<close>, \<open>hold_policy\<close>;
  \<^item> operations: \<open>hold_new\<close>, \<open>hold_engage\<close>, \<open>hold_advance\<close>, \<open>hold_release\<close>, \<open>hold_clear\<close>,
    \<open>is_holding\<close>, \<open>hold_reset\<close>;
  \<^item> the outcome of one hold, and the bounds of reported progress.
\<close>

record hold_config =
  tap_ms :: nat
  hold_ms :: nat

definition hold_config_default :: hold_config where
  "hold_config_default = \<lparr>tap_ms = 250, hold_ms = 2000\<rparr>"

datatype hold_config_error = ZeroHoldDuration

definition hold_config_error_text :: "hold_config_error \<Rightarrow> string" where
  "hold_config_error_text e =
     (case e of ZeroHoldDuration \<Rightarrow> ''hold duration must be greater than zero'')"

datatype hold_phase = PhasePress | PhaseProgress | PhaseFired | PhaseTap | PhaseCancel

record hold_update =
  hu_id :: string
  hu_phase :: hold_phase
  hu_progress :: rat
  hu_elapsed_ms :: nat

record hold_state =
  started_at_ms :: nat
  fired :: bool

record hold_policy =
  config :: hold_config
  holds :: "(string, hold_state) btree"

definition progress :: "(rat \<Rightarrow> rat) \<Rightarrow> hold_config \<Rightarrow> nat \<Rightarrow> rat" where
  "progress fl cfg elapsed =
     (let span = max (hold_ms cfg - tap_ms cfg) 1;
          elapsed_after_tap = elapsed - tap_ms cfg
      in max 0 (min 1 (fl (fl (of_nat elapsed_after_tap) / fl (of_nat span)))))"

definition hold_new :: "hold_config \<Rightarrow> (hold_policy, hold_config_error) result" where
  "hold_new cfg =
     (if hold_ms cfg = 0 then Err ZeroHoldDuration
      else Ok \<lparr>config = \<lparr>tap_ms = min (tap_ms cfg) (hold_ms cfg), hold_ms = hold_ms cfg\<rparr>,
               holds = []\<rparr>)"

definition hold_engage :: "hold_policy \<Rightarrow> string \<Rightarrow> nat \<Rightarrow> hold_policy \<times> hold_update list" where
  "hold_engage p i now =
     (if bt_contains_key (holds p) i then (p, [])
      else (p\<lparr>holds := bt_insert i \<lparr>started_at_ms = now, fired = False\<rparr> (holds p)\<rparr>,
            [\<lparr>hu_id = i, hu_phase = PhasePress, hu_progress = 0, hu_elapsed_ms = 0\<rparr>]))"

definition advance_entry ::
  "(rat \<Rightarrow> rat) \<Rightarrow> hold_config \<Rightarrow> nat \<Rightarrow> string \<Rightarrow> hold_state \<Rightarrow> hold_state \<times> hold_update option" where
  "advance_entry fl cfg now i st =
     (if fired st then (st, None)
      else
        let elapsed = now - started_at_ms st in
        if hold_ms cfg \<le> elapsed
        then (st\<lparr>fired := True\<rparr>,
              Some \<lparr>hu_id = i, hu_phase = PhaseFired, hu_progress = 1, hu_elapsed_ms = elapsed\<rparr>)
        else if elapsed < tap_ms cfg then (st, None)
        else (st, Some \<lparr>hu_id = i, hu_phase = PhaseProgress,
                        hu_progress = progress fl cfg elapsed, hu_elapsed_ms = elapsed\<rparr>))"

definition hold_advance :: "(rat \<Rightarrow> rat) \<Rightarrow> hold_policy \<Rightarrow> nat \<Rightarrow> hold_policy \<times> hold_update list" where
  "hold_advance fl p now =
     (p\<lparr>holds := map (\<lambda>(i, st). (i, fst (advance_entry fl (config p) now i st))) (holds p)\<rparr>,
      List.map_filter (\<lambda>(i, st). snd (advance_entry fl (config p) now i st)) (holds p))"

definition hold_release ::
  "(rat \<Rightarrow> rat) \<Rightarrow> hold_policy \<Rightarrow> string \<Rightarrow> nat \<Rightarrow> hold_policy \<times> hold_update list" where
  "hold_release fl p i now =
     (case bt_get (holds p) i of
        None \<Rightarrow> (p, [])
      | Some st \<Rightarrow>
          let p' = p\<lparr>holds := bt_remove i (holds p)\<rparr>; elapsed = now - started_at_ms st in
          if fired st then (p', [])
          else if elapsed < tap_ms (config p)
          then (p', [\<lparr>hu_id = i, hu_phase = PhaseTap, hu_progress = 0, hu_elapsed_ms = elapsed\<rparr>])
          else (p', [\<lparr>hu_id = i, hu_phase = PhaseCancel,
                      hu_progress = progress fl (config p) elapsed, hu_elapsed_ms = elapsed\<rparr>]))"

definition hold_clear :: "hold_policy \<Rightarrow> string \<Rightarrow> hold_policy \<times> bool" where
  "hold_clear p i = (p\<lparr>holds := bt_remove i (holds p)\<rparr>, bt_get (holds p) i \<noteq> None)"

definition is_holding :: "hold_policy \<Rightarrow> string option \<Rightarrow> bool" where
  "is_holding p oi =
     (case oi of Some i \<Rightarrow> bt_contains_key (holds p) i | None \<Rightarrow> holds p \<noteq> [])"

definition hold_reset :: "hold_policy \<Rightarrow> hold_policy" where
  "hold_reset p = p\<lparr>holds := []\<rparr>"

subsection \<open>Runs\<close>

datatype hold_input =
    Engage string nat
  | Advance nat
  | ReleaseHold string nat
  | ClearHold string
  | ResetHolds

fun hold_step :: "(rat \<Rightarrow> rat) \<Rightarrow> hold_policy \<Rightarrow> hold_input \<Rightarrow> hold_policy \<times> hold_update list" where
  "hold_step fl p (Engage i now) = hold_engage p i now"
| "hold_step fl p (Advance now) = hold_advance fl p now"
| "hold_step fl p (ReleaseHold i now) = hold_release fl p i now"
| "hold_step fl p (ClearHold i) = (fst (hold_clear p i), [])"
| "hold_step fl p ResetHolds = (hold_reset p, [])"

fun hold_run :: "(rat \<Rightarrow> rat) \<Rightarrow> hold_policy \<Rightarrow> hold_input list \<Rightarrow> hold_policy \<times> hold_update list" where
  "hold_run fl p [] = (p, [])"
| "hold_run fl p (x # xs) =
     (let (q, us) = hold_step fl p x; (r, vs) = hold_run fl q xs in (r, us @ vs))"

definition hold_inv :: "hold_policy \<Rightarrow> bool" where
  "hold_inv p \<longleftrightarrow> bt_wf (holds p) \<and> tap_ms (config p) \<le> hold_ms (config p) \<and> 0 < hold_ms (config p)"

text \<open>The reports that end a hold, and the inputs that end or forget one.\<close>

definition outcomes :: "string \<Rightarrow> hold_update list \<Rightarrow> hold_phase list" where
  "outcomes i us =
     map hu_phase (filter (\<lambda>u. hu_id u = i \<and> hu_phase u \<in> {PhaseFired, PhaseTap, PhaseCancel}) us)"

fun ends_hold :: "string \<Rightarrow> hold_input \<Rightarrow> bool" where
  "ends_hold i (ReleaseHold j _) = (i = j)"
| "ends_hold i (ClearHold j) = (i = j)"
| "ends_hold i ResetHolds = True"
| "ends_hold i _ = False"

fun reaches_hold :: "hold_config \<Rightarrow> nat \<Rightarrow> hold_input \<Rightarrow> bool" where
  "reaches_hold cfg t0 (Advance now) = (hold_ms cfg \<le> now - t0)"
| "reaches_hold cfg t0 _ = False"

lemma advance_holds:
  "map (\<lambda>(i, st). (i, fst (advance_entry fl cfg now i st))) m =
   bt_map_values (\<lambda>st. if \<not> fired st \<and> hold_ms cfg \<le> now - started_at_ms st then st\<lparr>fired := True\<rparr> else st) m"
  by (induction m) (auto simp: bt_map_values_def advance_entry_def Let_def)

lemma hold_step_inv: "hold_inv p \<Longrightarrow> hold_inv (fst (hold_step fl p x))"
  by (cases x)
     (auto simp: hold_inv_def hold_engage_def hold_advance_def hold_release_def hold_clear_def
       hold_reset_def advance_holds Let_def split: option.splits)

interpretation hold_machine: machine "\<lambda>p x. fst (hold_step fl p x)" hold_inv for fl
  by unfold_locales (rule hold_step_inv)

lemma hold_new_inv: "hold_new cfg = Ok p \<Longrightarrow> hold_inv p"
  by (auto simp: hold_new_def hold_inv_def split: if_splits)

lemma hold_step_config [simp]: "config (fst (hold_step fl p x)) = config p"
  by (cases x)
     (auto simp: hold_engage_def hold_advance_def hold_release_def hold_clear_def hold_reset_def
       Let_def split: option.splits)

lemma outcomes_simps [simp]:
  "outcomes i [] = []"
  "outcomes i (u # us) =
     (if hu_id u = i \<and> hu_phase u \<in> {PhaseFired, PhaseTap, PhaseCancel} then [hu_phase u] else []) @
     outcomes i us"
  by (simp_all add: outcomes_def)

lemma outcomes_append [simp]: "outcomes i (us @ vs) = outcomes i us @ outcomes i vs"
  by (simp add: outcomes_def)

lemma hold_run_append:
  "hold_run fl p (xs @ ys) =
     (let (q, us) = hold_run fl p xs; (r, vs) = hold_run fl q ys in (r, us @ vs))"
  by (induction xs arbitrary: p) (auto simp: Let_def split: prod.splits)

subsection \<open>The outcome of one hold\<close>

lemma outcomes_advance:
  assumes "bt_wf m"
  shows "outcomes i (List.map_filter (\<lambda>(j, st). snd (advance_entry fl cfg now j st)) m) =
    (case bt_get m i of None \<Rightarrow> []
     | Some st \<Rightarrow> if \<not> fired st \<and> hold_ms cfg \<le> now - started_at_ms st then [PhaseFired] else [])"
  using assms
proof (induction m)
  case (Cons e m)
  obtain j st where e: "e = (j, st)" by (cases e)
  from Cons.prems have "bt_wf m" and "bt_get m j = None"
    by (auto simp: e bt_wf_Cons bt_get_None_iff)
  with Cons.IH show ?case
    by (cases "i = j")
       (auto simp: e List.map_filter_simps outcomes_def advance_entry_def Let_def bt_get_def
         split: option.splits)
qed (simp add: List.map_filter_simps outcomes_def)

lemma hold_step_outcome:
  assumes inv: "hold_inv p" and st: "bt_get (holds p) i = Some st" and keep: "\<not> ends_hold i x"
  shows "outcomes i (snd (hold_step fl p x)) =
      (if \<not> fired st \<and> reaches_hold (config p) (started_at_ms st) x then [PhaseFired] else [])"
    and "bt_get (holds (fst (hold_step fl p x))) i =
      Some (st\<lparr>fired := fired st \<or> reaches_hold (config p) (started_at_ms st) x\<rparr>)"
proof -
  from inv have wf: "bt_wf (holds p)" by (simp add: hold_inv_def)
  show "outcomes i (snd (hold_step fl p x)) =
      (if \<not> fired st \<and> reaches_hold (config p) (started_at_ms st) x then [PhaseFired] else [])"
    using st keep
    by (cases x)
       (auto simp: hold_engage_def hold_advance_def hold_release_def hold_clear_def
         outcomes_advance [OF wf] Let_def split: option.splits)
  show "bt_get (holds (fst (hold_step fl p x))) i =
      Some (st\<lparr>fired := fired st \<or> reaches_hold (config p) (started_at_ms st) x\<rparr>)"
    using st keep
    by (cases x)
       (auto simp: hold_engage_def hold_advance_def hold_release_def hold_clear_def advance_holds
         bt_contains_key_iff Let_def split: option.splits)
qed

lemma hold_run_outcome:
  assumes "hold_inv p" and "bt_get (holds p) i = Some st" and "\<forall>x \<in> set xs. \<not> ends_hold i x"
  shows "outcomes i (snd (hold_run fl p xs)) =
      (if \<not> fired st \<and> list_ex (reaches_hold (config p) (started_at_ms st)) xs
       then [PhaseFired] else [])"
    and "bt_get (holds (fst (hold_run fl p xs))) i =
      Some (st\<lparr>fired := fired st \<or> list_ex (reaches_hold (config p) (started_at_ms st)) xs\<rparr>)"
    and "config (fst (hold_run fl p xs)) = config p"
proof -
  have "outcomes i (snd (hold_run fl p xs)) =
      (if \<not> fired st \<and> list_ex (reaches_hold (config p) (started_at_ms st)) xs
       then [PhaseFired] else []) \<and>
    bt_get (holds (fst (hold_run fl p xs))) i =
      Some (st\<lparr>fired := fired st \<or> list_ex (reaches_hold (config p) (started_at_ms st)) xs\<rparr>) \<and>
    config (fst (hold_run fl p xs)) = config p"
    using assms
  proof (induction xs arbitrary: p st)
    case (Cons x xs)
    let ?q = "fst (hold_step fl p x)"
    have keep: "\<not> ends_hold i x" using Cons.prems(3) by simp
    note one = hold_step_outcome [OF Cons.prems(1,2) keep, of fl]
    from Cons.prems(3) have "\<forall>y \<in> set xs. \<not> ends_hold i y" by simp
    from Cons.IH [OF hold_step_inv [OF Cons.prems(1)] one(2) this] one show ?case
      by (auto simp: Let_def split: prod.splits)
  qed (simp add: outcomes_def)
  then show "outcomes i (snd (hold_run fl p xs)) =
      (if \<not> fired st \<and> list_ex (reaches_hold (config p) (started_at_ms st)) xs
       then [PhaseFired] else [])"
    "bt_get (holds (fst (hold_run fl p xs))) i =
      Some (st\<lparr>fired := fired st \<or> list_ex (reaches_hold (config p) (started_at_ms st)) xs\<rparr>)"
    "config (fst (hold_run fl p xs)) = config p"
    by blast+
qed

text \<open>
  C3. Every hold has exactly one outcome. An action that is not held is engaged at \<open>t0\<close> and
  released at \<open>t1\<close>, and no input in between releases, clears or resets it. Among all reports
  from the engagement to the release exactly one is an outcome of this action: \<open>Fired\<close> if some
  \<open>advance\<close> saw the hold duration pass, otherwise \<open>Tap\<close> before the tap limit and \<open>Cancel\<close> after.
\<close>

theorem hold_has_one_outcome:
  assumes inv: "hold_inv p" and new: "bt_get (holds p) i = None"
    and keep: "\<forall>x \<in> set xs. \<not> ends_hold i x"
  shows "outcomes i (snd (hold_run fl p (Engage i t0 # xs @ [ReleaseHold i t1]))) =
    [if list_ex (reaches_hold (config p) t0) xs then PhaseFired
     else if t1 - t0 < tap_ms (config p) then PhaseTap else PhaseCancel]"
proof -
  let ?q = "fst (hold_step fl p (Engage i t0))"
  have q: "hold_inv ?q" "bt_get (holds ?q) i = Some \<lparr>started_at_ms = t0, fired = False\<rparr>"
    "config ?q = config p" "outcomes i (snd (hold_step fl p (Engage i t0))) = []"
    using inv new by (auto simp: hold_engage_def bt_contains_key_iff outcomes_def hold_inv_def)
  note run = hold_run_outcome [OF q(1,2) keep, of fl]
  have "outcomes i (snd (hold_run fl p (Engage i t0 # xs @ [ReleaseHold i t1]))) =
      outcomes i (snd (hold_run fl ?q xs)) @
      outcomes i (snd (hold_step fl (fst (hold_run fl ?q xs)) (ReleaseHold i t1)))"
    using q(4) by (auto simp: hold_run_append Let_def split: prod.splits)
  with run q(3) show ?thesis
    by (simp add: hold_release_def Let_def outcomes_def)
qed

text \<open>Witness of C3 on the default configuration: one hold that fires, with another one beside it.\<close>

definition example_hold :: hold_policy where
  "example_hold = \<lparr>config = hold_config_default, holds = []\<rparr>"

theorem hold_has_one_outcome_witness:
  "outcomes ''end'' (snd (hold_run id example_hold (Engage ''end'' 1000 #
     [Advance 1500, Engage ''other'' 1600, Advance 3000, Advance 3100] @ [ReleaseHold ''end'' 3200])))
   = [PhaseFired]"
proof -
  have "hold_inv example_hold" "bt_get (holds example_hold) ''end'' = None"
    by (simp_all add: hold_inv_def example_hold_def hold_config_default_def)
  moreover have "\<forall>x \<in> set [Advance 1500, Engage ''other'' 1600, Advance 3000, Advance 3100].
      \<not> ends_hold ''end'' x" by simp
  ultimately show ?thesis
    using hold_has_one_outcome [of example_hold "''end''"
        "[Advance 1500, Engage ''other'' 1600, Advance 3000, Advance 3100]" id 1000 3200]
    by (simp add: example_hold_def hold_config_default_def)
qed

subsection \<open>Progress\<close>

lemma progress_bounds: "0 \<le> progress fl cfg e" "progress fl cfg e \<le> 1"
  by (simp_all add: progress_def Let_def)

lemma progress_mono:
  assumes fl: "mono fl" "fl 1 = 1" and le: "e \<le> e'"
  shows "progress fl cfg e \<le> progress fl cfg e'"
proof -
  let ?span = "max (hold_ms cfg - tap_ms cfg) 1"
  have "fl 1 \<le> fl (of_nat ?span)" using fl(1) by (rule monoD) simp
  with fl(2) have "0 < fl (of_nat ?span)" by simp
  moreover have "fl (of_nat (e - tap_ms cfg)) \<le> fl (of_nat (e' - tap_ms cfg))"
    using le by (intro monoD [OF fl(1)]) simp
  ultimately have "fl (of_nat (e - tap_ms cfg)) / fl (of_nat ?span)
      \<le> fl (of_nat (e' - tap_ms cfg)) / fl (of_nat ?span)"
    by (intro divide_right_mono) simp_all
  then have "fl (fl (of_nat (e - tap_ms cfg)) / fl (of_nat ?span))
      \<le> fl (fl (of_nat (e' - tap_ms cfg)) / fl (of_nat ?span))"
    by (rule monoD [OF fl(1)])
  then show ?thesis
    unfolding progress_def Let_def by (intro max.mono min.mono order_refl)
qed



end
