(* ===== verification/Input_Contract.thy ===== *)
theory Input_Contract
  imports Ordered_Map
begin

text \<open>
  The wire contract between korrid and the seat receiver,
  \<open>contracts/input/src/lib.rs\<close>: gamepad states, the coordination requests and replies, and
  their bounds. Buttons, triggers and sticks keep their machine width; a stick axis is an
  \<open>i16\<close>, read with \<^const>\<open>sint\<close>.
\<close>

definition COORDINATION_VERSION :: nat where "COORDINATION_VERSION = 2"
definition MAX_COORDINATION_BYTES :: nat where "MAX_COORDINATION_BYTES = 65536"
definition MAX_REMOTE_EVENTS :: nat where "MAX_REMOTE_EVENTS = 128"
definition COORDINATOR_TIMEOUT_MS :: nat where "COORDINATOR_TIMEOUT_MS = 1250"
definition MAX_PHYSICAL_SOURCES :: nat where "MAX_PHYSICAL_SOURCES = 255"
definition GAMEPAD_STICK_FLAT :: int where "GAMEPAD_STICK_FLAT = 4096"

record gamepad_state =
  buttons :: "32 word"
  left_trigger :: "8 word"
  right_trigger :: "8 word"
  left_stick_x :: "16 word"
  left_stick_y :: "16 word"
  right_stick_x :: "16 word"
  right_stick_y :: "16 word"

definition stick_flat :: "16 word \<Rightarrow> bool" where
  "stick_flat x \<longleftrightarrow> - GAMEPAD_STICK_FLAT \<le> sint x \<and> sint x \<le> GAMEPAD_STICK_FLAT"

definition is_neutral_for_rearm :: "gamepad_state \<Rightarrow> bool" where
  "is_neutral_for_rearm g \<longleftrightarrow>
     buttons g = 0 \<and> left_trigger g = 0 \<and> right_trigger g = 0 \<and>
     stick_flat (left_stick_x g) \<and> stick_flat (left_stick_y g) \<and>
     stick_flat (right_stick_x g) \<and> stick_flat (right_stick_y g)"

definition neutral :: gamepad_state where
  "neutral = \<lparr>buttons = 0, left_trigger = 0, right_trigger = 0, left_stick_x = 0,
     left_stick_y = 0, right_stick_x = 0, right_stick_y = 0\<rparr>"

datatype seat_order = FirstPress | Attached

datatype seat_request =
    Hello
  | Poll
  | ApplyCount nat
  | BeginSession string seat_order
  | ReserveNetplay string string
  | EndSession string
  | Route "string option"
  | PhysicalConnected string string gamepad_state
  | PhysicalState string gamepad_state
  | PhysicalDisconnected string

datatype seat_failure =
  Invalid | NotReady | Active | Stale | UnknownSource | RateLimited | Backend

record remote_source =
  rs_client_id :: string
  rs_launch_id :: string
  rs_controller_number :: nat
  rs_state :: gamepad_state
  rs_slot :: "nat option"

datatype remote_event =
    RemoteConnected remote_source
  | RemoteState remote_source
  | RemoteDisconnected string string nat

record seat_reply =
  occupied_local_seats :: "string list"
  failure :: "seat_failure option"
  reply_count :: nat
  reply_session :: "string option"
  reply_recovery_required :: bool
  reply_slot :: "nat option"
  remote_sources :: "remote_source list"
  remote_events :: "remote_event list"

lemma neutral_is_neutral_for_rearm [simp]: "is_neutral_for_rearm neutral"
  by (simp add: is_neutral_for_rearm_def neutral_def stick_flat_def GAMEPAD_STICK_FLAT_def)

end
