(* ===== verification/Seat_Backend.thy ===== *)
theory Seat_Backend
  imports Input_Contract
begin

text \<open>
  The trait \<open>SeatBackend\<close> of \<open>services/inputd/src/input_seat.rs\<close> as a record of operations over
  a backend state \<open>'b\<close>: every operation returns its result and the next backend state, and may
  fail after a partial effect. The pool and the runtime take such a record as a parameter.

  The locale \<open>seat_backend_contract\<close> is what the pool's documentation demands of a backend: a
  successful write establishes the whole requested state, even after earlier failures, and does
  not touch another slot, and a device whose destruction is refused is still the device it was.
  \<open>shows_state b n g\<close> says that the device of slot \<open>n\<close> presents \<open>g\<close>.
\<close>

record seat_spec =
  spec_slot :: nat
  spec_name :: string
  spec_physical_path :: string

definition for_slot :: "nat \<Rightarrow> seat_spec" where
  "for_slot n = \<lparr>spec_slot = n, spec_name = ''Korri Seat P'' @ decimal n,
     spec_physical_path = ''korri/input-seat/p'' @ decimal n\<rparr>"

record 'b seat_backend =
  be_create :: "seat_spec \<Rightarrow> 'b \<Rightarrow> (unit, string) result \<times> 'b"
  be_event_device :: "nat \<Rightarrow> 'b \<Rightarrow> (string, string) result"
  be_write_state :: "nat \<Rightarrow> gamepad_state \<Rightarrow> 'b \<Rightarrow> (unit, string) result \<times> 'b"
  be_destroy :: "nat \<Rightarrow> 'b \<Rightarrow> (unit, string) result \<times> 'b"

locale seat_backend_contract =
  fixes ops :: "'b seat_backend"
    and shows_state :: "'b \<Rightarrow> nat \<Rightarrow> gamepad_state \<Rightarrow> bool"
    and sound :: "'b \<Rightarrow> bool"
  assumes write_shows: "sound b \<Longrightarrow> be_write_state ops n g b = (Ok u, b') \<Longrightarrow> shows_state b' n g"
    and write_frame: "sound b \<Longrightarrow> be_write_state ops n g b = (r, b') \<Longrightarrow> m \<noteq> n \<Longrightarrow>
      shows_state b m h \<Longrightarrow> shows_state b' m h"
    and write_sound: "sound b \<Longrightarrow> be_write_state ops n g b = (r, b') \<Longrightarrow> sound b'"
    and create_frame: "sound b \<Longrightarrow> be_create ops (for_slot n) b = (r, b') \<Longrightarrow> m \<noteq> n \<Longrightarrow>
      shows_state b m h \<Longrightarrow> shows_state b' m h"
    and create_sound: "sound b \<Longrightarrow> be_create ops (for_slot n) b = (r, b') \<Longrightarrow> sound b'"
    and destroy_frame: "sound b \<Longrightarrow> be_destroy ops n b = (r, b') \<Longrightarrow> m \<noteq> n \<Longrightarrow>
      shows_state b m h \<Longrightarrow> shows_state b' m h"
    and destroy_failed: "sound b \<Longrightarrow> be_destroy ops n b = (Err e, b') \<Longrightarrow> shows_state b n h \<Longrightarrow>
      shows_state b' n h"
    and destroy_sound: "sound b \<Longrightarrow> be_destroy ops n b = (r, b') \<Longrightarrow> sound b'"

end
