(* ===== verification/Seat_Pool.thy ===== *)
theory Seat_Pool
  imports Seat_Backend
begin

text \<open>
  The persistent virtual gamepads of \<open>services/inputd/src/seat_pool.rs\<close>. A pool owns a backend
  and a vector of seats; a seat may be bound to a source key, connected or reserved. Slots and
  counts are \<open>u8\<close> (\<^typ>\<open>nat\<close> with the conversion \<open>len() as u8\<close> written out). The source keeps the
  backend in an \<open>Option\<close> that only \<open>cleanup\<close> empties, while it consumes the pool; here a live
  pool has its backend and \<open>pool_cleanup\<close> returns what is left of it.

  \<^item> data: \<open>pool_error\<close>, \<open>binding\<close>, \<open>seat\<close>, \<open>seat_pool\<close>;
  \<^item> operations: \<open>pool_new\<close>, \<open>begin_session\<close>, \<open>end_session\<close>, \<open>pool_connect\<close>, \<open>release_all\<close>,
    \<open>reserve\<close>, \<open>pool_disconnect\<close>, \<open>pool_write_state\<close>, \<open>neutralize\<close>, \<open>resize\<close>, \<open>pool_stop\<close>,
    and the queries;
  \<^item> the invariant \<open>pool_inv\<close> that every operation keeps for every backend, what \<open>pool_connect\<close>
    allocates, how long a reservation lasts, and that a seat's known state is what its device
    shows when the backend meets \<open>seat_backend_contract\<close>.
\<close>

datatype pool_error =
    NoSeat
  | UnknownSourceKey
  | DisconnectedSource
  | InvalidSession string
  | SessionAlreadyActive
  | StaleSession
  | BackendError string

record 'k binding =
  b_source :: 'k
  connected :: bool

record 'k seat =
  slot :: nat
  binding :: "'k binding option"
  known_state :: "gamepad_state option"

record ('k, 'b) seat_pool =
  backend :: 'b
  seats :: "'k seat list"
  session :: "string option"

definition validate_launch_id :: "string \<Rightarrow> (unit, string) result" where
  "validate_launch_id v =
     (if lower_hex_text 32 v then Ok ()
      else Err ''launch ID must be 32 lower-case hexadecimal bytes'')"

subsection \<open>Queries\<close>

definition bound_to :: "'k \<Rightarrow> 'k seat \<Rightarrow> bool" where
  "bound_to k s = (case binding s of None \<Rightarrow> False | Some b \<Rightarrow> b_source b = k)"

definition seat_connected :: "'k seat \<Rightarrow> bool" where
  "seat_connected s = (case binding s of None \<Rightarrow> False | Some b \<Rightarrow> connected b)"

definition pool_index :: "('k, 'b) seat_pool \<Rightarrow> 'k \<Rightarrow> nat option" where
  "pool_index p k = position (bound_to k) (seats p)"

definition has_binding :: "('k, 'b) seat_pool \<Rightarrow> ('k \<Rightarrow> bool) \<Rightarrow> bool" where
  "has_binding p matches =
     list_ex (\<lambda>s. case binding s of None \<Rightarrow> False | Some b \<Rightarrow> matches (b_source b)) (seats p)"

definition pool_count :: "('k, 'b) seat_pool \<Rightarrow> nat" where
  "pool_count p = length (seats p) mod 256"

definition pool_slot :: "('k, 'b) seat_pool \<Rightarrow> 'k \<Rightarrow> nat option" where
  "pool_slot p k = map_option (\<lambda>i. slot (seats p ! i)) (pool_index p k)"

fun collect_results :: "('a, 'e) result list \<Rightarrow> ('a list, 'e) result" where
  "collect_results [] = Ok []"
| "collect_results (Err e # rs) = Err e"
| "collect_results (Ok a # rs) =
     (case collect_results rs of Err e \<Rightarrow> Err e | Ok as \<Rightarrow> Ok (a # as))"

definition occupied_event_devices ::
  "'b seat_backend \<Rightarrow> ('k, 'b) seat_pool \<Rightarrow> ('k \<Rightarrow> bool) \<Rightarrow> (string list, pool_error) result" where
  "occupied_event_devices ops p include =
     collect_results
       (map (\<lambda>s. map_err BackendError (be_event_device ops (slot s) (backend p)))
         (filter (\<lambda>s. case binding s of None \<Rightarrow> False | Some b \<Rightarrow> connected b \<and> include (b_source b))
           (seats p)))"

subsection \<open>Writing\<close>

definition update_seat ::
  "nat \<Rightarrow> ('k seat \<Rightarrow> 'k seat) \<Rightarrow> ('k, 'b) seat_pool \<Rightarrow> ('k, 'b) seat_pool" where
  "update_seat i f p = p\<lparr>seats := (seats p)[i := f (seats p ! i)]\<rparr>"

definition pool_write ::
  "'b seat_backend \<Rightarrow> nat \<Rightarrow> gamepad_state \<Rightarrow> ('k, 'b) seat_pool
     \<Rightarrow> (unit, string) result \<times> ('k, 'b) seat_pool" where
  "pool_write ops i g p =
     (if known_state (seats p ! i) = Some g then (Ok (), p)
      else
        let p1 = update_seat i (\<lambda>s. s\<lparr>known_state := None\<rparr>) p in
        case be_write_state ops (slot (seats p ! i)) g (backend p) of
          (Err e, b) \<Rightarrow> (Err e, p1\<lparr>backend := b\<rparr>)
        | (Ok _, b) \<Rightarrow> (Ok (), update_seat i (\<lambda>s. s\<lparr>known_state := Some g\<rparr>) (p1\<lparr>backend := b\<rparr>)))"

text \<open>
  The loops of \<open>end_session\<close>, \<open>release_all\<close>, \<open>neutralize\<close> and \<open>cleanup\<close>: write the neutral state to
  the seats that satisfy \<open>guard\<close>, collect the errors, and free a seat that was written when
  \<open>unbind\<close> is set.
\<close>

fun neutral_loop ::
  "'b seat_backend \<Rightarrow> ('k seat \<Rightarrow> bool) \<Rightarrow> bool \<Rightarrow> nat list \<Rightarrow> ('k, 'b) seat_pool
     \<Rightarrow> string list \<times> ('k, 'b) seat_pool" where
  "neutral_loop ops guard unbind [] p = ([], p)"
| "neutral_loop ops guard unbind (i # xs) p =
     (if \<not> guard (seats p ! i) then neutral_loop ops guard unbind xs p
      else case pool_write ops i neutral p of
             (Ok _, p1) \<Rightarrow>
               neutral_loop ops guard unbind xs
                 (if unbind then update_seat i (\<lambda>s. s\<lparr>binding := None\<rparr>) p1 else p1)
           | (Err e, p1) \<Rightarrow>
               let (es, p2) = neutral_loop ops guard unbind xs p1 in (e # es, p2))"

definition backend_result :: "string list \<Rightarrow> (unit, pool_error) result" where
  "backend_result es = (if es = [] then Ok () else Err (BackendError (join_with ''; '' es)))"

definition neutralize ::
  "'b seat_backend \<Rightarrow> ('k, 'b) seat_pool \<Rightarrow> (unit, pool_error) result \<times> ('k, 'b) seat_pool" where
  "neutralize ops p =
     (let (es, p') = neutral_loop ops (\<lambda>_. True) False [0..<length (seats p)] p
      in (backend_result es, p'))"

fun destroy_all ::
  "'b seat_backend \<Rightarrow> nat list \<Rightarrow> 'b \<Rightarrow> string list \<times> 'b" where
  "destroy_all ops [] b = ([], b)"
| "destroy_all ops (n # ns) b =
     (case be_destroy ops n b of
        (Ok _, b1) \<Rightarrow> destroy_all ops ns b1
      | (Err e, b1) \<Rightarrow> let (es, b2) = destroy_all ops ns b1 in (e # es, b2))"

definition pool_cleanup ::
  "'b seat_backend \<Rightarrow> ('k, 'b) seat_pool \<Rightarrow> (unit, string) result \<times> 'b" where
  "pool_cleanup ops p =
     (let (es, p1) = neutral_loop ops (\<lambda>_. True) False [0..<length (seats p)] p;
          (fs, b) = destroy_all ops (rev (map slot (seats p1))) (backend p1)
      in (if es @ fs = [] then Ok () else Err (join_with ''; '' (es @ fs)), b))"

definition pool_stop ::
  "'b seat_backend \<Rightarrow> ('k, 'b) seat_pool \<Rightarrow> (unit, pool_error) result \<times> 'b" where
  "pool_stop ops p = (let (r, b) = pool_cleanup ops p in (map_err BackendError r, b))"

subsection \<open>Creation and resizing\<close>

definition add_seat ::
  "'b seat_backend \<Rightarrow> nat \<Rightarrow> ('k, 'b) seat_pool \<Rightarrow> (unit, string) result \<times> ('k, 'b) seat_pool" where
  "add_seat ops n p =
     (case be_create ops (for_slot n) (backend p) of
        (Err e, b) \<Rightarrow> (Err e, p\<lparr>backend := b\<rparr>)
      | (Ok _, b) \<Rightarrow>
          pool_write ops (length (seats p)) neutral
            (p\<lparr>backend := b, seats := seats p @ [\<lparr>slot = n, binding = None, known_state = None\<rparr>]\<rparr>))"

fun add_seats ::
  "'b seat_backend \<Rightarrow> nat list \<Rightarrow> ('k, 'b) seat_pool
     \<Rightarrow> (unit, string) result \<times> ('k, 'b) seat_pool" where
  "add_seats ops [] p = (Ok (), p)"
| "add_seats ops (n # ns) p =
     (case add_seat ops n p of
        (Err e, p1) \<Rightarrow> (Err e, p1)
      | (Ok _, p1) \<Rightarrow> add_seats ops ns p1)"

definition pool_new ::
  "'b seat_backend \<Rightarrow> nat \<Rightarrow> 'b \<Rightarrow> (('k, 'b) seat_pool, pool_error) result" where
  "pool_new ops count b =
     (case add_seats ops [1..<Suc count] \<lparr>backend = b, seats = [], session = None\<rparr> of
        (Ok _, p) \<Rightarrow> Ok p
      | (Err e, p) \<Rightarrow>
          (case fst (pool_cleanup ops p) of
             Ok _ \<Rightarrow> Err (BackendError e)
           | Err ce \<Rightarrow> Err (BackendError (e @ ''; rollback: '' @ ce))))"

text \<open>\<open>resize\<close> drops or adds one seat per round of its two loops; the rounds are counted here.\<close>

fun shrink_by ::
  "'b seat_backend \<Rightarrow> nat \<Rightarrow> ('k, 'b) seat_pool \<Rightarrow> (unit, string) result \<times> ('k, 'b) seat_pool" where
  "shrink_by ops 0 p = (Ok (), p)"
| "shrink_by ops (Suc n) p =
     (case be_destroy ops (slot (last (seats p))) (backend p) of
        (Err e, b) \<Rightarrow> (Err e, p\<lparr>backend := b\<rparr>)
      | (Ok _, b) \<Rightarrow> shrink_by ops n (p\<lparr>backend := b, seats := butlast (seats p)\<rparr>))"

fun grow_by ::
  "'b seat_backend \<Rightarrow> nat \<Rightarrow> ('k, 'b) seat_pool \<Rightarrow> (unit, string) result \<times> ('k, 'b) seat_pool" where
  "grow_by ops 0 p = (Ok (), p)"
| "grow_by ops (Suc n) p =
     (case add_seat ops (pool_count p + 1) p of
        (Err e, p1) \<Rightarrow> (Err e, p1)
      | (Ok _, p1) \<Rightarrow> grow_by ops n p1)"

definition resize ::
  "'b seat_backend \<Rightarrow> nat \<Rightarrow> ('k, 'b) seat_pool
     \<Rightarrow> (unit, pool_error) result \<times> ('k, 'b) seat_pool" where
  "resize ops count p =
     (if session p \<noteq> None then (Err SessionAlreadyActive, p)
      else if count = pool_count p then (Ok (), p)
      else case neutralize ops p of
        (Err e, p1) \<Rightarrow> (Err e, p1)
      | (Ok _, p1) \<Rightarrow>
          (case shrink_by ops (length (seats p1) - count) p1 of
             (Err e, p2) \<Rightarrow> (Err (BackendError e), p2)
           | (Ok _, p2) \<Rightarrow>
               (case grow_by ops (count - length (seats p2)) p2 of
                  (Err e, p3) \<Rightarrow> (Err (BackendError e), p3)
                | (Ok _, p3) \<Rightarrow> (Ok (), p3))))"

subsection \<open>Sessions\<close>

definition begin_session ::
  "string \<Rightarrow> ('k, 'b) seat_pool \<Rightarrow> (unit, pool_error) result \<times> ('k, 'b) seat_pool" where
  "begin_session sid p =
     (case validate_launch_id sid of
        Err e \<Rightarrow> (Err (InvalidSession e), p)
      | Ok _ \<Rightarrow>
          if session p \<noteq> None then (Err SessionAlreadyActive, p)
          else (Ok (), p\<lparr>session := Some sid\<rparr>))"

definition end_session ::
  "'b seat_backend \<Rightarrow> string \<Rightarrow> ('k, 'b) seat_pool
     \<Rightarrow> (unit, pool_error) result \<times> ('k, 'b) seat_pool" where
  "end_session ops sid p =
     (if session p \<noteq> Some sid then (Err StaleSession, p)
      else
        let (es, p1) = neutral_loop ops
              (\<lambda>s. case binding s of None \<Rightarrow> False | Some b \<Rightarrow> \<not> connected b) True
              [0..<length (seats p)] p
        in if es \<noteq> [] then (backend_result es, p1) else (Ok (), p1\<lparr>session := None\<rparr>))"

definition release_all ::
  "'b seat_backend \<Rightarrow> string \<Rightarrow> ('k, 'b) seat_pool
     \<Rightarrow> (unit, pool_error) result \<times> ('k, 'b) seat_pool" where
  "release_all ops sid p =
     (if session p \<noteq> Some sid then (Err StaleSession, p)
      else
        let (es, p1) = neutral_loop ops (\<lambda>s. binding s \<noteq> None) True [0..<length (seats p)] p
        in (backend_result es, p1))"

subsection \<open>Sources\<close>

definition pool_connect ::
  "'b seat_backend \<Rightarrow> 'k \<Rightarrow> ('k, 'b) seat_pool \<Rightarrow> (nat, pool_error) result \<times> ('k, 'b) seat_pool" where
  "pool_connect ops k p =
     (case pool_index p k of
        Some i \<Rightarrow>
          if seat_connected (seats p ! i) then (Ok (slot (seats p ! i)), p)
          else (case pool_write ops i neutral p of
                  (Err e, p1) \<Rightarrow> (Err (BackendError e), p1)
                | (Ok _, p1) \<Rightarrow>
                    let p2 = update_seat i (\<lambda>s. s\<lparr>binding := Some \<lparr>b_source = k, connected = True\<rparr>\<rparr>) p1
                    in (Ok (slot (seats p2 ! i)), p2))
      | None \<Rightarrow>
          (case position (\<lambda>s. binding s = None) (seats p) of
             None \<Rightarrow> (Err NoSeat, p)
           | Some i \<Rightarrow>
               (case pool_write ops i neutral p of
                  (Err e, p1) \<Rightarrow> (Err (BackendError e), p1)
                | (Ok _, p1) \<Rightarrow>
                    let p2 = update_seat i (\<lambda>s. s\<lparr>binding := Some \<lparr>b_source = k, connected = True\<rparr>\<rparr>) p1
                    in (Ok (slot (seats p2 ! i)), p2))))"

definition set_connected :: "bool \<Rightarrow> 'k seat \<Rightarrow> 'k seat" where
  "set_connected c s = s\<lparr>binding := map_option (\<lambda>b. b\<lparr>connected := c\<rparr>) (binding s)\<rparr>"

definition reserve ::
  "'b seat_backend \<Rightarrow> string \<Rightarrow> 'k \<Rightarrow> ('k, 'b) seat_pool
     \<Rightarrow> (nat, pool_error) result \<times> ('k, 'b) seat_pool" where
  "reserve ops sid k p =
     (if session p \<noteq> Some sid then (Err StaleSession, p)
      else case pool_index p k of
        Some i \<Rightarrow> (Ok (slot (seats p ! i)), p)
      | None \<Rightarrow>
          (case pool_connect ops k p of
             (Err e, p1) \<Rightarrow> (Err e, p1)
           | (Ok n, p1) \<Rightarrow> (Ok n, update_seat (n - 1) (set_connected False) p1)))"

definition pool_disconnect ::
  "'b seat_backend \<Rightarrow> 'k \<Rightarrow> ('k, 'b) seat_pool \<Rightarrow> (nat, pool_error) result \<times> ('k, 'b) seat_pool" where
  "pool_disconnect ops k p =
     (case pool_index p k of
        None \<Rightarrow> (Err UnknownSourceKey, p)
      | Some i \<Rightarrow>
          (case pool_write ops i neutral (update_seat i (set_connected False) p) of
             (Err e, p1) \<Rightarrow> (Err (BackendError e), p1)
           | (Ok _, p1) \<Rightarrow>
               let p2 = (if session p1 = None then update_seat i (\<lambda>s. s\<lparr>binding := None\<rparr>) p1 else p1)
               in (Ok (slot (seats p2 ! i)), p2)))"

definition pool_write_state ::
  "'b seat_backend \<Rightarrow> 'k \<Rightarrow> gamepad_state \<Rightarrow> ('k, 'b) seat_pool
     \<Rightarrow> (nat, pool_error) result \<times> ('k, 'b) seat_pool" where
  "pool_write_state ops k g p =
     (case pool_index p k of
        None \<Rightarrow> (Err UnknownSourceKey, p)
      | Some i \<Rightarrow>
          if \<not> seat_connected (seats p ! i) then (Err DisconnectedSource, p)
          else (case pool_write ops i g p of
                  (Err e, p1) \<Rightarrow> (Err (BackendError e), p1)
                | (Ok _, p1) \<Rightarrow> (Ok (slot (seats p1 ! i)), p1)))"


subsection \<open>Requests to a pool\<close>

datatype 'k pool_input =
    PoolBegin string
  | PoolEnd string
  | PoolReleaseAll string
  | PoolConnect 'k
  | PoolReserve string 'k
  | PoolDisconnect 'k
  | PoolWrite 'k gamepad_state
  | PoolNeutralize
  | PoolResize nat

fun pool_step :: "'b seat_backend \<Rightarrow> ('k, 'b) seat_pool \<Rightarrow> 'k pool_input \<Rightarrow> ('k, 'b) seat_pool" where
  "pool_step ops p (PoolBegin sid) = snd (begin_session sid p)"
| "pool_step ops p (PoolEnd sid) = snd (end_session ops sid p)"
| "pool_step ops p (PoolReleaseAll sid) = snd (release_all ops sid p)"
| "pool_step ops p (PoolConnect k) = snd (pool_connect ops k p)"
| "pool_step ops p (PoolReserve sid k) = snd (reserve ops sid k p)"
| "pool_step ops p (PoolDisconnect k) = snd (pool_disconnect ops k p)"
| "pool_step ops p (PoolWrite k g) = snd (pool_write_state ops k g p)"
| "pool_step ops p PoolNeutralize = snd (neutralize ops p)"
| "pool_step ops p (PoolResize n) = (if 0 < n \<and> n < 256 then snd (resize ops n p) else p)"

text \<open>
  The invariant of a pool: at most 255 seats in slot order, no source on two seats, a session
  that is a launch ID, and no seat without a connected source that is known to present
  anything but the neutral state.
\<close>

definition quiet :: "'k seat \<Rightarrow> bool" where
  "quiet s \<longleftrightarrow> (known_state s = None \<or> known_state s = Some neutral)"

definition sole_sources :: "'k seat list \<Rightarrow> bool" where
  "sole_sources ss \<longleftrightarrow>
     (\<forall>i < length ss. \<forall>j < length ss. \<forall>k. bound_to k (ss ! i) \<longrightarrow> bound_to k (ss ! j) \<longrightarrow> i = j)"

definition pool_inv :: "('k, 'b) seat_pool \<Rightarrow> bool" where
  "pool_inv p \<longleftrightarrow>
     length (seats p) < 256 \<and>
     (\<forall>i < length (seats p). slot (seats p ! i) = Suc i) \<and>
     sole_sources (seats p) \<and>
     (\<forall>i < length (seats p). \<not> seat_connected (seats p ! i) \<longrightarrow> quiet (seats p ! i)) \<and>
     (\<forall>sid. session p = Some sid \<longrightarrow> lower_hex_text 32 sid)"

lemma pool_invD:
  assumes "pool_inv p"
  shows "length (seats p) < 256"
    and "i < length (seats p) \<Longrightarrow> slot (seats p ! i) = Suc i"
    and "sole_sources (seats p)"
    and "i < length (seats p) \<Longrightarrow> \<not> seat_connected (seats p ! i) \<Longrightarrow> quiet (seats p ! i)"
    and "session p = Some sid \<Longrightarrow> lower_hex_text 32 sid"
  using assms by (auto simp: pool_inv_def)

lemma bound_to_iff: "bound_to k s \<longleftrightarrow> (\<exists>b. binding s = Some b \<and> b_source b = k)"
  by (simp add: bound_to_def split: option.split)

lemma seat_connected_iff: "seat_connected s \<longleftrightarrow> (\<exists>b. binding s = Some b \<and> connected b)"
  by (simp add: seat_connected_def split: option.split)

lemma bound_to_upd [simp]:
  "bound_to k (s\<lparr>known_state := x\<rparr>) = bound_to k s"
  "bound_to k (s\<lparr>binding := Some c\<rparr>) = (b_source c = k)"
  "bound_to k (s\<lparr>binding := None\<rparr>) = False"
  "bound_to k (set_connected v s) = bound_to k s"
  by (auto simp: bound_to_iff set_connected_def)

lemma seat_connected_upd [simp]:
  "seat_connected (s\<lparr>known_state := x\<rparr>) = seat_connected s"
  "seat_connected (s\<lparr>binding := Some c\<rparr>) = connected c"
  "seat_connected (s\<lparr>binding := None\<rparr>) = False"
  "seat_connected (set_connected v s) = (v \<and> binding s \<noteq> None)"
  by (auto simp: seat_connected_iff set_connected_def)

lemma set_connected_sel [simp]:
  "slot (set_connected v s) = slot s"
  "known_state (set_connected v s) = known_state s"
  "(binding (set_connected v s) = None) = (binding s = None)"
  by (simp_all add: set_connected_def)

lemma quiet_upd [simp]:
  "quiet (s\<lparr>binding := x\<rparr>) = quiet s" "quiet (set_connected v s) = quiet s"
  "quiet (s\<lparr>known_state := None\<rparr>)" "quiet (s\<lparr>known_state := Some neutral\<rparr>)"
  by (simp_all add: quiet_def)

lemma update_seat_sel [simp]:
  "seats (update_seat i f p) = (seats p)[i := f (seats p ! i)]"
  "session (update_seat i f p) = session p" "backend (update_seat i f p) = backend p"
  by (simp_all add: update_seat_def)

lemma pool_index_SomeD:
  "pool_index p k = Some i \<Longrightarrow> i < length (seats p) \<and> bound_to k (seats p ! i)"
  unfolding pool_index_def by (drule position_SomeD) simp

lemma pool_index_None_iff:
  "pool_index p k = None \<longleftrightarrow> (\<forall>i < length (seats p). \<not> bound_to k (seats p ! i))"
  by (simp add: pool_index_def all_set_conv_all_nth)

lemma sole_sourcesD:
  "sole_sources ss \<Longrightarrow> i < length ss \<Longrightarrow> j < length ss \<Longrightarrow> bound_to k (ss ! i) \<Longrightarrow>
   bound_to k (ss ! j) \<Longrightarrow> i = j"
  unfolding sole_sources_def by blast

lemma pool_index_eqI:
  assumes "sole_sources (seats p)" and "i < length (seats p)" and "bound_to k (seats p ! i)"
  shows "pool_index p k = Some i"
proof (cases "pool_index p k")
  case None
  with assms show ?thesis by (simp add: pool_index_None_iff)
next
  case (Some j)
  with assms show ?thesis using pool_index_SomeD [OF Some] sole_sourcesD by metis
qed

subsection \<open>Writes\<close>

lemma pool_write_char:
  assumes "pool_write ops i g p = (r, p')" and "i < length (seats p)"
  shows "seats p' = (seats p)[i := (seats p ! i)\<lparr>known_state := if is_ok r then Some g else None\<rparr>]"
    and "session p' = session p"
proof -
  obtain w b where wb: "be_write_state ops (slot (seats p ! i)) g (backend p) = (w, b)"
    by (cases "be_write_state ops (slot (seats p ! i)) g (backend p)")
  have "known_state (seats p ! i) = Some g \<Longrightarrow> (seats p)[i := (seats p ! i)\<lparr>known_state := Some g\<rparr>] = seats p"
    by (metis list_update_id seat.surjective seat.update_convs(3))
  with assms wb show "seats p' = (seats p)[i := (seats p ! i)\<lparr>known_state := if is_ok r then Some g else None\<rparr>]"
    by (cases w) (auto simp: pool_write_def Let_def update_seat_def split: if_splits)
  from assms wb show "session p' = session p"
    by (cases w) (auto simp: pool_write_def Let_def update_seat_def split: if_splits)
qed

lemma pool_inv_seat:
  assumes inv: "pool_inv p" and i: "i < length (seats p)"
    and eq: "seats q = (seats p)[i := s']" "session q = session p"
    and s': "slot s' = slot (seats p ! i)"
      "\<And>k j. bound_to k s' \<Longrightarrow> j < length (seats p) \<Longrightarrow> j \<noteq> i \<Longrightarrow> \<not> bound_to k (seats p ! j)"
      "\<not> seat_connected s' \<Longrightarrow> quiet s'"
  shows "pool_inv q"
proof -
  have nth: "seats q ! j = (if j = i then s' else seats p ! j)" if "j < length (seats p)" for j
    using that eq(1) by (simp add: nth_list_update)
  have len: "length (seats q) = length (seats p)" by (simp add: eq(1))
  have "sole_sources (seats q)"
    unfolding sole_sources_def len
  proof (intro allI impI)
    fix a b k
    assume a: "a < length (seats p)" and b: "b < length (seats p)"
      and "bound_to k (seats q ! a)" "bound_to k (seats q ! b)"
    then show "a = b"
      using s'(2) [of k] sole_sourcesD [OF pool_invD(3) [OF inv] a b, of k]
      by (auto simp: nth [OF a] nth [OF b] split: if_splits)
  qed
  then show ?thesis
    using pool_invD [OF inv] i s'(1,3) by (auto simp: pool_inv_def len nth eq(2))
qed

lemma pool_write_inv:
  assumes "pool_inv p" and "pool_write ops i g p = (r, p')" and i: "i < length (seats p)"
    and "seat_connected (seats p ! i) \<or> g = neutral"
  shows "pool_inv p'"
  using assms(1) i pool_write_char [OF assms(2) i]
proof (rule pool_inv_seat)
  show "\<not> bound_to k (seats p ! j)"
    if "bound_to k ((seats p ! i)\<lparr>known_state := if is_ok r then Some g else None\<rparr>)"
      "j < length (seats p)" "j \<noteq> i" for k j
    using that sole_sourcesD [OF pool_invD(3) [OF assms(1)] i that(2), of k] by auto
qed (use assms(4) in auto)

subsection \<open>Neutral loops\<close>

definition seat_after :: "bool \<Rightarrow> bool \<Rightarrow> 'k seat \<Rightarrow> 'k seat" where
  "seat_after unbind failed s =
     (if failed then s\<lparr>known_state := None\<rparr>
      else s\<lparr>known_state := Some neutral, binding := if unbind then None else binding s\<rparr>)"

lemma neutral_loop_char:
  assumes "neutral_loop ops guard unbind xs p = (es, p')" and "distinct xs"
    and "\<forall>i \<in> set xs. i < length (seats p)"
  obtains F where "F \<subseteq> {i \<in> set xs. guard (seats p ! i)}" and "F = {} \<longleftrightarrow> es = []"
    and "length (seats p') = length (seats p)" and "session p' = session p"
    and "\<And>j. j < length (seats p) \<Longrightarrow> seats p' ! j =
      (if j \<in> set xs \<and> guard (seats p ! j) then seat_after unbind (j \<in> F) (seats p ! j) else seats p ! j)"
proof -
  have "\<exists>F \<subseteq> {i \<in> set xs. guard (seats p ! i)}. (F = {} \<longleftrightarrow> es = []) \<and>
      length (seats p') = length (seats p) \<and> session p' = session p \<and>
      (\<forall>j < length (seats p). seats p' ! j =
        (if j \<in> set xs \<and> guard (seats p ! j) then seat_after unbind (j \<in> F) (seats p ! j) else seats p ! j))"
    using assms
  proof (induction xs arbitrary: p es)
    case (Cons i xs)
    have i: "i < length (seats p)" and notin: "i \<notin> set xs" and d: "distinct xs"
      using Cons.prems(2,3) by simp_all
    show ?case
    proof (cases "guard (seats p ! i)")
      case False
      with Cons.prems(1) have "neutral_loop ops guard unbind xs p = (es, p')" by simp
      from Cons.IH [OF this d] Cons.prems(3) obtain F where F: "F \<subseteq> {i \<in> set xs. guard (seats p ! i)}"
        "F = {} \<longleftrightarrow> es = []" "length (seats p') = length (seats p)" "session p' = session p"
        "\<forall>j < length (seats p). seats p' ! j = (if j \<in> set xs \<and> guard (seats p ! j)
           then seat_after unbind (j \<in> F) (seats p ! j) else seats p ! j)" by auto
      with False show ?thesis by (intro exI [of _ F]) auto
    next
      case True
      obtain r q where w: "pool_write ops i neutral p = (r, q)"
        by (cases "pool_write ops i neutral p")
      note ch = pool_write_char [OF w i]
      let ?q = "if is_ok r \<and> unbind then update_seat i (\<lambda>s. s\<lparr>binding := None\<rparr>) q else q"
      obtain es' where l: "neutral_loop ops guard unbind xs ?q = (es', p')"
        and es: "es = [] \<longleftrightarrow> is_ok r \<and> es' = []"
        using Cons.prems(1) w True by (cases r) (auto split: prod.splits)
      have q: "length (seats ?q) = length (seats p)" "session ?q = session p"
        "seats ?q ! j = (if j = i then seat_after unbind (\<not> is_ok r) (seats p ! i) else seats p ! j)"
        if "j < length (seats p)" for j
        using that ch i by (cases r; auto simp: seat_after_def nth_list_update)+
      from q(1) [OF i] Cons.prems(3) have "\<forall>j \<in> set xs. j < length (seats ?q)" by simp
      from Cons.IH [OF l d this] obtain F where F: "F \<subseteq> {j \<in> set xs. guard (seats ?q ! j)}"
        "F = {} \<longleftrightarrow> es' = []" "length (seats p') = length (seats ?q)" "session p' = session ?q"
        "\<forall>j < length (seats ?q). seats p' ! j = (if j \<in> set xs \<and> guard (seats ?q ! j)
           then seat_after unbind (j \<in> F) (seats ?q ! j) else seats ?q ! j)" by blast
      let ?F = "if is_ok r then F else insert i F"
      have iF: "i \<notin> F" using F(1) notin by auto
      have sub: "?F \<subseteq> {j \<in> set (i # xs). guard (seats p ! j)}"
        using F(1) q(3) True Cons.prems(3) notin by (auto split: if_splits)
      have ne: "?F = {} \<longleftrightarrow> es = []" using es F(2) by auto
      have "seats p' ! j = (if j \<in> set (i # xs) \<and> guard (seats p ! j)
          then seat_after unbind (j \<in> ?F) (seats p ! j) else seats p ! j)"
        if "j < length (seats p)" for j
        using iF F(5) [rule_format, of j] q [OF that] notin True that by (auto split: if_splits)
      with sub ne F(3,4) q [OF i] show ?thesis by (intro exI [of _ ?F]) auto
    qed
  qed (auto)
  then show thesis using that by blast
qed

lemma seat_after_sel [simp]:
  "slot (seat_after u f s) = slot s" "quiet (seat_after u f s)"
  "bound_to k (seat_after u f s) \<longleftrightarrow> bound_to k s \<and> (f \<or> \<not> u)"
  by (auto simp: seat_after_def quiet_def bound_to_iff)

lemma neutral_loop_inv:
  assumes "pool_inv p" and l: "neutral_loop ops guard unbind [0..<length (seats p)] p = (es, p')"
  shows "pool_inv p'"
proof -
  from l obtain F where F: "F \<subseteq> {i \<in> set [0..<length (seats p)]. guard (seats p ! i)}"
    "F = {} \<longleftrightarrow> es = []"
    "length (seats p') = length (seats p)" "session p' = session p"
    "\<And>j. j < length (seats p) \<Longrightarrow> seats p' ! j = (if j \<in> set [0..<length (seats p)] \<and> guard (seats p ! j)
      then seat_after unbind (j \<in> F) (seats p ! j) else seats p ! j)"
    by (rule neutral_loop_char) simp_all
  have b: "bound_to k (seats p' ! j) \<Longrightarrow> bound_to k (seats p ! j)" if "j < length (seats p)" for j k
    using F(5) [OF that] by (auto split: if_splits)
  have "sole_sources (seats p')"
    using b sole_sourcesD [OF pool_invD(3) [OF assms(1)]] unfolding sole_sources_def F(3) by metis
  with pool_invD [OF assms(1)] show ?thesis
    by (auto simp: pool_inv_def F(3,4,5))
qed

subsection \<open>Every operation keeps the invariant\<close>

text \<open>The seats after a connect, reserve, disconnect or write: one seat changes, or none.\<close>

definition target :: "('k, 'b) seat_pool \<Rightarrow> 'k \<Rightarrow> nat option" where
  "target p k =
     (case pool_index p k of
        Some i \<Rightarrow> Some i
      | None \<Rightarrow> position (\<lambda>s. binding s = None) (seats p))"

definition bind_seat :: "'k \<Rightarrow> 'k seat \<Rightarrow> 'k seat" where
  "bind_seat k s = s\<lparr>known_state := Some neutral, binding := Some \<lparr>b_source = k, connected = True\<rparr>\<rparr>"

lemma target_SomeD:
  assumes "target p k = Some i"
  shows "i < length (seats p)" and "bound_to k (seats p ! i) \<or> (pool_index p k = None \<and> binding (seats p ! i) = None)"
  using assms by (auto simp: target_def split: option.splits dest: pool_index_SomeD position_SomeD)

lemma target_sole:
  assumes "sole_sources (seats p)" and t: "target p k = Some i" and "j < length (seats p)" and "j \<noteq> i"
  shows "\<not> bound_to k (seats p ! j)"
  using target_SomeD [OF t] assms sole_sourcesD [of "seats p" i j k]
  by (auto simp: pool_index_None_iff)

lemma pool_connect_cases [consumes 1, case_names same full failed bound]:
  assumes "pool_connect ops k p = (r, p')"
  obtains i where "pool_index p k = Some i" "seat_connected (seats p ! i)" "r = Ok (slot (seats p ! i))" "p' = p"
  | "target p k = None" "r = Err NoSeat" "p' = p"
  | i e where "target p k = Some i" "r = Err (BackendError e)" "\<not> seat_connected (seats p ! i)"
      "seats p' = (seats p)[i := (seats p ! i)\<lparr>known_state := None\<rparr>]" "session p' = session p"
  | i where "target p k = Some i" "r = Ok (slot (seats p ! i))" "\<not> seat_connected (seats p ! i)"
      "seats p' = (seats p)[i := bind_seat k (seats p ! i)]" "session p' = session p"
proof (cases "\<exists>i. pool_index p k = Some i \<and> seat_connected (seats p ! i)")
  case True
  then obtain i where i: "pool_index p k = Some i" "seat_connected (seats p ! i)" by blast
  with assms show thesis by (intro that(1) [OF i]) (auto simp: pool_connect_def)
next
  case no: False
  show thesis
  proof (cases "target p k")
    case None
    then have "pool_index p k = None" "position (\<lambda>s. binding s = None) (seats p) = None"
      by (simp_all add: target_def del: position_None split: option.splits)
    with assms None show thesis
      by (intro that(2)) (simp_all add: pool_connect_def del: position_None)
  next
    case (Some i)
    obtain w q where w: "pool_write ops i neutral p = (w, q)" by (cases "pool_write ops i neutral p")
    have i: "i < length (seats p)" by (rule target_SomeD(1) [OF Some])
    note ch = pool_write_char [OF w i]
    have nc: "\<not> seat_connected (seats p ! i)"
      using no Some
      by (auto simp: target_def seat_connected_iff split: option.splits dest: position_SomeD)
    have eq: "pool_connect ops k p = (case pool_write ops i neutral p of
        (Err e, p1) \<Rightarrow> (Err (BackendError e), p1)
      | (Ok _, p1) \<Rightarrow> let p2 = update_seat i (\<lambda>s. s\<lparr>binding := Some \<lparr>b_source = k, connected = True\<rparr>\<rparr>) p1
                    in (Ok (slot (seats p2 ! i)), p2))"
      using Some nc by (auto simp: pool_connect_def target_def simp del: position_None split: option.splits)
    show thesis
    proof (cases w)
      case (Ok u)
      with assms eq w ch i have "r = Ok (slot (seats p ! i))"
        "seats p' = (seats p)[i := bind_seat k (seats p ! i)]" "session p' = session p"
        by (auto simp: bind_seat_def Let_def)
      with Some nc show thesis by (intro that(4))
    next
      case (Err e)
      with assms eq w ch have "r = Err (BackendError e)"
        "seats p' = (seats p)[i := (seats p ! i)\<lparr>known_state := None\<rparr>]" "session p' = session p"
        by auto
      with Some nc show thesis by (intro that(3))
    qed
  qed
qed

lemma bind_seat_sel [simp]:
  "slot (bind_seat k s) = slot s" "bound_to k' (bind_seat k s) \<longleftrightarrow> k = k'"
  "seat_connected (bind_seat k s)" "known_state (bind_seat k s) = Some neutral"
  "binding (bind_seat k s) = Some \<lparr>b_source = k, connected = True\<rparr>"
  by (auto simp: bind_seat_def bound_to_iff seat_connected_iff)

lemma pool_connect_inv:
  assumes inv: "pool_inv p" and c: "pool_connect ops k p = (r, p')"
  shows "pool_inv p'"
  using c
proof (cases rule: pool_connect_cases)
  case (failed i e)
  have i: "i < length (seats p)" by (rule target_SomeD(1) [OF failed(1)])
  show ?thesis
    using inv i failed(4,5)
    by (rule pool_inv_seat) (use sole_sourcesD [OF pool_invD(3) [OF inv] i] in auto)
next
  case (bound i)
  have i: "i < length (seats p)" by (rule target_SomeD(1) [OF bound(1)])
  show ?thesis
    using inv i bound(4,5)
    by (rule pool_inv_seat) (use target_sole [OF pool_invD(3) [OF inv] bound(1)] in auto)
qed (use inv in simp_all)

lemma reserve_cases [consumes 2, case_names stale same failed bound]:
  assumes "reserve ops sid k p = (r, p')" and inv: "pool_inv p"
  obtains "session p \<noteq> Some sid" "r = Err StaleSession" "p' = p"
  | i where "session p = Some sid" "pool_index p k = Some i" "r = Ok (slot (seats p ! i))" "p' = p"
  | e where "session p = Some sid" "pool_index p k = None" "pool_connect ops k p = (Err e, p')" "r = Err e"
  | i where "session p = Some sid" "pool_index p k = None" "r = Ok (slot (seats p ! i))"
      "position (\<lambda>s. binding s = None) (seats p) = Some i"
      "seats p' = (seats p)[i := set_connected False (bind_seat k (seats p ! i))]" "session p' = session p"
proof (cases "session p = Some sid")
  case False
  with assms(1) show thesis by (intro that(1)) (simp_all add: reserve_def)
next
  case s: True
  show thesis
  proof (cases "pool_index p k")
    case (Some i)
    with s assms(1) show thesis by (intro that(2)) (auto simp: reserve_def)
  next
    case None
    obtain c q where c: "pool_connect ops k p = (c, q)" by (cases "pool_connect ops k p")
    show thesis
    proof (cases c)
      case (Err e)
      with s None c assms(1) show thesis by (intro that(3) [of e]) (simp_all add: reserve_def)
    next
      case (Ok n)
      with c None obtain i where b: "target p k = Some i" "n = slot (seats p ! i)"
        "seats q = (seats p)[i := bind_seat k (seats p ! i)]" "session q = session p"
        by (cases rule: pool_connect_cases) simp_all
      have i: "i < length (seats p)" by (rule target_SomeD(1) [OF b(1)])
      with b Ok None c s assms(1) pool_invD(2) [OF inv i] show thesis
        by (intro that(4) [of i]) (auto simp: reserve_def target_def)
    qed
  qed
qed

lemma reserve_inv:
  assumes inv: "pool_inv p" and c: "reserve ops sid k p = (r, p')"
  shows "pool_inv p'"
  using c inv
proof (cases rule: reserve_cases)
  case (failed e)
  with inv show ?thesis by (blast intro: pool_connect_inv)
next
  case (bound i)
  have i: "i < length (seats p)" using position_SomeD [OF bound(4)] by simp
  show ?thesis
    using inv i bound(5,6)
    by (rule pool_inv_seat) (use bound(2) in \<open>auto simp: pool_index_None_iff quiet_def\<close>)
qed (use inv in simp_all)

lemma pool_disconnect_cases [consumes 1, case_names unknown failed kept freed]:
  assumes "pool_disconnect ops k p = (r, p')"
  obtains "pool_index p k = None" "r = Err UnknownSourceKey" "p' = p"
  | i e where "pool_index p k = Some i" "r = Err (BackendError e)" "session p' = session p"
      "seats p' = (seats p)[i := (set_connected False (seats p ! i))\<lparr>known_state := None\<rparr>]"
  | i where "pool_index p k = Some i" "r = Ok (slot (seats p ! i))" "session p \<noteq> None" "session p' = session p"
      "seats p' = (seats p)[i := (set_connected False (seats p ! i))\<lparr>known_state := Some neutral\<rparr>]"
  | i where "pool_index p k = Some i" "r = Ok (slot (seats p ! i))" "session p = None" "session p' = session p"
      "seats p' = (seats p)[i := (seats p ! i)\<lparr>known_state := Some neutral, binding := None\<rparr>]"
proof (cases "pool_index p k")
  case None
  with assms show thesis by (intro that(1)) (simp_all add: pool_disconnect_def)
next
  case (Some i)
  then have i: "i < length (seats p)" by (blast dest: pool_index_SomeD)
  let ?p = "update_seat i (set_connected False) p"
  obtain w q where w: "pool_write ops i neutral ?p = (w, q)" by (cases "pool_write ops i neutral ?p")
  from i have "i < length (seats ?p)" by simp
  note ch = pool_write_char [OF w this]
  show thesis
  proof (cases w)
    case (Err e)
    with assms Some w ch i show thesis
      by (intro that(2) [of i e]) (auto simp: pool_disconnect_def)
  next
    case (Ok u)
    with assms Some w ch i show thesis
      by (cases "session p")
         (rule that(4) [of i] that(3) [of i]; auto simp: pool_disconnect_def Let_def set_connected_def)+
  qed
qed

lemma pool_disconnect_inv:
  assumes inv: "pool_inv p" and c: "pool_disconnect ops k p = (r, p')"
  shows "pool_inv p'"
proof -
  have upd: "pool_inv p'"
    if "pool_index p k = Some i" "seats p' = (seats p)[i := s']" "session p' = session p"
      "slot s' = slot (seats p ! i)" "quiet s'"
      "\<And>k'. bound_to k' s' \<Longrightarrow> bound_to k' (seats p ! i)" for i s'
  proof -
    from that(1) have i: "i < length (seats p)" by (blast dest: pool_index_SomeD)
    show ?thesis
      using inv i that(2,3)
      by (rule pool_inv_seat) (use that sole_sourcesD [OF pool_invD(3) [OF inv] i] in auto)
  qed
  from c show ?thesis
  proof (cases rule: pool_disconnect_cases)
    case (failed i e)
    show ?thesis by (rule upd [OF failed(1,4,3)]) (simp_all add: quiet_def)
  next
    case (kept i)
    show ?thesis by (rule upd [OF kept(1,5,4)]) (simp_all add: quiet_def)
  next
    case (freed i)
    show ?thesis by (rule upd [OF freed(1,5,4)]) (simp_all add: quiet_def)
  qed (use inv in simp_all)
qed

lemma pool_write_state_cases [consumes 1, case_names unknown disconnected written]:
  assumes "pool_write_state ops k g p = (r, p')"
  obtains "pool_index p k = None" "r = Err UnknownSourceKey" "p' = p"
  | i where "pool_index p k = Some i" "\<not> seat_connected (seats p ! i)" "r = Err DisconnectedSource" "p' = p"
  | i w where "pool_index p k = Some i" "seat_connected (seats p ! i)" "pool_write ops i g p = (w, p')"
      "r = (case w of Ok _ \<Rightarrow> Ok (slot (seats p ! i)) | Err e \<Rightarrow> Err (BackendError e))"
proof (cases "pool_index p k")
  case None
  with assms show thesis by (intro that(1)) (simp_all add: pool_write_state_def)
next
  case (Some i)
  then have i: "i < length (seats p)" by (blast dest: pool_index_SomeD)
  show thesis
  proof (cases "seat_connected (seats p ! i)")
    case False
    with assms Some show thesis by (intro that(2)) (auto simp: pool_write_state_def)
  next
    case True
    obtain w q where w: "pool_write ops i g p = (w, q)" by (cases "pool_write ops i g p")
    from assms Some True w pool_write_char(1) [OF w i] i show thesis
      by (intro that(3) [of i w]) (auto simp: pool_write_state_def split: result.splits)
  qed
qed

lemma pool_write_state_inv:
  assumes inv: "pool_inv p" and c: "pool_write_state ops k g p = (r, p')"
  shows "pool_inv p'"
  using c
proof (cases rule: pool_write_state_cases)
  case (written i w)
  then have "i < length (seats p)" by (blast dest: pool_index_SomeD)
  with inv written show ?thesis by (blast intro: pool_write_inv)
qed (use inv in simp_all)

lemma neutralize_inv: "pool_inv p \<Longrightarrow> neutralize ops p = (r, p') \<Longrightarrow> pool_inv p'"
  by (auto simp: neutralize_def split: prod.splits intro: neutral_loop_inv)

lemma begin_session_inv: "pool_inv p \<Longrightarrow> begin_session sid p = (r, p') \<Longrightarrow> pool_inv p'"
  by (auto simp: begin_session_def validate_launch_id_def pool_inv_def split: if_splits)

lemma pool_inv_session_None: "pool_inv p \<Longrightarrow> pool_inv (p\<lparr>session := None\<rparr>)"
  by (simp add: pool_inv_def)

lemma pool_inv_backend [simp]: "pool_inv (p\<lparr>backend := b\<rparr>) = pool_inv p"
  by (simp add: pool_inv_def)

lemma end_session_inv: "pool_inv p \<Longrightarrow> end_session ops sid p = (r, p') \<Longrightarrow> pool_inv p'"
  by (auto simp: end_session_def Let_def split: prod.splits if_splits
      intro: neutral_loop_inv pool_inv_session_None)

lemma release_all_inv: "pool_inv p \<Longrightarrow> release_all ops sid p = (r, p') \<Longrightarrow> pool_inv p'"
  by (auto simp: release_all_def split: prod.splits if_splits intro: neutral_loop_inv)

subsection \<open>Creation and resizing keep the invariant\<close>

lemma add_seat_char:
  assumes "add_seat ops n p = (r, p')"
  obtains e where "r = Err e" "seats p' = seats p" "session p' = session p"
  | x where "seats p' = seats p @ [\<lparr>slot = n, binding = None, known_state = x\<rparr>]" "session p' = session p"
      "x = (if is_ok r then Some neutral else None)"
proof -
  obtain c b where c: "be_create ops (for_slot n) (backend p) = (c, b)"
    by (cases "be_create ops (for_slot n) (backend p)")
  show thesis
  proof (cases c)
    case (Err e)
    with assms c show thesis by (intro that(1) [of e]) (auto simp: add_seat_def)
  next
    case (Ok u)
    let ?q = "p\<lparr>backend := b, seats := seats p @ [\<lparr>slot = n, binding = None, known_state = None\<rparr>]\<rparr>"
    have "pool_write ops (length (seats p)) neutral ?q = (r, p')"
      using assms c Ok by (simp add: add_seat_def)
    from pool_write_char [OF this] show thesis by (intro that(2)) simp_all
  qed
qed

lemma pool_inv_snoc:
  assumes "pool_inv p" and "length (seats p) < 255" and "n = Suc (length (seats p))"
    and "seats q = seats p @ [\<lparr>slot = n, binding = None, known_state = x\<rparr>]" "session q = session p"
    and "x = None \<or> x = Some neutral"
  shows "pool_inv q"
proof -
  have "sole_sources (seats q)"
    unfolding sole_sources_def assms(4)
  proof (intro allI impI)
    fix i j k
    let ?new = "\<lparr>slot = n, binding = None, known_state = x\<rparr> :: 'a seat"
    assume "i < length (seats p @ [?new])" "j < length (seats p @ [?new])"
      and "bound_to k ((seats p @ [?new]) ! i)" "bound_to k ((seats p @ [?new]) ! j)"
    then show "i = j"
      using sole_sourcesD [OF pool_invD(3) [OF assms(1)], of i j k]
      by (auto simp: nth_append less_Suc_eq bound_to_def)
  qed
  with pool_invD [OF assms(1)] assms(2-) show ?thesis
    by (auto simp: pool_inv_def nth_append less_Suc_eq quiet_def)
qed

lemma add_seat_inv:
  assumes "pool_inv p" and "length (seats p) < 255" and "add_seat ops (Suc (length (seats p))) p = (r, p')"
  shows "pool_inv p'" and "session p' = session p"
    and "length (seats p') \<le> Suc (length (seats p))" and "is_ok r \<Longrightarrow> length (seats p') = Suc (length (seats p))"
proof -
  have "pool_inv p' \<and> session p' = session p \<and> length (seats p') \<le> Suc (length (seats p)) \<and>
      (is_ok r \<longrightarrow> length (seats p') = Suc (length (seats p)))"
    using assms(3)
  proof (rule add_seat_char)
    fix e
    assume "r = Err e" "seats p' = seats p" "session p' = session p"
    with assms(1) show ?thesis by (simp add: pool_inv_def)
  next
    fix x
    assume a: "seats p' = seats p @ [\<lparr>slot = Suc (length (seats p)), binding = None, known_state = x\<rparr>]"
      "session p' = session p" "x = (if is_ok r then Some neutral else None)"
    from pool_inv_snoc [OF assms(1,2) refl a(1,2)] a show ?thesis by auto
  qed
  then show "pool_inv p'" "session p' = session p" "length (seats p') \<le> Suc (length (seats p))"
    "is_ok r \<Longrightarrow> length (seats p') = Suc (length (seats p))" by blast+
qed

lemma add_seats_inv:
  assumes "pool_inv p" and "length (seats p) \<le> count" and "count < 256"
    and "add_seats ops [Suc (length (seats p))..<Suc count] p = (Ok u, p')"
  shows "pool_inv p' \<and> length (seats p') = count \<and> session p' = session p"
  using assms
proof (induction "count - length (seats p)" arbitrary: p)
  case 0
  then show ?case by simp
next
  case (Suc n)
  then have lt: "length (seats p) < count" by simp
  then have "[Suc (length (seats p))..<Suc count] =
      Suc (length (seats p)) # [Suc (Suc (length (seats p)))..<Suc count]"
    by (simp add: upt_conv_Cons)
  with Suc.prems(4) obtain v q where
    a: "add_seat ops (Suc (length (seats p))) p = (Ok v, q)"
      "add_seats ops [Suc (Suc (length (seats p)))..<Suc count] q = (Ok u, p')"
    by (auto split: prod.splits result.splits)
  from lt Suc.prems(3) have "length (seats p) < 255" by simp
  note q = add_seat_inv [OF Suc.prems(1) this a(1)]
  from q(4) have len: "length (seats q) = Suc (length (seats p))" by simp
  have "pool_inv p' \<and> length (seats p') = count \<and> session p' = session q"
    by (rule Suc.hyps(1)) (use q len lt Suc.hyps(2) Suc.prems(3) a(2) in simp_all)
  with q(2) show ?case by simp
qed

lemma pool_new_inv:
  fixes p :: "('k, 'b) seat_pool"
  assumes "pool_new ops count b = Ok p" and "count < 256"
  shows "pool_inv p" and "length (seats p) = count" and "session p = None"
proof -
  let ?e = "\<lparr>backend = b, seats = [], session = None\<rparr> :: ('k, 'b) seat_pool"
  obtain r q where a: "add_seats ops [1..<Suc count] ?e = (r, q)" by (cases "add_seats ops [1..<Suc count] ?e")
  with assms(1) have "is_ok r" "q = p"
    by (cases r; simp add: pool_new_def del: upt_Suc split: result.splits)+
  with a obtain u where "add_seats ops [Suc (length (seats ?e))..<Suc count] ?e = (Ok u, p)"
    by (cases r) (simp_all del: upt_Suc)
  moreover have "pool_inv ?e" by (simp add: pool_inv_def sole_sources_def)
  ultimately have "pool_inv p \<and> length (seats p) = count \<and> session p = session ?e"
    using assms(2) by (intro add_seats_inv [of ?e]) (simp_all del: upt_Suc)
  then show "pool_inv p" "length (seats p) = count" "session p = None" by simp_all
qed

lemma pool_inv_take:
  assumes "pool_inv p" and "seats q = take n (seats p)" and "session q = session p"
  shows "pool_inv q"
proof -
  have "sole_sources (seats q)"
    using pool_invD(3) [OF assms(1)] by (simp add: sole_sources_def assms(2))
  with pool_invD [OF assms(1)] assms(2,3) show ?thesis by (auto simp: pool_inv_def)
qed

lemma shrink_by_seats:
  assumes "shrink_by ops n p = (r, p')" and "n \<le> length (seats p)"
  shows "\<exists>m \<le> n. seats p' = take (length (seats p) - m) (seats p) \<and> (is_ok r \<longrightarrow> m = n)"
    and "session p' = session p"
proof -
  have "(\<exists>m \<le> n. seats p' = take (length (seats p) - m) (seats p) \<and> (is_ok r \<longrightarrow> m = n)) \<and> session p' = session p"
    using assms
  proof (induction n arbitrary: p)
    case (Suc n)
    obtain d b where d: "be_destroy ops (slot (last (seats p))) (backend p) = (d, b)"
      by (cases "be_destroy ops (slot (last (seats p))) (backend p)")
    show ?case
    proof (cases d)
      case (Err e)
      with d Suc.prems show ?thesis by (auto intro!: exI [of _ 0])
    next
      case (Ok u)
      let ?q = "p\<lparr>backend := b, seats := butlast (seats p)\<rparr>"
      have "shrink_by ops n ?q = (r, p')" "n \<le> length (seats ?q)" using d Ok Suc.prems by simp_all
      from Suc.IH [OF this] obtain m where m: "m \<le> n"
        "seats p' = take (length (seats p) - 1 - m) (butlast (seats p))" "is_ok r \<longrightarrow> m = n"
        "session p' = session p" by auto
      from Suc.prems(2) have "take (length (seats p) - 1 - m) (butlast (seats p)) =
          take (length (seats p) - Suc m) (seats p)"
        by (simp add: butlast_conv_take take_take min_def)
      with m show ?thesis by (auto intro!: exI [of _ "Suc m"])
    qed
  qed simp
  then show "\<exists>m \<le> n. seats p' = take (length (seats p) - m) (seats p) \<and> (is_ok r \<longrightarrow> m = n)"
    "session p' = session p" by blast+
qed

lemma grow_by_inv:
  assumes "pool_inv p" and "length (seats p) + n < 256" and "grow_by ops n p = (r, p')"
  shows "pool_inv p' \<and> session p' = session p \<and> (is_ok r \<longrightarrow> length (seats p') = length (seats p) + n)"
  using assms
proof (induction n arbitrary: p)
  case (Suc n)
  from Suc.prems(2) have lt: "length (seats p) < 255" and cnt: "pool_count p + 1 = Suc (length (seats p))"
    by (simp_all add: pool_count_def)
  obtain a q where a: "add_seat ops (Suc (length (seats p))) p = (a, q)"
    by (cases "add_seat ops (Suc (length (seats p))) p")
  note q = add_seat_inv [OF Suc.prems(1) lt a]
  show ?case
  proof (cases a)
    case (Err e)
    with a cnt q Suc.prems(3) show ?thesis by auto
  next
    case (Ok v)
    with q(4) have len: "length (seats q) = Suc (length (seats p))" by simp
    from Ok a cnt Suc.prems(3) have "grow_by ops n q = (r, p')" by simp
    from Suc.IH [OF q(1) _ this] len Suc.prems(2) q(2) show ?thesis by simp
  qed
qed simp

lemma neutral_loop_frame:
  assumes "neutral_loop ops guard unbind [0..<length (seats p)] p = (es, p')"
  shows "length (seats p') = length (seats p)" and "session p' = session p"
  using assms by (rule neutral_loop_char, simp_all)+

lemma neutralize_frame:
  assumes "neutralize ops p = (r, p')"
  shows "length (seats p') = length (seats p)" and "session p' = session p"
  using assms by (auto simp: neutralize_def split: prod.splits dest: neutral_loop_frame)

lemma resize_inv:
  assumes inv: "pool_inv p" and n: "n < 256" and r: "resize ops n p = (r, p')"
  shows "pool_inv p'" and "session p' = session p" and "is_ok r \<Longrightarrow> length (seats p') = n"
proof -
  have "pool_inv p' \<and> session p' = session p \<and> (is_ok r \<longrightarrow> length (seats p') = n)"
  proof (cases "session p \<noteq> None \<or> n = pool_count p")
    case True
    with r inv n pool_invD(1) [OF inv] show ?thesis by (auto simp: resize_def pool_count_def split: if_splits)
  next
    case False
    obtain w q where w: "neutralize ops p = (w, q)" by (cases "neutralize ops p")
    note q = neutralize_inv [OF inv w] neutralize_frame [OF w]
    obtain c t where c: "shrink_by ops (length (seats q) - n) q = (c, t)"
      by (cases "shrink_by ops (length (seats q) - n) q")
    from shrink_by_seats [OF c] obtain m where m: "m \<le> length (seats q) - n"
      "seats t = take (length (seats q) - m) (seats q)" "is_ok c \<longrightarrow> m = length (seats q) - n"
      "session t = session q" by auto
    have t: "pool_inv t" using q(1) m(2,4) by (rule pool_inv_take)
    obtain g s where g: "grow_by ops (n - length (seats t)) t = (g, s)"
      by (cases "grow_by ops (n - length (seats t)) t")
    have "length (seats t) + (n - length (seats t)) < 256" using n pool_invD(1) [OF t] by simp
    note s = grow_by_inv [OF t this g]
    from m have "is_ok c \<Longrightarrow> length (seats t) \<le> n" by auto
    with False r w c g q m t s show ?thesis
      by (cases w; cases c; cases g) (auto simp: resize_def)
  qed
  then show "pool_inv p'" "session p' = session p" "is_ok r \<Longrightarrow> length (seats p') = n" by blast+
qed

lemmas pool_op_inv = begin_session_inv end_session_inv release_all_inv pool_connect_inv reserve_inv
  pool_disconnect_inv pool_write_state_inv neutralize_inv

lemma pool_step_inv: "pool_inv p \<Longrightarrow> pool_inv (pool_step ops p x)"
  by (cases x) (auto intro: pool_op_inv [OF _ prod.collapse [symmetric]] resize_inv(1) [OF _ _ prod.collapse [symmetric]])

interpretation pool_machine: machine "pool_step ops" "pool_inv :: ('k, 'b) seat_pool \<Rightarrow> bool"
  for ops :: "'b seat_backend"
  by unfold_locales (rule pool_step_inv)

subsection \<open>What a pool promises\<close>

text \<open>An example backend that keeps a log of the states written, newest first, per slot.\<close>

definition example_backend :: "(nat \<times> gamepad_state) list seat_backend" where
  "example_backend = \<lparr>be_create = (\<lambda>sp b. (Ok (), b)),
     be_event_device = (\<lambda>n b. Ok (''/dev/input/event'' @ decimal n)),
     be_write_state = (\<lambda>n g b. (Ok (), (n, g) # b)),
     be_destroy = (\<lambda>n b. (Ok (), filter (\<lambda>(m, _). m \<noteq> n) b))\<rparr>"

definition example_sid :: string where
  "example_sid = replicate 32 (CHR ''a'')"

definition example_pool :: "(nat, (nat \<times> gamepad_state) list) seat_pool" where
  "example_pool = (case pool_new example_backend 2 [] of Ok p \<Rightarrow> p
     | Err _ \<Rightarrow> \<lparr>backend = [], seats = [], session = None\<rparr>)"

definition example_session_pool :: "(nat, (nat \<times> gamepad_state) list) seat_pool" where
  "example_session_pool = foldl (pool_step example_backend) example_pool [PoolBegin example_sid, PoolConnect 7]"

lemma example_pool_new: "pool_new example_backend 2 [] = Ok example_pool"
  by code_simp

text \<open>
  C5. For every backend, also one that fails at any point, and every sequence of requests after
  a successful creation: the seats stay in slot order, no source holds two seats, and a seat
  without a connected source is never known to present anything but the neutral state.
\<close>

theorem pool_seats_sound:
  assumes "pool_new ops count b = Ok p" and "count < 256"
    and q: "q = foldl (pool_step ops) p xs" and i: "i < length (seats q)"
  shows "slot (seats q ! i) = Suc i \<and>
    (\<forall>j < length (seats q). \<forall>k. bound_to k (seats q ! i) \<longrightarrow> bound_to k (seats q ! j) \<longrightarrow> j = i) \<and>
    (\<not> seat_connected (seats q ! i) \<longrightarrow> known_state (seats q ! i) \<in> {None, Some neutral})"
proof -
  have inv: "pool_inv q"
    unfolding q by (rule pool_machine.inv_run) (rule pool_new_inv(1) [OF assms(1,2)])
  then show ?thesis
    using i pool_invD(2,4) [OF inv i] sole_sourcesD [OF pool_invD(3) [OF inv]]
    by (auto simp: quiet_def)
qed

text \<open>Witness of C5: two sources connect to two seats, and one is lost inside a session.\<close>

theorem pool_seats_sound_witness:
  "slot (seats (foldl (pool_step example_backend) example_pool
     [PoolBegin example_sid, PoolConnect 7, PoolConnect 8, PoolDisconnect 7]) ! 0) = 1"
proof -
  have "0 < length (seats (foldl (pool_step example_backend) example_pool
     [PoolBegin example_sid, PoolConnect 7, PoolConnect 8, PoolDisconnect 7]))" by code_simp
  from pool_seats_sound [OF example_pool_new _ refl this] show ?thesis by simp
qed

lemma pool_slot_eq:
  "pool_inv p \<Longrightarrow> pool_slot p k = Some n \<longleftrightarrow> pool_index p k = Some (n - 1) \<and> 0 < n"
  using pool_invD(2) pool_index_SomeD
  by (cases "pool_index p k") (force simp: pool_slot_def)+

lemma pool_slot_None [simp]: "pool_slot p k = None \<longleftrightarrow> pool_index p k = None"
  by (simp add: pool_slot_def)

lemma target_free:
  assumes "pool_index p k = None" and "target p k = Some i"
  shows "binding (seats p ! i) = None \<and> (\<forall>j < i. binding (seats p ! j) \<noteq> None)"
  using assms position_SomeD [of "\<lambda>s. binding s = None" "seats p" i] by (simp add: target_def)

lemma target_None_iff:
  "target p k = None \<longleftrightarrow> pool_index p k = None \<and> (\<forall>s \<in> set (seats p). binding s \<noteq> None)"
  by (simp add: target_def split: option.splits)

lemma pool_connect_ok:
  assumes inv: "pool_inv p" and c: "pool_connect ops k p = (Ok n, p')"
  obtains i where "n = Suc i" "i < length (seats p)" "target p k = Some i" "pool_index p' k = Some i"
    "seat_connected (seats p' ! i)"
  using c
proof (cases rule: pool_connect_cases)
  case (same i)
  then have i: "i < length (seats p)" by (blast dest: pool_index_SomeD)
  show thesis
    by (rule that [of i]) (use same i pool_invD(2) [OF inv i] in \<open>simp_all add: target_def\<close>)
next
  case (bound i)
  have i: "i < length (seats p)" by (rule target_SomeD(1) [OF bound(1)])
  have "pool_index p' k = Some i"
    using pool_invD(3) [OF pool_connect_inv [OF inv c]] by (rule pool_index_eqI) (simp_all add: bound(4) i)
  then show thesis
    by (intro that [of i]) (use bound i pool_invD(2) [OF inv i] in simp_all)
qed simp_all

text \<open>
  Allocation by \<open>connect\<close>, for every backend: a source that holds a seat gets its own slot
  back (unless the neutral write fails), a new source gets the lowest free slot, the request is
  refused with \<open>NoSeat\<close> exactly when the source holds no seat and every seat is bound, success
  leaves the source connected on the returned slot, and no seat of another source changes.
\<close>

theorem connect_allocates:
  assumes inv: "pool_inv p" and c: "pool_connect ops k p = (r, p')"
  shows "(\<forall>n. pool_slot p k = Some n \<longrightarrow> r = Ok n \<or> (\<exists>e. r = Err (BackendError e))) \<and>
    (\<forall>n. pool_slot p k = None \<longrightarrow> r = Ok n \<longrightarrow> 0 < n \<and> binding (seats p ! (n - 1)) = None \<and>
      (\<forall>j < n - 1. binding (seats p ! j) \<noteq> None)) \<and>
    (r = Err NoSeat \<longleftrightarrow> pool_slot p k = None \<and> (\<forall>s \<in> set (seats p). binding s \<noteq> None)) \<and>
    (\<forall>n. r = Ok n \<longrightarrow> pool_slot p' k = Some n \<and> seat_connected (seats p' ! (n - 1))) \<and>
    (\<forall>j < length (seats p). binding (seats p ! j) \<noteq> None \<longrightarrow> \<not> bound_to k (seats p ! j) \<longrightarrow>
      seats p' ! j = seats p ! j)"
    (is "?own \<and> ?new \<and> ?full \<and> ?ok \<and> ?frame")
proof (intro conjI)
  have inv': "pool_inv p'" by (rule pool_connect_inv [OF inv c])
  show ?own
    using c by (cases rule: pool_connect_cases) (auto simp: target_def pool_slot_def)
  show ?new
  proof (intro allI impI)
    fix n
    assume none: "pool_slot p k = None" and "r = Ok n"
    with c have "pool_connect ops k p = (Ok n, p')" by simp
    from pool_connect_ok [OF inv this] obtain i where "n = Suc i" "target p k = Some i" .
    with none target_free [of p k i] show "0 < n \<and> binding (seats p ! (n - 1)) = None \<and>
        (\<forall>j < n - 1. binding (seats p ! j) \<noteq> None)" by simp
  qed
  show ?full
    unfolding pool_slot_None target_None_iff [symmetric]
    using c by (cases rule: pool_connect_cases) (simp_all, simp add: target_def)
  show ?ok
  proof (intro allI impI)
    fix n
    assume "r = Ok n"
    with c have "pool_connect ops k p = (Ok n, p')" by simp
    from pool_connect_ok [OF inv this] obtain i where "n = Suc i" "pool_index p' k = Some i"
      "seat_connected (seats p' ! i)" .
    then show "pool_slot p' k = Some n \<and> seat_connected (seats p' ! (n - 1))"
      by (simp add: pool_slot_eq [OF inv'])
  qed
  have other: "j \<noteq> i" if "target p k = Some i" "binding (seats p ! j) \<noteq> None" "\<not> bound_to k (seats p ! j)" for i j
    using target_SomeD(2) [OF that(1)] that by auto
  from c show ?frame
    by (cases rule: pool_connect_cases) (auto dest: other)
qed

text \<open>An instance: with source 7 on the first seat, a new source is given slot 2.\<close>

theorem connect_allocates_witness:
  "fst (pool_connect example_backend 9 example_session_pool) = Ok 2 \<and>
   seats (snd (pool_connect example_backend 9 example_session_pool)) ! 0 = seats example_session_pool ! 0"
proof -
  have inv: "pool_inv example_session_pool"
    unfolding example_session_pool_def
    by (rule pool_machine.inv_run) (rule pool_new_inv(1) [OF example_pool_new], simp)
  have "0 < length (seats example_session_pool)" "binding (seats example_session_pool ! 0) \<noteq> None"
    "\<not> bound_to 9 (seats example_session_pool ! 0)" by code_simp+
  moreover have "fst (pool_connect example_backend 9 example_session_pool) = Ok 2" by code_simp
  ultimately show ?thesis
    using connect_allocates [OF inv prod.collapse [symmetric], of 9 example_backend] by blast
qed

subsection \<open>How long a claim lasts\<close>

definition keeps_claim :: "'k \<Rightarrow> ('k, 'b) seat_pool \<Rightarrow> ('k, 'b) seat_pool \<Rightarrow> bool" where
  "keeps_claim k p p' \<longleftrightarrow> session p' = session p \<and>
     (\<forall>i. pool_index p k = Some i \<longrightarrow> i < length (seats p') \<and> bound_to k (seats p' ! i))"

lemma keeps_claim_refl [simp]: "keeps_claim k p p"
  by (auto simp: keeps_claim_def dest: pool_index_SomeD)

lemma keeps_claim_seat:
  assumes "seats p' = (seats p)[j := s']" and "session p' = session p"
    and "bound_to k (seats p ! j) \<Longrightarrow> bound_to k s'"
  shows "keeps_claim k p p'"
  unfolding keeps_claim_def
proof (intro conjI allI impI)
  fix i
  assume "pool_index p k = Some i"
  from pool_index_SomeD [OF this] show "i < length (seats p')" "bound_to k (seats p' ! i)"
    using assms by (cases "i = j"; simp)+
qed (rule assms(2))

lemma pool_connect_keeps:
  assumes c: "pool_connect ops k' p = (r, p')" and inv: "pool_inv p"
  shows "keeps_claim k p p'"
  using c
proof (cases rule: pool_connect_cases)
  case (failed i e)
  from failed(4,5) show ?thesis by (rule keeps_claim_seat) simp
next
  case (bound i)
  have "k = k'" if "bound_to k (seats p ! i)"
    using target_SomeD(2) [OF bound(1)] that by (auto simp: bound_to_iff)
  then show ?thesis by (intro keeps_claim_seat [OF bound(4,5)]) simp
qed simp_all

lemma reserve_keeps:
  assumes c: "reserve ops sid k' p = (r, p')" and inv: "pool_inv p"
  shows "keeps_claim k p p'"
  using c inv
proof (cases rule: reserve_cases)
  case (failed e)
  with inv show ?thesis by (blast intro: pool_connect_keeps)
next
  case (bound i)
  have "binding (seats p ! i) = None" using position_SomeD [OF bound(4)] by simp
  then show ?thesis by (intro keeps_claim_seat [OF bound(5,6)]) (simp add: bound_to_iff)
qed simp_all

lemma pool_disconnect_keeps:
  assumes c: "pool_disconnect ops k' p = (r, p')" and "session p \<noteq> None"
  shows "keeps_claim k p p'"
  using c
proof (cases rule: pool_disconnect_cases)
  case (failed i e)
  from failed(4,3) show ?thesis by (rule keeps_claim_seat) simp
next
  case (kept i)
  from kept(5,4) show ?thesis by (rule keeps_claim_seat) simp
qed (use assms(2) in simp_all)

lemma pool_write_state_keeps:
  assumes c: "pool_write_state ops k' g p = (r, p')"
  shows "keeps_claim k p p'"
  using c
proof (cases rule: pool_write_state_cases)
  case (written i w)
  then have "i < length (seats p)" by (blast dest: pool_index_SomeD)
  from pool_write_char [OF written(3) this] show ?thesis by (rule keeps_claim_seat) simp
qed simp_all

lemma neutral_loop_keeps:
  assumes "neutral_loop ops guard False [0..<length (seats p)] p = (es, p')"
  shows "keeps_claim k p p'"
proof -
  from assms obtain F where F: "F \<subseteq> {i \<in> set [0..<length (seats p)]. guard (seats p ! i)}" "F = {} \<longleftrightarrow> es = []"
    "length (seats p') = length (seats p)" "session p' = session p"
    "\<And>j. j < length (seats p) \<Longrightarrow> seats p' ! j = (if j \<in> set [0..<length (seats p)] \<and> guard (seats p ! j)
      then seat_after False (j \<in> F) (seats p ! j) else seats p ! j)"
    by (rule neutral_loop_char) simp_all
  then show ?thesis by (auto simp: keeps_claim_def dest!: pool_index_SomeD)
qed

lemma neutralize_keeps: "neutralize ops p = (r, p') \<Longrightarrow> keeps_claim k p p'"
  by (auto simp: neutralize_def split: prod.splits intro: neutral_loop_keeps)

lemma pool_step_keeps:
  assumes inv: "pool_inv p" and s: "session p = Some sid" and x: "x \<noteq> PoolEnd sid" "x \<noteq> PoolReleaseAll sid"
  shows "keeps_claim k p (pool_step ops p x)"
proof (cases x)
  case (PoolDisconnect k')
  moreover have "session p \<noteq> None" using s by simp
  ultimately show ?thesis by (simp add: pool_disconnect_keeps [OF prod.collapse [symmetric]])
qed (use s x in \<open>auto simp: begin_session_def validate_launch_id_def end_session_def release_all_def resize_def
      intro: pool_connect_keeps [OF prod.collapse [symmetric] inv] reserve_keeps [OF prod.collapse [symmetric] inv]
        pool_write_state_keeps [OF prod.collapse [symmetric]] neutralize_keeps [OF prod.collapse [symmetric]]\<close>)

lemma keeps_claim_index:
  assumes "keeps_claim k p p'" and "pool_inv p'" and "pool_index p k = Some i"
  shows "pool_index p' k = Some i"
  using assms by (auto simp: keeps_claim_def intro: pool_index_eqI dest: pool_invD(3))

lemma pool_run_keeps:
  assumes "pool_inv p" and "session p = Some sid" and "pool_index p k = Some i"
    and "\<forall>x \<in> set xs. x \<noteq> PoolEnd sid \<and> x \<noteq> PoolReleaseAll sid"
  shows "session (foldl (pool_step ops) p xs) = Some sid \<and> pool_index (foldl (pool_step ops) p xs) k = Some i"
  using assms
proof (induction xs arbitrary: p)
  case (Cons x xs)
  have k: "keeps_claim k p (pool_step ops p x)"
    using Cons.prems by (intro pool_step_keeps) auto
  have inv: "pool_inv (pool_step ops p x)" using Cons.prems(1) by (rule pool_step_inv)
  have "session (foldl (pool_step ops) (pool_step ops p x) xs) = Some sid \<and>
      pool_index (foldl (pool_step ops) (pool_step ops p x) xs) k = Some i"
    by (rule Cons.IH [OF inv])
      (use k keeps_claim_index [OF k inv Cons.prems(3)] Cons.prems(2,4) in \<open>simp_all add: keeps_claim_def\<close>)
  then show ?case by simp
qed simp

text \<open>
  A claim on a seat lasts as long as its session. Once a source holds slot \<open>n\<close> in session
  \<open>sid\<close>, no sequence of requests other than ending this session or releasing all of it takes the
  slot from the source: disconnects, failed writes, full pools, resize attempts and requests
  with another session ID included. A reconnection is given slot \<open>n\<close> again or fails in the
  backend.
\<close>

theorem claim_lasts_for_session:
  assumes inv: "pool_inv p" and s: "session p = Some sid" and n: "pool_slot p k = Some n"
    and xs: "\<forall>x \<in> set xs. x \<noteq> PoolEnd sid \<and> x \<noteq> PoolReleaseAll sid"
    and q: "q = foldl (pool_step ops) p xs"
  shows "session q = Some sid \<and> pool_slot q k = Some n \<and>
    (fst (pool_connect ops k q) = Ok n \<or> (\<exists>e. fst (pool_connect ops k q) = Err (BackendError e)))"
proof -
  have inv': "pool_inv q" unfolding q by (rule pool_machine.inv_run [OF inv])
  from n inv have "pool_index p k = Some (n - 1)" "0 < n" by (simp_all add: pool_slot_eq)
  with pool_run_keeps [OF inv s _ xs, of k "n - 1" ops] have "session q = Some sid" "pool_slot q k = Some n"
    by (simp_all add: q pool_slot_eq [OF inv' [unfolded q]])
  moreover have "fst (pool_connect ops k q) = Ok n \<or> (\<exists>e. fst (pool_connect ops k q) = Err (BackendError e))"
    using prod.collapse [symmetric, of "pool_connect ops k q"] calculation(2)
    by (cases rule: pool_connect_cases) (auto simp: target_def pool_slot_def)
  ultimately show ?thesis by blast
qed

text \<open>An instance: source 7 drops out, the pool fills up, a resize is tried, and 7 returns.\<close>

theorem claim_lasts_for_session_witness:
  "pool_slot (foldl (pool_step example_backend) example_session_pool
     [PoolDisconnect 7, PoolConnect 8, PoolConnect 9, PoolResize 1, PoolEnd ''other'']) 7 = Some 1"
proof -
  have inv: "pool_inv example_session_pool"
    unfolding example_session_pool_def
    by (rule pool_machine.inv_run) (rule pool_new_inv(1) [OF example_pool_new], simp)
  have "session example_session_pool = Some example_sid" "pool_slot example_session_pool 7 = Some 1"
    by code_simp+
  moreover have "\<forall>x \<in> set [PoolDisconnect 7, PoolConnect 8, PoolConnect 9, PoolResize 1, PoolEnd ''other''].
      x \<noteq> PoolEnd example_sid \<and> x \<noteq> PoolReleaseAll example_sid"
    by (simp add: example_sid_def numeral_eq_Suc)
  ultimately show ?thesis using claim_lasts_for_session [OF inv _ _ _ refl, of example_sid 7 1] by blast
qed

text \<open>
  Ending a session. With another ID nothing changes. When every neutral write succeeds the
  session is over, each disconnected reservation is freed in the neutral state and every other
  seat is untouched. When one fails, the session stays bound to its ID, connected seats are
  untouched and a seat whose write failed keeps its reservation with an unknown state.
\<close>

theorem end_session_spec:
  assumes r: "end_session ops sid p = (r, p')"
  shows "if session p \<noteq> Some sid then r = Err StaleSession \<and> p' = p
    else session p' = (if is_ok r then None else Some sid) \<and>
      (is_ok r \<or> (\<exists>j < length (seats p). binding (seats p' ! j) \<noteq> None \<and> known_state (seats p' ! j) = None)) \<and>
      length (seats p') = length (seats p) \<and>
      (\<forall>j < length (seats p).
        if binding (seats p ! j) \<noteq> None \<and> \<not> seat_connected (seats p ! j)
        then seats p' ! j = (seats p ! j)\<lparr>known_state := Some neutral, binding := None\<rparr> \<or>
             (\<not> is_ok r \<and> seats p' ! j = (seats p ! j)\<lparr>known_state := None\<rparr>)
        else seats p' ! j = seats p ! j)"
proof (cases "session p = Some sid")
  case True
  let ?g = "\<lambda>s. case binding s of None \<Rightarrow> False | Some b \<Rightarrow> \<not> connected b"
  have g: "?g s \<longleftrightarrow> binding s \<noteq> None \<and> \<not> seat_connected s" for s :: "'a seat"
    by (simp add: seat_connected_def split: option.split)
  obtain es q where l: "neutral_loop ops ?g True [0..<length (seats p)] p = (es, q)"
    by (cases "neutral_loop ops ?g True [0..<length (seats p)] p")
  then obtain F where F: "F \<subseteq> {i \<in> set [0..<length (seats p)]. ?g (seats p ! i)}" "F = {} \<longleftrightarrow> es = []"
    "length (seats q) = length (seats p)" "session q = session p"
    "\<And>j. j < length (seats p) \<Longrightarrow> seats q ! j = (if j \<in> set [0..<length (seats p)] \<and> ?g (seats p ! j)
      then seat_after True (j \<in> F) (seats p ! j) else seats p ! j)"
    by (rule neutral_loop_char) simp_all
  have r': "is_ok r \<longleftrightarrow> es = []" and q: "seats p' = seats q"
    "session p' = (if es = [] then None else session q)"
    using r True l by (auto simp: end_session_def backend_result_def Let_def split: if_splits)
  have j: "seats p' ! j = (if binding (seats p ! j) \<noteq> None \<and> \<not> seat_connected (seats p ! j)
      then seat_after True (j \<in> F) (seats p ! j) else seats p ! j)" if "j < length (seats p)" for j
    using F(5) [OF that] that by (simp add: q(1) g)
  have "\<exists>j < length (seats p). binding (seats p' ! j) \<noteq> None \<and> known_state (seats p' ! j) = None" if "es \<noteq> []"
  proof -
    from that F(2) obtain i where "i \<in> F" by blast
    moreover from this F(1) have "i < length (seats p)" "binding (seats p ! i) \<noteq> None \<and> \<not> seat_connected (seats p ! i)"
      using g by auto
    ultimately show ?thesis using j [of i] by (auto simp: seat_after_def)
  qed
  with True r' q F(1,2,3,4) j show ?thesis by (auto simp: seat_after_def)
qed (use r in \<open>simp add: end_session_def\<close>)

text \<open>An instance: a session with one lost and one connected source ends.\<close>

theorem end_session_spec_witness:
  "session (snd (end_session example_backend example_sid
     (snd (pool_connect example_backend 8 (snd (pool_disconnect example_backend 7 example_session_pool)))))) = None"
proof -
  let ?p = "snd (pool_connect example_backend 8 (snd (pool_disconnect example_backend 7 example_session_pool)))"
  have "session ?p = Some example_sid" "is_ok (fst (end_session example_backend example_sid ?p))"
    by code_simp+
  with end_session_spec [OF prod.collapse [symmetric], of ?p example_sid example_backend] show ?thesis
    by simp
qed

subsection \<open>Known states are what the devices show\<close>

text \<open>
  For a backend that meets \<open>seat_backend_contract\<close>, a seat whose state is known has a device that
  shows this state, through every sequence of requests. The lemmas below are proved once
  for the contract; the uinput backend interprets it.
\<close>

definition pool_coherent :: "('b \<Rightarrow> nat \<Rightarrow> gamepad_state \<Rightarrow> bool) \<Rightarrow> ('k, 'b) seat_pool \<Rightarrow> bool" where
  "pool_coherent shows_state p \<longleftrightarrow>
     (\<forall>i < length (seats p). \<forall>g. known_state (seats p ! i) = Some g \<longrightarrow>
        shows_state (backend p) (slot (seats p ! i)) g)"

definition slots_ordered :: "('k, 'b) seat_pool \<Rightarrow> bool" where
  "slots_ordered p \<longleftrightarrow> (\<forall>i < length (seats p). slot (seats p ! i) = Suc i)"

context seat_backend_contract
begin

definition good :: "('k, 'b) seat_pool \<Rightarrow> bool" where
  "good p \<longleftrightarrow> sound (backend p) \<and> slots_ordered p \<and> pool_coherent shows_state p"

lemma good_update_seat:
  assumes "good p" and "\<And>s. slot (f s) = slot s" and "\<And>s. known_state (f s) = known_state s \<or> known_state (f s) = None"
  shows "good (update_seat i f p)"
proof -
  have "slot ((seats p)[i := f (seats p ! i)] ! j) = slot (seats p ! j)"
    "known_state ((seats p)[i := f (seats p ! i)] ! j) = Some g \<Longrightarrow> known_state (seats p ! j) = Some g"
    if "j < length (seats p)" for j g
    using that assms(2,3) [of "seats p ! i"] by (cases "i = j"; auto)+
  with assms(1) show ?thesis by (auto simp: good_def slots_ordered_def pool_coherent_def)
qed

lemma good_bind [intro]: "good p \<Longrightarrow> good (update_seat i (\<lambda>s. s\<lparr>binding := x\<rparr>) p)"
  by (rule good_update_seat) simp_all

lemma good_set_connected [intro]: "good p \<Longrightarrow> good (update_seat i (set_connected v) p)"
  by (rule good_update_seat) simp_all

lemma good_session [simp]: "good (p\<lparr>session := x\<rparr>) = good p"
  by (simp add: good_def slots_ordered_def pool_coherent_def)

lemma good_write:
  assumes good: "good p" and i: "i < length (seats p)" and w: "pool_write ops i g p = (r, p')"
  shows "good p'"
proof (cases "known_state (seats p ! i) = Some g")
  case True
  with good w show ?thesis by (simp add: pool_write_def)
next
  case False
  from good have so: "\<And>j. j < length (seats p) \<Longrightarrow> slot (seats p ! j) = Suc j" and snd: "sound (backend p)"
    and co: "\<And>j g. j < length (seats p) \<Longrightarrow> known_state (seats p ! j) = Some g \<Longrightarrow>
      shows_state (backend p) (slot (seats p ! j)) g"
    by (auto simp: good_def slots_ordered_def pool_coherent_def)
  obtain x b where x: "be_write_state ops (slot (seats p ! i)) g (backend p) = (x, b)"
    by (cases "be_write_state ops (slot (seats p ! i)) g (backend p)")
  have b: "sound b" by (rule write_sound [OF snd x])
  have p': "backend p' = b" "session p' = session p" using False w x
    by (cases x; simp add: pool_write_def Let_def; force)+
  have s': "seats p' = (seats p)[i := (seats p ! i)\<lparr>known_state := if is_ok r then Some g else None\<rparr>]"
    by (rule pool_write_char(1) [OF w i])
  have rx: "is_ok r = is_ok x" using False w x by (cases x) (auto simp: pool_write_def Let_def)
  have own: "shows_state b (slot (seats p ! i)) g" if "is_ok x"
    using that x by (cases x) (auto intro: write_shows [OF snd])
  have other: "shows_state b (slot (seats p ! j)) h"
    if "j < length (seats p)" "j \<noteq> i" "known_state (seats p ! j) = Some h" for j h
    by (rule write_frame [OF snd x _ co]) (use that so i in simp_all)
  show ?thesis
    using b so own other i rx
    by (auto simp: good_def slots_ordered_def pool_coherent_def s' p' nth_list_update)
qed

lemma good_neutral_loop:
  "good p \<Longrightarrow> \<forall>i \<in> set xs. i < length (seats p) \<Longrightarrow> neutral_loop ops guard unbind xs p = (es, p') \<Longrightarrow> good p'"
proof (induction xs arbitrary: p es)
  case (Cons i xs)
  show ?case
  proof (cases "guard (seats p ! i)")
    case False
    with Cons show ?thesis by auto
  next
    case True
    obtain r q where w: "pool_write ops i neutral p = (r, q)" by (cases "pool_write ops i neutral p")
    from Cons.prems have i: "i < length (seats p)" by simp
    have q: "good q" by (rule good_write [OF Cons.prems(1) i w])
    have len: "length (seats q) = length (seats p)" using pool_write_char(1) [OF w i] by simp
    let ?q = "if is_ok r \<and> unbind then update_seat i (\<lambda>s. s\<lparr>binding := None\<rparr>) q else q"
    have "good ?q" "\<forall>j \<in> set xs. j < length (seats ?q)" using q len Cons.prems(2) by auto
    moreover obtain es' where "neutral_loop ops guard unbind xs ?q = (es', p')"
      using Cons.prems(3) w True by (cases r) (auto split: prod.splits)
    ultimately show ?thesis by (rule Cons.IH)
  qed
qed simp

lemma good_connect: "good p \<Longrightarrow> good (snd (pool_connect ops k p))"
  by (auto simp: pool_connect_def Let_def split: option.splits prod.splits result.splits
      dest: pool_index_SomeD position_SomeD good_write [rotated 2])

lemma good_reserve: "good p \<Longrightarrow> good (snd (reserve ops sid k p))"
  using good_connect [of p k] by (auto simp: reserve_def split: option.splits prod.splits result.splits)

lemma good_disconnect: "good p \<Longrightarrow> good (snd (pool_disconnect ops k p))"
  by (auto simp: pool_disconnect_def Let_def split: option.splits prod.splits result.splits
      dest!: pool_index_SomeD good_write [rotated 2])

lemma good_write_state: "good p \<Longrightarrow> good (snd (pool_write_state ops k g p))"
  by (auto simp: pool_write_state_def split: option.splits prod.splits result.splits
      dest!: pool_index_SomeD good_write [rotated 2])

lemma good_neutral_all:
  "good p \<Longrightarrow> neutral_loop ops guard unbind [0..<length (seats p)] p = (es, p') \<Longrightarrow> good p'"
  by (rule good_neutral_loop) simp_all

lemma good_session_ops:
  assumes "good p"
  shows "good (snd (begin_session sid p))" "good (snd (end_session ops sid p))"
    "good (snd (release_all ops sid p))" "good (snd (neutralize ops p))"
  using assms good_neutral_all [OF assms]
  by (auto simp: begin_session_def validate_launch_id_def end_session_def release_all_def neutralize_def
      Let_def split: prod.splits)

end

context seat_backend_contract
begin

lemma good_add_seat:
  assumes good: "good p" and n: "n = Suc (length (seats p))"
  shows "good (snd (add_seat ops n p))"
proof -
  obtain c b where c: "be_create ops (for_slot n) (backend p) = (c, b)"
    by (cases "be_create ops (for_slot n) (backend p)")
  from good have snd: "sound (backend p)" and so: "\<And>j. j < length (seats p) \<Longrightarrow> slot (seats p ! j) = Suc j"
    and co: "\<And>j g. j < length (seats p) \<Longrightarrow> known_state (seats p ! j) = Some g \<Longrightarrow>
      shows_state (backend p) (slot (seats p ! j)) g"
    by (auto simp: good_def slots_ordered_def pool_coherent_def)
  have b: "sound b" by (rule create_sound [OF snd c])
  have fr: "shows_state b (slot (seats p ! j)) g"
    if "j < length (seats p)" "known_state (seats p ! j) = Some g" for j g
    by (rule create_frame [OF snd c _ co]) (use that so n in simp_all)
  let ?q = "p\<lparr>backend := b, seats := seats p @ [\<lparr>slot = n, binding = None, known_state = None\<rparr>]\<rparr>"
  have "good (p\<lparr>backend := b\<rparr>)" using b so fr by (simp add: good_def slots_ordered_def pool_coherent_def)
  moreover have "good ?q"
    using b so fr n by (auto simp: good_def slots_ordered_def pool_coherent_def nth_append less_Suc_eq)
  moreover have "length (seats p) < length (seats ?q)" by simp
  ultimately show ?thesis
    using c by (cases c) (auto simp: add_seat_def intro: good_write [OF _ _ prod.collapse [symmetric]])
qed

lemma good_shrink: "good p \<Longrightarrow> n \<le> length (seats p) \<Longrightarrow> good (snd (shrink_by ops n p))"
proof (induction n arbitrary: p)
  case (Suc n)
  let ?l = "length (seats p) - 1"
  from Suc.prems have snd: "sound (backend p)" and so: "\<And>j. j < length (seats p) \<Longrightarrow> slot (seats p ! j) = Suc j"
    and co: "\<And>j g. j < length (seats p) \<Longrightarrow> known_state (seats p ! j) = Some g \<Longrightarrow>
      shows_state (backend p) (slot (seats p ! j)) g" and ne: "seats p \<noteq> []"
    by (auto simp: good_def slots_ordered_def pool_coherent_def)
  have l: "?l < length (seats p)" using ne by (cases "seats p") simp_all
  then have lslot: "slot (last (seats p)) = Suc ?l" using so ne by (simp add: last_conv_nth)
  obtain d b where d: "be_destroy ops (slot (last (seats p))) (backend p) = (d, b)"
    by (cases "be_destroy ops (slot (last (seats p))) (backend p)")
  have b: "sound b" by (rule destroy_sound [OF snd d])
  have fr: "shows_state b (slot (seats p ! j)) g"
    if "j < ?l" "known_state (seats p ! j) = Some g" for j g
    by (rule destroy_frame [OF snd d _ co]) (use that so [of j] lslot l in simp_all)
  show ?case
  proof (cases d)
    case (Ok u)
    let ?q = "p\<lparr>backend := b, seats := butlast (seats p)\<rparr>"
    have "good ?q" using b so fr l by (auto simp: good_def slots_ordered_def pool_coherent_def nth_butlast)
    then show ?thesis using Suc.IH [of ?q] Suc.prems(2) d Ok by simp
  next
    case (Err e)
    have "shows_state b (slot (seats p ! j)) g" if "j < length (seats p)" "known_state (seats p ! j) = Some g" for j g
    proof (cases "j < ?l")
      case False
      with that(1) have "j = ?l" by simp
      then show ?thesis using destroy_failed [OF snd d [unfolded Err] ] co [OF that] lslot so [OF that(1)] by simp
    qed (use fr that in blast)
    with b so have "good (p\<lparr>backend := b\<rparr>)" by (simp add: good_def slots_ordered_def pool_coherent_def)
    with d Err show ?thesis by simp
  qed
qed simp

lemma good_grow:
  "good p \<Longrightarrow> length (seats p) + n < 256 \<Longrightarrow> good (snd (grow_by ops n p))"
proof (induction n arbitrary: p)
  case (Suc n)
  from Suc.prems(2) have cnt: "pool_count p + 1 = Suc (length (seats p))" by (simp add: pool_count_def)
  obtain a q where a: "add_seat ops (Suc (length (seats p))) p = (a, q)"
    by (cases "add_seat ops (Suc (length (seats p))) p")
  have q: "good q" using good_add_seat [OF Suc.prems(1) refl] a by simp
  have "length (seats q) \<le> Suc (length (seats p))" using a by (rule add_seat_char) simp_all
  with Suc.IH [OF q] Suc.prems(2) q a cnt show ?case by (cases a) simp_all
qed simp

lemma good_add_seats:
  "good p \<Longrightarrow> add_seats ops [Suc (length (seats p))..<m] p = (Ok u, p') \<Longrightarrow> good p'"
proof (induction "m - length (seats p)" arbitrary: p)
  case (Suc n)
  show ?case
  proof (cases "Suc (length (seats p)) < m")
    case True
    then have "[Suc (length (seats p))..<m] = Suc (length (seats p)) # [Suc (Suc (length (seats p)))..<m]"
      by (simp add: upt_conv_Cons)
    with Suc.prems(2) obtain v q where a: "add_seat ops (Suc (length (seats p))) p = (Ok v, q)"
      "add_seats ops [Suc (Suc (length (seats p)))..<m] q = (Ok u, p')"
      by (auto split: prod.splits result.splits)
    have q: "good q" using good_add_seat [OF Suc.prems(1) refl] a(1) by simp
    have len: "length (seats q) = Suc (length (seats p))" using a(1) by (rule add_seat_char) simp_all
    show ?thesis by (rule Suc.hyps(1) [of q]) (use q len a(2) Suc.hyps(2) in simp_all)
  qed (use Suc.prems in simp)
qed simp

lemma good_resize:
  assumes good: "good p" and n: "n < 256" and len: "length (seats p) < 256"
  shows "good (snd (resize ops n p))"
proof -
  obtain w q where w: "neutralize ops p = (w, q)" by (cases "neutralize ops p")
  have q: "good q" "length (seats q) = length (seats p)"
    using good_session_ops(4) [OF good] neutralize_frame(1) [OF w] w by simp_all
  obtain c t where c: "shrink_by ops (length (seats q) - n) q = (c, t)"
    by (cases "shrink_by ops (length (seats q) - n) q")
  have t: "good t" using good_shrink [OF q(1), of "length (seats q) - n"] c by simp
  obtain m where "seats t = take (length (seats q) - m) (seats q)" using shrink_by_seats(1) [OF c] by auto
  with q(2) len have "length (seats t) < 256" by simp
  then have "good (snd (grow_by ops (n - length (seats t)) t))" using n by (intro good_grow [OF t]) simp
  with good w q c t show ?thesis
    by (cases w; cases c) (auto simp: resize_def split: prod.splits result.splits)
qed

lemma good_step: "good p \<Longrightarrow> pool_inv p \<Longrightarrow> good (pool_step ops p x)"
  by (cases x) (simp_all add: good_connect good_reserve good_disconnect good_write_state good_session_ops
      good_resize pool_invD(1))

lemma good_new:
  fixes p :: "('k, 'b) seat_pool"
  assumes "sound b" and new: "pool_new ops count b = Ok p"
  shows "good p"
proof -
  let ?e = "\<lparr>backend = b, seats = [], session = None\<rparr> :: ('k, 'b) seat_pool"
  obtain r q where a: "add_seats ops [1..<Suc count] ?e = (r, q)" by (cases "add_seats ops [1..<Suc count] ?e")
  with new have "is_ok r" "q = p"
    by (cases r; simp add: pool_new_def del: upt_Suc split: result.splits)+
  with a obtain u where u: "add_seats ops [Suc (length (seats ?e))..<Suc count] ?e = (Ok u, p)"
    by (cases r) (simp_all del: upt_Suc)
  have "good ?e" using assms(1) by (simp add: good_def slots_ordered_def pool_coherent_def)
  from good_add_seats [OF this u] show ?thesis .
qed

lemma good_run:
  assumes "sound b" and new: "pool_new ops count b = Ok p" and "count < 256"
  shows "good (foldl (pool_step ops) p xs) \<and> pool_inv (foldl (pool_step ops) p xs)"
proof (induction xs rule: rev_induct)
  case Nil
  show ?case using good_new [OF assms(1,2)] pool_new_inv(1) [OF assms(2,3)] by simp
next
  case (snoc x xs)
  then show ?case by (simp add: good_step pool_step_inv)
qed

text \<open>A seat whose source is not connected shows the neutral state, or its state is unknown.\<close>

lemma idle_seat_shows_neutral:
  assumes "sound b" and "pool_new ops count b = Ok p" and "count < 256"
    and q: "q = foldl (pool_step ops) p xs" and i: "i < length (seats q)"
    and "\<not> seat_connected (seats q ! i)" and "known_state (seats q ! i) \<noteq> None"
  shows "shows_state (backend q) (Suc i) neutral"
proof -
  have g: "good q" and inv: "pool_inv q" using good_run [OF assms(1-3), of xs] by (simp_all add: q)
  from pool_invD(4) [OF inv i assms(6)] assms(7) have "known_state (seats q ! i) = Some neutral"
    by (simp add: quiet_def)
  with g i show ?thesis
    unfolding good_def pool_coherent_def pool_invD(2) [OF inv i, symmetric] by blast
qed

end

end
