(* ===== verification/Rust_Text.thy ===== *)
theory Rust_Text
  imports Korri_Prelude
begin

text \<open>
  The functions on \<open>str\<close> of Rust's standard library that several components use, on strings of
  UTF-8 bytes: \<open>strip_prefix\<close>, \<open>trim\<close>, \<open>split_whitespace\<close>, \<open>lines\<close>, and \<open>parse\<close> for unsigned
  integers. The white space characters are those with the Unicode property \<open>White_Space\<close>, by their
  encodings. The main fact is the round trip between \<open>to_string\<close> and \<open>parse\<close>.
\<close>

subsection \<open>Prefixes and white space\<close>

definition strip_prefix :: "string \<Rightarrow> string \<Rightarrow> string option" where
  "strip_prefix pre s = (if take (length pre) s = pre then Some (drop (length pre) s) else None)"

definition starts_with :: "string \<Rightarrow> string \<Rightarrow> bool" where
  "starts_with pre s \<longleftrightarrow> take (length pre) s = pre"

definition ends_with :: "string \<Rightarrow> string \<Rightarrow> bool" where
  "ends_with suf s \<longleftrightarrow> length suf \<le> length s \<and> drop (length s - length suf) s = suf"

definition strip_suffix :: "string \<Rightarrow> string \<Rightarrow> string option" where
  "strip_suffix suf s = (if ends_with suf s then Some (take (length s - length suf) s) else None)"

definition white_space :: "string list" where
  "white_space =
     [[CHR 0x09], [CHR 0x0A], [CHR 0x0B], [CHR 0x0C], [CHR 0x0D], [CHR 0x20],
      [CHR 0xC2, CHR 0x85], [CHR 0xC2, CHR 0xA0], [CHR 0xE1, CHR 0x9A, CHR 0x80],
      [CHR 0xE2, CHR 0x80, CHR 0x80], [CHR 0xE2, CHR 0x80, CHR 0x81], [CHR 0xE2, CHR 0x80, CHR 0x82],
      [CHR 0xE2, CHR 0x80, CHR 0x83], [CHR 0xE2, CHR 0x80, CHR 0x84], [CHR 0xE2, CHR 0x80, CHR 0x85],
      [CHR 0xE2, CHR 0x80, CHR 0x86], [CHR 0xE2, CHR 0x80, CHR 0x87], [CHR 0xE2, CHR 0x80, CHR 0x88],
      [CHR 0xE2, CHR 0x80, CHR 0x89], [CHR 0xE2, CHR 0x80, CHR 0x8A], [CHR 0xE2, CHR 0x80, CHR 0xA8],
      [CHR 0xE2, CHR 0x80, CHR 0xA9], [CHR 0xE2, CHR 0x80, CHR 0xAF],
      [CHR 0xE2, CHR 0x81, CHR 0x9F], [CHR 0xE3, CHR 0x80, CHR 0x80]]"

definition space_before :: "string \<Rightarrow> string option" where
  "space_before s = find (\<lambda>w. take (length w) s = w) white_space"

definition trim_once :: "string \<Rightarrow> string" where
  "trim_once s =
     (case find (\<lambda>w. ends_with w s) white_space of
        None \<Rightarrow> s
      | Some w \<Rightarrow> take (length s - length w) s)"

definition trim_end :: "string \<Rightarrow> string" where
  "trim_end s = (trim_once ^^ length s) s"

definition trim_start_once :: "string \<Rightarrow> string" where
  "trim_start_once s = (case space_before s of None \<Rightarrow> s | Some w \<Rightarrow> drop (length w) s)"

definition trim :: "string \<Rightarrow> string" where
  "trim s = trim_end ((trim_start_once ^^ length s) s)"

text \<open>
  \<open>split_whitespace\<close>: \<open>acc\<close> is the current word, reversed. An empty word is never produced.
\<close>

definition flush :: "string \<Rightarrow> string list" where
  "flush acc = (if acc = [] then [] else [rev acc])"

fun split_words :: "string \<Rightarrow> string \<Rightarrow> string list" where
  "split_words acc [] = flush acc"
| "split_words acc (c # cs) =
     (case space_before (c # cs) of
        None \<Rightarrow> split_words (c # acc) cs
      | Some w \<Rightarrow> flush acc @ split_words [] (drop (length w - 1) cs))"

definition split_whitespace :: "string \<Rightarrow> string list" where
  "split_whitespace s = split_words [] s"

definition strip_cr :: "string \<Rightarrow> string" where
  "strip_cr l = (if l \<noteq> [] \<and> last l = CHR 0x0D then butlast l else l)"

fun lines_from :: "string \<Rightarrow> string \<Rightarrow> string list" where
  "lines_from acc [] = flush acc"
| "lines_from acc (c # cs) =
     (if c = CHR 0x0A then strip_cr (rev acc) # lines_from [] cs else lines_from (c # acc) cs)"

definition text_lines :: "string \<Rightarrow> string list" where
  "text_lines s = lines_from [] s"

lemma strip_prefix_Some: "strip_prefix pre s = Some rest \<longleftrightarrow> s = pre @ rest"
  by (auto simp: strip_prefix_def) (metis append_take_drop_id)

lemma starts_with_iff: "starts_with pre s \<longleftrightarrow> (\<exists>rest. s = pre @ rest)"
  by (metis append_eq_conv_conj starts_with_def)

lemma ends_with_iff: "ends_with suf s \<longleftrightarrow> (\<exists>front. s = front @ suf)"
  by (auto simp: ends_with_def) (metis append_take_drop_id)

lemma split_whitespace_nonempty: "[] \<notin> set (split_words acc s)"
  by (induction acc s rule: split_words.induct) (auto simp: flush_def split: option.splits)

subsection \<open>Decimal numbers\<close>

text \<open>\<open>str::parse\<close> for an unsigned integer type with maximum \<open>hi\<close>: an optional plus sign, then digits.\<close>

definition digit_value :: "char \<Rightarrow> nat" where
  "digit_value c = of_char c - 48"

definition parse_unsigned :: "nat \<Rightarrow> string \<Rightarrow> nat option" where
  "parse_unsigned hi s =
     (let ds = (case s of [] \<Rightarrow> [] | c # cs \<Rightarrow> if c = CHR ''+'' then cs else s);
          n = foldl (\<lambda>a c. 10 * a + digit_value c) 0 ds
      in if ds = [] \<or> \<not> list_all is_ascii_digit ds \<or> hi < n then None else Some n)"

lemma is_ascii_digit_char [simp]: "n < 10 \<Longrightarrow> is_ascii_digit (char_of (48 + n :: nat))"
  by (simp add: is_ascii_digit_def less_eq_char_def)

lemma digit_value_char [simp]: "n < 10 \<Longrightarrow> digit_value (char_of (48 + n :: nat)) = n"
  by (simp add: digit_value_def)

lemma decimal_digits: "list_all is_ascii_digit (decimal n) \<and> decimal n \<noteq> []"
proof (induction n rule: decimal.induct)
  case (1 n)
  then show ?case by (subst (1 2) decimal.simps) auto
qed

lemma decimal_value: "foldl (\<lambda>a c. 10 * a + digit_value c) 0 (decimal n) = n"
proof (induction n rule: decimal.induct)
  case (1 n)
  then show ?case by (subst decimal.simps) auto
qed

lemma parse_unsigned_decimal [simp]:
  "parse_unsigned hi (decimal n) = (if n \<le> hi then Some n else None)"
proof -
  obtain c cs where d: "decimal n = c # cs" using decimal_digits [of n] by (cases "decimal n") auto
  with decimal_digits [of n] have "is_ascii_digit c" by simp
  then have "c \<noteq> CHR ''+''" by (auto simp: is_ascii_digit_def)
  then show ?thesis
    using decimal_value [of n] decimal_digits [of n] by (auto simp: parse_unsigned_def Let_def d)
qed

lemma parse_unsigned_le: "parse_unsigned hi s = Some n \<Longrightarrow> n \<le> hi"
  by (auto simp: parse_unsigned_def Let_def split: if_splits)

text \<open>Digits are not white space, so trimming a number changes nothing.\<close>

lemma white_space_no_digit:
  "list_all (\<lambda>w. w \<noteq> [] \<and> \<not> is_ascii_digit (hd w) \<and> \<not> is_ascii_digit (last w)) white_space"
  by code_simp

lemma trim_digits:
  assumes "list_all is_ascii_digit s"
  shows "trim s = s"
proof (cases "s = []")
  case True
  then show ?thesis by (simp add: trim_def trim_end_def)
next
  case False
  have start: "take (length w) s \<noteq> w" if "w \<in> set white_space" for w
  proof
    assume "take (length w) s = w"
    moreover have "w \<noteq> []" "\<not> is_ascii_digit (hd w)" using white_space_no_digit that by (auto simp: list_all_iff)
    ultimately have "hd w = hd s" by (metis hd_take length_greater_0_conv)
    with assms False \<open>\<not> is_ascii_digit (hd w)\<close> show False by (simp add: list_all_iff)
  qed
  have stop: "\<not> ends_with w s" if "w \<in> set white_space" for w
  proof
    assume "ends_with w s"
    then obtain front where "s = front @ w" unfolding ends_with_iff by blast
    moreover have "w \<noteq> []" "\<not> is_ascii_digit (last w)" using white_space_no_digit that by (auto simp: list_all_iff)
    ultimately show False using assms by (simp add: list_all_iff)
  qed
  have stays: "(f ^^ n) s = s" if "f s = s" for f :: "string \<Rightarrow> string" and n using that by (induction n) simp_all
  have "space_before s = None" using start by (simp add: space_before_def find_None_iff)
  then have "trim_start_once s = s" by (simp add: trim_start_once_def)
  moreover have "find (\<lambda>w. ends_with w s) white_space = None" using stop by (simp add: find_None_iff)
  then have "trim_once s = s" by (simp add: trim_once_def)
  ultimately show ?thesis by (simp add: trim_def trim_end_def stays)
qed

lemma trim_decimal [simp]: "trim (decimal n) = decimal n"
  using trim_digits decimal_digits by blast

end
