(* ===== verification/Seat_Uinput.thy ===== *)
theory Seat_Uinput
  imports Seat_Pool Rust_Text
begin

text \<open>
  The kernel backend of the seats, \<open>services/inputd/src/input_seat_uinput.rs\<close>: which events a
  state change emits, which devices count as stale seats, and the backend operations.

  The operating system and the \<open>evdev\<close> crate are the parameter \<open>uinput_os\<close>: the entries of
  \<open>/sys/class/input\<close>, building and dropping a virtual device, the device nodes seen before the
  deadline of a new device, and \<open>emit\<close>. What the code relies on is the locale \<open>evdev_device\<close>: a new
  device reads zero on every control, and a successful \<open>emit\<close> sets the emitted controls and no
  other. Nothing is assumed about a failed \<open>emit\<close>.
\<close>

datatype key_code =
    BTN_START | BTN_SELECT | BTN_THUMBL | BTN_THUMBR | BTN_TL | BTN_TR | BTN_MODE
  | BTN_SOUTH | BTN_EAST | BTN_NORTH | BTN_WEST

datatype abs_code = ABS_X | ABS_Y | ABS_Z | ABS_RX | ABS_RY | ABS_RZ | ABS_HAT0X | ABS_HAT0Y

datatype event_code = KEY key_code | ABSOLUTE abs_code

record input_event =
  ie_code :: event_code
  ie_value :: int

definition BUTTONS :: "(32 word \<times> key_code) list" where
  "BUTTONS =
     [(0x0010, BTN_START), (0x0020, BTN_SELECT), (0x0040, BTN_THUMBL), (0x0080, BTN_THUMBR),
      (0x0100, BTN_TL), (0x0200, BTN_TR), (0x0400, BTN_MODE), (0x1000, BTN_SOUTH),
      (0x2000, BTN_EAST), (0x4000, BTN_NORTH), (0x8000, BTN_WEST)]"

definition SEAT_USB_VERSION :: "16 word" where "SEAT_USB_VERSION = 0x0114"
definition DPAD_UP :: "32 word" where "DPAD_UP = 1"
definition DPAD_DOWN :: "32 word" where "DPAD_DOWN = 2"
definition DPAD_LEFT :: "32 word" where "DPAD_LEFT = 4"
definition DPAD_RIGHT :: "32 word" where "DPAD_RIGHT = 8"

unbundle bit_operations_syntax

subsection \<open>The events of a state change\<close>

definition hat :: "32 word \<Rightarrow> 32 word \<Rightarrow> 32 word \<Rightarrow> int" where
  "hat bs neg pos =
     (case (bs AND neg \<noteq> 0, bs AND pos \<noteq> 0) of
        (True, False) \<Rightarrow> - 1
      | (False, True) \<Rightarrow> 1
      | _ \<Rightarrow> 0)"

definition push_axis :: "input_event list \<Rightarrow> abs_code \<Rightarrow> int option \<Rightarrow> int \<Rightarrow> input_event list" where
  "push_axis events axis before after =
     (if before \<noteq> Some after then events @ [\<lparr>ie_code = ABSOLUTE axis, ie_value = after\<rparr>] else events)"

definition push_button ::
  "gamepad_state option \<Rightarrow> gamepad_state \<Rightarrow> 32 word \<times> key_code \<Rightarrow> input_event list \<Rightarrow> input_event list" where
  "push_button current nxt b events =
     (let before = map_option (\<lambda>g. buttons g AND fst b \<noteq> 0) current;
          after = (buttons nxt AND fst b \<noteq> 0)
      in if before \<noteq> Some after
         then events @ [\<lparr>ie_code = KEY (snd b), ie_value = (if after then 1 else 0)\<rparr>] else events)"

definition output_events :: "gamepad_state option \<Rightarrow> gamepad_state \<Rightarrow> input_event list" where
  "output_events current nxt =
     (let e0 = fold (push_button current nxt) BUTTONS [];
          e1 = push_axis e0 ABS_HAT0X (map_option (\<lambda>g. hat (buttons g) DPAD_LEFT DPAD_RIGHT) current)
                 (hat (buttons nxt) DPAD_LEFT DPAD_RIGHT);
          e2 = push_axis e1 ABS_HAT0Y (map_option (\<lambda>g. hat (buttons g) DPAD_UP DPAD_DOWN) current)
                 (hat (buttons nxt) DPAD_UP DPAD_DOWN);
          e3 = push_axis e2 ABS_Z (map_option (\<lambda>g. uint (left_trigger g)) current) (uint (left_trigger nxt));
          e4 = push_axis e3 ABS_RZ (map_option (\<lambda>g. uint (right_trigger g)) current) (uint (right_trigger nxt));
          e5 = push_axis e4 ABS_X (map_option (\<lambda>g. sint (left_stick_x g)) current) (sint (left_stick_x nxt));
          e6 = push_axis e5 ABS_Y (map_option (\<lambda>g. sint (left_stick_y g)) current) (sint (left_stick_y nxt));
          e7 = push_axis e6 ABS_RX (map_option (\<lambda>g. sint (right_stick_x g)) current) (sint (right_stick_x nxt))
      in push_axis e7 ABS_RY (map_option (\<lambda>g. sint (right_stick_y g)) current) (sint (right_stick_y nxt)))"

record seat_output =
  out_state :: "gamepad_state option"

definition output_write ::
  "(input_event list \<Rightarrow> 'x \<Rightarrow> (unit, string) result \<times> 'x) \<Rightarrow> gamepad_state \<Rightarrow> seat_output \<Rightarrow> 'x
     \<Rightarrow> (unit, string) result \<times> seat_output \<times> 'x" where
  "output_write emit nxt out x =
     (let events = output_events (out_state out) nxt in
      if events \<noteq> [] then
        (case emit events x of
           (Err e, x1) \<Rightarrow> (Err e, out\<lparr>out_state := None\<rparr>, x1)
         | (Ok _, x1) \<Rightarrow> (Ok (), out\<lparr>out_state := Some nxt\<rparr>, x1))
      else (Ok (), out\<lparr>out_state := Some nxt\<rparr>, x))"

subsection \<open>Seat identities\<close>

text \<open>\<open>str::parse::<NonZeroU8>\<close>: a \<open>u8\<close> that is not zero.\<close>

definition parse_nonzero_u8 :: "string \<Rightarrow> nat option" where
  "parse_nonzero_u8 s =
     (case parse_unsigned 255 s of None \<Rightarrow> None | Some n \<Rightarrow> if n = 0 then None else Some n)"

definition identity_slot :: "string \<Rightarrow> string \<Rightarrow> bool" where
  "identity_slot v pre =
     (case strip_prefix pre v of
        None \<Rightarrow> False
      | Some rest \<Rightarrow> (case parse_nonzero_u8 rest of None \<Rightarrow> False | Some n \<Rightarrow> decimal n = rest))"

definition is_seat_identity :: "string option \<Rightarrow> string option \<Rightarrow> bool" where
  "is_seat_identity name phys \<longleftrightarrow>
     (case name of None \<Rightarrow> False | Some v \<Rightarrow> identity_slot v ''Korri Seat P'') \<or>
     (case phys of None \<Rightarrow> False | Some v \<Rightarrow> identity_slot v ''korri/input-seat/p'')"

subsection \<open>The backend\<close>

record input_entry =
  ent_file_name :: string
  ent_name :: "string option"
  ent_phys :: "string option"

record device_setup =
  ds_name :: string
  ds_id :: "16 word \<times> 16 word \<times> 16 word"
  ds_phys :: string
  ds_keys :: "key_code list"
  ds_axes :: "(abs_code \<times> int \<times> int \<times> int) list"

record dev_node =
  node_path :: string
  node_gid_mode :: "(32 word \<times> 32 word) option"

record ('d, 'w) uinput_os =
  os_entries :: "'w \<Rightarrow> ((input_entry, string) result list, string) result"
  os_build :: "device_setup \<Rightarrow> 'w \<Rightarrow> ('d, string) result \<times> 'w"
  os_polls :: "'d \<Rightarrow> 'w \<Rightarrow> dev_node list option list \<times> 'w"
  os_emit :: "input_event list \<Rightarrow> 'd \<times> 'w \<Rightarrow> (unit, string) result \<times> 'd \<times> 'w"
  os_drop :: "'d \<Rightarrow> 'w \<Rightarrow> 'w"

record 'd seat_device =
  sd_event_device :: string
  sd_device :: 'd
  sd_output :: seat_output

record ('d, 'w) uinput_backend =
  devices :: "(nat, 'd seat_device) btree"
  event_gid :: "32 word"
  preflight_complete :: bool
  world :: 'w

definition uinput_new :: "32 word \<Rightarrow> 'w \<Rightarrow> ('d, 'w) uinput_backend" where
  "uinput_new gid w = \<lparr>devices = [], event_gid = gid, preflight_complete = False, world = w\<rparr>"

fun reject_entries :: "(input_entry, string) result list \<Rightarrow> (unit, string) result" where
  "reject_entries [] = Ok ()"
| "reject_entries (Err e # es) = Err e"
| "reject_entries (Ok ent # es) =
     (if take 5 (ent_file_name ent) \<noteq> ''event'' then reject_entries es
      else if is_seat_identity (map_option trim_end (ent_name ent)) (map_option trim_end (ent_phys ent))
      then Err ''a stale Korri input seat already exists''
      else reject_entries es)"

definition reject_existing_seats :: "('d, 'w) uinput_os \<Rightarrow> 'w \<Rightarrow> (unit, string) result" where
  "reject_existing_seats os w =
     (case os_entries os w of Err e \<Rightarrow> Err e | Ok es \<Rightarrow> reject_entries es)"

definition seat_axes :: "(abs_code \<times> int \<times> int \<times> int) list" where
  "seat_axes =
     [(ABS_X, -32768, 32767, GAMEPAD_STICK_FLAT), (ABS_Y, -32768, 32767, GAMEPAD_STICK_FLAT),
      (ABS_Z, 0, 255, 0), (ABS_RX, -32768, 32767, GAMEPAD_STICK_FLAT),
      (ABS_RY, -32768, 32767, GAMEPAD_STICK_FLAT), (ABS_RZ, 0, 255, 0),
      (ABS_HAT0X, -1, 1, 0), (ABS_HAT0Y, -1, 1, 0)]"

definition build_device ::
  "('d, 'w) uinput_os \<Rightarrow> seat_spec \<Rightarrow> 'w \<Rightarrow> ('d, string) result \<times> 'w" where
  "build_device os sp w =
     (case position (\<lambda>c. of_char c = (0 :: nat)) (spec_physical_path sp) of
        Some i \<Rightarrow> (Err (''nul byte found in provided data at position: '' @ decimal i), w)
      | None \<Rightarrow>
          os_build os \<lparr>ds_name = spec_name sp, ds_id = (0x045e, 0x028e, SEAT_USB_VERSION),
             ds_phys = spec_physical_path sp, ds_keys = map snd BUTTONS, ds_axes = seat_axes\<rparr> w)"

definition accepted_node :: "32 word \<Rightarrow> dev_node \<Rightarrow> bool" where
  "accepted_node gid n =
     (case node_gid_mode n of
        None \<Rightarrow> False
      | Some (g, mode) \<Rightarrow> g = gid \<and> mode AND 0x1FF = 0x1B0)"

fun wait_for_event_node :: "32 word \<Rightarrow> dev_node list option list \<Rightarrow> (string, string) result" where
  "wait_for_event_node gid [] = Err ''Korri seat event node did not reach the required group and mode''"
| "wait_for_event_node gid (None # ps) = wait_for_event_node gid ps"
| "wait_for_event_node gid (Some nodes # ps) =
     (case find (accepted_node gid) nodes of
        Some n \<Rightarrow> Ok (node_path n)
      | None \<Rightarrow> wait_for_event_node gid ps)"

definition uinput_event_device :: "nat \<Rightarrow> ('d, 'w) uinput_backend \<Rightarrow> (string, string) result" where
  "uinput_event_device n b =
     ok_or ''Korri seat is not active'' (map_option sd_event_device (bt_get (devices b) n))"

definition uinput_create ::
  "('d, 'w) uinput_os \<Rightarrow> seat_spec \<Rightarrow> ('d, 'w) uinput_backend
     \<Rightarrow> (unit, string) result \<times> ('d, 'w) uinput_backend" where
  "uinput_create os sp b =
     (if spec_slot sp = 0 \<or> bt_contains_key (devices b) (spec_slot sp)
      then (Err ''invalid or duplicate Korri seat slot'', b)
      else
        case (if preflight_complete b then Ok () else reject_existing_seats os (world b)) of
          Err e \<Rightarrow> (Err e, b)
        | Ok _ \<Rightarrow>
            let b1 = b\<lparr>preflight_complete := True\<rparr> in
            case build_device os sp (world b1) of
              (Err e, w) \<Rightarrow> (Err e, b1\<lparr>world := w\<rparr>)
            | (Ok d, w) \<Rightarrow>
                let (polls, w2) = os_polls os d w in
                case wait_for_event_node (event_gid b1) polls of
                  Err e \<Rightarrow> (Err e, b1\<lparr>world := os_drop os d w2\<rparr>)
                | Ok path \<Rightarrow>
                    (Ok (), b1\<lparr>world := w2,
                       devices := bt_insert (spec_slot sp)
                         \<lparr>sd_event_device = path, sd_device = d, sd_output = \<lparr>out_state = Some neutral\<rparr>\<rparr>
                         (devices b1)\<rparr>))"

definition uinput_write_state ::
  "('d, 'w) uinput_os \<Rightarrow> nat \<Rightarrow> gamepad_state \<Rightarrow> ('d, 'w) uinput_backend
     \<Rightarrow> (unit, string) result \<times> ('d, 'w) uinput_backend" where
  "uinput_write_state os n nxt b =
     (case bt_get (devices b) n of
        None \<Rightarrow> (Err ''Korri seat is not active'', b)
      | Some dev \<Rightarrow>
          let (r, out, d, w) = output_write (os_emit os) nxt (sd_output dev) (sd_device dev, world b)
          in (r, b\<lparr>devices := bt_insert n (dev\<lparr>sd_device := d, sd_output := out\<rparr>) (devices b), world := w\<rparr>))"

definition uinput_destroy ::
  "('d, 'w) uinput_os \<Rightarrow> nat \<Rightarrow> ('d, 'w) uinput_backend
     \<Rightarrow> (unit, string) result \<times> ('d, 'w) uinput_backend" where
  "uinput_destroy os n b =
     (case bt_get (devices b) n of
        None \<Rightarrow> (Ok (), b)
      | Some dev \<Rightarrow>
          (Ok (), b\<lparr>devices := bt_remove n (devices b), world := os_drop os (sd_device dev) (world b)\<rparr>))"

definition uinput_ops :: "('d, 'w) uinput_os \<Rightarrow> ('d, 'w) uinput_backend seat_backend" where
  "uinput_ops os = \<lparr>be_create = uinput_create os, be_event_device = uinput_event_device,
     be_write_state = uinput_write_state os, be_destroy = uinput_destroy os\<rparr>"

subsection \<open>What a device reads\<close>

text \<open>\<open>render g\<close> is the value of every control of a device that presents \<open>g\<close>.\<close>

primrec button_mask :: "key_code \<Rightarrow> 32 word" where
  "button_mask BTN_START = 0x0010"
| "button_mask BTN_SELECT = 0x0020"
| "button_mask BTN_THUMBL = 0x0040"
| "button_mask BTN_THUMBR = 0x0080"
| "button_mask BTN_TL = 0x0100"
| "button_mask BTN_TR = 0x0200"
| "button_mask BTN_MODE = 0x0400"
| "button_mask BTN_SOUTH = 0x1000"
| "button_mask BTN_EAST = 0x2000"
| "button_mask BTN_NORTH = 0x4000"
| "button_mask BTN_WEST = 0x8000"

fun render :: "gamepad_state \<Rightarrow> event_code \<Rightarrow> int" where
  "render g (KEY k) = (if buttons g AND button_mask k \<noteq> 0 then 1 else 0)"
| "render g (ABSOLUTE ABS_HAT0X) = hat (buttons g) DPAD_LEFT DPAD_RIGHT"
| "render g (ABSOLUTE ABS_HAT0Y) = hat (buttons g) DPAD_UP DPAD_DOWN"
| "render g (ABSOLUTE ABS_Z) = uint (left_trigger g)"
| "render g (ABSOLUTE ABS_RZ) = uint (right_trigger g)"
| "render g (ABSOLUTE ABS_X) = sint (left_stick_x g)"
| "render g (ABSOLUTE ABS_Y) = sint (left_stick_y g)"
| "render g (ABSOLUTE ABS_RX) = sint (right_stick_x g)"
| "render g (ABSOLUTE ABS_RY) = sint (right_stick_y g)"

definition apply_events :: "(event_code \<Rightarrow> int) \<Rightarrow> input_event list \<Rightarrow> event_code \<Rightarrow> int" where
  "apply_events r evs = foldl (\<lambda>f e. f(ie_code e := ie_value e)) r evs"

lemma apply_events_Nil [simp]: "apply_events r [] = r"
  by (simp add: apply_events_def)

lemma apply_push_axis:
  "apply_events r (push_axis evs a before after) c =
     (if c = ABSOLUTE a \<and> before \<noteq> Some after then after else apply_events r evs c)"
  by (simp add: apply_events_def push_axis_def)

lemma apply_push_button:
  "apply_events r (push_button current nxt b evs) c =
     (if c = KEY (snd b) \<and> map_option (\<lambda>g. buttons g AND fst b \<noteq> 0) current \<noteq> Some (buttons nxt AND fst b \<noteq> 0)
      then if buttons nxt AND fst b \<noteq> 0 then 1 else 0 else apply_events r evs c)"
  by (cases current) (simp_all add: apply_events_def push_button_def Let_def)

lemma apply_push_buttons:
  assumes "distinct (map snd bs)"
  shows "apply_events r (fold (push_button current nxt) bs evs) c =
    (case find (\<lambda>b. c = KEY (snd b)) bs of
       None \<Rightarrow> apply_events r evs c
     | Some b \<Rightarrow>
         if map_option (\<lambda>g. buttons g AND fst b \<noteq> 0) current \<noteq> Some (buttons nxt AND fst b \<noteq> 0)
         then if buttons nxt AND fst b \<noteq> 0 then 1 else 0 else apply_events r evs c)"
  using assms
proof (induction bs arbitrary: evs)
  case (Cons b bs)
  then have IH: "apply_events r (fold (push_button current nxt) bs (push_button current nxt b evs)) c =
    (case find (\<lambda>b. c = KEY (snd b)) bs of
       None \<Rightarrow> apply_events r (push_button current nxt b evs) c
     | Some b' \<Rightarrow>
         if map_option (\<lambda>g. buttons g AND fst b' \<noteq> 0) current \<noteq> Some (buttons nxt AND fst b' \<noteq> 0)
         then if buttons nxt AND fst b' \<noteq> 0 then 1 else 0
         else apply_events r (push_button current nxt b evs) c)" by simp
  show ?case
  proof (cases "c = KEY (snd b)")
    case True
    with Cons.prems have "find (\<lambda>b. c = KEY (snd b)) bs = None"
      unfolding find_None_iff by (metis distinct.simps(2) event_code.inject(1) imageI list.set_map list.simps(9))
    with IH have "apply_events r (fold (push_button current nxt) bs (push_button current nxt b evs)) c =
        apply_events r (push_button current nxt b evs) c" by simp
    with True show ?thesis by (cases current) (simp_all add: apply_push_button)
  next
    case False
    then show ?thesis
      unfolding fold_simps IH
      by (cases "find (\<lambda>b. c = KEY (snd b)) bs"; cases current) (simp_all add: apply_push_button)
  qed
qed simp

lemma BUTTONS_distinct: "distinct (map snd BUTTONS)"
  by (simp add: BUTTONS_def)

lemma find_button: "find (\<lambda>b. k = snd b) BUTTONS = Some (button_mask k, k)"
  by (cases k) (simp_all add: BUTTONS_def)

lemma find_no_button: "find (\<lambda>b. False) bs = None"
  by (simp add: find_None_iff)

text \<open>
  The events of a state change take a device that presents \<open>current\<close>, or any device when
  \<open>current\<close> is unknown, to the rendering of the next state.
\<close>

lemma apply_output_events:
  assumes "\<And>g. current = Some g \<Longrightarrow> r = render g"
  shows "apply_events r (output_events current nxt) = render nxt"
proof
  fix c
  have known: "map_option (\<lambda>g. render g c) current = Some v \<Longrightarrow> r c = v" for v
    using assms by (cases current) auto
  show "apply_events r (output_events current nxt) c = render nxt c"
  proof (cases c)
    case (KEY k)
    then show ?thesis
      using assms
      by (cases current)
         (auto simp: output_events_def Let_def apply_push_axis apply_push_buttons [OF BUTTONS_distinct] find_button)
  next
    case (ABSOLUTE a)
    with known show ?thesis
      by (cases a)
         (auto simp: output_events_def Let_def apply_push_axis apply_push_buttons [OF BUTTONS_distinct] find_no_button)
  qed
qed

lemma output_events_same: "output_events (Some g) g = []"
proof -
  have "fold (push_button (Some g) g) bs evs = evs" for bs evs
    by (induction bs arbitrary: evs) (simp_all add: push_button_def)
  then show ?thesis by (simp add: output_events_def push_axis_def)
qed

lemma output_events_unknown:
  "map ie_code (output_events None g) =
     map (KEY \<circ> snd) BUTTONS @ map ABSOLUTE [ABS_HAT0X, ABS_HAT0Y, ABS_Z, ABS_RZ, ABS_X, ABS_Y, ABS_RX, ABS_RY]"
proof -
  have "map ie_code (fold (push_button None g) bs evs) = map ie_code evs @ map (KEY \<circ> snd) bs" for bs evs
    by (induction bs arbitrary: evs) (simp_all add: push_button_def)
  then show ?thesis by (simp add: output_events_def push_axis_def)
qed

text \<open>
  Writing a state to a device, for any \<open>emit\<close> that sets the emitted controls when it
  succeeds and does anything at all when it fails. If the cached state, when there is one, is
  what the device reads, then after a successful write the device reads the requested state
  on every control and the cache says so, after a failed write the cache is empty, so that the
  next write emits every control of the device, and writing the cached state again emits nothing.
\<close>

theorem output_write_establishes_state:
  assumes emit: "\<And>evs x u x'. emit evs x = (Ok u, x') \<Longrightarrow> reading x' = apply_events (reading x) evs"
    and cache: "\<And>g. out_state out = Some g \<Longrightarrow> reading x = render g"
    and w: "output_write emit nxt out x = (r, out', x')"
  shows "(is_ok r \<longrightarrow> reading x' = render nxt \<and> out_state out' = Some nxt) \<and>
    (\<not> is_ok r \<longrightarrow> out_state out' = None \<and>
      set (map ie_code (output_events (out_state out') nxt)) = UNIV) \<and>
    (out_state out = Some nxt \<longrightarrow> is_ok r \<and> x' = x)"
proof -
  let ?evs = "output_events (out_state out) nxt"
  have all: "set (map ie_code (output_events None nxt)) = UNIV"
  proof -
    have "c \<in> set (map (KEY \<circ> snd) BUTTONS @
        map ABSOLUTE [ABS_HAT0X, ABS_HAT0Y, ABS_Z, ABS_RZ, ABS_X, ABS_Y, ABS_RX, ABS_RY])" for c
    proof (cases c)
      case (KEY k)
      then show ?thesis by (cases k) (simp_all add: BUTTONS_def)
    next
      case (ABSOLUTE a)
      then show ?thesis by (cases a) simp_all
    qed
    then show ?thesis unfolding output_events_unknown by blast
  qed
  have ap: "apply_events (reading x) ?evs = render nxt"
    by (rule apply_output_events) (rule cache)
  show ?thesis
  proof (cases "?evs = []")
    case True
    with w ap show ?thesis by (auto simp: output_write_def)
  next
    case False
    then have "out_state out \<noteq> Some nxt" using output_events_same by metis
    moreover obtain e x1 where "emit ?evs x = (e, x1)" by (cases "emit ?evs x")
    ultimately show ?thesis
      using w False ap all emit [of ?evs x _ x1] by (cases e) (auto simp: output_write_def)
  qed
qed

text \<open>An instance on a device that is the map of its readings: South is pressed.\<close>

theorem output_write_establishes_state_witness:
  "fst (snd (snd (output_write (\<lambda>evs r. (Ok (), apply_events (fst r) evs, ())) (neutral\<lparr>buttons := 0x1000\<rparr>)
     \<lparr>out_state = None\<rparr> ((\<lambda>_. 7), ())))) = render (neutral\<lparr>buttons := 0x1000\<rparr>)"
proof -
  let ?emit = "\<lambda>evs (r :: (event_code \<Rightarrow> int) \<times> unit). (Ok () :: (unit, string) result, apply_events (fst r) evs, ())"
  let ?w = "output_write ?emit (neutral\<lparr>buttons := 0x1000\<rparr>) \<lparr>out_state = None\<rparr> ((\<lambda>_. 7), ())"
  have "fst ?w = Ok ()" by code_simp
  moreover have "?w = (fst ?w, fst (snd ?w), snd (snd ?w))" by simp
  from output_write_establishes_state [where reading = fst, OF _ _ this]
  have "is_ok (fst ?w) \<longrightarrow> fst (snd (snd ?w)) = render (neutral\<lparr>buttons := 0x1000\<rparr>)" by auto
  ultimately show ?thesis by simp
qed

subsection \<open>Seat names\<close>

lemma parse_nonzero_u8_decimal: "parse_nonzero_u8 (decimal n) = (if 1 \<le> n \<and> n \<le> 255 then Some n else None)"
  by (simp add: parse_nonzero_u8_def)

lemma parse_nonzero_u8_bounds: "parse_nonzero_u8 s = Some n \<Longrightarrow> 1 \<le> n \<and> n \<le> 255"
  using parse_unsigned_le [of 255 s n] by (auto simp: parse_nonzero_u8_def split: option.splits if_splits)

lemma identity_slot_iff: "identity_slot v pre \<longleftrightarrow> (\<exists>n. 1 \<le> n \<and> n \<le> 255 \<and> v = pre @ decimal n)"
proof
  assume "identity_slot v pre"
  then obtain rest n where "strip_prefix pre v = Some rest" "parse_nonzero_u8 rest = Some n" "decimal n = rest"
    by (auto simp: identity_slot_def split: option.splits)
  then show "\<exists>n. 1 \<le> n \<and> n \<le> 255 \<and> v = pre @ decimal n"
    using parse_nonzero_u8_bounds by (auto simp: strip_prefix_Some)
next
  assume "\<exists>n. 1 \<le> n \<and> n \<le> 255 \<and> v = pre @ decimal n"
  then show "identity_slot v pre"
    by (auto simp: identity_slot_def strip_prefix_def parse_nonzero_u8_decimal)
qed

text \<open>
  Stale seats are recognised exactly: a device counts as a Korri seat when its name or its
  physical path is the one that \<open>SeatSpec::for_slot\<close> gives to a slot from 1 to 255, and never
  otherwise (no leading zeros, signs, suffixes or slot numbers out of range).
\<close>

theorem seat_identity_exact:
  "is_seat_identity name phys \<longleftrightarrow>
     (\<exists>n. 1 \<le> n \<and> n \<le> 255 \<and> (name = Some (spec_name (for_slot n)) \<or> phys = Some (spec_physical_path (for_slot n))))"
  by (auto simp: is_seat_identity_def identity_slot_iff for_slot_def split: option.splits)

subsection \<open>The backend meets the contract of the pool\<close>

definition uinput_shows :: "('d \<Rightarrow> event_code \<Rightarrow> int) \<Rightarrow> ('d, 'w) uinput_backend \<Rightarrow> nat \<Rightarrow> gamepad_state \<Rightarrow> bool" where
  "uinput_shows reading b n g \<longleftrightarrow>
     (\<exists>dev. bt_get (devices b) n = Some dev \<and> reading (sd_device dev) = render g)"

definition uinput_sound :: "('d \<Rightarrow> event_code \<Rightarrow> int) \<Rightarrow> ('d, 'w) uinput_backend \<Rightarrow> bool" where
  "uinput_sound reading b \<longleftrightarrow>
     (\<forall>n dev g. bt_get (devices b) n = Some dev \<longrightarrow> out_state (sd_output dev) = Some g \<longrightarrow>
        reading (sd_device dev) = render g)"

lemma render_neutral: "render neutral = (\<lambda>_. 0)"
proof
  fix c
  show "render neutral c = 0"
    by (cases "(neutral, c)" rule: render.cases) (simp_all add: neutral_def hat_def)
qed

lemma uinput_write_cases:
  assumes "uinput_write_state os n g b = (r, b')"
  obtains "bt_get (devices b) n = None" "b' = b" "\<not> is_ok r"
  | dev out d w where "bt_get (devices b) n = Some dev"
      "output_write (os_emit os) g (sd_output dev) (sd_device dev, world b) = (r, out, d, w)"
      "devices b' = bt_insert n (dev\<lparr>sd_device := d, sd_output := out\<rparr>) (devices b)"
proof (cases "bt_get (devices b) n")
  case None
  with assms show thesis by (intro that(1)) (auto simp: uinput_write_state_def)
next
  case (Some dev)
  obtain e out d w where o: "output_write (os_emit os) g (sd_output dev) (sd_device dev, world b) = (e, out, d, w)"
    by (cases "output_write (os_emit os) g (sd_output dev) (sd_device dev, world b)") auto
  with assms Some show thesis by (intro that(2) [of dev out d w]) (auto simp: uinput_write_state_def)
qed

lemma uinput_create_devices:
  assumes "uinput_create os (for_slot n) b = (r, b')"
  obtains "devices b' = devices b"
  | d w w' path where "build_device os (for_slot n) w = (Ok d, w')"
      "devices b' = bt_insert n \<lparr>sd_event_device = path, sd_device = d, sd_output = \<lparr>out_state = Some neutral\<rparr>\<rparr> (devices b)"
proof -
  let ?pre = "if preflight_complete b then Ok () else reject_existing_seats os (world b)"
  obtain bd w where bd: "build_device os (for_slot n) (world b) = (bd, w)"
    by (cases "build_device os (for_slot n) (world b)")
  show thesis
  proof (cases "spec_slot (for_slot n) = 0 \<or> bt_contains_key (devices b) (spec_slot (for_slot n)) \<or> \<not> is_ok ?pre \<or> \<not> is_ok bd")
    case True
    then have "devices b' = devices b"
      using assms bd by (cases ?pre; cases bd) (auto simp: uinput_create_def Let_def split: if_splits)
    then show thesis by (rule that(1))
  next
    case False
    then obtain u d where ok: "?pre = Ok u" "bd = Ok d" by (cases ?pre; cases bd) auto
    obtain ps w2 where ps: "os_polls os d w = (ps, w2)" by (cases "os_polls os d w")
    have slot: "spec_slot (for_slot n) = n" by (simp add: for_slot_def)
    show thesis
    proof (cases "wait_for_event_node (event_gid b) ps")
      case (Ok path)
      then show thesis
        using assms bd ok False ps slot
        by (intro that(2) [of "world b" d w path]) (auto simp: uinput_create_def Let_def)
    next
      case (Err e)
      then show thesis
        using assms bd ok False ps by (intro that(1)) (auto simp: uinput_create_def Let_def)
    qed
  qed
qed

locale evdev_device =
  fixes os :: "('d, 'w) uinput_os"
    and reading :: "'d \<Rightarrow> event_code \<Rightarrow> int"
  assumes build_reads: "os_build os setup w = (Ok d, w') \<Longrightarrow> reading d = (\<lambda>_. 0)"
    and emit_reads: "os_emit os evs (d, w) = (Ok u, d', w') \<Longrightarrow> reading d' = apply_events (reading d) evs"
begin

lemma build_device_reads: "build_device os sp w = (Ok d, w') \<Longrightarrow> reading d = (\<lambda>_. 0)"
  by (auto simp: build_device_def simp del: position_None split: option.splits intro: build_reads)

lemma write_device:
  assumes "\<And>g. out_state out = Some g \<Longrightarrow> reading d = render g"
    and w: "output_write (os_emit os) nxt out (d, w) = (r, out', d', w')"
  shows "is_ok r \<Longrightarrow> reading d' = render nxt" and "out_state out' = Some g \<Longrightarrow> reading d' = render g"
proof -
  let ?evs = "output_events (out_state out) nxt"
  have ap: "apply_events (reading d) ?evs = render nxt" by (rule apply_output_events) (rule assms(1))
  obtain e d1 w1 where e: "os_emit os ?evs (d, w) = (e, d1, w1)" by (cases "os_emit os ?evs (d, w)") auto
  have "(is_ok r \<longrightarrow> reading d' = render nxt) \<and> (out_state out' = Some g \<longrightarrow> reading d' = render g)"
    using w e ap emit_reads [of ?evs d w _ d1 w1]
    by (cases "?evs = []"; cases e) (auto simp: output_write_def)
  then show "is_ok r \<Longrightarrow> reading d' = render nxt" "out_state out' = Some g \<Longrightarrow> reading d' = render g"
    by blast+
qed

end

sublocale evdev_device \<subseteq> uinput: seat_backend_contract "uinput_ops os" "uinput_shows reading" "uinput_sound reading"
proof
  fix b b' :: "('d, 'w) uinput_backend" and n g u
  assume s: "uinput_sound reading b" and w: "be_write_state (uinput_ops os) n g b = (Ok u, b')"
  from w have "uinput_write_state os n g b = (Ok u, b')" by (simp add: uinput_ops_def)
  then show "uinput_shows reading b' n g"
  proof (rule uinput_write_cases)
    fix dev out d w
    assume a: "bt_get (devices b) n = Some dev"
      "output_write (os_emit os) g (sd_output dev) (sd_device dev, world b) = (Ok u, out, d, w)"
      "devices b' = bt_insert n (dev\<lparr>sd_device := d, sd_output := out\<rparr>) (devices b)"
    have "reading d = render g"
      using write_device(1) [OF _ a(2)] s a(1) by (auto simp: uinput_sound_def)
    with a(3) show ?thesis by (auto simp: uinput_shows_def)
  qed simp_all
next
  fix b b' :: "('d, 'w) uinput_backend" and n g r m h
  assume "be_write_state (uinput_ops os) n g b = (r, b')" and "m \<noteq> n" "uinput_shows reading b m h"
  then show "uinput_shows reading b' m h"
    by (auto simp: uinput_ops_def uinput_shows_def elim!: uinput_write_cases)
next
  fix b b' :: "('d, 'w) uinput_backend" and n g r
  assume s: "uinput_sound reading b" and w: "be_write_state (uinput_ops os) n g b = (r, b')"
  from w have "uinput_write_state os n g b = (r, b')" by (simp add: uinput_ops_def)
  then show "uinput_sound reading b'"
  proof (rule uinput_write_cases)
    fix dev out d w
    assume a: "bt_get (devices b) n = Some dev"
      "output_write (os_emit os) g (sd_output dev) (sd_device dev, world b) = (r, out, d, w)"
      "devices b' = bt_insert n (dev\<lparr>sd_device := d, sd_output := out\<rparr>) (devices b)"
    have "out_state out = Some h \<Longrightarrow> reading d = render h" for h
      using write_device(2) [OF _ a(2)] s a(1) by (auto simp: uinput_sound_def)
    with a(3) s show ?thesis by (auto simp: uinput_sound_def)
  qed (use s in simp)
next
  fix b b' :: "('d, 'w) uinput_backend" and n r m h
  assume "be_create (uinput_ops os) (for_slot n) b = (r, b')" and "m \<noteq> n" "uinput_shows reading b m h"
  then show "uinput_shows reading b' m h"
    by (auto simp: uinput_ops_def uinput_shows_def elim!: uinput_create_devices)
next
  fix b b' :: "('d, 'w) uinput_backend" and n r
  assume s: "uinput_sound reading b" and "be_create (uinput_ops os) (for_slot n) b = (r, b')"
  then show "uinput_sound reading b'"
    by (auto simp: uinput_ops_def uinput_sound_def render_neutral elim!: uinput_create_devices
        dest!: build_device_reads split: if_splits)
qed (auto simp: uinput_ops_def uinput_destroy_def uinput_shows_def uinput_sound_def split: option.splits if_splits)

context evdev_device
begin

lemma uinput_new_sound: "uinput_sound reading (uinput_new gid w)"
  by (simp add: uinput_sound_def uinput_new_def)

lemma uinput_run_shows:
  assumes "pool_new (uinput_ops os) count (uinput_new gid w) = Ok p" and "count < 256"
    and q: "q = foldl (pool_step (uinput_ops os)) p xs" and i: "i < length (seats q)"
    and g: "known_state (seats q ! i) = Some g"
  shows "uinput_shows reading (backend q) (Suc i) g"
proof -
  have "uinput.good q" "pool_inv q" using uinput.good_run [OF uinput_new_sound assms(1,2), of xs] by (simp_all add: q)
  with i g show ?thesis
    unfolding uinput.good_def pool_coherent_def using pool_invD(2) [of q i] by metis
qed

end

text \<open>
  A simulated kernel: a device is the map of its readings, the world is the list of the emit
  calls to come, and an emit call that fails has applied the first event only.
\<close>

fun sim_emit ::
  "input_event list \<Rightarrow> (event_code \<Rightarrow> int) \<times> bool list \<Rightarrow> (unit, string) result \<times> (event_code \<Rightarrow> int) \<times> bool list" where
  "sim_emit evs (d, []) = (Ok (), apply_events d evs, [])"
| "sim_emit evs (d, True # w) = (Err ''EIO'', apply_events d (take 1 evs), w)"
| "sim_emit evs (d, False # w) = (Ok (), apply_events d evs, w)"

definition sim_os :: "(event_code \<Rightarrow> int, bool list) uinput_os" where
  "sim_os = \<lparr>os_entries = (\<lambda>w. Ok []), os_build = (\<lambda>s w. (Ok (\<lambda>_. 0), w)),
     os_polls = (\<lambda>d w. ([None, Some [\<lparr>node_path = ''/dev/input/event7'', node_gid_mode = Some (995, 0x21B0)\<rparr>]], w)),
     os_emit = sim_emit, os_drop = (\<lambda>d w. w)\<rparr>"

lemma sim_emit_reads: "sim_emit evs (d, w) = (Ok u, d', w') \<Longrightarrow> d' = apply_events d evs"
  by (cases "(evs, (d, w))" rule: sim_emit.cases) auto

interpretation sim: evdev_device sim_os "\<lambda>d. d"
  by unfold_locales (auto simp: sim_os_def dest: sim_emit_reads)

text \<open>
  C8. On kernel devices a known state is the real state. For every behaviour of the kernel
  with \<open>emit\<close> calls that fail after any partial effect, and after every sequence of pool
  requests: if a seat's state is known, its device exists and every button and axis of it reads
  that state, and a seat without a connected source that is not known to be in doubt reads zero
  on every control.
\<close>

theorem seats_show_known_states:
  assumes build: "\<And>setup w d w'. os_build os setup w = (Ok d, w') \<Longrightarrow> reading d = (\<lambda>_. 0)"
    and emit: "\<And>evs d w u d' w'. os_emit os evs (d, w) = (Ok u, d', w') \<Longrightarrow>
      reading d' = apply_events (reading d) evs"
    and new: "pool_new (uinput_ops os) count (uinput_new gid w) = Ok p" and count: "count < 256"
    and q: "q = foldl (pool_step (uinput_ops os)) p xs" and i: "i < length (seats q)"
    and known: "known_state (seats q ! i) = Some g"
  shows "\<exists>dev. bt_get (devices (backend q)) (Suc i) = Some dev \<and> reading (sd_device dev) = render g \<and>
    (\<not> seat_connected (seats q ! i) \<longrightarrow> (\<forall>c. reading (sd_device dev) c = 0))"
proof -
  have "evdev_device os reading" by (rule evdev_device.intro) (fact build emit)+
  then have "uinput_shows reading (backend q) (Suc i) g"
    using new count q i known by (rule evdev_device.uinput_run_shows)
  moreover have "g = neutral" if "\<not> seat_connected (seats q ! i)"
  proof -
    have "pool_inv q" unfolding q by (rule pool_machine.inv_run) (rule pool_new_inv(1) [OF new count])
    from pool_invD(4) [OF this i that] known show ?thesis by (simp add: quiet_def)
  qed
  ultimately show ?thesis by (auto simp: uinput_shows_def render_neutral)
qed

text \<open>Witness of C8: a held button whose write failed half way is released by the disconnect.\<close>

definition example_kernel_pool :: "(nat, (event_code \<Rightarrow> int, bool list) uinput_backend) seat_pool" where
  "example_kernel_pool = ok_value (pool_new (uinput_ops sim_os) 1 (uinput_new 995 [True]))"

definition example_kernel_inputs :: "nat pool_input list" where
  "example_kernel_inputs = [PoolBegin example_sid, PoolConnect 7,
     PoolWrite 7 (neutral\<lparr>buttons := 0x1000, left_trigger := 9\<rparr>), PoolDisconnect 7]"

theorem seats_show_known_states_witness:
  "\<exists>dev. bt_get (devices (backend (foldl (pool_step (uinput_ops sim_os)) example_kernel_pool example_kernel_inputs))) 1
     = Some dev \<and> (\<forall>c. sd_device dev c = 0)"
proof -
  let ?q = "foldl (pool_step (uinput_ops sim_os)) example_kernel_pool example_kernel_inputs"
  have "is_ok (pool_new (uinput_ops sim_os) 1 (uinput_new 995 [True]) ::
      ((nat, (event_code \<Rightarrow> int, bool list) uinput_backend) seat_pool, pool_error) result)" by code_simp
  then have new: "pool_new (uinput_ops sim_os) 1 (uinput_new 995 [True]) = Ok example_kernel_pool"
    unfolding example_kernel_pool_def by (rule ok_value_eq)
  have "0 < length (seats ?q) \<and> known_state (seats ?q ! 0) = Some neutral \<and> \<not> seat_connected (seats ?q ! 0)"
    by code_simp
  then have i: "0 < length (seats ?q)" and known: "known_state (seats ?q ! 0) = Some neutral"
    and idle: "\<not> seat_connected (seats ?q ! 0)" by blast+
  have "\<exists>dev. bt_get (devices (backend ?q)) (Suc 0) = Some dev \<and> sd_device dev = render neutral \<and>
      (\<not> seat_connected (seats ?q ! 0) \<longrightarrow> (\<forall>c. sd_device dev c = 0))"
    by (rule seats_show_known_states [where reading = "\<lambda>d. d", OF _ _ new _ refl i known])
      (erule sim.build_reads, erule sim.emit_reads, simp)
  with idle show ?thesis by auto
qed

end
