(* ===== verification/Seat_Runtime.thy ===== *)
theory Seat_Runtime
  imports Seat_Pool
begin

text \<open>
  The seat receiver's runtime, \<open>services/inputd/src/input_seat.rs\<close>: the only allocator of the
  seats. It takes coordination requests from korrid (\<open>coordinate\<close>), mirror packets from
  Sunshine (\<open>accept\<close>, \<open>bind\<close>, \<open>unbind\<close>, \<open>reset\<close>), the loss of the coordinator and the passing of
  time (\<open>expire_stale\<close>), over a seat pool with any backend.

  \<^item> data: \<open>source_key\<close> with its derived order, \<open>source\<close>, \<open>seat_runtime\<close>, the mirror frames;
  \<^item> operations in the order of the file; the JSON decoder of a mirror envelope is the
    parameter \<open>from_slice\<close>;
  \<^item> \<open>boot\<close> and \<open>stop\<close> return the pool's error value, which the source only formats as text.
\<close>

subsection \<open>Data\<close>

definition MAX_SEATS :: nat where "MAX_SEATS = 4"
definition MAX_MIRROR_FRAME_BYTES :: nat where "MAX_MIRROR_FRAME_BYTES = 2048"
definition MAX_EVENTS_PER_SECOND :: nat where "MAX_EVENTS_PER_SECOND = 240"
definition STALE_SOURCE_TIMEOUT_MS :: nat where "STALE_SOURCE_TIMEOUT_MS = 1250"
definition SUPPORTED_BUTTON_MASK :: "32 word" where "SUPPORTED_BUTTON_MASK = 0xf7ff"

unbundle bit_operations_syntax

datatype mirror_outcome =
    Accepted nat
  | Unauthorized
  | MirrorInvalid
  | StaleLaunch
  | MirrorUnknownSource
  | MirrorNoSeat
  | MirrorRateLimited
  | BackendFailed
  | FeedbackFailed

datatype seat_reset_outcome = ResetAccepted | ResetStaleLaunch | ResetBackendFailed

datatype source_key =
    Physical string
  | Netplay string
  | Remote string string nat

fun key_less :: "source_key \<Rightarrow> source_key \<Rightarrow> bool" where
  "key_less (Physical a) (Physical b) = (a < b)"
| "key_less (Physical _) _ = True"
| "key_less (Netplay a) (Netplay b) = (a < b)"
| "key_less (Netplay _) (Remote _ _ _) = True"
| "key_less (Remote l c n) (Remote l' c' n') = (l < l' \<or> l = l' \<and> (c < c' \<or> c = c' \<and> n < n'))"
| "key_less _ _ = False"

instantiation source_key :: linorder
begin

definition less_source_key :: "source_key \<Rightarrow> source_key \<Rightarrow> bool" where
  "less_source_key a b \<longleftrightarrow> key_less a b"

definition less_eq_source_key :: "source_key \<Rightarrow> source_key \<Rightarrow> bool" where
  "less_eq_source_key a b \<longleftrightarrow> key_less a b \<or> a = b"

instance
proof
  fix a b c :: source_key
  show "a < b \<longleftrightarrow> a \<le> b \<and> \<not> b \<le> a"
    by (cases "(a, b)" rule: key_less.cases) (auto simp: less_source_key_def less_eq_source_key_def)
  show "a \<le> a" by (simp add: less_eq_source_key_def)
  show "a \<le> b \<Longrightarrow> b \<le> c \<Longrightarrow> a \<le> c"
    by (cases a; cases b; cases c) (auto simp: less_eq_source_key_def)
  show "a \<le> b \<Longrightarrow> b \<le> a \<Longrightarrow> a = b"
    by (cases "(a, b)" rule: key_less.cases) (auto simp: less_eq_source_key_def)
  show "a \<le> b \<or> b \<le> a"
    by (cases "(a, b)" rule: key_less.cases) (auto simp: less_eq_source_key_def)
qed

end

record source =
  src_state :: gamepad_state
  has_state :: bool
  requires_neutral :: bool
  last_event_ms :: nat
  window_start_ms :: nat
  events_in_window :: nat

record 'b seat_runtime =
  pool :: "(source_key, 'b) seat_pool"
  rt_sources :: "(source_key, source) btree"
  mirror :: "(string \<times> string) option"
  game_route :: bool
  rt_seat_order :: seat_order
  recovery_required :: bool
  faulted :: bool
  feedback_failed :: bool
  feedback :: "remote_event list"

record source_connected_frame =
  cf_client_id :: string
  cf_launch_id :: string
  cf_controller_number :: nat

record source_disconnected_frame =
  df_client_id :: string
  df_launch_id :: string
  df_controller_number :: nat
  df_reason :: "string option"

record source_state_frame =
  sf_client_id :: string
  sf_launch_id :: string
  sf_controller_number :: nat
  sf_buttons :: "32 word"
  sf_left_trigger :: "8 word"
  sf_right_trigger :: "8 word"
  sf_left_stick_x :: "16 word"
  sf_left_stick_y :: "16 word"
  sf_right_stick_x :: "16 word"
  sf_right_stick_y :: "16 word"

datatype sunshine_frame =
    FrameConnected source_connected_frame
  | FrameDisconnected source_disconnected_frame
  | FrameState source_state_frame

record mirror_envelope =
  mirror_token :: string
  frame :: sunshine_frame

definition frame_client_id :: "sunshine_frame \<Rightarrow> string" where
  "frame_client_id f = (case f of FrameConnected c \<Rightarrow> cf_client_id c
     | FrameDisconnected d \<Rightarrow> df_client_id d | FrameState s \<Rightarrow> sf_client_id s)"

definition frame_launch_id :: "sunshine_frame \<Rightarrow> string" where
  "frame_launch_id f = (case f of FrameConnected c \<Rightarrow> cf_launch_id c
     | FrameDisconnected d \<Rightarrow> df_launch_id d | FrameState s \<Rightarrow> sf_launch_id s)"

subsection \<open>Checks\<close>

definition pool_failure :: "pool_error \<Rightarrow> seat_failure" where
  "pool_failure e =
     (case e of
        SessionAlreadyActive \<Rightarrow> Active
      | StaleSession \<Rightarrow> Stale
      | InvalidSession _ \<Rightarrow> Invalid
      | UnknownSourceKey \<Rightarrow> UnknownSource
      | DisconnectedSource \<Rightarrow> UnknownSource
      | NoSeat \<Rightarrow> Active
      | BackendError _ \<Rightarrow> Backend)"

text \<open>
  \<open>char::is_control\<close> on UTF-8 bytes: the C0 controls and DEL are single bytes, the C1 controls
  are encoded as \<open>C2\<close> followed by \<open>80\<close> to \<open>9F\<close>.
\<close>

fun has_control :: "string \<Rightarrow> bool" where
  "has_control [] = False"
| "has_control (c # cs) =
     (of_char c < (32 :: nat) \<or> of_char c = (127 :: nat) \<or>
      (of_char c = (0xC2 :: nat) \<and>
       (case cs of [] \<Rightarrow> False | d # _ \<Rightarrow> (0x80 :: nat) \<le> of_char d \<and> of_char d \<le> (0x9F :: nat))) \<or>
      has_control cs)"

definition valid_native_text :: "string \<Rightarrow> nat \<Rightarrow> bool" where
  "valid_native_text v mx \<longleftrightarrow> v \<noteq> [] \<and> length v \<le> mx \<and> \<not> has_control v"

definition valid_state :: "gamepad_state \<Rightarrow> bool" where
  "valid_state g \<longleftrightarrow> buttons g AND NOT SUPPORTED_BUTTON_MASK = 0"

definition invert_sunshine_axis :: "16 word \<Rightarrow> 16 word" where
  "invert_sunshine_axis v = (if v = 0x8000 then 0x7FFF else - v)"

definition validate_token :: "string \<Rightarrow> (unit, string) result" where
  "validate_token v =
     (if lower_hex_text 64 v then Ok ()
      else Err ''mirror token must be 64 lower-case hexadecimal bytes'')"

definition byte_at :: "string \<Rightarrow> nat \<Rightarrow> 8 word" where
  "byte_at s i = (if i < length s then of_nat (of_char (s ! i)) else 0)"

definition constant_time_equal :: "string \<Rightarrow> string \<Rightarrow> bool" where
  "constant_time_equal l r \<longleftrightarrow>
     fold (\<lambda>i d. d OR ucast (byte_at l i XOR byte_at r i)) [0..<max (length l) (length r)]
       (of_nat (length l) XOR of_nat (length r)) = (0 :: 64 word)"

definition decode_envelope :: "(string \<Rightarrow> mirror_envelope option) \<Rightarrow> string \<Rightarrow> mirror_envelope option" where
  "decode_envelope from_slice packet =
     (if packet = [] \<or> MAX_MIRROR_FRAME_BYTES < length packet \<or> last packet \<noteq> CHR 0x0A \<or>
         CHR 0x0A \<in> set (butlast packet) \<or> CHR 0x0D \<in> set (butlast packet)
      then None else from_slice (butlast packet))"

subsection \<open>Sources\<close>

definition boot :: "'b seat_backend \<Rightarrow> 'b \<Rightarrow> ('b seat_runtime, pool_error) result" where
  "boot ops b =
     (case pool_new ops MAX_SEATS b of
        Err e \<Rightarrow> Err e
      | Ok p \<Rightarrow> Ok \<lparr>pool = p, rt_sources = [], mirror = None, game_route = False, rt_seat_order = Attached,
                  recovery_required = True, faulted = False, feedback_failed = False, feedback = []\<rparr>)"

definition mirror_launch :: "'b seat_runtime \<Rightarrow> string option" where
  "mirror_launch s = map_option fst (mirror s)"

definition require_ready :: "'b seat_runtime \<Rightarrow> (unit, seat_failure) result" where
  "require_ready s =
     (if recovery_required s \<or> faulted s \<or> feedback_failed s then Err NotReady else Ok ())"

definition first_press :: "'b seat_runtime \<Rightarrow> bool" where
  "first_press s \<longleftrightarrow> session (pool s) \<noteq> None \<and> rt_seat_order s = FirstPress"

definition is_physical :: "source_key \<Rightarrow> bool" where
  "is_physical k = (case k of Physical _ \<Rightarrow> True | _ \<Rightarrow> False)"

definition is_remote :: "source_key \<Rightarrow> bool" where
  "is_remote k = (case k of Remote _ _ _ \<Rightarrow> True | _ \<Rightarrow> False)"

definition push_feedback :: "remote_event \<Rightarrow> 'b seat_runtime \<Rightarrow> 'b seat_runtime" where
  "push_feedback e s =
     (if MAX_REMOTE_EVENTS \<le> length (feedback s) then s\<lparr>feedback_failed := True\<rparr>
      else s\<lparr>feedback := feedback s @ [e]\<rparr>)"

definition remote_source_of :: "'b seat_runtime \<Rightarrow> source_key \<Rightarrow> remote_source option" where
  "remote_source_of s k =
     (case k of
        Remote l c n \<Rightarrow>
          (case bt_get (rt_sources s) k of
             None \<Rightarrow> None
           | Some src \<Rightarrow>
               if \<not> has_state src then None
               else Some \<lparr>rs_client_id = c, rs_launch_id = l, rs_controller_number = n,
                          rs_state = src_state src, rs_slot = pool_slot (pool s) k\<rparr>)
      | _ \<Rightarrow> None)"

definition all_remote_sources :: "'b seat_runtime \<Rightarrow> remote_source list" where
  "all_remote_sources s = List.map_filter (remote_source_of s) (bt_keys (rt_sources s))"

definition set_route ::
  "'b seat_backend \<Rightarrow> bool \<Rightarrow> 'b seat_runtime \<Rightarrow> (unit, seat_failure) result \<times> 'b seat_runtime" where
  "set_route ops game s =
     (let s1 = s\<lparr>game_route := False,
                 rt_sources := bt_map_values (\<lambda>src. src\<lparr>requires_neutral := True\<rparr>) (rt_sources s)\<rparr>
      in case neutralize ops (pool s1) of
           (Err e, p) \<Rightarrow> (Err (pool_failure e), s1\<lparr>pool := p\<rparr>)
         | (Ok _, p) \<Rightarrow> (Ok (), s1\<lparr>pool := p, game_route := game\<rparr>))"

definition new_source :: "gamepad_state \<Rightarrow> nat \<Rightarrow> bool \<Rightarrow> source" where
  "new_source g now has =
     \<lparr>src_state = g, has_state = has, requires_neutral = True, last_event_ms = now,
      window_start_ms = now, events_in_window = 0\<rparr>"

text \<open>Connecting a key to the pool when a full pool is no error.\<close>

definition claim_seat ::
  "'b seat_backend \<Rightarrow> source_key \<Rightarrow> (source_key, 'b) seat_pool
     \<Rightarrow> (nat option, seat_failure) result \<times> (source_key, 'b) seat_pool" where
  "claim_seat ops k p =
     (case pool_connect ops k p of
        (Ok n, p1) \<Rightarrow> (Ok (Some n), p1)
      | (Err e, p1) \<Rightarrow> (if e = NoSeat then Ok None else Err (pool_failure e), p1))"

definition connect_source ::
  "'b seat_backend \<Rightarrow> source_key \<Rightarrow> gamepad_state \<Rightarrow> nat \<Rightarrow> bool \<Rightarrow> 'b seat_runtime
     \<Rightarrow> (nat option, seat_failure) result \<times> 'b seat_runtime" where
  "connect_source ops k g now has s =
     (case (if first_press s \<and> pool_slot (pool s) k = None then (Ok None, pool s)
            else claim_seat ops k (pool s)) of
        (Err e, p) \<Rightarrow> (Err e, s\<lparr>pool := p\<rparr>)
      | (Ok sl, p) \<Rightarrow>
          (Ok sl, s\<lparr>pool := p, rt_sources := bt_insert k (new_source g now has) (rt_sources s)\<rparr>))"

text \<open>The admission budget of a remote source: 240 events in each window of a second.\<close>

definition count_event :: "nat \<Rightarrow> source \<Rightarrow> source option" where
  "count_event now src =
     (let src1 = (if 1000 \<le> now - window_start_ms src
                  then src\<lparr>window_start_ms := now, events_in_window := 0\<rparr> else src)
      in if MAX_EVENTS_PER_SECOND \<le> events_in_window src1 then None
         else Some (src1\<lparr>events_in_window := events_in_window src1 + 1\<rparr>))"

text \<open>The state of an armed source in game route reaches its seat, or claims one by a first press.\<close>

definition deliver ::
  "'b seat_backend \<Rightarrow> source_key \<Rightarrow> gamepad_state \<Rightarrow> 'b seat_runtime
     \<Rightarrow> (nat option, seat_failure) result \<times> 'b seat_runtime" where
  "deliver ops k g s =
     (let sl = pool_slot (pool s) k in
      case (if sl = None \<and> first_press s \<and> \<not> is_neutral_for_rearm g
            then claim_seat ops k (pool s) else (Ok sl, pool s)) of
        (Err e, p) \<Rightarrow> (Err e, s\<lparr>pool := p\<rparr>)
      | (Ok None, p) \<Rightarrow> (Ok None, s\<lparr>pool := p\<rparr>)
      | (Ok (Some n), p) \<Rightarrow>
          (case pool_write_state ops k g p of
             (Err e, p2) \<Rightarrow> (Err (pool_failure e), s\<lparr>pool := p2\<rparr>)
           | (Ok _, p2) \<Rightarrow> (Ok (Some n), s\<lparr>pool := p2\<rparr>)))"

definition update_source ::
  "'b seat_backend \<Rightarrow> source_key \<Rightarrow> gamepad_state \<Rightarrow> nat \<Rightarrow> 'b seat_runtime
     \<Rightarrow> (nat option, seat_failure) result \<times> 'b seat_runtime" where
  "update_source ops k g now s =
     (case bt_get (rt_sources s) k of
        None \<Rightarrow> (Err UnknownSource, s)
      | Some src0 \<Rightarrow>
          (case (if is_remote k then count_event now src0 else Some src0) of
             None \<Rightarrow> (Err RateLimited, s)
           | Some src1 \<Rightarrow>
               let src = src1\<lparr>last_event_ms := now, src_state := g, has_state := True\<rparr>;
                   s1 = s\<lparr>rt_sources := bt_insert k src (rt_sources s)\<rparr>
               in if \<not> game_route s then (Ok (pool_slot (pool s) k), s1)
                  else if requires_neutral src1 then
                    (Ok (pool_slot (pool s) k),
                     if is_neutral_for_rearm g
                     then s\<lparr>rt_sources := bt_insert k (src\<lparr>requires_neutral := False\<rparr>) (rt_sources s)\<rparr>
                     else s1)
                  else deliver ops k g s1))"

definition set_requires_neutral ::
  "bool \<Rightarrow> source_key \<Rightarrow> (source_key, source) btree \<Rightarrow> (source_key, source) btree" where
  "set_requires_neutral v k ss =
     (case bt_get ss k of None \<Rightarrow> ss | Some src \<Rightarrow> bt_insert k (src\<lparr>requires_neutral := v\<rparr>) ss)"

fun rebalance_loop ::
  "'b seat_backend \<Rightarrow> source_key list \<Rightarrow> 'b seat_runtime \<Rightarrow> (unit, seat_failure) result \<times> 'b seat_runtime" where
  "rebalance_loop ops [] s = (Ok (), s)"
| "rebalance_loop ops (k # ks) s =
     (if pool_slot (pool s) k \<noteq> None then rebalance_loop ops ks s
      else case pool_connect ops k (pool s) of
             (Ok _, p) \<Rightarrow>
               rebalance_loop ops ks
                 (s\<lparr>pool := p, rt_sources := set_requires_neutral True k (rt_sources s)\<rparr>)
           | (Err e, p) \<Rightarrow>
               if e = NoSeat then rebalance_loop ops ks (s\<lparr>pool := p\<rparr>)
               else (Err (pool_failure e), s\<lparr>pool := p\<rparr>))"

definition rebalance ::
  "'b seat_backend \<Rightarrow> 'b seat_runtime \<Rightarrow> (unit, seat_failure) result \<times> 'b seat_runtime" where
  "rebalance ops s =
     (if first_press s then (Ok (), s) else rebalance_loop ops (bt_keys (rt_sources s)) s)"

definition disconnect_source ::
  "'b seat_backend \<Rightarrow> source_key \<Rightarrow> 'b seat_runtime \<Rightarrow> (unit, seat_failure) result \<times> 'b seat_runtime" where
  "disconnect_source ops k s =
     (case bt_get (rt_sources s) k of
        None \<Rightarrow> (Err UnknownSource, s)
      | Some src \<Rightarrow>
          let (d, p) = pool_disconnect ops k (pool s);
              r = (case d of Ok _ \<Rightarrow> Ok ()
                   | Err e \<Rightarrow> if e = UnknownSourceKey then Ok () else Err (pool_failure e));
              s1 = s\<lparr>pool := p, rt_sources := bt_remove k (rt_sources s)\<rparr>;
              s2 = (if has_state src then
                      (case k of Remote l c n \<Rightarrow> push_feedback (RemoteDisconnected c l n) s1 | _ \<Rightarrow> s1)
                    else s1)
          in case r of Err e \<Rightarrow> (Err e, s2) | Ok _ \<Rightarrow> rebalance ops s2)"

subsection \<open>Mirror authority\<close>

definition bind ::
  "string \<Rightarrow> string \<Rightarrow> 'b seat_runtime \<Rightarrow> (unit, string) result \<times> 'b seat_runtime" where
  "bind launch token s =
     (if \<not> is_ok (require_ready s) then (Err ''seat coordinator is not ready'', s)
      else case validate_launch_id launch of
        Err e \<Rightarrow> (Err e, s)
      | Ok _ \<Rightarrow>
          (case validate_token token of
             Err e \<Rightarrow> (Err e, s)
           | Ok _ \<Rightarrow>
               if session (pool s) \<noteq> Some launch
               then (Err ''mirror has no matching authoritative session'', s)
               else if mirror s \<noteq> None then (Err ''input-seat launch is already bound'', s)
               else (Ok (), s\<lparr>mirror := Some (launch, token)\<rparr>)))"

fun disconnect_all :: "'b seat_backend \<Rightarrow> source_key list \<Rightarrow> 'b seat_runtime \<Rightarrow> bool \<times> 'b seat_runtime" where
  "disconnect_all ops [] s = (False, s)"
| "disconnect_all ops (k # ks) s =
     (let (r, s1) = disconnect_source ops k s; (failed, s2) = disconnect_all ops ks s1
      in (\<not> is_ok r \<or> failed, s2))"

definition unbind ::
  "'b seat_backend \<Rightarrow> 'b seat_runtime \<Rightarrow> (unit, string) result \<times> 'b seat_runtime" where
  "unbind ops s =
     (let (failed, s1) = disconnect_all ops (filter is_remote (bt_keys (rt_sources s))) (s\<lparr>mirror := None\<rparr>)
      in if failed then (Err ''mirror neutralization failed'', s1\<lparr>faulted := True\<rparr>) else (Ok (), s1))"

definition coordinator_lost ::
  "'b seat_backend \<Rightarrow> 'b seat_runtime \<Rightarrow> (unit, string) result \<times> 'b seat_runtime" where
  "coordinator_lost ops s =
     (let (failed, s1) = disconnect_all ops (bt_keys (rt_sources s))
            (s\<lparr>recovery_required := True, game_route := False, mirror := None\<rparr>);
          (n, p) = neutralize ops (pool s1);
          s2 = s1\<lparr>pool := p, feedback := [], feedback_failed := False\<rparr>
      in if failed \<or> \<not> is_ok n
         then (Err ''coordinator loss neutralization failed'', s2\<lparr>faulted := True\<rparr>) else (Ok (), s2))"

fun reset_loop :: "'b seat_backend \<Rightarrow> source_key list \<Rightarrow> 'b seat_runtime \<Rightarrow> bool \<times> 'b seat_runtime" where
  "reset_loop ops [] s = (False, s)"
| "reset_loop ops (k # ks) s =
     (let s1 = s\<lparr>rt_sources := set_requires_neutral True k (rt_sources s)\<rparr>;
          (bad, s2) = (if pool_slot (pool s1) k \<noteq> None
                       then (let (r, p) = pool_write_state ops k neutral (pool s1)
                             in (\<not> is_ok r, s1\<lparr>pool := p\<rparr>))
                       else (False, s1));
          (failed, s3) = reset_loop ops ks s2
      in (bad \<or> failed, s3))"

definition reset ::
  "'b seat_backend \<Rightarrow> string \<Rightarrow> 'b seat_runtime \<Rightarrow> seat_reset_outcome \<times> 'b seat_runtime" where
  "reset ops launch s =
     (if faulted s then (ResetBackendFailed, s)
      else if mirror_launch s \<noteq> Some launch then (ResetStaleLaunch, s)
      else
        let (failed, s1) = reset_loop ops (filter is_remote (bt_keys (rt_sources s))) s
        in if failed then (ResetBackendFailed, s1\<lparr>faulted := True\<rparr>) else (ResetAccepted, s1))"

subsection \<open>Coordination requests\<close>

definition apply_count ::
  "'b seat_backend \<Rightarrow> nat \<Rightarrow> 'b seat_runtime \<Rightarrow> (nat option, seat_failure) result \<times> 'b seat_runtime" where
  "apply_count ops n s =
     (if n = 0 then (Err Invalid, s)
      else case resize ops n (pool s) of
        (Err e, p) \<Rightarrow> (Err (pool_failure e), s\<lparr>pool := p\<rparr>)
      | (Ok _, p) \<Rightarrow>
          (case rebalance ops (s\<lparr>pool := p\<rparr>) of
             (Err e, s1) \<Rightarrow> (Err e, s1)
           | (Ok _, s1) \<Rightarrow> (Ok None, s1\<lparr>recovery_required := False\<rparr>)))"

definition apply_begin ::
  "'b seat_backend \<Rightarrow> string \<Rightarrow> seat_order \<Rightarrow> 'b seat_runtime
     \<Rightarrow> (nat option, seat_failure) result \<times> 'b seat_runtime" where
  "apply_begin ops launch order s =
     (if \<not> is_ok (validate_launch_id launch) then (Err Invalid, s)
      else if recovery_required s \<and> session (pool s) = Some launch
      then (Ok None, s\<lparr>rt_seat_order := order, recovery_required := False\<rparr>)
      else case require_ready s of
        Err e \<Rightarrow> (Err e, s)
      | Ok _ \<Rightarrow>
          (case begin_session launch (pool s) of
             (Err e, p) \<Rightarrow> (Err (pool_failure e), s\<lparr>pool := p\<rparr>)
           | (Ok _, p) \<Rightarrow>
               let s1 = s\<lparr>pool := p, rt_seat_order := order\<rparr> in
               if order = FirstPress then
                 (case release_all ops launch (pool s1) of
                    (Err e, p2) \<Rightarrow> (Err (pool_failure e), s1\<lparr>pool := p2\<rparr>)
                  | (Ok _, p2) \<Rightarrow> (Ok None, s1\<lparr>pool := p2\<rparr>))
               else (Ok None, s1)))"

definition apply_reserve ::
  "'b seat_backend \<Rightarrow> string \<Rightarrow> string \<Rightarrow> 'b seat_runtime
     \<Rightarrow> (nat option, seat_failure) result \<times> 'b seat_runtime" where
  "apply_reserve ops launch key s =
     (case require_ready s of
        Err e \<Rightarrow> (Err e, s)
      | Ok _ \<Rightarrow>
          if \<not> lower_hex_text 64 key then (Err Invalid, s)
          else if session (pool s) \<noteq> Some launch then (Err Stale, s)
          else if has_binding (pool s) (\<lambda>k. case k of Netplay known \<Rightarrow> known \<noteq> key | _ \<Rightarrow> False)
          then (Err Active, s)
          else (case reserve ops launch (Netplay key) (pool s) of
                  (Err e, p) \<Rightarrow> (Err (pool_failure e), s\<lparr>pool := p\<rparr>)
                | (Ok n, p) \<Rightarrow> (Ok (Some n), s\<lparr>pool := p\<rparr>)))"

definition apply_end_session ::
  "'b seat_backend \<Rightarrow> string \<Rightarrow> 'b seat_runtime \<Rightarrow> (nat option, seat_failure) result \<times> 'b seat_runtime" where
  "apply_end_session ops launch s =
     (if session (pool s) \<noteq> Some launch then (Err Stale, s)
      else case unbind ops s of
        (Err _, s1) \<Rightarrow> (Err Backend, s1)
      | (Ok _, s1) \<Rightarrow>
          (case set_route ops False s1 of
             (Err e, s2) \<Rightarrow> (Err e, s2)
           | (Ok _, s2) \<Rightarrow>
               (case end_session ops launch (pool s2) of
                  (Err e, p) \<Rightarrow> (Err (pool_failure e), s2\<lparr>pool := p\<rparr>)
                | (Ok _, p) \<Rightarrow>
                    (case rebalance ops (s2\<lparr>pool := p, rt_seat_order := Attached\<rparr>) of
                       (Err e, s3) \<Rightarrow> (Err e, s3)
                     | (Ok _, s3) \<Rightarrow> (Ok None, s3)))))"

definition apply_route ::
  "'b seat_backend \<Rightarrow> string option \<Rightarrow> 'b seat_runtime \<Rightarrow> (nat option, seat_failure) result \<times> 'b seat_runtime" where
  "apply_route ops launch s =
     (case require_ready s of
        Err e \<Rightarrow> (Err e, s)
      | Ok _ \<Rightarrow>
          if launch \<noteq> None \<and> session (pool s) \<noteq> launch then (Err Stale, s)
          else case set_route ops (launch \<noteq> None) s of
                 (Err e, s1) \<Rightarrow> (Err e, s1)
               | (Ok _, s1) \<Rightarrow> (Ok None, s1))"

definition apply_physical_connected ::
  "'b seat_backend \<Rightarrow> string \<Rightarrow> string \<Rightarrow> gamepad_state \<Rightarrow> nat \<Rightarrow> 'b seat_runtime
     \<Rightarrow> (nat option, seat_failure) result \<times> 'b seat_runtime" where
  "apply_physical_connected ops dev name g now s =
     (case require_ready s of
        Err e \<Rightarrow> (Err e, s)
      | Ok _ \<Rightarrow>
          if \<not> valid_native_text dev 512 \<or> \<not> valid_native_text name 256 \<or> \<not> valid_state g
          then (Err Invalid, s)
          else
            let k = Physical dev in
            if bt_contains_key (rt_sources s) k then (Ok (pool_slot (pool s) k), s)
            else if MAX_PHYSICAL_SOURCES \<le> length (filter is_physical (bt_keys (rt_sources s)))
            then (Err Invalid, s)
            else case connect_source ops k g now True s of
                   (Err e, s1) \<Rightarrow> (Err e, s1)
                 | (Ok sl, s1) \<Rightarrow>
                     (Ok sl, s1\<lparr>rt_sources :=
                        set_requires_neutral (\<not> is_neutral_for_rearm g) k (rt_sources s1)\<rparr>))"

definition apply_physical_state ::
  "'b seat_backend \<Rightarrow> string \<Rightarrow> gamepad_state \<Rightarrow> nat \<Rightarrow> 'b seat_runtime
     \<Rightarrow> (nat option, seat_failure) result \<times> 'b seat_runtime" where
  "apply_physical_state ops dev g now s =
     (case require_ready s of
        Err e \<Rightarrow> (Err e, s)
      | Ok _ \<Rightarrow> if \<not> valid_state g then (Err Invalid, s) else update_source ops (Physical dev) g now s)"

definition apply_physical_disconnected ::
  "'b seat_backend \<Rightarrow> string \<Rightarrow> 'b seat_runtime \<Rightarrow> (nat option, seat_failure) result \<times> 'b seat_runtime" where
  "apply_physical_disconnected ops dev s =
     (case require_ready s of
        Err e \<Rightarrow> (Err e, s)
      | Ok _ \<Rightarrow>
          (case disconnect_source ops (Physical dev) s of
             (Err e, s1) \<Rightarrow> (Err e, s1)
           | (Ok _, s1) \<Rightarrow> (Ok None, s1)))"

definition apply_request ::
  "'b seat_backend \<Rightarrow> seat_request \<Rightarrow> nat \<Rightarrow> 'b seat_runtime
     \<Rightarrow> (nat option, seat_failure) result \<times> 'b seat_runtime" where
  "apply_request ops req now s =
     (if faulted s then (Err Backend, s)
      else case req of
        Hello \<Rightarrow> (Ok None, s)
      | Poll \<Rightarrow> (Ok None, s)
      | ApplyCount n \<Rightarrow> apply_count ops n s
      | BeginSession launch order \<Rightarrow> apply_begin ops launch order s
      | ReserveNetplay launch key \<Rightarrow> apply_reserve ops launch key s
      | EndSession launch \<Rightarrow> apply_end_session ops launch s
      | Route launch \<Rightarrow> apply_route ops launch s
      | PhysicalConnected dev name g \<Rightarrow> apply_physical_connected ops dev name g now s
      | PhysicalState dev g \<Rightarrow> apply_physical_state ops dev g now s
      | PhysicalDisconnected dev \<Rightarrow> apply_physical_disconnected ops dev s)"

definition coordinate ::
  "'b seat_backend \<Rightarrow> seat_request \<Rightarrow> nat \<Rightarrow> 'b seat_runtime \<Rightarrow> seat_reply \<times> 'b seat_runtime" where
  "coordinate ops req now s =
     (let (r0, s1) = apply_request ops req now s;
          (r, paths) = (case occupied_event_devices ops (pool s1) is_physical of
                          Ok ps \<Rightarrow> (r0, ps)
                        | Err _ \<Rightarrow> (Err Backend, []));
          s2 = (if r = Err Backend then s1\<lparr>faulted := True, recovery_required := True\<rparr> else s1)
      in (\<lparr>occupied_local_seats = paths,
           failure = (case r of Err e \<Rightarrow> Some e | Ok _ \<Rightarrow> None),
           reply_count = pool_count (pool s2),
           reply_session = session (pool s2),
           reply_recovery_required = recovery_required s2,
           reply_slot = (case r of Err _ \<Rightarrow> None | Ok sl \<Rightarrow> sl),
           remote_sources = all_remote_sources s2,
           remote_events = feedback s2\<rparr>,
          s2\<lparr>feedback := []\<rparr>))"

subsection \<open>Mirror packets and time\<close>

definition frame_event ::
  "sunshine_frame \<Rightarrow> (nat \<times> gamepad_state option \<times> bool) option" where
  "frame_event f =
     (case f of
        FrameConnected c \<Rightarrow> Some (cf_controller_number c, None, False)
      | FrameDisconnected d \<Rightarrow>
          if (case df_reason d of None \<Rightarrow> False
              | Some r \<Rightarrow> 128 < length r \<or> CHR 0x0A \<in> set r \<or> CHR 0x00 \<in> set r)
          then None else Some (df_controller_number d, None, True)
      | FrameState st \<Rightarrow>
          Some (sf_controller_number st,
            Some \<lparr>buttons = sf_buttons st AND SUPPORTED_BUTTON_MASK, left_trigger = sf_left_trigger st,
              right_trigger = sf_right_trigger st, left_stick_x = sf_left_stick_x st,
              left_stick_y = invert_sunshine_axis (sf_left_stick_y st),
              right_stick_x = sf_right_stick_x st,
              right_stick_y = invert_sunshine_axis (sf_right_stick_y st)\<rparr>, False))"

definition accept_state ::
  "'b seat_backend \<Rightarrow> source_key \<Rightarrow> gamepad_state option \<Rightarrow> nat \<Rightarrow> 'b seat_runtime
     \<Rightarrow> (nat option, seat_failure) result \<times> 'b seat_runtime" where
  "accept_state ops k st now s =
     (let (r, s1) = (if bt_contains_key (rt_sources s) k then (Ok (pool_slot (pool s) k), s)
                     else connect_source ops k neutral now False s)
      in case (r, st) of
           (Err e, _) \<Rightarrow> (Err e, s1)
         | (Ok sl, None) \<Rightarrow> (Ok sl, s1)
         | (Ok _, Some g) \<Rightarrow>
             let initialized = (case bt_get (rt_sources s1) k of None \<Rightarrow> False | Some src \<Rightarrow> has_state src);
                 changed = (case bt_get (rt_sources s1) k of None \<Rightarrow> False | Some src \<Rightarrow> src_state src \<noteq> g);
                 (r2, s2) = update_source ops k g now s1
             in if is_ok r2 \<and> (\<not> initialized \<or> changed)
                then (case remote_source_of s2 k of
                        None \<Rightarrow> (r2, s2)
                      | Some rs \<Rightarrow>
                          (r2, push_feedback (if initialized then RemoteState rs else RemoteConnected rs) s2))
                else (r2, s2))"

definition accept ::
  "'b seat_backend \<Rightarrow> (string \<Rightarrow> mirror_envelope option) \<Rightarrow> string \<Rightarrow> nat \<Rightarrow> 'b seat_runtime
     \<Rightarrow> mirror_outcome \<times> 'b seat_runtime" where
  "accept ops from_slice packet now s =
     (if faulted s then (BackendFailed, s)
      else if feedback_failed s then (FeedbackFailed, s)
      else case mirror s of
        None \<Rightarrow> (StaleLaunch, s)
      | Some (launch, token) \<Rightarrow>
          (case decode_envelope from_slice packet of
             None \<Rightarrow> (MirrorInvalid, s)
           | Some env \<Rightarrow>
               if \<not> constant_time_equal (mirror_token env) token then (Unauthorized, s)
               else if frame_launch_id (frame env) \<noteq> launch then (StaleLaunch, s)
               else if \<not> valid_native_text (frame_client_id (frame env)) 256 then (MirrorInvalid, s)
               else case frame_event (frame env) of
                 None \<Rightarrow> (MirrorInvalid, s)
               | Some (n, st, disconnect) \<Rightarrow>
                   if 15 < n then (MirrorInvalid, s)
                   else
                     let k = Remote launch (frame_client_id (frame env)) n;
                         (r, s1) = (if disconnect
                                    then (let (d, t) = disconnect_source ops k s
                                          in (case d of Err e \<Rightarrow> Err e | Ok _ \<Rightarrow> Ok (pool_slot (pool s) k), t))
                                    else accept_state ops k st now s)
                     in if feedback_failed s1 then (FeedbackFailed, s1)
                        else case r of
                               Ok (Some sl) \<Rightarrow> (Accepted sl, s1)
                             | Ok None \<Rightarrow> (MirrorNoSeat, s1)
                             | Err UnknownSource \<Rightarrow> (MirrorUnknownSource, s1)
                             | Err RateLimited \<Rightarrow> (MirrorRateLimited, s1)
                             | Err _ \<Rightarrow> (BackendFailed, s1\<lparr>faulted := True\<rparr>)))"

definition seat_failure_text :: "seat_failure \<Rightarrow> string" where
  "seat_failure_text e =
     (case e of Invalid \<Rightarrow> ''Invalid'' | NotReady \<Rightarrow> ''NotReady'' | Active \<Rightarrow> ''Active'' | Stale \<Rightarrow> ''Stale''
      | UnknownSource \<Rightarrow> ''UnknownSource'' | RateLimited \<Rightarrow> ''RateLimited'' | Backend \<Rightarrow> ''Backend'')"

fun expire_loop ::
  "'b seat_backend \<Rightarrow> source_key list \<Rightarrow> 'b seat_runtime \<Rightarrow> (unit, string) result \<times> 'b seat_runtime" where
  "expire_loop ops [] s = (Ok (), s)"
| "expire_loop ops (k # ks) s =
     (case disconnect_source ops k s of
        (Ok _, s1) \<Rightarrow> expire_loop ops ks s1
      | (Err e, s1) \<Rightarrow> (Err (''source expiry failed: '' @ seat_failure_text e), s1\<lparr>faulted := True\<rparr>))"

definition expire_stale ::
  "'b seat_backend \<Rightarrow> nat \<Rightarrow> 'b seat_runtime \<Rightarrow> (nat, string) result \<times> 'b seat_runtime" where
  "expire_stale ops now s =
     (let ks = List.map_filter (\<lambda>(k, src). if STALE_SOURCE_TIMEOUT_MS \<le> now - last_event_ms src then Some k else None)
                 (rt_sources s)
      in case expire_loop ops ks s of
           (Ok _, s1) \<Rightarrow> (Ok (length ks), s1)
         | (Err e, s1) \<Rightarrow> (Err e, s1))"

definition stop :: "'b seat_backend \<Rightarrow> 'b seat_runtime \<Rightarrow> (unit, pool_error) result \<times> 'b" where
  "stop ops s = pool_stop ops (pool s)"

subsection \<open>Seats and sources\<close>

text \<open>
  The link between seats and sources: a bound seat is connected exactly when its source is
  present, and a seat is quiet while the route is closed and while its source has to become
  neutral again.
\<close>

definition seat_ok :: "bool \<Rightarrow> (source_key, source) btree \<Rightarrow> source_key seat \<Rightarrow> bool" where
  "seat_ok gr ss s \<longleftrightarrow>
     (\<forall>b. binding s = Some b \<longrightarrow> (connected b \<longleftrightarrow> bt_get ss (b_source b) \<noteq> None)) \<and>
     (\<not> gr \<longrightarrow> quiet s) \<and>
     (\<forall>b src. binding s = Some b \<longrightarrow> bt_get ss (b_source b) = Some src \<longrightarrow> requires_neutral src \<longrightarrow> quiet s)"

definition routed :: "bool \<Rightarrow> (source_key, 'b) seat_pool \<Rightarrow> (source_key, source) btree \<Rightarrow> bool" where
  "routed gr p ss \<longleftrightarrow> pool_inv p \<and> bt_wf ss \<and> (\<forall>i < length (seats p). seat_ok gr ss (seats p ! i))"

definition agree_off :: "'k \<Rightarrow> ('k, 'v) btree \<Rightarrow> ('k, 'v) btree \<Rightarrow> bool" where
  "agree_off k m m' \<longleftrightarrow> (\<forall>k'. k' \<noteq> k \<longrightarrow> bt_get m' k' = bt_get m k')"

definition same_keys :: "('k, 'v) btree \<Rightarrow> ('k, 'v) btree \<Rightarrow> bool" where
  "same_keys m m' \<longleftrightarrow> (\<forall>k. bt_get m' k = None \<longleftrightarrow> bt_get m k = None)"

lemma agree_off_intros [simp]: "agree_off k m (bt_insert k v m)" "agree_off k m (bt_remove k m)" "agree_off k m m"
  by (simp_all add: agree_off_def)

lemma same_keys_intros [simp]: "same_keys m m" "same_keys m (bt_map_values f m)"
  "bt_get m k \<noteq> None \<Longrightarrow> same_keys m (bt_insert k v m)"
  by (auto simp: same_keys_def)

lemma same_keys_trans: "same_keys m m' \<Longrightarrow> same_keys m' m'' \<Longrightarrow> same_keys m m''"
  by (simp add: same_keys_def)

lemma routedD:
  assumes "routed gr p ss"
  shows "pool_inv p" and "bt_wf ss" and "i < length (seats p) \<Longrightarrow> seat_ok gr ss (seats p ! i)"
  using assms by (simp_all add: routed_def)

lemma seat_ok_agree: "seat_ok gr ss s \<Longrightarrow> agree_off k ss ss' \<Longrightarrow> \<not> bound_to k s \<Longrightarrow> seat_ok gr ss' s"
  by (auto simp: seat_ok_def agree_off_def bound_to_iff)

lemma seat_ok_quiet:
  "quiet s \<Longrightarrow> (\<And>b. binding s = Some b \<Longrightarrow> connected b \<longleftrightarrow> bt_get ss (b_source b) \<noteq> None) \<Longrightarrow> seat_ok gr ss s"
  by (simp add: seat_ok_def)

lemma seat_ok_bound: "seat_ok gr ss s \<Longrightarrow> bound_to k s \<Longrightarrow> seat_connected s \<longleftrightarrow> bt_get ss k \<noteq> None"
  by (auto simp: seat_ok_def bound_to_iff seat_connected_iff)

lemma routed_pool_eq: "routed gr p ss \<Longrightarrow> seats q = seats p \<Longrightarrow> pool_inv q \<Longrightarrow> routed gr q ss"
  by (simp add: routed_def)

lemma routed_unbound:
  assumes "routed gr p ss" and "pool_index p k = None" and "agree_off k ss ss'" and "bt_wf ss'"
  shows "routed gr p ss'"
  using assms unfolding routed_def pool_index_None_iff by (blast intro: seat_ok_agree)

lemma routed_weaken:
  assumes "routed gr p ss" and "bt_wf ss'" and "same_keys ss ss'"
    and "\<And>k src'. bt_get ss' k = Some src' \<Longrightarrow> requires_neutral src' \<Longrightarrow>
      \<exists>src. bt_get ss k = Some src \<and> requires_neutral src"
  shows "routed gr p ss'"
proof -
  have "seat_ok gr ss' s" if "seat_ok gr ss s" for s
    using that assms(3,4) unfolding seat_ok_def same_keys_def by metis
  with assms(1,2) show ?thesis by (simp add: routed_def)
qed

lemma routed_seat:
  assumes "routed gr p ss" and "seats q = (seats p)[i := s']" and "pool_inv q" and "bt_wf ss'"
    and "agree_off k ss ss'"
    and "\<And>j. j < length (seats p) \<Longrightarrow> j \<noteq> i \<Longrightarrow> \<not> bound_to k (seats p ! j)"
    and "i < length (seats p) \<Longrightarrow> seat_ok gr ss' s'"
  shows "routed gr q ss'"
proof -
  have "seat_ok gr ss' (seats q ! j)" if "j < length (seats p)" for j
    using that assms routedD(3) [OF assms(1) that]
    by (cases "j = i") (auto intro: seat_ok_agree)
  with assms(2-4) show ?thesis by (simp add: routed_def)
qed

lemma routed_index_connected:
  assumes "routed gr p ss" and "pool_index p k = Some i"
  shows "seat_connected (seats p ! i) \<longleftrightarrow> bt_get ss k \<noteq> None"
  using pool_index_SomeD [OF assms(2)] seat_ok_bound [OF routedD(3) [OF assms(1)]] by blast

lemma index_sole:
  assumes "pool_inv p" and "pool_index p k = Some i" and "j < length (seats p)" and "j \<noteq> i"
  shows "\<not> bound_to k (seats p ! j)"
  using assms pool_index_SomeD [OF assms(2)] sole_sourcesD [OF pool_invD(3) [OF assms(1)]] by blast

lemma connect_ok_routed:
  assumes r: "routed gr p ss" and c: "pool_connect ops k p = (Ok n, p')"
    and new: "bt_get ss k = None \<or> pool_index p k = None"
    and ss': "agree_off k ss ss'" "bt_wf ss'" "bt_get ss' k \<noteq> None"
  shows "routed gr p' ss'" and "session p' = session p"
proof -
  have inv': "pool_inv p'" by (rule pool_connect_inv [OF routedD(1) [OF r] c])
  from c have "routed gr p' ss' \<and> session p' = session p"
  proof (cases rule: pool_connect_cases)
    case (same i)
    with routed_index_connected [OF r same(1)] new show ?thesis by simp
  next
    case (bound i)
    have "seat_ok gr ss' (bind_seat k (seats p ! i))"
      by (rule seat_ok_quiet) (use ss'(3) in \<open>simp_all add: quiet_def\<close>)
    with r bound(4) inv' ss'(2,1) target_sole [OF pool_invD(3) [OF routedD(1) [OF r]] bound(1)]
    have "routed gr p' ss'" by (rule routed_seat)
    with bound(5) show ?thesis by simp
  qed simp_all
  then show "routed gr p' ss'" "session p' = session p" by simp_all
qed

lemma connect_err_routed:
  assumes r: "routed gr p ss" and c: "pool_connect ops k p = (Err e, p')"
  shows "routed gr p' ss" and "session p' = session p" and "e = NoSeat \<Longrightarrow> p' = p \<and> pool_index p k = None"
    and "e = NoSeat \<or> (\<exists>m. e = BackendError m)"
proof -
  have inv': "pool_inv p'" by (rule pool_connect_inv [OF routedD(1) [OF r] c])
  from c have "routed gr p' ss \<and> session p' = session p \<and> (e = NoSeat \<longrightarrow> p' = p \<and> pool_index p k = None) \<and>
      (e = NoSeat \<or> (\<exists>m. e = BackendError m))"
  proof (cases rule: pool_connect_cases)
    case full
    with r show ?thesis by (auto simp: target_None_iff)
  next
    case (failed i m)
    have "seat_ok gr ss ((seats p ! i)\<lparr>known_state := None\<rparr>)" if "i < length (seats p)"
      by (rule seat_ok_quiet) (use routedD(3) [OF r that] in \<open>auto simp: seat_ok_def quiet_def\<close>)
    with r failed(4) inv' routedD(2) [OF r] agree_off_intros(3) target_sole [OF pool_invD(3) [OF routedD(1) [OF r]] failed(1)]
    have "routed gr p' ss" by (rule routed_seat)
    with failed show ?thesis by simp
  qed simp_all
  then show "routed gr p' ss" "session p' = session p" "e = NoSeat \<Longrightarrow> p' = p \<and> pool_index p k = None"
    "e = NoSeat \<or> (\<exists>m. e = BackendError m)" by blast+
qed

lemma disconnect_routed:
  assumes r: "routed gr p ss" and d: "pool_disconnect ops k p = (x, p')"
  shows "routed gr p' (bt_remove k ss)" and "session p' = session p"
    and "x = Err e \<Longrightarrow> e = UnknownSourceKey \<or> (\<exists>m. e = BackendError m)"
proof -
  have inv': "pool_inv p'" by (rule pool_disconnect_inv [OF routedD(1) [OF r] d])
  have wf: "bt_wf (bt_remove k ss)" using routedD(2) [OF r] by simp
  have upd: "routed gr p' (bt_remove k ss)"
    if "pool_index p k = Some i" "seats p' = (seats p)[i := s']" "quiet s'"
      "\<And>b. binding s' = Some b \<Longrightarrow> b_source b = k \<and> \<not> connected b" for i s'
    by (rule routed_seat [OF r that(2) inv' wf])
      (use that index_sole [OF routedD(1) [OF r] that(1)] in \<open>auto intro: seat_ok_quiet\<close>)
  have "routed gr p' (bt_remove k ss) \<and> session p' = session p \<and>
      (x = Err e \<longrightarrow> e = UnknownSourceKey \<or> (\<exists>m. e = BackendError m))"
    using d
  proof (cases rule: pool_disconnect_cases)
    case unknown
    with r wf show ?thesis by (auto intro: routed_unbound)
  next
    case (failed i m)
    then have "routed gr p' (bt_remove k ss)"
      using pool_index_SomeD [OF failed(1)]
      by (intro upd [OF failed(1,4)]) (auto simp: set_connected_def bound_to_iff quiet_def)
    with failed show ?thesis by auto
  next
    case (kept i)
    then have "routed gr p' (bt_remove k ss)"
      using pool_index_SomeD [OF kept(1)]
      by (intro upd [OF kept(1,5)]) (auto simp: set_connected_def bound_to_iff quiet_def)
    with kept show ?thesis by simp
  next
    case (freed i)
    then have "routed gr p' (bt_remove k ss)" by (intro upd [OF freed(1,5)]) (auto simp: quiet_def)
    with freed show ?thesis by simp
  qed
  then show "routed gr p' (bt_remove k ss)" "session p' = session p"
    "x = Err e \<Longrightarrow> e = UnknownSourceKey \<or> (\<exists>m. e = BackendError m)" by blast+
qed

lemma write_state_routed:
  assumes r: "routed gr p ss" and w: "pool_write_state ops k g p = (x, p')"
    and ok: "g = neutral \<or> (gr \<and> (\<forall>src. bt_get ss k = Some src \<longrightarrow> \<not> requires_neutral src))"
  shows "routed gr p' ss" and "session p' = session p"
proof -
  have inv': "pool_inv p'" by (rule pool_write_state_inv [OF routedD(1) [OF r] w])
  have "routed gr p' ss \<and> session p' = session p"
    using w
  proof (cases rule: pool_write_state_cases)
    case (written i y)
    have i: "i < length (seats p)" and bt: "bound_to k (seats p ! i)"
      using pool_index_SomeD [OF written(1)] by simp_all
    note ch = pool_write_char [OF written(3) i]
    have "seat_ok gr ss ((seats p ! i)\<lparr>known_state := if is_ok y then Some g else None\<rparr>)"
      using routedD(3) [OF r i] bt ok by (auto simp: seat_ok_def bound_to_iff quiet_def)
    with r ch(1) inv' routedD(2) [OF r] agree_off_intros(3) index_sole [OF routedD(1) [OF r] written(1)]
    have "routed gr p' ss" by (rule routed_seat)
    with ch(2) show ?thesis by simp
  qed (use r in simp_all)
  then show "routed gr p' ss" "session p' = session p" by simp_all
qed

lemma neutral_loop_seats:
  assumes "neutral_loop ops guard ub [0..<length (seats p)] p = (es, p')" and "i < length (seats p)"
  obtains f where "seats p' ! i = (if guard (seats p ! i) then seat_after ub f (seats p ! i) else seats p ! i)"
proof -
  from assms(1) obtain F where F: "F \<subseteq> {i \<in> set [0..<length (seats p)]. guard (seats p ! i)}" "F = {} \<longleftrightarrow> es = []"
    "length (seats p') = length (seats p)" "session p' = session p"
    "\<And>j. j < length (seats p) \<Longrightarrow> seats p' ! j = (if j \<in> set [0..<length (seats p)] \<and> guard (seats p ! j)
      then seat_after ub (j \<in> F) (seats p ! j) else seats p ! j)"
    by (rule neutral_loop_char) simp_all
  from F(5) [OF assms(2)] assms(2) show thesis by (intro that [of "i \<in> F"]) simp
qed

lemma neutral_all_routed:
  assumes r: "routed gr p ss" and l: "neutral_loop ops (\<lambda>_. True) False [0..<length (seats p)] p = (es, p')"
    and "same_keys ss ss'" and "bt_wf ss'"
  shows "routed gr' p' ss'"
  unfolding routed_def
proof (intro conjI allI impI)
  show "pool_inv p'" by (rule neutral_loop_inv [OF routedD(1) [OF r] l])
  show "bt_wf ss'" by (rule assms(4))
  fix i
  assume "i < length (seats p')"
  then have i: "i < length (seats p)" by (simp add: neutral_loop_frame(1) [OF l])
  obtain f where f: "seats p' ! i = (if True then seat_after False f (seats p ! i) else seats p ! i)"
    using neutral_loop_seats [OF l i] .
  show "seat_ok gr' ss' (seats p' ! i)"
    by (rule seat_ok_quiet)
      (use f routedD(3) [OF r i] assms(3) in \<open>auto simp: seat_ok_def seat_after_def same_keys_def split: if_splits\<close>)
qed

lemma neutralize_routed:
  assumes "routed gr p ss" and "neutralize ops p = (r, p')" and "same_keys ss ss'" and "bt_wf ss'"
  shows "routed gr' p' ss'" and "session p' = session p" and "r = Err e \<Longrightarrow> \<exists>m. e = BackendError m"
  using assms neutral_all_routed neutral_loop_frame(2)
  by (auto simp: neutralize_def backend_result_def split: prod.splits if_splits)

lemma unbind_loop_routed:
  assumes r: "routed gr p ss" and l: "neutral_loop ops guard True [0..<length (seats p)] p = (es, p')"
  shows "routed gr p' ss"
  unfolding routed_def
proof (intro conjI allI impI)
  show "pool_inv p'" by (rule neutral_loop_inv [OF routedD(1) [OF r] l])
  show "bt_wf ss" by (rule routedD(2) [OF r])
  fix i
  assume "i < length (seats p')"
  then have i: "i < length (seats p)" by (simp add: neutral_loop_frame(1) [OF l])
  obtain f where f: "seats p' ! i = (if guard (seats p ! i) then seat_after True f (seats p ! i) else seats p ! i)"
    using neutral_loop_seats [OF l i] .
  have "seat_ok gr ss (seat_after True f (seats p ! i))"
    by (rule seat_ok_quiet) (use routedD(3) [OF r i] in \<open>auto simp: seat_ok_def seat_after_def split: if_splits\<close>)
  with f routedD(3) [OF r i] show "seat_ok gr ss (seats p' ! i)" by simp
qed

lemma end_session_routed:
  assumes "routed gr p ss" and "end_session ops sid p = (r, p')"
  shows "routed gr p' ss" and "r = Ok u \<Longrightarrow> session p' = None" and "\<not> is_ok r \<Longrightarrow> session p' = session p"
    and "session p = Some sid \<Longrightarrow> r = Err e \<Longrightarrow> \<exists>m. e = BackendError m"
proof -
  have "routed gr q ss \<Longrightarrow> routed gr (q\<lparr>session := None\<rparr>) ss" for q :: "(source_key, 'a) seat_pool"
    by (auto simp: routed_def intro: pool_inv_session_None)
  with assms unbind_loop_routed [OF assms(1)]
  show "routed gr p' ss" "r = Ok u \<Longrightarrow> session p' = None" "\<not> is_ok r \<Longrightarrow> session p' = session p"
    "session p = Some sid \<Longrightarrow> r = Err e \<Longrightarrow> \<exists>m. e = BackendError m"
    by (auto simp: end_session_def backend_result_def Let_def split: prod.splits if_splits
        dest: neutral_loop_frame(2))
qed

lemma release_all_routed:
  assumes "routed gr p ss" and "release_all ops sid p = (r, p')"
  shows "routed gr p' ss" and "session p' = session p"
    and "session p = Some sid \<Longrightarrow> r = Err e \<Longrightarrow> \<exists>m. e = BackendError m"
  using assms unbind_loop_routed [OF assms(1)]
  by (auto simp: release_all_def backend_result_def split: prod.splits if_splits dest: neutral_loop_frame(2))

lemma begin_session_routed:
  assumes "routed gr p ss" and "begin_session sid p = (r, p')"
  shows "routed gr p' ss" and "session p' = (if is_ok r then Some sid else session p)"
proof -
  have "pool_inv p'" using begin_session_inv [OF routedD(1) [OF assms(1)] assms(2)] .
  moreover have "seats p' = seats p"
    using assms(2) by (auto simp: begin_session_def split: result.splits if_splits)
  ultimately show "routed gr p' ss" using assms(1) by (auto intro: routed_pool_eq)
  show "session p' = (if is_ok r then Some sid else session p)"
    using assms(2) by (auto simp: begin_session_def split: result.splits if_splits)
qed

lemma reserve_routed:
  assumes r: "routed gr p ss" and c: "reserve ops sid k p = (x, p')" and new: "bt_get ss k = None"
  shows "routed gr p' ss" and "session p' = session p"
proof -
  have inv: "pool_inv p" and inv': "pool_inv p'"
    using routedD(1) [OF r] reserve_inv [OF _ c] by blast+
  from c inv have "routed gr p' ss \<and> session p' = session p"
  proof (cases rule: reserve_cases)
    case (failed e)
    then show ?thesis using connect_err_routed(1,2) [OF r failed(3)] by simp
  next
    case (bound i)
    have "seat_ok gr ss (set_connected False (bind_seat k (seats p ! i)))"
      by (rule seat_ok_quiet) (use new in \<open>auto simp: quiet_def set_connected_def\<close>)
    moreover have "\<not> bound_to k (seats p ! j)" if "j < length (seats p)" for j
      using bound(2) that by (simp add: pool_index_None_iff)
    ultimately have "routed gr p' ss"
      by (intro routed_seat [OF r bound(5) inv' routedD(2) [OF r] agree_off_intros(3)])
    with bound(6) show ?thesis by simp
  qed (use r in simp_all)
  then show "routed gr p' ss" "session p' = session p" by simp_all
qed

lemma add_seat_routed:
  assumes r: "routed gr p ss" and "length (seats p) < 255"
    and a: "add_seat ops (Suc (length (seats p))) p = (x, p')"
  shows "routed gr p' ss"
proof -
  have inv': "pool_inv p'" by (rule add_seat_inv(1) [OF routedD(1) [OF r] assms(2) a])
  from a show ?thesis
  proof (rule add_seat_char)
    fix y
    assume y: "seats p' = seats p @ [\<lparr>slot = Suc (length (seats p)), binding = None, known_state = y\<rparr>]"
      "y = (if is_ok x then Some neutral else None)"
    have "seat_ok gr ss \<lparr>slot = Suc (length (seats p)), binding = None, known_state = y\<rparr>"
      by (rule seat_ok_quiet) (use y(2) in \<open>auto simp: quiet_def\<close>)
    with r inv' y(1) show ?thesis by (auto simp: routed_def nth_append less_Suc_eq)
  qed (use r inv' in \<open>auto intro: routed_pool_eq\<close>)
qed

lemma grow_routed:
  "routed gr p ss \<Longrightarrow> length (seats p) + n < 256 \<Longrightarrow> grow_by ops n p = (x, p') \<Longrightarrow> routed gr p' ss"
proof (induction n arbitrary: p)
  case (Suc n)
  from Suc.prems(2) have lt: "length (seats p) < 255" and cnt: "pool_count p + 1 = Suc (length (seats p))"
    by (simp_all add: pool_count_def)
  obtain a q where a: "add_seat ops (Suc (length (seats p))) p = (a, q)"
    by (cases "add_seat ops (Suc (length (seats p))) p")
  have q: "routed gr q ss" by (rule add_seat_routed [OF Suc.prems(1) lt a])
  show ?case
  proof (cases a)
    case (Ok v)
    then have "length (seats q) = Suc (length (seats p))"
      using add_seat_inv(4) [OF routedD(1) [OF Suc.prems(1)] lt a] by simp
    with Ok a cnt Suc.prems show ?thesis using Suc.IH [OF q] by simp
  qed (use a cnt Suc.prems(3) q in auto)
qed simp

lemma resize_routed:
  assumes r: "routed gr p ss" and n: "n < 256" and x: "resize ops n p = (x, p')"
  shows "routed gr p' ss" and "session p' = session p"
proof -
  show "session p' = session p" by (rule resize_inv(2) [OF routedD(1) [OF r] n x])
  obtain w q where w: "neutralize ops p = (w, q)" by (cases "neutralize ops p")
  have q: "routed gr q ss" by (rule neutralize_routed(1) [OF r w _ routedD(2) [OF r]]) simp
  obtain c t where c: "shrink_by ops (length (seats q) - n) q = (c, t)"
    by (cases "shrink_by ops (length (seats q) - n) q")
  from shrink_by_seats [OF c] obtain m where m: "seats t = take (length (seats q) - m) (seats q)" "session t = session q"
    by auto
  have inv_t: "pool_inv t" using routedD(1) [OF q] m by (rule pool_inv_take)
  with q m have t: "routed gr t ss" by (simp add: routed_def)
  obtain g u where g: "grow_by ops (n - length (seats t)) t = (g, u)"
    by (cases "grow_by ops (n - length (seats t)) t")
  have "length (seats t) + (n - length (seats t)) < 256" using n pool_invD(1) [OF inv_t] by simp
  with t have u: "routed gr u ss" using g by (rule grow_routed)
  from x w c g r q t u show "routed gr p' ss"
    by (cases w; cases c; cases g) (auto simp: resize_def split: if_splits)
qed

subsection \<open>The invariant of the runtime\<close>

definition source_ok :: "source_key \<Rightarrow> source \<Rightarrow> bool" where
  "source_ok k src \<longleftrightarrow>
     (case k of Physical _ \<Rightarrow> True | Netplay _ \<Rightarrow> False | Remote _ _ n \<Rightarrow> n \<le> 15) \<and>
     events_in_window src \<le> MAX_EVENTS_PER_SECOND"

definition keys_of :: "'b seat_runtime \<Rightarrow> source_key set" where
  "keys_of s = {k. bt_get (rt_sources s) k \<noteq> None}"

definition rt_core :: "'b seat_runtime \<Rightarrow> bool" where
  "rt_core s \<longleftrightarrow>
     routed (game_route s) (pool s) (rt_sources s) \<and>
     (\<forall>k src. bt_get (rt_sources s) k = Some src \<longrightarrow> source_ok k src) \<and>
     length (feedback s) \<le> MAX_REMOTE_EVENTS"

definition rt_link :: "'b seat_runtime \<Rightarrow> bool" where
  "rt_link s \<longleftrightarrow>
     (\<forall>l c n. Remote l c n \<in> keys_of s \<longrightarrow> mirror_launch s = Some l) \<and>
     (\<forall>l. mirror_launch s = Some l \<longrightarrow> session (pool s) = Some l) \<and>
     (game_route s \<longrightarrow> session (pool s) \<noteq> None)"

definition rt_inv :: "'b seat_runtime \<Rightarrow> bool" where
  "rt_inv s \<longleftrightarrow> rt_core s \<and> rt_link s"

text \<open>What no operation on sources touches.\<close>

definition rt_frame :: "'b seat_runtime \<Rightarrow> 'b seat_runtime \<Rightarrow> bool" where
  "rt_frame s s' \<longleftrightarrow>
     session (pool s') = session (pool s) \<and> mirror s' = mirror s \<and> game_route s' = game_route s \<and>
     rt_seat_order s' = rt_seat_order s \<and> recovery_required s' = recovery_required s \<and> faulted s' = faulted s"

lemma rt_frame_refl [simp]: "rt_frame s s"
  by (simp add: rt_frame_def)

lemma rt_frame_trans [trans]: "rt_frame s t \<Longrightarrow> rt_frame t u \<Longrightarrow> rt_frame s u"
  by (simp add: rt_frame_def)

lemma rt_coreD:
  assumes "rt_core s"
  shows "routed (game_route s) (pool s) (rt_sources s)"
    and "bt_get (rt_sources s) k = Some src \<Longrightarrow> source_ok k src"
    and "length (feedback s) \<le> MAX_REMOTE_EVENTS"
    and "bt_wf (rt_sources s)" and "pool_inv (pool s)"
  using assms by (auto simp: rt_core_def routed_def)

lemma keys_of_eq: "rt_sources s' = rt_sources s \<Longrightarrow> keys_of s' = keys_of s"
  by (simp add: keys_of_def)

lemma in_keys_of: "k \<in> keys_of s \<longleftrightarrow> bt_get (rt_sources s) k \<noteq> None"
  by (simp add: keys_of_def)

lemma new_source_sel [simp]:
  "src_state (new_source g now h) = g" "has_state (new_source g now h) = h"
  "requires_neutral (new_source g now h)" "last_event_ms (new_source g now h) = now"
  "window_start_ms (new_source g now h) = now" "events_in_window (new_source g now h) = 0"
  by (simp_all add: new_source_def)

definition key_ok :: "source_key \<Rightarrow> bool" where
  "key_ok k = (case k of Physical _ \<Rightarrow> True | Netplay _ \<Rightarrow> False | Remote _ _ n \<Rightarrow> n \<le> 15)"

lemma source_ok_alt: "source_ok k src \<longleftrightarrow> key_ok k \<and> events_in_window src \<le> MAX_EVENTS_PER_SECOND"
  by (simp add: source_ok_def key_ok_def)

text \<open>A step that moves sources and seats and nothing else.\<close>

definition moves :: "'b seat_runtime \<Rightarrow> 'b seat_runtime \<Rightarrow> bool" where
  "moves s s' \<longleftrightarrow>
     s' = s\<lparr>pool := pool s', rt_sources := rt_sources s'\<rparr> \<and> session (pool s') = session (pool s) \<and>
     routed (game_route s) (pool s') (rt_sources s') \<and>
     (\<forall>k src. bt_get (rt_sources s') k = Some src \<longrightarrow> source_ok k src)"

lemma movesI:
  "routed (game_route s) p ss \<Longrightarrow> session p = session (pool s) \<Longrightarrow>
   (\<And>k src. bt_get ss k = Some src \<Longrightarrow> source_ok k src) \<Longrightarrow> moves s (s\<lparr>pool := p, rt_sources := ss\<rparr>)"
  by (simp add: moves_def)

lemma moves_pool:
  "rt_core s \<Longrightarrow> routed (game_route s) p (rt_sources s) \<Longrightarrow> session p = session (pool s) \<Longrightarrow> moves s (s\<lparr>pool := p\<rparr>)"
  by (auto simp: moves_def rt_core_def)

lemma moves_sources:
  "rt_core s \<Longrightarrow> routed (game_route s) (pool s) ss \<Longrightarrow>
   (\<And>k src. bt_get ss k = Some src \<Longrightarrow> source_ok k src) \<Longrightarrow> moves s (s\<lparr>rt_sources := ss\<rparr>)"
  by (auto simp: moves_def)

lemma moves_eq:
  assumes "moves s s'"
  obtains p ss where "s' = s\<lparr>pool := p, rt_sources := ss\<rparr>" "session p = session (pool s)"
    "routed (game_route s) p ss" "\<And>k src. bt_get ss k = Some src \<Longrightarrow> source_ok k src"
  using assms unfolding moves_def by blast

lemma moves_frame:
  assumes "moves s s'"
  shows "rt_frame s s'" and "feedback s' = feedback s" and "feedback_failed s' = feedback_failed s"
proof -
  obtain p ss where "s' = s\<lparr>pool := p, rt_sources := ss\<rparr>" "session p = session (pool s)"
    using assms by (rule moves_eq)
  then show "rt_frame s s'" "feedback s' = feedback s" "feedback_failed s' = feedback_failed s"
    by (simp_all add: rt_frame_def)
qed

lemma moves_core: "rt_core s \<Longrightarrow> moves s s' \<Longrightarrow> rt_core s'"
  by (erule moves_eq) (auto simp: rt_core_def)

lemma moves_trans:
  assumes "moves s t" and "moves t u"
  shows "moves s u"
proof -
  from assms(1) obtain p ss where t: "t = s\<lparr>pool := p, rt_sources := ss\<rparr>" "session p = session (pool s)"
    by (rule moves_eq)
  from assms(2) obtain q tt where u: "u = t\<lparr>pool := q, rt_sources := tt\<rparr>" "session q = session (pool t)"
    "routed (game_route t) q tt" "\<And>k src. bt_get tt k = Some src \<Longrightarrow> source_ok k src"
    by (rule moves_eq) blast
  with t have "u = s\<lparr>pool := q, rt_sources := tt\<rparr>" "session q = session (pool s)" "routed (game_route s) q tt"
    by simp_all
  with u(4) show ?thesis by (metis movesI)
qed

lemma moves_refl: "rt_core s \<Longrightarrow> moves s s"
  by (simp add: moves_def rt_core_def)

lemma all_insert_ok:
  assumes "rt_core s" and "source_ok k v"
  shows "bt_get (bt_insert k v (rt_sources s)) k' = Some src \<Longrightarrow> source_ok k' src"
  using assms rt_coreD(2) [OF assms(1)] by (auto split: if_splits)

lemma claim_seat_routed:
  assumes r: "routed gr p ss" and c: "claim_seat ops k p = (x, p')"
    and new: "bt_get ss k = None \<or> pool_index p k = None"
  shows "session p' = session p" and "\<not> is_ok x \<Longrightarrow> routed gr p' ss"
    and "is_ok x \<Longrightarrow> agree_off k ss ss' \<Longrightarrow> bt_wf ss' \<Longrightarrow> bt_get ss' k \<noteq> None \<Longrightarrow> routed gr p' ss'"
    and "x = Err e \<Longrightarrow> e = Backend"
proof -
  obtain y q where y: "pool_connect ops k p = (y, q)" by (cases "pool_connect ops k p")
  have "session p' = session p \<and> (\<not> is_ok x \<longrightarrow> routed gr p' ss) \<and> (x = Err e \<longrightarrow> e = Backend) \<and>
      (is_ok x \<longrightarrow> agree_off k ss ss' \<longrightarrow> bt_wf ss' \<longrightarrow> bt_get ss' k \<noteq> None \<longrightarrow> routed gr p' ss')"
  proof (cases y)
    case (Ok n)
    from c y Ok connect_ok_routed [OF r y [unfolded Ok] new] show ?thesis
      using connect_ok_routed(2) [OF r y [unfolded Ok] new, of "bt_insert k (new_source neutral 0 True) ss"] routedD(2) [OF r]
      by (auto simp: claim_seat_def)
  next
    case (Err f)
    note ce = connect_err_routed [OF r y [unfolded Err]]
    show ?thesis
    proof (cases "f = NoSeat")
      case True
      with c y Err ce have "x = Ok None" "p' = p" "pool_index p k = None" by (auto simp: claim_seat_def)
      with routed_unbound [OF r] show ?thesis by simp
    next
      case False
      with c y Err ce show ?thesis by (auto simp: claim_seat_def pool_failure_def)
    qed
  qed
  then show "session p' = session p" "\<not> is_ok x \<Longrightarrow> routed gr p' ss" "x = Err e \<Longrightarrow> e = Backend"
    "is_ok x \<Longrightarrow> agree_off k ss ss' \<Longrightarrow> bt_wf ss' \<Longrightarrow> bt_get ss' k \<noteq> None \<Longrightarrow> routed gr p' ss'" by blast+
qed

lemma connect_source_moves:
  assumes core: "rt_core s" and new: "bt_get (rt_sources s) k = None" and ok: "key_ok k"
    and c: "connect_source ops k g now has s = (r, s')"
  shows "moves s s'"
    and "rt_sources s' = (if is_ok r then bt_insert k (new_source g now has) (rt_sources s) else rt_sources s)"
    and "r = Err e \<Longrightarrow> e = Backend"
proof -
  note r = rt_coreD(1) [OF core]
  let ?ss = "bt_insert k (new_source g now has) (rt_sources s)"
  have wf: "bt_wf ?ss" using rt_coreD(4) [OF core] by simp
  have so: "bt_get ?ss k' = Some src \<Longrightarrow> source_ok k' src" for k' src
    by (rule all_insert_ok [OF core]) (use ok in \<open>simp_all add: source_ok_alt\<close>)
  obtain x p where x: "(if first_press s \<and> pool_slot (pool s) k = None then (Ok None, pool s)
      else claim_seat ops k (pool s)) = (x, p)" by (cases "if first_press s \<and> pool_slot (pool s) k = None
        then (Ok None, pool s) else claim_seat ops k (pool s)")
  have p: "session p = session (pool s)" "is_ok x \<Longrightarrow> routed (game_route s) p ?ss"
    "\<not> is_ok x \<Longrightarrow> routed (game_route s) p (rt_sources s)" "x = Err e \<Longrightarrow> e = Backend"
    using x claim_seat_routed [OF r _ disjI1 [OF new], of ops x p] wf
    by (auto split: if_splits intro: routed_unbound [OF r _ _ wf])
  have "moves s s' \<and> rt_sources s' = (if is_ok r then ?ss else rt_sources s) \<and> (r = Err e \<longrightarrow> e = Backend)"
  proof (cases x)
    case (Ok sl)
    with p have "moves s (s\<lparr>pool := p, rt_sources := ?ss\<rparr>)" by (intro movesI) (use so in auto)
    with Ok x c show ?thesis by (auto simp: connect_source_def)
  next
    case (Err f)
    with p x c show ?thesis by (auto simp: connect_source_def intro: moves_pool [OF core])
  qed
  then show "moves s s'" "rt_sources s' = (if is_ok r then ?ss else rt_sources s)" "r = Err e \<Longrightarrow> e = Backend" by blast+
qed

lemma count_event_props:
  assumes "count_event now src = Some src'"
  shows "requires_neutral src' = requires_neutral src" and "0 < events_in_window src'"
    and "events_in_window src' \<le> MAX_EVENTS_PER_SECOND"
    and "src_state src' = src_state src" and "has_state src' = has_state src"
  using assms by (auto simp: count_event_def Let_def split: if_splits)

lemma routed_insert_weaker:
  assumes "routed gr p ss" and "bt_get ss k = Some src0" and "requires_neutral src \<Longrightarrow> requires_neutral src0"
  shows "routed gr p (bt_insert k src ss)"
  using assms(1)
proof (rule routed_weaken)
  show "same_keys ss (bt_insert k src ss)" using assms(2) by simp
qed (use assms routedD(2) [OF assms(1)] in \<open>auto split: if_splits\<close>)

lemma deliver_moves:
  assumes core: "rt_core s" and src: "bt_get (rt_sources s) k = Some src" "\<not> requires_neutral src"
    and gr: "game_route s" and d: "deliver ops k g s = (r, s')"
  shows "moves s s'" and "rt_sources s' = rt_sources s"
proof -
  note r = rt_coreD(1) [OF core]
  let ?c = "if pool_slot (pool s) k = None \<and> first_press s \<and> \<not> is_neutral_for_rearm g
      then claim_seat ops k (pool s) else (Ok (pool_slot (pool s) k), pool s)"
  obtain x p where x: "?c = (x, p)" by (cases ?c)
  have ne: "bt_get (rt_sources s) k \<noteq> None" using src(1) by simp
  have p: "routed (game_route s) p (rt_sources s)" "session p = session (pool s)"
    using x r claim_seat_routed [OF r _ disjI2, of ops k x p] rt_coreD(4) [OF core] ne
    by (cases "is_ok x"; auto split: if_splits)+
  obtain y q where y: "pool_write_state ops k g p = (y, q)" by (cases "pool_write_state ops k g p")
  have q: "routed (game_route s) q (rt_sources s)" "session q = session p"
    using write_state_routed [OF p(1) y] src gr by simp_all
  have m: "moves s (s\<lparr>pool := p\<rparr>)" "moves s (s\<lparr>pool := q\<rparr>)"
    using p q by (auto intro: moves_pool [OF core])
  have "moves s s' \<and> rt_sources s' = rt_sources s"
    using d x y m
    by (cases x) (auto simp: deliver_def Let_def split: option.splits result.splits)
  then show "moves s s'" "rt_sources s' = rt_sources s" by simp_all
qed

lemma update_source_moves:
  assumes core: "rt_core s" and c: "update_source ops k g now s = (r, s')"
  shows "moves s s'" and "keys_of s' = keys_of s"
proof -
  note r = rt_coreD(1) [OF core]
  have "moves s s' \<and> keys_of s' = keys_of s"
  proof (cases "bt_get (rt_sources s) k")
    case None
    with c core show ?thesis by (auto simp: update_source_def moves_refl)
  next
    case (Some src0)
    show ?thesis
    proof (cases "if is_remote k then count_event now src0 else Some src0")
      case None
      with Some c core show ?thesis by (auto simp: update_source_def moves_refl)
    next
      case so: (Some src1)
      let ?src = "src1\<lparr>last_event_ms := now, src_state := g, has_state := True\<rparr>"
      let ?s = "\<lambda>v. s\<lparr>rt_sources := bt_insert k v (rt_sources s)\<rparr>"
      have rn: "requires_neutral src1 = requires_neutral src0" and ok: "source_ok k src1"
        using so count_event_props [of now src0 src1] rt_coreD(2) [OF core Some]
        by (auto simp: source_ok_alt split: if_splits)
      have m: "moves s (?s v)" if "source_ok k v" "requires_neutral v \<Longrightarrow> requires_neutral src0" for v
        using core routed_insert_weaker [OF r Some that(2)] all_insert_ok [OF core that(1)] by (rule moves_sources)
      have m1: "moves s (?s ?src)" "moves s (?s (?src\<lparr>requires_neutral := False\<rparr>))"
        by (rule m; use ok rn in \<open>simp add: source_ok_alt\<close>)+
      have ks: "keys_of (?s v) = keys_of s" for v using Some by (auto simp: keys_of_def)
      show ?thesis
      proof (cases "game_route s \<and> \<not> requires_neutral src1")
        case False
        with Some so m1 ks show ?thesis
          using c unfolding update_source_def Let_def by (auto split: if_splits)
      next
        case True
        with Some so c have d: "deliver ops k g (?s ?src) = (r, s')" by (auto simp: update_source_def Let_def)
        have "moves (?s ?src) s'" "rt_sources s' = rt_sources (?s ?src)"
          using deliver_moves [OF moves_core [OF core m1(1)] _ _ _ d, of ?src] True by simp_all
        with m1(1) ks keys_of_eq show ?thesis by (metis moves_trans)
      qed
    qed
  qed
  then show "moves s s'" "keys_of s' = keys_of s" by simp_all
qed

lemma rebalance_loop_moves:
  "rt_core s \<Longrightarrow> set ks \<subseteq> keys_of s \<Longrightarrow> rebalance_loop ops ks s = (r, s') \<Longrightarrow>
   moves s s' \<and> keys_of s' = keys_of s \<and> (\<forall>e. r = Err e \<longrightarrow> e = Backend)"
proof (induction ks arbitrary: s)
  case Nil
  then show ?case by (auto simp: moves_refl)
next
  case (Cons k ks)
  note r = rt_coreD(1) [OF Cons.prems(1)]
  show ?case
  proof (cases "pool_index (pool s) k")
    case (Some i)
    then have "pool_slot (pool s) k \<noteq> None" by simp
    with Cons.IH [OF Cons.prems(1)] Cons.prems(2,3) show ?thesis by simp
  next
    case None
    from Cons.prems(2) obtain src where src: "bt_get (rt_sources s) k = Some src" by (auto simp: keys_of_def)
    let ?ss = "bt_insert k (src\<lparr>requires_neutral := True\<rparr>) (rt_sources s)"
    have so: "source_ok k (src\<lparr>requires_neutral := True\<rparr>)"
      using rt_coreD(2) [OF Cons.prems(1) src] by (simp add: source_ok_alt)
    obtain x p where x: "pool_connect ops k (pool s) = (x, p)" by (cases "pool_connect ops k (pool s)")
    show ?thesis
    proof (cases x)
      case (Ok n)
      let ?s = "s\<lparr>pool := p, rt_sources := ?ss\<rparr>"
      note co = connect_ok_routed [OF r x [unfolded Ok] disjI2 [OF None], of ?ss]
      have m: "moves s ?s"
        by (rule movesI) (use co rt_coreD(4) [OF Cons.prems(1)] all_insert_ok [OF Cons.prems(1) so] in auto)
      have ks: "keys_of ?s = keys_of s" using src by (auto simp: keys_of_def)
      have "rebalance_loop ops ks ?s = (r, s')" using Cons.prems(3) None x Ok src by (simp add: set_requires_neutral_def)
      from Cons.IH [OF moves_core [OF Cons.prems(1) m] _ this] Cons.prems(2) ks moves_trans [OF m]
      show ?thesis by auto
    next
      case (Err e)
      note ce = connect_err_routed [OF r x [unfolded Err]]
      show ?thesis
      proof (cases "e = NoSeat")
        case True
        with ce(3) have "p = pool s" by simp
        with True Err None x Cons.prems have "rebalance_loop ops ks s = (r, s')" by simp
        with Cons.IH [OF Cons.prems(1)] Cons.prems(2) show ?thesis by simp
      next
        case False
        with ce(4) obtain m where "e = BackendError m" by blast
        with False Err None x Cons.prems moves_pool [OF Cons.prems(1) ce(1,2)] show ?thesis
          by (auto simp: pool_failure_def keys_of_def)
      qed
    qed
  qed
qed

lemma rebalance_moves:
  assumes "rt_core s" and "rebalance ops s = (r, s')"
  shows "moves s s'" and "keys_of s' = keys_of s" and "r = Err e \<Longrightarrow> e = Backend"
proof -
  have "set (bt_keys (rt_sources s)) \<subseteq> keys_of s" by (auto simp: keys_of_def bt_get_None_iff)
  with rebalance_loop_moves [OF assms(1) this] assms
  show "moves s s'" "keys_of s' = keys_of s" "r = Err e \<Longrightarrow> e = Backend"
    by (auto simp: rebalance_def moves_refl split: if_splits)
qed

lemma push_feedback_sel [simp]:
  "pool (push_feedback e s) = pool s" "rt_sources (push_feedback e s) = rt_sources s"
  "mirror (push_feedback e s) = mirror s" "game_route (push_feedback e s) = game_route s"
  "rt_seat_order (push_feedback e s) = rt_seat_order s"
  "recovery_required (push_feedback e s) = recovery_required s" "faulted (push_feedback e s) = faulted s"
  by (simp_all add: push_feedback_def)

lemma push_feedback_core: "rt_core s \<Longrightarrow> rt_core (push_feedback e s)"
  by (auto simp: rt_core_def) (simp add: push_feedback_def)

lemma push_feedback_frame [simp]: "rt_frame s (push_feedback e s)" "keys_of (push_feedback e s) = keys_of s"
  by (simp_all add: rt_frame_def keys_of_def)

lemma disconnect_source_core:
  assumes core: "rt_core s" and d: "disconnect_source ops k s = (r, s')"
  shows "rt_core s'" and "rt_frame s s'" and "keys_of s' = keys_of s - {k}"
    and "k \<in> keys_of s \<Longrightarrow> r = Err e \<Longrightarrow> e = Backend" and "k \<notin> keys_of s \<Longrightarrow> r = Err UnknownSource \<and> s' = s"
proof -
  note r = rt_coreD(1) [OF core]
  have "rt_core s' \<and> rt_frame s s' \<and> keys_of s' = keys_of s - {k} \<and>
    (k \<in> keys_of s \<longrightarrow> r = Err e \<longrightarrow> e = Backend) \<and> (k \<notin> keys_of s \<longrightarrow> r = Err UnknownSource \<and> s' = s)"
  proof (cases "bt_get (rt_sources s) k")
    case None
    with d core show ?thesis by (auto simp: disconnect_source_def keys_of_def)
  next
    case (Some src)
    then have k: "k \<in> keys_of s" by (simp add: keys_of_def)
    obtain x p where x: "pool_disconnect ops k (pool s) = (x, p)" by (cases "pool_disconnect ops k (pool s)")
    note dr = disconnect_routed [OF r x]
    let ?s1 = "s\<lparr>pool := p, rt_sources := bt_remove k (rt_sources s)\<rparr>"
    have m: "moves s ?s1"
      by (rule movesI) (use dr rt_coreD(2) [OF core] in \<open>auto split: if_splits\<close>)
    have k1: "keys_of ?s1 = keys_of s - {k}" by (auto simp: keys_of_def)
    define s2 where "s2 = (if has_state src then
        (case k of Remote l c n \<Rightarrow> push_feedback (RemoteDisconnected c l n) ?s1 | _ \<Rightarrow> ?s1) else ?s1)"
    have s2: "rt_core s2" "rt_frame ?s1 s2" "keys_of s2 = keys_of s - {k}"
      using moves_core [OF core m] k1 by (cases k; simp add: s2_def push_feedback_core)+
    have fr: "rt_frame s s2" using moves_frame(1) [OF m] s2(2) by (rule rt_frame_trans)
    obtain y t where y: "rebalance ops s2 = (y, t)" by (cases "rebalance ops s2")
    note rb = rebalance_moves [OF s2(1) y]
    have t: "rt_core t" "rt_frame s t" "keys_of t = keys_of s - {k}" "\<And>e. y = Err e \<Longrightarrow> e = Backend"
      using moves_core [OF s2(1) rb(1)] rt_frame_trans [OF fr moves_frame(1) [OF rb(1)]] rb(2) s2(3)
        rebalance_moves(3) [OF s2(1) y] by auto
    have eq: "(r, s') = (case x of Ok _ \<Rightarrow> (y, t)
        | Err e \<Rightarrow> if e = UnknownSourceKey then (y, t) else (Err (pool_failure e), s2))"
      using d Some x y by (cases x) (auto simp: disconnect_source_def Let_def s2_def)
    show ?thesis
    proof (cases "\<exists>f. x = Err f \<and> f \<noteq> UnknownSourceKey")
      case True
      then obtain f where f: "x = Err f" "f \<noteq> UnknownSourceKey" by blast
      with dr(3) obtain m where "f = BackendError m" by blast
      with f eq s2 fr k show ?thesis by (auto simp: pool_failure_def)
    next
      case False
      with eq have "r = y" "s' = t" by (cases x; auto)+
      with t k show ?thesis by auto
    qed
  qed
  then show "rt_core s'" "rt_frame s s'" "keys_of s' = keys_of s - {k}"
    "k \<in> keys_of s \<Longrightarrow> r = Err e \<Longrightarrow> e = Backend" "k \<notin> keys_of s \<Longrightarrow> r = Err UnknownSource \<and> s' = s" by blast+
qed

lemma disconnect_all_core:
  "rt_core s \<Longrightarrow> disconnect_all ops ks s = (f, s') \<Longrightarrow>
   rt_core s' \<and> rt_frame s s' \<and> keys_of s' = keys_of s - set ks"
proof (induction ks arbitrary: s f)
  case (Cons k ks)
  obtain r t where t: "disconnect_source ops k s = (r, t)" by (cases "disconnect_source ops k s")
  obtain g u where u: "disconnect_all ops ks t = (g, u)" by (cases "disconnect_all ops ks t")
  note d = disconnect_source_core [OF Cons.prems(1) t]
  from Cons.prems(2) t u have "u = s'" by simp
  from Cons.IH [OF d(1) u [unfolded this]] d(2,3) rt_frame_trans [OF d(2)] show ?case by auto
qed simp

lemma expire_loop_core:
  "rt_core s \<Longrightarrow> distinct ks \<Longrightarrow> set ks \<subseteq> keys_of s \<Longrightarrow> expire_loop ops ks s = (r, s') \<Longrightarrow>
   rt_core s' \<and> rt_frame s (s'\<lparr>faulted := faulted s\<rparr>) \<and> keys_of s' \<subseteq> keys_of s \<and>
   (is_ok r \<longrightarrow> keys_of s' = keys_of s - set ks \<and> faulted s' = faulted s) \<and> (\<not> is_ok r \<longrightarrow> faulted s')"
proof (induction ks arbitrary: s)
  case Nil
  then show ?case by (auto simp: rt_frame_def)
next
  case (Cons k ks)
  obtain x t where t: "disconnect_source ops k s = (x, t)" by (cases "disconnect_source ops k s")
  note d = disconnect_source_core [OF Cons.prems(1) t]
  show ?case
  proof (cases x)
    case (Ok u)
    with Cons.prems(4) t have "expire_loop ops ks t = (r, s')" by simp
    from Cons.IH [OF d(1) _ _ this] Cons.prems(2,3) d(2,3) show ?thesis
      by (auto simp: rt_frame_def)
  next
    case (Err e)
    with Cons.prems(4) t d show ?thesis by (auto simp: rt_frame_def rt_core_def keys_of_def)
  qed
qed

lemma set_route_core:
  assumes core: "rt_core s" and c: "set_route ops g s = (r, s')"
  shows "rt_core s'" and "keys_of s' = keys_of s" and "session (pool s') = session (pool s)"
    and "mirror s' = mirror s" and "game_route s' = (g \<and> is_ok r)" and "r = Err e \<Longrightarrow> e = Backend"
    and "recovery_required s' = recovery_required s" and "faulted s' = faulted s"
proof -
  let ?ss = "bt_map_values (\<lambda>src. src\<lparr>requires_neutral := True\<rparr>) (rt_sources s)"
  obtain x p where x: "neutralize ops (pool s) = (x, p)" by (cases "neutralize ops (pool s)")
  have wf: "bt_wf ?ss" using rt_coreD(4) [OF core] by simp
  note n = neutralize_routed [OF rt_coreD(1) [OF core] x same_keys_intros(2) wf]
  have so: "bt_get ?ss k = Some src \<Longrightarrow> source_ok k src" for k src
    using rt_coreD(2) [OF core] by (auto simp: source_ok_alt)
  have eq: "(r, s') = (case x of Ok _ \<Rightarrow> (Ok (), s\<lparr>game_route := g, rt_sources := ?ss, pool := p\<rparr>)
      | Err e \<Rightarrow> (Err (pool_failure e), s\<lparr>game_route := False, rt_sources := ?ss, pool := p\<rparr>))"
    using c x by (cases x) (auto simp: set_route_def Let_def)
  have co: "rt_core (s\<lparr>game_route := v, rt_sources := ?ss, pool := p\<rparr>)" for v
    using n(1) so rt_coreD(3) [OF core] by (auto simp: rt_core_def)
  have ks: "keys_of (s\<lparr>game_route := v, rt_sources := ?ss, pool := p\<rparr>) = keys_of s" for v
    by (auto simp: keys_of_def)
  show "rt_core s'" "keys_of s' = keys_of s" "session (pool s') = session (pool s)" "mirror s' = mirror s"
    "game_route s' = (g \<and> is_ok r)" "recovery_required s' = recovery_required s" "faulted s' = faulted s"
    using eq co ks n(2) by (cases x; auto)+
  show "r = Err e \<Longrightarrow> e = Backend" using eq n(3) by (cases x) (auto simp: pool_failure_def)
qed

subsection \<open>Every operation keeps the invariant\<close>

lemma rt_invD: "rt_inv s \<Longrightarrow> rt_core s" "rt_inv s \<Longrightarrow> rt_link s"
  by (simp_all add: rt_inv_def)

lemma rt_link_frame: "rt_link s \<Longrightarrow> rt_frame s s' \<Longrightarrow> keys_of s' \<subseteq> keys_of s \<Longrightarrow> rt_link s'"
  unfolding rt_link_def rt_frame_def mirror_launch_def by (metis subsetD)

lemma rt_inv_frame: "rt_inv s \<Longrightarrow> rt_core s' \<Longrightarrow> rt_frame s s' \<Longrightarrow> keys_of s' \<subseteq> keys_of s \<Longrightarrow> rt_inv s'"
  unfolding rt_inv_def by (blast intro: rt_link_frame)

lemma rt_inv_moves: "rt_inv s \<Longrightarrow> moves s s' \<Longrightarrow> keys_of s' \<subseteq> keys_of s \<Longrightarrow> rt_inv s'"
  by (blast intro: rt_inv_frame moves_core moves_frame(1) rt_invD(1))

lemma rt_core_flags [simp]:
  "rt_core (s\<lparr>faulted := f\<rparr>) = rt_core s" "rt_core (s\<lparr>recovery_required := f\<rparr>) = rt_core s"
  "rt_core (s\<lparr>rt_seat_order := od\<rparr>) = rt_core s" "rt_core (s\<lparr>mirror := m\<rparr>) = rt_core s"
  "rt_core s \<Longrightarrow> rt_core (s\<lparr>feedback := []\<rparr>)" "rt_core (s\<lparr>feedback_failed := f\<rparr>) = rt_core s"
  by (simp_all add: rt_core_def)

lemma keys_of_flags [simp]:
  "keys_of (s\<lparr>faulted := f\<rparr>) = keys_of s" "keys_of (s\<lparr>recovery_required := f\<rparr>) = keys_of s"
  "keys_of (s\<lparr>rt_seat_order := od\<rparr>) = keys_of s" "keys_of (s\<lparr>mirror := m\<rparr>) = keys_of s"
  "keys_of (s\<lparr>feedback := fb\<rparr>) = keys_of s" "keys_of (s\<lparr>feedback_failed := f\<rparr>) = keys_of s"
  "keys_of (s\<lparr>pool := p\<rparr>) = keys_of s" "keys_of (s\<lparr>game_route := f\<rparr>) = keys_of s"
  by (simp_all add: keys_of_def)

lemma rt_inv_flags [simp]:
  "rt_inv (s\<lparr>faulted := f\<rparr>) = rt_inv s" "rt_inv (s\<lparr>recovery_required := f\<rparr>) = rt_inv s"
  "rt_inv (s\<lparr>rt_seat_order := od\<rparr>) = rt_inv s" "rt_inv (s\<lparr>feedback_failed := f\<rparr>) = rt_inv s"
  "rt_inv s \<Longrightarrow> rt_inv (s\<lparr>feedback := []\<rparr>)"
  by (simp_all add: rt_inv_def rt_link_def mirror_launch_def)

lemma neutralize_ok_known:
  assumes "neutralize ops p = (n, p')" and "is_ok n"
  shows "\<forall>x \<in> set (seats p'). known_state x = Some neutral"
proof -
  obtain es where l: "neutral_loop ops (\<lambda>_. True) False [0..<length (seats p)] p = (es, p')" and "es = []"
    using assms by (auto simp: neutralize_def backend_result_def split: prod.splits if_splits)
  then obtain F where F: "F \<subseteq> {i \<in> set [0..<length (seats p)]. True}" "F = {} \<longleftrightarrow> es = []"
    "length (seats p') = length (seats p)" "session p' = session p"
    "\<And>j. j < length (seats p) \<Longrightarrow> seats p' ! j = (if j \<in> set [0..<length (seats p)] \<and> True
      then seat_after False (j \<in> F) (seats p ! j) else seats p ! j)"
    by (rule_tac neutral_loop_char [OF l]) simp_all
  with \<open>es = []\<close> show ?thesis by (auto simp: all_set_conv_all_nth seat_after_def)
qed

lemma add_seats_unbound:
  "\<forall>x \<in> set (seats p). binding x = None \<Longrightarrow> add_seats ops ns p = (r, p') \<Longrightarrow> \<forall>x \<in> set (seats p'). binding x = None"
proof (induction ns arbitrary: p)
  case (Cons n ns)
  obtain x q where a: "add_seat ops n p = (x, q)" by (cases "add_seat ops n p")
  then have "\<forall>y \<in> set (seats q). binding y = None"
    using Cons.prems(1) by (rule_tac add_seat_char [OF a]) auto
  then show ?case using Cons a by (cases x) auto
qed simp

lemma pool_new_unbound:
  fixes p :: "('k, 'b) seat_pool"
  assumes "pool_new ops count b = Ok p"
  shows "\<forall>x \<in> set (seats p). binding x = None"
proof -
  obtain r q where a: "add_seats ops [1..<Suc count] (\<lparr>backend = b, seats = [], session = None\<rparr> :: ('k, 'b) seat_pool) = (r, q)"
    by (cases "add_seats ops [1..<Suc count] (\<lparr>backend = b, seats = [], session = None\<rparr> :: ('k, 'b) seat_pool)")
  then have "\<forall>x \<in> set (seats q). binding x = None" by (rule add_seats_unbound [rotated]) simp
  moreover have "q = p" using assms a by (cases r) (simp_all add: pool_new_def del: upt_Suc split: result.splits)
  ultimately show ?thesis by simp
qed

lemma boot_inv:
  assumes "boot ops b = Ok s"
  shows "rt_inv s"
proof -
  from assms obtain p where p: "pool_new ops MAX_SEATS b = Ok p"
    and s: "s = \<lparr>pool = p, rt_sources = [], mirror = None, game_route = False, rt_seat_order = Attached,
      recovery_required = True, faulted = False, feedback_failed = False, feedback = []\<rparr>"
    by (auto simp: boot_def split: result.splits)
  have inv: "pool_inv p" by (rule pool_new_inv(1) [OF p]) (simp add: MAX_SEATS_def)
  have "\<forall>i < length (seats p). binding (seats p ! i) = None"
    using pool_new_unbound [OF p] by simp
  then have "\<forall>i < length (seats p). seat_ok False [] (seats p ! i)"
    using pool_invD(4) [OF inv] by (auto simp: seat_ok_def seat_connected_def)
  with inv show ?thesis
    by (simp add: rt_inv_def rt_core_def rt_link_def routed_def s keys_of_def mirror_launch_def MAX_REMOTE_EVENTS_def)
qed

lemma unbind_core:
  assumes core: "rt_core s" and u: "unbind ops s = (r, s')"
  shows "rt_core s'" and "keys_of s' = {k \<in> keys_of s. \<not> is_remote k}" and "mirror s' = None"
    and "session (pool s') = session (pool s)" and "game_route s' = game_route s"
proof -
  let ?ks = "filter is_remote (bt_keys (rt_sources s))"
  obtain f t where t: "disconnect_all ops ?ks (s\<lparr>mirror := None\<rparr>) = (f, t)"
    by (cases "disconnect_all ops ?ks (s\<lparr>mirror := None\<rparr>)")
  have core': "rt_core (s\<lparr>mirror := None\<rparr>)" using core by simp
  note d = disconnect_all_core [OF core' t]
  have "set ?ks = {k \<in> keys_of s. is_remote k}" by (auto simp: keys_of_def bt_get_None_iff)
  with d have ks: "keys_of t = {k \<in> keys_of s. \<not> is_remote k}" by auto
  have s': "s' = (if f then t\<lparr>faulted := True\<rparr> else t)"
    using t u by (simp add: unbind_def split: if_splits)
  show "rt_core s'" "keys_of s' = {k \<in> keys_of s. \<not> is_remote k}" "mirror s' = None"
    "session (pool s') = session (pool s)" "game_route s' = game_route s"
    using d ks by (simp_all add: s' rt_frame_def)
qed

lemma rt_link_no_remote:
  "(\<And>k. k \<in> keys_of s \<Longrightarrow> \<not> is_remote k) \<Longrightarrow> mirror s = None \<Longrightarrow>
   (game_route s \<Longrightarrow> session (pool s) \<noteq> None) \<Longrightarrow> rt_link s"
  by (force simp: rt_link_def mirror_launch_def is_remote_def)

lemma unbind_inv: "rt_inv s \<Longrightarrow> unbind ops s = (r, s') \<Longrightarrow> rt_inv s'"
proof -
  assume inv: "rt_inv s" and u: "unbind ops s = (r, s')"
  note c = unbind_core [OF rt_invD(1) [OF inv] u]
  have "rt_link s'"
    by (rule rt_link_no_remote) (use c rt_invD(2) [OF inv] in \<open>auto simp: rt_link_def\<close>)
  with c(1) show "rt_inv s'" by (simp add: rt_inv_def)
qed

text \<open>No operation on sources reads the route, so a route change commutes with them.\<close>

lemma route_commutes [simp]:
  "s\<lparr>game_route := v, pool := p\<rparr> = s\<lparr>pool := p, game_route := v\<rparr>"
  "s\<lparr>game_route := v, rt_sources := ss\<rparr> = s\<lparr>rt_sources := ss, game_route := v\<rparr>"
  "push_feedback e (s\<lparr>game_route := v\<rparr>) = (push_feedback e s)\<lparr>game_route := v\<rparr>"
  "first_press (s\<lparr>game_route := v\<rparr>) = first_press s"
  by (simp_all add: push_feedback_def first_press_def)

lemma rebalance_loop_route:
  "rebalance_loop ops ks (s\<lparr>game_route := v\<rparr>) =
     (fst (rebalance_loop ops ks s), (snd (rebalance_loop ops ks s))\<lparr>game_route := v\<rparr>)"
  by (induction ks arbitrary: s) (auto split: prod.splits result.splits)

lemma rebalance_route:
  "rebalance ops (s\<lparr>game_route := v\<rparr>) = (fst (rebalance ops s), (snd (rebalance ops s))\<lparr>game_route := v\<rparr>)"
  by (simp add: rebalance_def rebalance_loop_route)

lemma disconnect_source_route:
  "disconnect_source ops k (s\<lparr>game_route := v\<rparr>) =
     (fst (disconnect_source ops k s), (snd (disconnect_source ops k s))\<lparr>game_route := v\<rparr>)"
  by (cases k)
     (simp_all add: disconnect_source_def Let_def rebalance_route split: option.split prod.split result.split)

lemma disconnect_all_route:
  "disconnect_all ops ks (s\<lparr>game_route := v\<rparr>) =
     (fst (disconnect_all ops ks s), (snd (disconnect_all ops ks s))\<lparr>game_route := v\<rparr>)"
  by (induction ks arbitrary: s) (simp_all add: disconnect_source_route Let_def split: prod.split)

lemma coordinator_lost_core:
  assumes core: "rt_core s" and c: "coordinator_lost ops s = (r, s')"
  shows "rt_core s'" and "keys_of s' = {}" and "mirror s' = None" and "\<not> game_route s'"
    and "session (pool s') = session (pool s)" and "recovery_required s'"
    and "feedback s' = [] \<and> \<not> feedback_failed s'"
    and "if is_ok r then faulted s' = faulted s \<and> (\<forall>x \<in> set (seats (pool s')). known_state x = Some neutral)
      else faulted s'"
proof -
  let ?s = "s\<lparr>recovery_required := True, mirror := None\<rparr>"
  let ?ks = "bt_keys (rt_sources s)"
  obtain f t where t: "disconnect_all ops ?ks ?s = (f, t)" by (cases "disconnect_all ops ?ks ?s")
  have "rt_core ?s" using core by simp
  note d = disconnect_all_core [OF this t]
  obtain n p where n: "neutralize ops (pool t) = (n, p)" by (cases "neutralize ops (pool t)")
  have ct: "rt_core t" using d by blast
  note nr = neutralize_routed [OF rt_coreD(1) [OF ct] n same_keys_intros(1) rt_coreD(4) [OF ct]]
  have sw: "s\<lparr>recovery_required := True, game_route := False, mirror := None\<rparr> = ?s\<lparr>game_route := False\<rparr>" by simp
  have eq: "disconnect_all ops ?ks (s\<lparr>recovery_required := True, game_route := False, mirror := None\<rparr>) =
      (f, t\<lparr>game_route := False\<rparr>)" unfolding sw disconnect_all_route t by simp
  define u where "u = t\<lparr>game_route := False, pool := p, feedback := [], feedback_failed := False\<rparr>"
  have s': "s' = (if f \<or> \<not> is_ok n then u\<lparr>faulted := True\<rparr> else u)" "is_ok r \<longleftrightarrow> \<not> f \<and> is_ok n"
    using c eq n by (auto simp: coordinator_lost_def u_def Let_def split: if_splits)
  have "rt_core u"
    using nr(1) rt_coreD(2) [OF ct] by (simp add: rt_core_def u_def MAX_REMOTE_EVENTS_def)
  moreover have "keys_of u = {}" using d by (auto simp: u_def keys_of_def bt_get_None_iff)
  ultimately show "rt_core s'" "keys_of s' = {}" by (simp_all add: s')
  have fr: "mirror t = None" "recovery_required t" "faulted t = faulted s" "session (pool t) = session (pool s)"
    using d by (simp_all add: rt_frame_def)
  with nr(2) show "mirror s' = None" "\<not> game_route s'" "session (pool s') = session (pool s)" "recovery_required s'"
    "feedback s' = [] \<and> \<not> feedback_failed s'" by (simp_all add: s' u_def)
  have "\<forall>x \<in> set (seats p). known_state x = Some neutral" if "is_ok n"
    using neutralize_ok_known [OF n that] .
  with fr show "if is_ok r then faulted s' = faulted s \<and> (\<forall>x \<in> set (seats (pool s')). known_state x = Some neutral)
      else faulted s'" by (auto simp: s' u_def)
qed

lemma coordinator_lost_inv: "rt_inv s \<Longrightarrow> coordinator_lost ops s = (r, s') \<Longrightarrow> rt_inv s'"
proof -
  assume inv: "rt_inv s" and u: "coordinator_lost ops s = (r, s')"
  note c = coordinator_lost_core [OF rt_invD(1) [OF inv] u]
  have "rt_link s'" by (rule rt_link_no_remote) (use c in auto)
  with c(1) show "rt_inv s'" by (simp add: rt_inv_def)
qed

lemma set_requires_neutral_props:
  "bt_wf ss \<Longrightarrow> bt_wf (set_requires_neutral v k ss)" "same_keys ss (set_requires_neutral v k ss)"
  "agree_off k ss (set_requires_neutral v k ss)"
  "bt_get (set_requires_neutral v k ss) k = map_option (\<lambda>src. src\<lparr>requires_neutral := v\<rparr>) (bt_get ss k)"
  by (auto simp: set_requires_neutral_def same_keys_def agree_off_def split: option.splits)

lemma set_requires_neutral_ok:
  assumes "rt_core s" and "bt_get (set_requires_neutral v k (rt_sources s)) k' = Some src"
  shows "source_ok k' src"
  using assms rt_coreD(2) [OF assms(1)]
  by (auto simp: set_requires_neutral_def source_ok_alt split: option.splits if_splits)

lemma mark_routed:
  assumes r: "routed gr p ss" and q: "\<And>i. pool_index p k = Some i \<Longrightarrow> quiet (seats p ! i)"
  shows "routed gr p (set_requires_neutral v k ss)"
  unfolding routed_def
proof (intro conjI allI impI)
  show "pool_inv p" "bt_wf (set_requires_neutral v k ss)"
    using r by (simp_all add: routed_def set_requires_neutral_props)
  fix i
  assume i: "i < length (seats p)"
  show "seat_ok gr (set_requires_neutral v k ss) (seats p ! i)"
  proof (cases "bound_to k (seats p ! i)")
    case True
    have "quiet (seats p ! i)" by (rule q) (rule pool_index_eqI [OF pool_invD(3) [OF routedD(1) [OF r]] i True])
    then show ?thesis
      using routedD(3) [OF r i] set_requires_neutral_props(2) [of ss v k]
      by (intro seat_ok_quiet) (auto simp: seat_ok_def same_keys_def)
  next
    case False
    with routedD(3) [OF r i] set_requires_neutral_props(3) show ?thesis by (rule seat_ok_agree)
  qed
qed

lemma write_neutral_quiet:
  assumes inv: "pool_inv p" and w: "pool_write_state ops k neutral p = (x, p')" and i: "pool_index p' k = Some i"
  shows "quiet (seats p' ! i)"
  using w
proof (cases rule: pool_write_state_cases)
  case unknown
  with i show ?thesis by simp
next
  case (disconnected j)
  with i pool_index_SomeD [OF i] show ?thesis using pool_invD(4) [OF inv] by simp
next
  case (written j y)
  have j: "j < length (seats p)" "bound_to k (seats p ! j)" using pool_index_SomeD [OF written(1)] by simp_all
  note ch = pool_write_char(1) [OF written(3) j(1)]
  have "pool_index p' k = Some j"
    by (rule pool_index_eqI [OF pool_invD(3) [OF pool_write_state_inv [OF inv w]]]) (use j ch in simp_all)
  with i ch j show ?thesis by (simp add: quiet_def)
qed

lemma sources_pool_commute: "s\<lparr>rt_sources := ss, pool := p\<rparr> = s\<lparr>pool := p, rt_sources := ss\<rparr>"
  by simp

lemma reset_loop_moves:
  "rt_core s \<Longrightarrow> reset_loop ops ks s = (f, s') \<Longrightarrow> moves s s' \<and> keys_of s' = keys_of s"
proof (induction ks arbitrary: s f)
  case Nil
  then show ?case by (auto simp: moves_refl)
next
  case (Cons k ks)
  note r = rt_coreD(1) [OF Cons.prems(1)]
  let ?ss = "set_requires_neutral True k (rt_sources s)"
  obtain x p where x: "pool_write_state ops k neutral (pool s) = (x, p)"
    by (cases "pool_write_state ops k neutral (pool s)")
  define q where "q = (if pool_index (pool s) k \<noteq> None then p else pool s)"
  have q: "routed (game_route s) q (rt_sources s)" "session q = session (pool s)"
    "\<And>i. pool_index q k = Some i \<Longrightarrow> quiet (seats q ! i)"
    using r write_state_routed [OF r x] write_neutral_quiet [OF rt_coreD(5) [OF Cons.prems(1)] x]
    by (auto simp: q_def split: if_splits)
  let ?t = "s\<lparr>pool := q, rt_sources := ?ss\<rparr>"
  have m: "moves s ?t"
    by (rule movesI) (use mark_routed [OF q(1,3)] q(2) set_requires_neutral_ok [OF Cons.prems(1)] in auto)
  have ks: "keys_of ?t = keys_of s" using set_requires_neutral_props(2) by (auto simp: keys_of_def same_keys_def)
  have "snd (reset_loop ops ks ?t) = s'"
    using Cons.prems(2) x
    by (cases "pool_index (pool s) k") (auto simp: q_def Let_def sources_pool_commute split: prod.splits)
  then obtain g where "reset_loop ops ks ?t = (g, s')" by (cases "reset_loop ops ks ?t") auto
  from Cons.IH [OF moves_core [OF Cons.prems(1) m] this] ks moves_trans [OF m] show ?case by auto
qed

lemma reset_inv:
  assumes inv: "rt_inv s" and c: "reset ops launch s = (r, s')"
  shows "rt_inv s'"
proof -
  obtain f t where t: "reset_loop ops (filter is_remote (bt_keys (rt_sources s))) s = (f, t)"
    by (cases "reset_loop ops (filter is_remote (bt_keys (rt_sources s))) s")
  have "rt_inv t" using rt_inv_moves [OF inv] reset_loop_moves [OF rt_invD(1) [OF inv] t] by blast
  with inv c t show ?thesis by (auto simp: reset_def split: if_splits)
qed

lemma bind_inv:
  assumes inv: "rt_inv s" and c: "bind launch token s = (r, s')"
  shows "rt_inv s'"
proof -
  have "rt_inv (s\<lparr>mirror := Some (launch, token)\<rparr>)" if "session (pool s) = Some launch" "mirror s = None"
    using inv that by (auto simp: rt_inv_def rt_link_def mirror_launch_def)
  with inv c show ?thesis by (cases "mirror s") (auto simp: bind_def split: result.splits if_splits)
qed

lemma apply_count_inv:
  assumes inv: "rt_inv s" and n: "n < 256" and c: "apply_count ops n s = (r, s')"
  shows "rt_inv s'"
proof -
  note core = rt_invD(1) [OF inv]
  obtain x p where x: "resize ops n (pool s) = (x, p)" by (cases "resize ops n (pool s)")
  have m: "moves s (s\<lparr>pool := p\<rparr>)" using resize_routed [OF rt_coreD(1) [OF core] n x] by (rule moves_pool [OF core])
  then have i1: "rt_inv (s\<lparr>pool := p\<rparr>)" by (rule rt_inv_moves [OF inv]) simp
  obtain y t where y: "rebalance ops (s\<lparr>pool := p\<rparr>) = (y, t)" by (cases "rebalance ops (s\<lparr>pool := p\<rparr>)")
  have i2: "rt_inv t" using rt_inv_moves [OF i1] rebalance_moves [OF rt_invD(1) [OF i1] y] by simp
  from inv i1 i2 c x y show ?thesis by (cases x; cases y) (auto simp: apply_count_def split: if_splits)
qed

lemma apply_begin_inv:
  assumes inv: "rt_inv s" and c: "apply_begin ops launch order s = (r, s')"
  shows "rt_inv s'"
proof -
  note core = rt_invD(1) [OF inv]
  obtain x p where x: "begin_session launch (pool s) = (x, p)" by (cases "begin_session launch (pool s)")
  note b = begin_session_routed [OF rt_coreD(1) [OF core] x]
  have "is_ok x \<Longrightarrow> session (pool s) = None" using x by (auto simp: begin_session_def split: result.splits if_splits)
  then have lk: "rt_link (s\<lparr>pool := p, rt_seat_order := order\<rparr>)" "rt_link (s\<lparr>pool := p\<rparr>)"
    using rt_invD(2) [OF inv] b(2) by (auto simp: rt_link_def mirror_launch_def)
  have i1: "rt_inv (s\<lparr>pool := p, rt_seat_order := order\<rparr>)" "rt_inv (s\<lparr>pool := p\<rparr>)"
    using b(1) lk core by (simp_all add: rt_inv_def rt_core_def)
  obtain y q where y: "release_all ops launch p = (y, q)" by (cases "release_all ops launch p")
  let ?t = "s\<lparr>pool := p, rt_seat_order := order\<rparr>"
  have "moves ?t (?t\<lparr>pool := q\<rparr>)"
    using release_all_routed [OF b(1) y] by (intro moves_pool [OF rt_invD(1) [OF i1(1)]]) simp_all
  then have i2: "rt_inv (?t\<lparr>pool := q\<rparr>)" by (rule rt_inv_moves [OF i1(1)]) simp
  from inv i1 i2 c x y show ?thesis
    by (cases x; cases y) (auto simp: apply_begin_def Let_def split: if_splits result.splits)
qed

lemma apply_reserve_inv:
  assumes inv: "rt_inv s" and c: "apply_reserve ops launch key s = (r, s')"
  shows "rt_inv s'"
proof -
  note core = rt_invD(1) [OF inv]
  obtain x p where x: "reserve ops launch (Netplay key) (pool s) = (x, p)"
    by (cases "reserve ops launch (Netplay key) (pool s)")
  have "bt_get (rt_sources s) (Netplay key) = None"
    using rt_coreD(2) [OF core, of "Netplay key"] by (cases "bt_get (rt_sources s) (Netplay key)") (auto simp: source_ok_def)
  then have "moves s (s\<lparr>pool := p\<rparr>)"
    using reserve_routed [OF rt_coreD(1) [OF core] x] by (intro moves_pool [OF core])
  then have "rt_inv (s\<lparr>pool := p\<rparr>)" by (rule rt_inv_moves [OF inv]) simp
  with inv c x show ?thesis by (cases x) (auto simp: apply_reserve_def split: result.splits if_splits)
qed

lemma apply_end_session_inv:
  assumes inv: "rt_inv s" and c: "apply_end_session ops launch s = (r, s')"
  shows "rt_inv s'"
proof -
  obtain x1 s1 where x1: "unbind ops s = (x1, s1)" by (cases "unbind ops s")
  note u = unbind_core [OF rt_invD(1) [OF inv] x1] unbind_inv [OF inv x1]
  obtain x2 s2 where x2: "set_route ops False s1 = (x2, s2)" by (cases "set_route ops False s1")
  note t = set_route_core [OF u(1) x2]
  have nr: "rt_link (s2\<lparr>pool := p\<rparr>)" for p
    by (rule rt_link_no_remote) (use t u in auto)
  have i2: "rt_inv s2" using t(1) nr [of "pool s2"] by (simp add: rt_inv_def)
  obtain x3 p where x3: "end_session ops launch (pool s2) = (x3, p)" by (cases "end_session ops launch (pool s2)")
  have "routed (game_route s2) p (rt_sources s2)" by (rule end_session_routed(1) [OF rt_coreD(1) [OF t(1)] x3])
  then have i3: "rt_inv (s2\<lparr>pool := p\<rparr>)" using nr t(1) by (simp add: rt_inv_def rt_core_def)
  let ?t = "s2\<lparr>pool := p, rt_seat_order := Attached\<rparr>"
  have i3': "rt_inv ?t" using i3 by simp
  obtain x4 s4 where x4: "rebalance ops ?t = (x4, s4)" by (cases "rebalance ops ?t")
  have i4: "rt_inv s4" using rt_inv_moves [OF i3'] rebalance_moves [OF rt_invD(1) [OF i3'] x4] by simp
  from inv u(6) i2 i3 i4 c x1 x2 x3 x4 show ?thesis
    by (cases x1; cases x2; cases x3; cases x4) (auto simp: apply_end_session_def split: if_splits)
qed

lemma apply_route_inv:
  assumes inv: "rt_inv s" and c: "apply_route ops launch s = (r, s')"
  shows "rt_inv s'"
proof -
  obtain x t where x: "set_route ops (launch \<noteq> None) s = (x, t)" by (cases "set_route ops (launch \<noteq> None) s")
  note t = set_route_core [OF rt_invD(1) [OF inv] x]
  have "rt_inv t" if "launch = None \<or> session (pool s) = launch"
    using t rt_invD(2) [OF inv] that by (auto simp: rt_inv_def rt_link_def mirror_launch_def)
  with inv c x show ?thesis by (cases x) (auto simp: apply_route_def split: result.splits if_splits)
qed

lemma apply_physical_connected_inv:
  assumes inv: "rt_inv s" and c: "apply_physical_connected ops dev name g now s = (r, s')"
  shows "rt_inv s'"
proof -
  note core = rt_invD(1) [OF inv]
  let ?k = "Physical dev"
  obtain x t where x: "connect_source ops ?k g now True s = (x, t)" by (cases "connect_source ops ?k g now True s")
  have "rt_inv t \<and> rt_inv (t\<lparr>rt_sources := set_requires_neutral v ?k (rt_sources t)\<rparr>)"
    if new: "bt_get (rt_sources s) ?k = None" for v
  proof -
    note m = connect_source_moves [OF core new _ x]
    have ks: "keys_of t \<subseteq> insert ?k (keys_of s)" using m(2) by (auto simp: key_ok_def keys_of_def split: if_splits)
    have ct: "rt_core t" using moves_core [OF core m(1)] by (simp add: key_ok_def)
    have fr: "rt_frame s t" using moves_frame(1) [OF m(1)] by (simp add: key_ok_def)
    have lk: "rt_link t"
      using rt_invD(2) [OF inv] fr ks unfolding rt_link_def rt_frame_def mirror_launch_def
      by (metis insertE source_key.distinct(3) subsetD)
    have nr: "bt_get (rt_sources t) ?k = Some src \<Longrightarrow> \<exists>g' h n. src = new_source g' n h" for src
      using m(2) new by (auto simp: key_ok_def split: if_splits)
    have "routed (game_route t) (pool t) (set_requires_neutral v ?k (rt_sources t))"
      using rt_coreD(1) [OF ct] set_requires_neutral_props(1) [OF rt_coreD(4) [OF ct]] set_requires_neutral_props(2)
    proof (rule routed_weaken)
      fix k' src'
      assume g: "bt_get (set_requires_neutral v ?k (rt_sources t)) k' = Some src'" "requires_neutral src'"
      show "\<exists>src. bt_get (rt_sources t) k' = Some src \<and> requires_neutral src"
      proof (cases "k' = ?k")
        case True
        with g obtain src where "bt_get (rt_sources t) ?k = Some src" by (auto simp: set_requires_neutral_props(4))
        with nr True show ?thesis by auto
      qed (use g set_requires_neutral_props(3) [of ?k "rt_sources t" v] in \<open>auto simp: agree_off_def\<close>)
    qed
    then have mv: "moves t (t\<lparr>rt_sources := set_requires_neutral v ?k (rt_sources t)\<rparr>)"
      using set_requires_neutral_ok [OF ct] by (intro moves_sources [OF ct])
    have i: "rt_inv t" using ct lk by (simp add: rt_inv_def)
    moreover have "keys_of (t\<lparr>rt_sources := set_requires_neutral v ?k (rt_sources t)\<rparr>) = keys_of t"
      using set_requires_neutral_props(2) by (auto simp: keys_of_def same_keys_def)
    ultimately show ?thesis using rt_inv_moves [OF i mv] by simp
  qed
  with inv c x show ?thesis
    by (cases x) (auto simp: apply_physical_connected_def Let_def bt_contains_key_iff split: result.splits if_splits)
qed

lemma update_source_inv:
  assumes "rt_inv s" and "update_source ops k g now s = (r, s')"
  shows "rt_inv s'"
  using rt_inv_moves [OF assms(1)] update_source_moves [OF rt_invD(1) [OF assms(1)] assms(2)] by simp

lemma disconnect_source_inv:
  assumes "rt_inv s" and "disconnect_source ops k s = (r, s')"
  shows "rt_inv s'"
  using disconnect_source_core [OF rt_invD(1) [OF assms(1)] assms(2)] by (auto intro: rt_inv_frame [OF assms(1)])

lemma apply_request_inv:
  assumes inv: "rt_inv s" and n: "\<And>n. req = ApplyCount n \<Longrightarrow> n < 256" and c: "apply_request ops req now s = (r, s')"
  shows "rt_inv s'"
proof (cases "faulted s")
  case True
  with inv c show ?thesis by (simp add: apply_request_def)
next
  case nf: False
  show ?thesis
  proof (cases req)
    case (PhysicalState dev g)
    with nf inv c show ?thesis
      by (auto simp: apply_request_def apply_physical_state_def split: result.splits if_splits intro: update_source_inv)
  next
    case (PhysicalDisconnected dev)
    with nf inv c show ?thesis
      by (auto simp: apply_request_def apply_physical_disconnected_def split: result.splits prod.splits
          intro: disconnect_source_inv)
  qed (use nf inv c n in \<open>auto simp: apply_request_def intro: apply_count_inv apply_begin_inv apply_reserve_inv
        apply_end_session_inv apply_route_inv apply_physical_connected_inv\<close>)
qed

lemma coordinate_inv:
  assumes "rt_inv s" and "\<And>n. req = ApplyCount n \<Longrightarrow> n < 256" and "coordinate ops req now s = (r, s')"
  shows "rt_inv s'"
proof -
  obtain x t where x: "apply_request ops req now s = (x, t)" by (cases "apply_request ops req now s")
  have "rt_inv t" by (rule apply_request_inv [OF assms(1,2) x])
  with assms(3) x show ?thesis
    by (auto simp: coordinate_def Let_def split: result.splits prod.splits if_splits)
qed

lemma accept_state_core:
  assumes core: "rt_core s" and ok: "key_ok k" and a: "accept_state ops k st now s = (r, s')"
  shows "rt_core s'" and "rt_frame s s'" and "keys_of s' \<subseteq> insert k (keys_of s)"
proof -
  let ?c = "if bt_contains_key (rt_sources s) k then (Ok (pool_slot (pool s) k), s)
      else connect_source ops k neutral now False s"
  obtain x t where x: "?c = (x, t)" by (cases ?c)
  have m: "moves s t" "keys_of t \<subseteq> insert k (keys_of s)"
    using x connect_source_moves [OF core _ ok, of ops neutral now False x t] moves_refl [OF core]
    by (auto simp: bt_contains_key_iff keys_of_def split: if_splits)
  note ct = moves_core [OF core m(1)] and fr = moves_frame(1) [OF m(1)]
  have u: "rt_core v" "rt_frame s v" "keys_of v \<subseteq> insert k (keys_of s)" if "update_source ops k g now t = (y, v)" for g y v
    using update_source_moves [OF ct that] moves_core [OF ct] rt_frame_trans [OF fr moves_frame(1)] m(2) by auto
  have p: "rt_core (push_feedback e v)" "rt_frame s (push_feedback e v)" "keys_of (push_feedback e v) \<subseteq> insert k (keys_of s)"
    if "update_source ops k g now t = (y, v)" for g y v e
    using u [OF that] push_feedback_core rt_frame_trans [OF _ push_feedback_frame(1)] by auto
  have "rt_core s' \<and> rt_frame s s' \<and> keys_of s' \<subseteq> insert k (keys_of s)"
  proof (cases st)
    case None
    with a x ct fr m(2) show ?thesis by (cases x) (auto simp: accept_state_def)
  next
    case (Some g)
    obtain y v where y: "update_source ops k g now t = (y, v)" by (cases "update_source ops k g now t")
    from a x Some y have "s' = t \<or> s' = v \<or> (\<exists>e. s' = push_feedback e v)"
      by (cases x) (auto simp: accept_state_def Let_def split: if_splits option.splits)
    with ct fr m(2) u [OF y] p [OF y] show ?thesis by blast
  qed
  then show "rt_core s'" "rt_frame s s'" "keys_of s' \<subseteq> insert k (keys_of s)" by blast+
qed

text \<open>What a mirror packet must carry before it changes anything.\<close>

definition admitted ::
  "(string \<Rightarrow> mirror_envelope option) \<Rightarrow> string \<Rightarrow> 'b seat_runtime \<Rightarrow> source_key \<Rightarrow> gamepad_state option \<Rightarrow> bool \<Rightarrow> bool" where
  "admitted from_slice packet s k st disc \<longleftrightarrow>
     \<not> faulted s \<and> \<not> feedback_failed s \<and>
     (\<exists>launch token env n. mirror s = Some (launch, token) \<and> decode_envelope from_slice packet = Some env \<and>
        constant_time_equal (mirror_token env) token \<and> frame_launch_id (frame env) = launch \<and>
        valid_native_text (frame_client_id (frame env)) 256 \<and> frame_event (frame env) = Some (n, st, disc) \<and>
        n \<le> 15 \<and> k = Remote launch (frame_client_id (frame env)) n)"

lemma accept_cases:
  assumes "accept ops from_slice packet now s = (out, s')"
  obtains "s' = s" "out \<in> {BackendFailed, FeedbackFailed, StaleLaunch, MirrorInvalid, Unauthorized}"
  | k st d t where "admitted from_slice packet s k st True" "disconnect_source ops k s = (d, t)"
      "s' = t \<or> s' = t\<lparr>faulted := True\<rparr>"
  | k st d t where "admitted from_slice packet s k st False" "accept_state ops k st now s = (d, t)"
      "s' = t \<or> s' = t\<lparr>faulted := True\<rparr>"
proof (cases "\<exists>k st disc. admitted from_slice packet s k st disc")
  case False
  have "s' = s \<and> out \<in> {BackendFailed, FeedbackFailed, StaleLaunch, MirrorInvalid, Unauthorized}"
    using False assms unfolding accept_def admitted_def
    by (auto split: if_splits option.splits simp: not_less)
  then show thesis using that(1) by blast
next
  case True
  then obtain k st disc where ad: "admitted from_slice packet s k st disc" by blast
  then obtain launch token env n where e: "\<not> faulted s" "\<not> feedback_failed s" "mirror s = Some (launch, token)"
    "decode_envelope from_slice packet = Some env" "constant_time_equal (mirror_token env) token"
    "frame_launch_id (frame env) = launch" "valid_native_text (frame_client_id (frame env)) 256"
    "frame_event (frame env) = Some (n, st, disc)" "n \<le> 15" "k = Remote launch (frame_client_id (frame env)) n"
    by (auto simp: admitted_def)
  obtain d t where d: "disconnect_source ops k s = (d, t)" by (cases "disconnect_source ops k s")
  obtain d' t' where d': "accept_state ops k st now s = (d', t')" by (cases "accept_state ops k st now s")
  show thesis
  proof (cases disc)
    case True
    with e d assms have "s' = t \<or> s' = t\<lparr>faulted := True\<rparr>"
      by (auto simp: accept_def Let_def split: if_splits result.splits option.splits seat_failure.splits)
    with True ad d show thesis by (intro that(2)) simp_all
  next
    case False
    with e d' assms have "s' = t' \<or> s' = t'\<lparr>faulted := True\<rparr>"
      by (auto simp: accept_def Let_def split: if_splits result.splits option.splits seat_failure.splits)
    with False ad d' show thesis by (intro that(3)) simp_all
  qed
qed

lemma accept_inv:
  assumes inv: "rt_inv s" and a: "accept ops from_slice packet now s = (out, s')"
  shows "rt_inv s'"
  using a
proof (rule accept_cases)
  fix k st d t
  assume "disconnect_source ops k s = (d, t)" "s' = t \<or> s' = t\<lparr>faulted := True\<rparr>"
  with disconnect_source_inv [OF inv] show ?thesis by auto
next
  fix k st d t
  assume ad: "admitted from_slice packet s k st False" and acc: "accept_state ops k st now s = (d, t)"
    and s': "s' = t \<or> s' = t\<lparr>faulted := True\<rparr>"
  from ad obtain l c n where k: "k = Remote l c n" "n \<le> 15" "mirror_launch s = Some l"
    by (auto simp: admitted_def mirror_launch_def)
  then have "key_ok k" by (simp add: key_ok_def)
  note core = accept_state_core [OF rt_invD(1) [OF inv] this acc]
  have fr: "mirror_launch t = mirror_launch s" "session (pool t) = session (pool s)" "game_route t = game_route s"
    using core(2) by (simp_all add: rt_frame_def mirror_launch_def)
  have "mirror_launch s = Some l'" if "Remote l' c' n' \<in> keys_of t" for l' c' n'
    using that core(3) k rt_invD(2) [OF inv] by (auto simp: rt_link_def)
  then have "rt_link t" using rt_invD(2) [OF inv] by (simp add: rt_link_def fr)
  with core(1) have "rt_inv t" by (simp add: rt_inv_def)
  with s' show ?thesis by auto
qed (use inv in simp_all)

definition stale_keys :: "nat \<Rightarrow> 'b seat_runtime \<Rightarrow> source_key list" where
  "stale_keys now s =
     List.map_filter (\<lambda>(k, src). if STALE_SOURCE_TIMEOUT_MS \<le> now - last_event_ms src then Some k else None)
       (rt_sources s)"

lemma map_filter_fst: "List.map_filter (\<lambda>(k, v). if P v then Some k else None) m = map fst (filter (\<lambda>(k, v). P v) m)"
  by (induction m) (auto simp: List.map_filter_simps)

lemma stale_keys_filter:
  "stale_keys now s = map fst (filter (\<lambda>(k, src). STALE_SOURCE_TIMEOUT_MS \<le> now - last_event_ms src) (rt_sources s))"
  unfolding stale_keys_def by (rule map_filter_fst)

lemma stale_keys_props:
  assumes "bt_wf (rt_sources s)"
  shows "distinct (stale_keys now s)"
    and "set (stale_keys now s) =
      {k. \<exists>src. bt_get (rt_sources s) k = Some src \<and> STALE_SOURCE_TIMEOUT_MS \<le> now - last_event_ms src}"
proof -
  show "distinct (stale_keys now s)"
    using bt_wf_distinct [OF assms] unfolding stale_keys_filter by (simp add: bt_keys_def distinct_map_filter)
  show "set (stale_keys now s) =
      {k. \<exists>src. bt_get (rt_sources s) k = Some src \<and> STALE_SOURCE_TIMEOUT_MS \<le> now - last_event_ms src}"
    unfolding stale_keys_filter bt_get_iff [OF assms] by force
qed

lemma expire_stale_core:
  assumes inv: "rt_inv s" and e: "expire_stale ops now s = (r, s')"
  shows "rt_inv s'" and "is_ok r \<Longrightarrow> keys_of s' = keys_of s - set (stale_keys now s) \<and> faulted s' = faulted s"
    and "\<not> is_ok r \<Longrightarrow> faulted s'"
proof -
  note core = rt_invD(1) [OF inv]
  obtain x t where x: "expire_loop ops (stale_keys now s) s = (x, t)" by (cases "expire_loop ops (stale_keys now s) s")
  note sk = stale_keys_props [OF rt_coreD(4) [OF core], of now]
  have "set (stale_keys now s) \<subseteq> keys_of s" using sk(2) by (auto simp: keys_of_def)
  note l = expire_loop_core [OF core sk(1) this x]
  have eq: "s' = t" "is_ok r = is_ok x" using e x by (cases x; auto simp: expire_stale_def stale_keys_def Let_def)+
  have "rt_inv (t\<lparr>faulted := faulted s\<rparr>)" by (rule rt_inv_frame [OF inv]) (use l in auto)
  then show "rt_inv s'" by (simp add: eq)
  show "is_ok r \<Longrightarrow> keys_of s' = keys_of s - set (stale_keys now s) \<and> faulted s' = faulted s"
    "\<not> is_ok r \<Longrightarrow> faulted s'" using l by (simp_all add: eq)
qed

subsection \<open>Runs of the runtime\<close>

datatype rt_input =
    RtCoordinate seat_request nat
  | RtBind string string
  | RtUnbind
  | RtCoordinatorLost
  | RtReset string
  | RtAccept string nat
  | RtExpire nat

text \<open>A count is a byte on the wire.\<close>

fun request_in_range :: "seat_request \<Rightarrow> bool" where
  "request_in_range (ApplyCount n) = (n < 256)"
| "request_in_range _ = True"

fun rt_step ::
  "'b seat_backend \<Rightarrow> (string \<Rightarrow> mirror_envelope option) \<Rightarrow> 'b seat_runtime \<Rightarrow> rt_input \<Rightarrow> 'b seat_runtime" where
  "rt_step ops fs s (RtCoordinate req now) = (if request_in_range req then snd (coordinate ops req now s) else s)"
| "rt_step ops fs s (RtBind l t) = snd (bind l t s)"
| "rt_step ops fs s RtUnbind = snd (unbind ops s)"
| "rt_step ops fs s RtCoordinatorLost = snd (coordinator_lost ops s)"
| "rt_step ops fs s (RtReset l) = snd (reset ops l s)"
| "rt_step ops fs s (RtAccept packet now) = snd (accept ops fs packet now s)"
| "rt_step ops fs s (RtExpire now) = snd (expire_stale ops now s)"

lemma rt_step_inv: "rt_inv s \<Longrightarrow> rt_inv (rt_step ops fs s x)"
proof (cases x)
  case (RtCoordinate req now)
  assume inv: "rt_inv s"
  have "rt_inv (snd (coordinate ops req now s))" if "request_in_range req"
    by (rule coordinate_inv [OF inv _ prod.collapse [symmetric]]) (use that in simp)
  with inv RtCoordinate show ?thesis by simp
qed (auto intro: bind_inv [OF _ prod.collapse [symmetric]] unbind_inv [OF _ prod.collapse [symmetric]]
      coordinator_lost_inv [OF _ prod.collapse [symmetric]] reset_inv [OF _ prod.collapse [symmetric]]
      accept_inv [OF _ prod.collapse [symmetric]] expire_stale_core(1) [OF _ prod.collapse [symmetric]])

interpretation seat_runs: machine "rt_step ops fs" "rt_inv :: 'b seat_runtime \<Rightarrow> bool"
  for ops :: "'b seat_backend" and fs
  by unfold_locales (rule rt_step_inv)

end
