(* ===== verification/Seat_Safety.thy ===== *)
theory Seat_Safety
  imports Seat_Runtime
begin

text \<open>
  What the seat runtime promises, over all its runs and for every backend: which seats can
  show anything but neutral, that input held across a route change stays blocked until the
  controller was let go, what a mirror packet has to prove, how a first press claims a seat,
  and what silence and the loss of the coordinator leave behind.
\<close>

unbundle bit_operations_syntax

subsection \<open>Comparing tokens\<close>

lemma word_or_eq_0: "a OR b = 0 \<longleftrightarrow> a = 0 \<and> b = (0 :: 'a::len word)"
  by (metis or.left_neutral or.assoc or.idem or.commute)

lemma word_xor_eq_0: "a XOR b = 0 \<longleftrightarrow> a = (b :: 'a::len word)"
  by (metis xor.assoc xor.left_neutral xor_self_eq xor.commute)

lemma ucast_8_64_eq_0: "(ucast (w :: 8 word) :: 64 word) = 0 \<longleftrightarrow> w = 0"
  by transfer (simp add: take_bit_eq_mod)

lemma fold_or_eq_0: "fold (\<lambda>i d. d OR f i) xs d = (0 :: 'a::len word) \<longleftrightarrow> d = 0 \<and> (\<forall>i \<in> set xs. f i = 0)"
  by (induction xs arbitrary: d) (auto simp: word_or_eq_0)

lemma of_nat_word_inj:
  assumes "a < 2 ^ LENGTH('a)" and "b < 2 ^ LENGTH('a)"
  shows "(of_nat a :: 'a::len word) = of_nat b \<longleftrightarrow> a = b"
proof
  assume "(of_nat a :: 'a word) = of_nat b"
  then have "unat (of_nat a :: 'a word) = unat (of_nat b :: 'a word)" by simp
  with assms show "a = b" by (simp add: unat_of_nat)
qed simp

lemma byte_of_char_inj: "(of_nat (of_char a) :: 8 word) = of_nat (of_char b) \<longleftrightarrow> a = b"
proof -
  have "of_char c < (2 ^ LENGTH(8) :: nat)" for c using nat_of_char_less_256 [of c] by simp
  then show ?thesis by (subst of_nat_word_inj) simp_all
qed

lemma constant_time_equal_iff:
  assumes "length l < 2 ^ 64" and "length r < 2 ^ 64"
  shows "constant_time_equal l r \<longleftrightarrow> l = r"
proof -
  have len: "(of_nat (length l) :: 64 word) = of_nat (length r) \<longleftrightarrow> length l = length r"
    using assms by (intro of_nat_word_inj) simp_all
  have "constant_time_equal l r \<longleftrightarrow>
      length l = length r \<and> (\<forall>i \<in> {0..<max (length l) (length r)}. byte_at l i = byte_at r i)"
    by (simp add: constant_time_equal_def fold_or_eq_0 ucast_8_64_eq_0 word_xor_eq_0 len)
  also have "\<dots> \<longleftrightarrow> length l = length r \<and> (\<forall>i < length l. l ! i = r ! i)"
    by (auto simp: byte_at_def byte_of_char_inj)
  also have "\<dots> \<longleftrightarrow> l = r" by (auto intro: nth_equalityI)
  finally show ?thesis .
qed

text \<open>
  The constant-time comparison is equality: the loop over all positions of the longer text,
  with absent bytes read as zero and differences collected by bitwise or, accepts two texts of
  addressable length exactly when they are the same.
\<close>

theorem token_comparison_exact:
  assumes "length l < 2 ^ 64" and "length r < 2 ^ 64"
  shows "constant_time_equal l r = (l = r)"
  by (rule constant_time_equal_iff [OF assms])

text \<open>An instance: a text and its extension by a zero byte, which reads as an absent byte, differ.\<close>

theorem token_comparison_exact_witness: "\<not> constant_time_equal ''ab'' (''ab'' @ [CHR 0x00])"
  using token_comparison_exact [of "''ab''" "''ab'' @ [CHR 0x00]"] by simp

lemma i16_min_iff: "v = 0x8000 \<longleftrightarrow> sint (v :: 16 word) = - 32768"
proof
  assume "sint v = - 32768"
  then have "word_of_int (sint v) = (word_of_int (- 32768) :: 16 word)" by simp
  then show "v = 0x8000" by simp
qed simp

lemma i16_neg:
  fixes v :: "16 word"
  assumes "sint v \<noteq> - 32768"
  shows "sint (- v) = - sint v"
proof -
  have lo: "- 32768 \<le> sint v" and hi: "sint v \<le> 32767"
    using sint_greater_eq [of v] sint_less [of v] by simp_all
  have "sint (- v) = signed_take_bit 15 (- sint v)"
    by (simp add: sint_word_ariths)
  also have "\<dots> = - sint v"
    using lo hi assms by (intro signed_take_bit_int_eq_self) simp_all
  finally show ?thesis .
qed

text \<open>
  The sign change of a Sunshine stick axis never overflows: every value becomes its exact
  negation, except the most negative one, which saturates at the most positive; the result is
  never the most negative value, so applying the change twice gives every other value back.
\<close>

theorem axis_inversion_saturates:
  "sint (invert_sunshine_axis v) = (if sint v = - 32768 then 32767 else - sint v) \<and>
   invert_sunshine_axis (invert_sunshine_axis v) = (if v = 0x8000 then 0x8001 else v)"
proof -
  have "- v \<noteq> 0x8000" if "sint v \<noteq> - 32768"
    using i16_neg [OF that] sint_less [of v] by (simp add: i16_min_iff)
  then show ?thesis
    using i16_neg [of v] by (auto simp: invert_sunshine_axis_def i16_min_iff)
qed

subsection \<open>Routing\<close>

text \<open>
  C7. What a seat can show, in every state that a run of the runtime reaches and for every
  backend: while the route is closed no seat is known to show anything but neutral, the route
  is only open inside a session, a bound seat is connected exactly when its source is present,
  and the seat of a source that still has to become neutral is not known to show anything else.
\<close>

theorem seats_follow_route:
  assumes "boot ops b = Ok s0" and s: "s = foldl (rt_step ops fs) s0 xs" and i: "i < length (seats (pool s))"
  shows "(\<not> game_route s \<longrightarrow> known_state (seats (pool s) ! i) \<in> {None, Some neutral}) \<and>
    (game_route s \<longrightarrow> session (pool s) \<noteq> None) \<and>
    (\<forall>k. bound_to k (seats (pool s) ! i) \<longrightarrow>
      (seat_connected (seats (pool s) ! i) \<longleftrightarrow> bt_get (rt_sources s) k \<noteq> None) \<and>
      (\<forall>src. bt_get (rt_sources s) k = Some src \<longrightarrow> requires_neutral src \<longrightarrow>
        known_state (seats (pool s) ! i) \<in> {None, Some neutral}))"
proof -
  have inv: "rt_inv s" unfolding s by (rule seat_runs.inv_run) (rule boot_inv [OF assms(1)])
  then have ok: "seat_ok (game_route s) (rt_sources s) (seats (pool s) ! i)"
    and link: "rt_link s"
    using i rt_coreD(1) [OF rt_invD(1) [OF inv]] by (simp_all add: routed_def rt_inv_def)
  from ok have q: "\<not> game_route s \<Longrightarrow> quiet (seats (pool s) ! i)"
    "bound_to k (seats (pool s) ! i) \<Longrightarrow> bt_get (rt_sources s) k = Some src \<Longrightarrow> requires_neutral src \<Longrightarrow>
      quiet (seats (pool s) ! i)" for k src
    by (auto simp: seat_ok_def bound_to_iff)
  from link have "game_route s \<longrightarrow> session (pool s) \<noteq> None" by (simp add: rt_link_def)
  with q seat_ok_bound [OF ok] show ?thesis unfolding quiet_def by blast
qed

text \<open>An example run: a session with open route, one held controller and its seat.\<close>

definition example_runtime :: "(nat \<times> gamepad_state) list seat_runtime" where
  "example_runtime = ok_value (boot example_backend [])"

definition example_setup :: "rt_input list" where
  "example_setup = [RtCoordinate (ApplyCount 2) 0, RtCoordinate (BeginSession example_sid Attached) 1,
     RtCoordinate (PhysicalConnected ''pad'' ''Pad'' neutral) 2]"

definition example_held :: gamepad_state where
  "example_held = neutral\<lparr>buttons := 0x1000\<rparr>"

definition example_play :: "(nat \<times> gamepad_state) list seat_runtime" where
  "example_play = foldl (rt_step example_backend (\<lambda>_. None)) example_runtime example_setup"

lemma example_runtime_boot: "boot example_backend [] = Ok example_runtime"
  by code_simp

lemma example_play_inv: "rt_inv example_play"
  unfolding example_play_def
  by (rule seat_runs.inv_run) (rule boot_inv [OF example_runtime_boot])

text \<open>Witness of C7: the route of the example is closed, so its seat shows nothing.\<close>

theorem seats_follow_route_witness:
  "known_state (seats (pool example_play) ! 0) \<in> {None, Some neutral}"
proof -
  have "0 < length (seats (pool example_play)) \<and> \<not> game_route example_play" by code_simp
  then show ?thesis
    using seats_follow_route [OF example_runtime_boot example_play_def, of 0] by blast
qed

subsection \<open>Held input across a route change\<close>

definition guarded :: "source_key \<Rightarrow> 'b seat_runtime \<Rightarrow> bool" where
  "guarded k s \<longleftrightarrow> (\<forall>src. bt_get (rt_sources s) k = Some src \<longrightarrow> requires_neutral src)"

definition tightens :: "'b seat_runtime \<Rightarrow> 'b seat_runtime \<Rightarrow> bool" where
  "tightens s s' \<longleftrightarrow> (\<forall>k. guarded k s \<longrightarrow> guarded k s')"

lemma tightens_refl [simp]: "tightens s s"
  by (simp add: tightens_def)

lemma tightens_trans [trans]: "tightens s t \<Longrightarrow> tightens t u \<Longrightarrow> tightens s u"
  by (simp add: tightens_def)

lemma tightens_sources:
  "(\<And>k src'. bt_get (rt_sources s') k = Some src' \<Longrightarrow> requires_neutral src' \<or>
     (\<exists>src. bt_get (rt_sources s) k = Some src \<and> \<not> requires_neutral src)) \<Longrightarrow> tightens s s'"
  unfolding tightens_def guarded_def by blast

lemma tightens_same: "rt_sources s' = rt_sources s \<Longrightarrow> tightens s s'"
  by (simp add: tightens_def guarded_def)

lemma tightens_upd [simp]:
  "tightens s (t\<lparr>faulted := f\<rparr>) = tightens s t" "tightens s (t\<lparr>recovery_required := f\<rparr>) = tightens s t"
  "tightens s (t\<lparr>feedback := fb\<rparr>) = tightens s t" "tightens s (t\<lparr>feedback_failed := f\<rparr>) = tightens s t"
  "tightens s (t\<lparr>pool := p\<rparr>) = tightens s t" "tightens s (t\<lparr>rt_seat_order := od\<rparr>) = tightens s t"
  "tightens s (t\<lparr>game_route := g\<rparr>) = tightens s t" "tightens s (t\<lparr>mirror := m\<rparr>) = tightens s t"
  "tightens (s\<lparr>mirror := m\<rparr>) t = tightens s t" "tightens (s\<lparr>pool := p\<rparr>) t = tightens s t"
  "tightens (s\<lparr>recovery_required := f\<rparr>) t = tightens s t" "tightens (s\<lparr>game_route := g\<rparr>) t = tightens s t"
  "tightens (s\<lparr>rt_seat_order := od\<rparr>) t = tightens s t" "tightens s (push_feedback e t) = tightens s t"
  by (simp_all add: tightens_def guarded_def)

lemma tightens_insert:
  "requires_neutral v \<Longrightarrow> tightens s (s\<lparr>pool := p, rt_sources := bt_insert k v (rt_sources s)\<rparr>)"
  by (rule tightens_sources) (auto split: if_splits)

lemma tightens_mark: "tightens s (s\<lparr>pool := p, rt_sources := set_requires_neutral True k (rt_sources s)\<rparr>)"
  by (rule tightens_sources) (auto simp: set_requires_neutral_def split: option.splits if_splits)

lemma connect_source_tightens: "connect_source ops k g now has s = (r, s') \<Longrightarrow> tightens s s'"
  by (auto simp: connect_source_def tightens_insert split: prod.splits result.splits)

lemma rebalance_loop_tightens: "rebalance_loop ops ks s = (r, s') \<Longrightarrow> tightens s s'"
proof (induction ks arbitrary: s)
  case (Cons k ks)
  obtain x p where x: "pool_connect ops k (pool s) = (x, p)" by (cases "pool_connect ops k (pool s)")
  show ?case
  proof (cases "pool_slot (pool s) k \<noteq> None")
    case True
    with Cons show ?thesis by simp
  next
    case False
    show ?thesis
    proof (cases x)
      case (Ok n)
      let ?t = "s\<lparr>pool := p, rt_sources := set_requires_neutral True k (rt_sources s)\<rparr>"
      have "rebalance_loop ops ks ?t = (r, s')" using Cons.prems False x Ok by simp
      with Cons.IH tightens_mark show ?thesis by (blast intro: tightens_trans)
    next
      case (Err e)
      with Cons.prems False x Cons.IH [of "s\<lparr>pool := p\<rparr>"] show ?thesis by (auto split: if_splits)
    qed
  qed
qed simp

lemma rebalance_tightens: "rebalance ops s = (r, s') \<Longrightarrow> tightens s s'"
  by (auto simp: rebalance_def rebalance_loop_tightens split: if_splits)

lemma tightens_remove: "tightens s (s\<lparr>pool := p, rt_sources := bt_remove k (rt_sources s)\<rparr>)"
  by (rule tightens_sources) (auto split: if_splits)

lemma disconnect_source_tightens:
  assumes "disconnect_source ops k s = (r, s')"
  shows "tightens s s'"
proof (cases "bt_get (rt_sources s) k")
  case None
  with assms show ?thesis by (simp add: disconnect_source_def)
next
  case (Some src)
  obtain x p where x: "pool_disconnect ops k (pool s) = (x, p)" by (cases "pool_disconnect ops k (pool s)")
  let ?s1 = "s\<lparr>pool := p, rt_sources := bt_remove k (rt_sources s)\<rparr>"
  define s2 where "s2 = (if has_state src then
      (case k of Remote l c n \<Rightarrow> push_feedback (RemoteDisconnected c l n) ?s1 | _ \<Rightarrow> ?s1) else ?s1)"
  have "tightens s s2" by (auto simp: s2_def tightens_remove split: source_key.split)
  moreover have "s' = s2 \<or> s' = snd (rebalance ops s2)"
    using assms Some x by (cases x) (auto simp: disconnect_source_def Let_def s2_def split: if_splits)
  ultimately show ?thesis
    using rebalance_tightens [OF prod.collapse [symmetric], of s2 ops] by (blast intro: tightens_trans)
qed

lemma disconnect_all_tightens: "disconnect_all ops ks s = (f, s') \<Longrightarrow> tightens s s'"
proof (induction ks arbitrary: s f)
  case (Cons k ks)
  obtain x t where x: "disconnect_source ops k s = (x, t)" by (cases "disconnect_source ops k s")
  with Cons.prems have "snd (disconnect_all ops ks t) = s'" by (auto split: prod.splits)
  then obtain g where "disconnect_all ops ks t = (g, s')" by (cases "disconnect_all ops ks t") auto
  with Cons.IH disconnect_source_tightens [OF x] show ?case by (blast intro: tightens_trans)
qed simp

lemma expire_loop_tightens: "expire_loop ops ks s = (r, s') \<Longrightarrow> tightens s s'"
proof (induction ks arbitrary: s)
  case (Cons k ks)
  obtain x t where x: "disconnect_source ops k s = (x, t)" by (cases "disconnect_source ops k s")
  note t = disconnect_source_tightens [OF x]
  show ?case
  proof (cases x)
    case (Ok u)
    with Cons.prems x have "expire_loop ops ks t = (r, s')" by simp
    with Cons.IH t show ?thesis by (blast intro: tightens_trans)
  next
    case (Err e)
    with Cons.prems x t show ?thesis by auto
  qed
qed simp

lemma reset_loop_tightens: "reset_loop ops ks s = (f, s') \<Longrightarrow> tightens s s'"
proof (induction ks arbitrary: s f)
  case (Cons k ks)
  let ?s1 = "s\<lparr>rt_sources := set_requires_neutral True k (rt_sources s)\<rparr>"
  have t1: "tightens s ?s1"
    by (rule tightens_sources) (auto simp: set_requires_neutral_def split: option.splits if_splits)
  obtain bad s2 where s2: "(if pool_slot (pool ?s1) k \<noteq> None
      then (let (r, p) = pool_write_state ops k neutral (pool ?s1) in (\<not> is_ok r, ?s1\<lparr>pool := p\<rparr>))
      else (False, ?s1)) = (bad, s2)" by fastforce
  then have "rt_sources s2 = rt_sources ?s1" by (auto split: if_splits prod.splits)
  then have t2: "tightens ?s1 s2" by (rule tightens_same)
  from Cons.prems s2 have "snd (reset_loop ops ks s2) = s'" by (simp add: Let_def split: prod.splits)
  then obtain g where "reset_loop ops ks s2 = (g, s')" by (cases "reset_loop ops ks s2") auto
  with Cons.IH t1 t2 show ?case by (blast intro: tightens_trans)
qed simp

lemma set_route_guards:
  assumes "set_route ops g s = (r, s')"
  shows "guarded k s'"
proof -
  have "rt_sources s' = bt_map_values (\<lambda>src. src\<lparr>requires_neutral := True\<rparr>) (rt_sources s)"
    using assms by (auto simp: set_route_def Let_def split: prod.splits result.splits)
  then show ?thesis by (auto simp: guarded_def)
qed

lemma set_route_tightens: "set_route ops g s = (r, s') \<Longrightarrow> tightens s s'"
  by (simp add: tightens_def set_route_guards)

lemma deliver_sources: "deliver ops k g s = (r, s') \<Longrightarrow> rt_sources s' = rt_sources s"
  by (auto simp: deliver_def Let_def split: prod.splits result.splits option.splits if_splits)

text \<open>The only way out of the guard: a report of the neutral state.\<close>

lemma update_source_guard:
  assumes u: "update_source ops k' g now s = (r, s')" and g: "guarded k s"
    and ne: "k' \<noteq> k \<or> \<not> is_neutral_for_rearm g"
  shows "guarded k s'"
proof (cases "bt_get (rt_sources s) k'")
  case None
  with u g show ?thesis by (simp add: update_source_def)
next
  case (Some src0)
  show ?thesis
  proof (cases "if is_remote k' then count_event now src0 else Some src0")
    case None
    with Some u g show ?thesis by (simp add: update_source_def)
  next
    case so: (Some src1)
    have rn: "requires_neutral src1 = requires_neutral src0"
      using so count_event_props(1) [of now src0 src1] by (auto split: if_splits)
    let ?src = "src1\<lparr>last_event_ms := now, src_state := g, has_state := True\<rparr>"
    let ?s1 = "s\<lparr>rt_sources := bt_insert k' ?src (rt_sources s)\<rparr>"
    have g1: "guarded k ?s1" using g Some rn by (auto simp: guarded_def)
    have g2: "k' \<noteq> k \<Longrightarrow> guarded k (s\<lparr>rt_sources := bt_insert k' v (rt_sources s)\<rparr>)" for v
      using g by (auto simp: guarded_def)
    have "s' = ?s1 \<or> (is_neutral_for_rearm g \<and> (\<exists>v. s' = s\<lparr>rt_sources := bt_insert k' v (rt_sources s)\<rparr>)) \<or>
        rt_sources s' = rt_sources ?s1"
      using u Some so deliver_sources [of ops k' g ?s1 r s']
      by (auto simp: update_source_def Let_def split: if_splits)
    with g1 g2 ne show ?thesis by (auto simp: guarded_def)
  qed
qed

text \<open>The inputs that report source \<open>k\<close> as neutral.\<close>

definition reports_neutral :: "(string \<Rightarrow> mirror_envelope option) \<Rightarrow> source_key \<Rightarrow> rt_input \<Rightarrow> bool" where
  "reports_neutral fs k x =
     (case x of
        RtCoordinate (PhysicalConnected dev name g) now \<Rightarrow> k = Physical dev \<and> is_neutral_for_rearm g
      | RtCoordinate (PhysicalState dev g) now \<Rightarrow> k = Physical dev \<and> is_neutral_for_rearm g
      | RtAccept packet now \<Rightarrow>
          (case decode_envelope fs packet of
             None \<Rightarrow> False
           | Some env \<Rightarrow>
               (case frame_event (frame env) of
                  Some (n, Some g, disc) \<Rightarrow>
                    k = Remote (frame_launch_id (frame env)) (frame_client_id (frame env)) n \<and> is_neutral_for_rearm g
                | _ \<Rightarrow> False))
      | _ \<Rightarrow> False)"

lemma tightensD: "tightens s s' \<Longrightarrow> guarded k s \<Longrightarrow> guarded k s'"
  by (simp add: tightens_def)

lemma unbind_tightens: "unbind ops s = (r, s') \<Longrightarrow> tightens s s'"
  using disconnect_all_tightens [of ops "filter is_remote (bt_keys (rt_sources s))" "s\<lparr>mirror := None\<rparr>"]
  by (auto simp: unbind_def split: prod.splits if_splits)

lemma coordinator_lost_tightens: "coordinator_lost ops s = (r, s') \<Longrightarrow> tightens s s'"
  using disconnect_all_tightens [of ops "bt_keys (rt_sources s)"
      "s\<lparr>recovery_required := True, game_route := False, mirror := None\<rparr>"]
  by (auto simp: coordinator_lost_def Let_def split: prod.splits if_splits)

lemma apply_count_tightens:
  assumes "apply_count ops n s = (r, s')"
  shows "tightens s s'"
  using assms rebalance_tightens
  by (fastforce simp: apply_count_def split: prod.splits result.splits if_splits)

lemma apply_begin_tightens: "apply_begin ops l od s = (r, s') \<Longrightarrow> tightens s s'"
  by (auto simp: apply_begin_def Let_def split: prod.splits result.splits if_splits)

lemma apply_reserve_tightens: "apply_reserve ops l key s = (r, s') \<Longrightarrow> tightens s s'"
  by (auto simp: apply_reserve_def split: prod.splits result.splits if_splits)

lemma apply_route_tightens: "apply_route ops l s = (r, s') \<Longrightarrow> tightens s s'"
  by (auto simp: apply_route_def split: prod.splits result.splits if_splits dest: set_route_tightens)

lemma apply_end_session_tightens:
  assumes "apply_end_session ops l s = (r, s')"
  shows "tightens s s'"
proof (cases "session (pool s) = Some l")
  case True
  obtain x1 s1 where x1: "unbind ops s = (x1, s1)" by (cases "unbind ops s")
  obtain x2 s2 where x2: "set_route ops False s1 = (x2, s2)" by (cases "set_route ops False s1")
  obtain x3 p where x3: "end_session ops l (pool s2) = (x3, p)" by (cases "end_session ops l (pool s2)")
  obtain x4 s4 where x4: "rebalance ops (s2\<lparr>pool := p, rt_seat_order := Attached\<rparr>) = (x4, s4)"
    by (cases "rebalance ops (s2\<lparr>pool := p, rt_seat_order := Attached\<rparr>)")
  have t: "tightens s s1" "tightens s s2" "tightens s s4"
    using unbind_tightens [OF x1] set_route_guards [OF x2] rebalance_tightens [OF x4] by (auto simp: tightens_def guarded_def)
  from assms True x1 x2 x3 x4 have "s' = s1 \<or> s' = s2 \<or> s' = s2\<lparr>pool := p\<rparr> \<or> s' = s4"
    by (cases x1; cases x2; cases x3; cases x4) (auto simp: apply_end_session_def)
  with t show ?thesis by auto
qed (use assms in \<open>simp add: apply_end_session_def\<close>)

lemma apply_physical_disconnected_tightens: "apply_physical_disconnected ops dev s = (r, s') \<Longrightarrow> tightens s s'"
  by (auto simp: apply_physical_disconnected_def split: prod.splits result.splits dest: disconnect_source_tightens)

lemma apply_physical_connected_guard:
  assumes a: "apply_physical_connected ops dev name g now s = (r, s')" and k: "guarded k s"
    and ne: "k \<noteq> Physical dev \<or> \<not> is_neutral_for_rearm g"
  shows "guarded k s'"
proof -
  obtain x t where x: "connect_source ops (Physical dev) g now True s = (x, t)"
    by (cases "connect_source ops (Physical dev) g now True s")
  have t: "guarded k t" using connect_source_tightens [OF x] k by (rule tightensD)
  have "guarded k (t\<lparr>rt_sources := set_requires_neutral (\<not> is_neutral_for_rearm g) (Physical dev) (rt_sources t)\<rparr>)"
    using t ne by (auto simp: guarded_def set_requires_neutral_def split: option.splits if_splits)
  with a x t k show ?thesis
    by (cases x) (auto simp: apply_physical_connected_def Let_def split: result.splits if_splits)
qed

lemma apply_request_guard:
  assumes a: "apply_request ops req now s = (r, s')" and k: "guarded k s"
    and ne: "\<not> reports_neutral fs k (RtCoordinate req now)"
  shows "guarded k s'"
proof (cases "faulted s")
  case True
  with a k show ?thesis by (simp add: apply_request_def)
next
  case nf: False
  show ?thesis
  proof (cases req)
    case (PhysicalConnected dev name g)
    with a nf k ne show ?thesis
      by (auto simp: apply_request_def reports_neutral_def intro: apply_physical_connected_guard)
  next
    case (PhysicalState dev g)
    with a nf k ne show ?thesis
      by (auto simp: apply_request_def apply_physical_state_def reports_neutral_def
          split: result.splits if_splits intro: update_source_guard)
  qed (use a nf k in \<open>auto simp: apply_request_def intro: tightensD [OF apply_count_tightens]
        tightensD [OF apply_begin_tightens] tightensD [OF apply_reserve_tightens] tightensD [OF apply_route_tightens]
        tightensD [OF apply_end_session_tightens] tightensD [OF apply_physical_disconnected_tightens]\<close>)
qed

lemma coordinate_sources:
  assumes "coordinate ops req now s = (reply, s')"
  shows "rt_sources s' = rt_sources (snd (apply_request ops req now s))"
    and "pool s' = pool (snd (apply_request ops req now s))"
    and "failure reply = None \<Longrightarrow> is_ok (fst (apply_request ops req now s))"
  using assms by (auto simp: coordinate_def Let_def split: prod.splits result.splits if_splits)

lemma accept_state_guard:
  assumes a: "accept_state ops k' st now s = (r, s')" and k: "guarded k s"
    and ne: "k' \<noteq> k \<or> (\<forall>g. st = Some g \<longrightarrow> \<not> is_neutral_for_rearm g)"
  shows "guarded k s'"
proof -
  let ?c = "if bt_contains_key (rt_sources s) k' then (Ok (pool_slot (pool s) k'), s)
      else connect_source ops k' neutral now False s"
  obtain x t where x: "?c = (x, t)" by (cases ?c)
  have t: "guarded k t" using x k connect_source_tightens [of ops k' neutral now False s x t] tightensD
    by (auto split: if_splits)
  show ?thesis
  proof (cases st)
    case None
    with a x t show ?thesis by (cases x) (auto simp: accept_state_def)
  next
    case (Some g)
    obtain y v where y: "update_source ops k' g now t = (y, v)" by (cases "update_source ops k' g now t")
    from a x Some y have "s' = t \<or> s' = v \<or> (\<exists>e. s' = push_feedback e v)"
      by (cases x) (auto simp: accept_state_def Let_def split: if_splits option.splits)
    moreover have "guarded k v" using update_source_guard [OF y t] ne Some by auto
    ultimately show ?thesis using t by (auto simp: guarded_def)
  qed
qed

lemma accept_guard:
  assumes a: "accept ops fs packet now s = (out, s')" and k: "guarded k s"
    and ne: "\<not> reports_neutral fs k (RtAccept packet now)"
  shows "guarded k s'"
  using a
proof (rule accept_cases)
  fix k' st d t
  assume d: "disconnect_source ops k' s = (d, t)" and s': "s' = t \<or> s' = t\<lparr>faulted := True\<rparr>"
  have "guarded k t" by (rule tightensD [OF disconnect_source_tightens [OF d] k])
  with s' show ?thesis by (auto simp: guarded_def)
next
  fix k' st d t
  assume ad: "admitted fs packet s k' st False" and "accept_state ops k' st now s = (d, t)"
    and s': "s' = t \<or> s' = t\<lparr>faulted := True\<rparr>"
  moreover have "k' \<noteq> k \<or> (\<forall>g. st = Some g \<longrightarrow> \<not> is_neutral_for_rearm g)"
    using ad ne by (auto simp: admitted_def reports_neutral_def split: option.splits)
  ultimately have "guarded k t" using accept_state_guard k by blast
  with s' show ?thesis by (auto simp: guarded_def)
qed (use k in simp_all)

lemma rt_step_guard:
  assumes k: "guarded k s" and ne: "\<not> reports_neutral fs k x"
  shows "guarded k (rt_step ops fs s x)"
proof (cases x)
  case (RtCoordinate req now)
  obtain r s' where c: "coordinate ops req now s = (r, s')" by (cases "coordinate ops req now s")
  have "guarded k (snd (apply_request ops req now s))"
    using apply_request_guard [OF prod.collapse [symmetric] k] ne RtCoordinate by blast
  then have "guarded k s'" by (simp add: guarded_def coordinate_sources(1) [OF c])
  with RtCoordinate k c show ?thesis by simp
next
  case (RtBind l tok)
  have "rt_sources (snd (bind l tok s)) = rt_sources s" by (auto simp: bind_def split: result.splits)
  with k RtBind show ?thesis by (simp add: guarded_def)
next
  case RtUnbind
  with k tightensD [OF unbind_tightens [OF prod.collapse [symmetric]]] show ?thesis by simp
next
  case RtCoordinatorLost
  with k tightensD [OF coordinator_lost_tightens [OF prod.collapse [symmetric]]] show ?thesis by simp
next
  case (RtReset l)
  have "tightens s (snd (reset ops l s))"
    using reset_loop_tightens [of ops "filter is_remote (bt_keys (rt_sources s))" s]
    by (auto simp: reset_def split: prod.splits)
  with k RtReset tightensD show ?thesis by auto
next
  case (RtAccept packet now)
  with k ne accept_guard [OF prod.collapse [symmetric]] show ?thesis by auto
next
  case (RtExpire now)
  have "tightens s (snd (expire_stale ops now s))"
    using expire_loop_tightens [OF prod.collapse [symmetric], of s ops "stale_keys now s"]
    by (auto simp: expire_stale_def stale_keys_def Let_def split: prod.splits result.splits)
  with k RtExpire tightensD show ?thesis by auto
qed

lemma run_guard:
  "guarded k s \<Longrightarrow> \<forall>x \<in> set xs. \<not> reports_neutral fs k x \<Longrightarrow> guarded k (foldl (rt_step ops fs) s xs)"
  by (induction xs arbitrary: s) (auto intro: rt_step_guard)

text \<open>
  C6. Held input never crosses a route change. After a successful route request, whatever
  happens next, the seat of a source is not known to show anything but neutral as long as no
  report has shown that source neutral: not while its buttons stay held, not when it changes
  what it holds, not when it reconnects, is bound to another seat or the route changes again.
\<close>

theorem held_input_waits_for_release:
  assumes s: "rt_inv s" and route: "coordinate ops (Route launch) now s = (reply, s1)" "failure reply = None"
    and held: "\<forall>x \<in> set xs. \<not> reports_neutral fs k x"
    and s': "s' = foldl (rt_step ops fs) s1 xs" and i: "pool_index (pool s') k = Some i"
  shows "known_state (seats (pool s') ! i) \<in> {None, Some neutral}"
proof -
  have s1: "s1 = rt_step ops fs s (RtCoordinate (Route launch) now)" using route(1) by simp
  have inv1: "rt_inv s1" unfolding s1 by (rule rt_step_inv [OF s])
  have inv: "rt_inv s'" unfolding s' by (rule seat_runs.inv_run [OF inv1])
  have "guarded k (snd (apply_request ops (Route launch) now s))"
    using coordinate_sources(3) [OF route] set_route_guards
    by (auto simp: apply_request_def apply_route_def split: prod.splits result.splits if_splits)
  then have "guarded k s1" using coordinate_sources(1) [OF route(1)] by (simp add: guarded_def)
  then have g: "guarded k s'" unfolding s' using held by (rule run_guard)
  have len: "i < length (seats (pool s'))" and b: "bound_to k (seats (pool s') ! i)"
    using pool_index_SomeD [OF i] by simp_all
  have ok: "seat_ok (game_route s') (rt_sources s') (seats (pool s') ! i)"
    by (rule routedD(3) [OF rt_coreD(1) [OF rt_invD(1) [OF inv]] len])
  have "quiet (seats (pool s') ! i)"
  proof (cases "bt_get (rt_sources s') k")
    case None
    with seat_ok_bound [OF ok b] pool_invD(4) [OF rt_coreD(5) [OF rt_invD(1) [OF inv]] len] show ?thesis by simp
  next
    case (Some src)
    with g ok b show ?thesis by (auto simp: guarded_def seat_ok_def bound_to_iff)
  qed
  then show ?thesis by (simp add: quiet_def)
qed

text \<open>Witness of C6: the route opens while South is held, and the held states do not reach the seat.\<close>

definition example_hold_inputs :: "rt_input list" where
  "example_hold_inputs = [RtCoordinate (PhysicalState ''pad'' example_held) 4,
     RtCoordinate (PhysicalState ''pad'' (example_held\<lparr>left_trigger := 9\<rparr>)) 5]"

theorem held_input_waits_for_release_witness:
  "known_state (seats (pool (foldl (rt_step example_backend (\<lambda>_. None))
     (snd (coordinate example_backend (Route (Some example_sid)) 3 example_play)) example_hold_inputs)) ! 0)
   \<in> {None, Some neutral}"
proof -
  have ok: "failure (fst (coordinate example_backend (Route (Some example_sid)) 3 example_play)) = None"
    by code_simp
  have held: "\<forall>x \<in> set example_hold_inputs. \<not> reports_neutral (\<lambda>_. None) (Physical ''pad'') x" by code_simp
  have "pool_index (pool (foldl (rt_step example_backend (\<lambda>_. None))
     (snd (coordinate example_backend (Route (Some example_sid)) 3 example_play)) example_hold_inputs)) (Physical ''pad'') = Some 0"
    by code_simp
  from held_input_waits_for_release [OF example_play_inv prod.collapse [symmetric] ok held refl this] show ?thesis .
qed

end
