(* ===== verification/Host_Files.thy ===== *)
theory Host_Files
  imports Rust_Text
begin

text \<open>
  The file system of the host, as the services call it: paths, the error of an operation and the
  operations themselves. The file system is outside the sources, so it is the parameter
  \<open>host_files\<close> of the definitions that use it, over an unspecified world \<open>'w\<close>. Reading does not
  change the world; writing and remounting do, also when they fail.

  A path is a string with \<open>Path::join\<close> as written; \<open>path_components\<close> gives the view in which
  \<open>Path\<close> compares and tests prefixes.
\<close>

datatype io_error = NotFound string | OtherIo string

primrec io_text :: "io_error \<Rightarrow> string" where
  "io_text (NotFound m) = m"
| "io_text (OtherIo m) = m"

record 'w host_files =
  fs_read :: "string \<Rightarrow> 'w \<Rightarrow> (string, io_error) result"
  fs_write :: "string \<Rightarrow> string \<Rightarrow> 'w \<Rightarrow> (unit, io_error) result \<times> 'w"
  fs_entries :: "string \<Rightarrow> 'w \<Rightarrow> ((string option, string) result list, io_error) result"
  fs_canonicalize :: "string \<Rightarrow> 'w \<Rightarrow> (string, io_error) result"
  fs_exists :: "string \<Rightarrow> 'w \<Rightarrow> (bool, io_error) result"
  fs_remount :: "'w \<Rightarrow> 'w"

subsection \<open>Paths\<close>

definition is_absolute :: "string \<Rightarrow> bool" where
  "is_absolute p \<longleftrightarrow> take 1 p = ''/''"

definition path_join :: "string \<Rightarrow> string \<Rightarrow> string" where
  "path_join p q =
     (if is_absolute q then q
      else if p = [] \<or> last p = CHR ''/'' then p @ q
      else p @ ''/'' @ q)"

fun split_slash :: "string \<Rightarrow> string \<Rightarrow> string list" where
  "split_slash acc [] = [rev acc]"
| "split_slash acc (c # cs) =
     (if c = CHR ''/'' then rev acc # split_slash [] cs else split_slash (c # acc) cs)"

text \<open>
  \<open>Path::components\<close>: the root, then the names; empty names and every \<open>.\<close> but a leading one of a
  relative path are dropped.
\<close>

definition path_components :: "string \<Rightarrow> bool \<times> string list" where
  "path_components p =
     (let names = split_slash [] p;
          keep = (\<lambda>n. n \<noteq> [] \<and> n \<noteq> ''.'')
      in (is_absolute p, (if hd names = ''.'' then [''.''] else []) @ filter keep names))"

definition path_eq :: "string \<Rightarrow> string \<Rightarrow> bool" where
  "path_eq p q \<longleftrightarrow> path_components p = path_components q"

definition path_starts_with :: "string \<Rightarrow> string \<Rightarrow> bool" where
  "path_starts_with base p \<longleftrightarrow>
     fst (path_components base) = fst (path_components p) \<and>
     take (length (snd (path_components base))) (snd (path_components p)) = snd (path_components base)"

subsection \<open>Fallible steps on the world\<close>

text \<open>The \<open>?\<close> operator between two steps that may change the world.\<close>

definition and_then ::
  "('a, 'e) result \<times> 'w \<Rightarrow> ('a \<Rightarrow> 'w \<Rightarrow> ('b, 'e) result \<times> 'w) \<Rightarrow> ('b, 'e) result \<times> 'w" where
  "and_then x f = (case x of (Ok a, w) \<Rightarrow> f a w | (Err e, w) \<Rightarrow> (Err e, w))"

lemma and_then_simps [simp]:
  "and_then (Ok a, w) f = f a w"
  "and_then (Err e, w) f = (Err e, w)"
  by (simp_all add: and_then_def)

lemma and_then_OkD:
  "and_then x f = (Ok b, w') \<Longrightarrow> \<exists>a w. x = (Ok a, w) \<and> f a w = (Ok b, w')"
  by (auto simp: and_then_def split: prod.splits result.splits)

text \<open>A predicate on the world that both steps keep is kept by their sequence.\<close>

lemma and_then_keeps:
  "P (snd x) \<Longrightarrow> (\<And>a w. P w \<Longrightarrow> P (snd (f a w))) \<Longrightarrow> P (snd (and_then x f))"
  by (auto simp: and_then_def split: prod.splits result.splits)

end
