(* ===== verification/Seat_Receiver.thy ===== *)
theory Seat_Receiver
  imports Seat_Safety Host_Files
begin

text \<open>
  The process that owns the seats, \<open>services/inputd/src/input_seat_receiver.rs\<close>: its packet
  formats, its command line, the private files it publishes, and the event loop that multiplexes
  the coordinator, the mirror lease, mirror frames and new control clients over one
  \<open>seat_runtime\<close>.

  The operating system is the parameter \<open>rx_os\<close>, over descriptors \<open>'fd\<close> and a world \<open>'w\<close>: every
  call of the source that reaches the kernel is one of its operations, together with the wait
  before it. \<open>rx_turn\<close> is one iteration of the loop, built from one definition per part of the
  source's loop body; \<open>rx_loop\<close> iterates it until the process is asked to stop or a turn fails.
\<close>

definition CONTROL_VERSION :: nat where "CONTROL_VERSION = 1"
definition CONTROL_START :: nat where "CONTROL_START = 1"
definition CONTROL_STOP :: nat where "CONTROL_STOP = 2"
definition CONTROL_RESET :: nat where "CONTROL_RESET = 3"
definition CONTROL_BYTES :: nat where "CONTROL_BYTES = 34"
definition REASON_NONE :: nat where "REASON_NONE = 0"
definition REASON_INVALID :: nat where "REASON_INVALID = 1"
definition REASON_PEER :: nat where "REASON_PEER = 2"
definition REASON_ACTIVE :: nat where "REASON_ACTIVE = 3"
definition REASON_BACKEND :: nat where "REASON_BACKEND = 4"
definition REASON_STALE :: nat where "REASON_STALE = 5"

record options =
  runtime_dir :: string
  control_uid :: nat
  control_gid :: nat
  sunshine_uid :: nat
  sunshine_gid :: nat
  opt_event_gid :: nat
  dry_run :: bool
  dry_run_fail_create_slot :: "nat option"

subsection \<open>The dry run backend\<close>

record dry_backend =
  fail_create_slot :: "nat option"

definition dry_ops :: "dry_backend seat_backend" where
  "dry_ops =
     \<lparr>be_create = (\<lambda>sp b. (if fail_create_slot b = Some (spec_slot sp) then Err ''injected dry-run create failure'' else Ok (), b)),
      be_event_device = (\<lambda>n b. Ok (''/dev/input/event'' @ decimal n)),
      be_write_state = (\<lambda>n g b. (Ok (), b)),
      be_destroy = (\<lambda>n b. (Ok (), b))\<rparr>"

subsection \<open>Command line\<close>

text \<open>An argument as the process receives it: text, or bytes that are not UTF-8.\<close>

datatype os_string = Utf8 string | NotUtf8 string

primrec os_bytes :: "os_string \<Rightarrow> string" where
  "os_bytes (Utf8 s) = s"
| "os_bytes (NotUtf8 s) = s"

definition option_number :: "os_string option \<Rightarrow> (nat, string) result" where
  "option_number v =
     (case v of
        Some (Utf8 s) \<Rightarrow>
          (case parse_unsigned (2 ^ 32 - 1) s of
             None \<Rightarrow> Err ''numeric option is invalid''
           | Some n \<Rightarrow> if decimal n = s then Ok n else Err ''numeric option is not canonical'')
      | _ \<Rightarrow> Err ''numeric option is missing'')"

record parsed =
  p_runtime_dir :: "string option"
  p_control_uid :: "nat option"
  p_control_gid :: "nat option"
  p_sunshine_uid :: "nat option"
  p_sunshine_gid :: "nat option"
  p_event_gid :: "nat option"
  p_dry_run :: bool
  p_fail_slot :: "nat option"

definition take_arg :: "os_string list \<Rightarrow> os_string option" where
  "take_arg as = (case as of [] \<Rightarrow> None | a # _ \<Rightarrow> Some a)"

fun parse_flags :: "os_string list \<Rightarrow> parsed \<Rightarrow> (parsed, string) result" where
  "parse_flags [] p = Ok p"
| "parse_flags (NotUtf8 _ # as) p = Err ''invalid receiver option''"
| "parse_flags (Utf8 flag # as) p =
     (let v = take_arg as; rest = drop 1 as in
      if flag = ''--runtime-dir'' then parse_flags rest (p\<lparr>p_runtime_dir := map_option os_bytes v\<rparr>)
      else if flag = ''--control-uid'' then
        (case option_number v of Err e \<Rightarrow> Err e | Ok n \<Rightarrow> parse_flags rest (p\<lparr>p_control_uid := Some n\<rparr>))
      else if flag = ''--control-gid'' then
        (case option_number v of Err e \<Rightarrow> Err e | Ok n \<Rightarrow> parse_flags rest (p\<lparr>p_control_gid := Some n\<rparr>))
      else if flag = ''--sunshine-uid'' then
        (case option_number v of Err e \<Rightarrow> Err e | Ok n \<Rightarrow> parse_flags rest (p\<lparr>p_sunshine_uid := Some n\<rparr>))
      else if flag = ''--sunshine-gid'' then
        (case option_number v of Err e \<Rightarrow> Err e | Ok n \<Rightarrow> parse_flags rest (p\<lparr>p_sunshine_gid := Some n\<rparr>))
      else if flag = ''--event-gid'' then
        (case option_number v of Err e \<Rightarrow> Err e | Ok n \<Rightarrow> parse_flags rest (p\<lparr>p_event_gid := Some n\<rparr>))
      else if flag = ''--dry-run'' then parse_flags as (p\<lparr>p_dry_run := True\<rparr>)
      else if flag = ''--dry-run-fail-create-slot'' then
        (case option_number v of Err e \<Rightarrow> Err e | Ok n \<Rightarrow>
           if 255 < n then Err ''invalid failure slot''
           else parse_flags rest (p\<lparr>p_fail_slot := Some n\<rparr>))
      else Err ''invalid receiver option'')"

definition parse_options :: "os_string list \<Rightarrow> (options, string) result" where
  "parse_options as =
     (case parse_flags as \<lparr>p_runtime_dir = None, p_control_uid = None, p_control_gid = None, p_sunshine_uid = None,
         p_sunshine_gid = None, p_event_gid = None, p_dry_run = False, p_fail_slot = None\<rparr> of
        Err e \<Rightarrow> Err e
      | Ok p \<Rightarrow>
          if p_fail_slot p \<noteq> None \<and> \<not> p_dry_run p then Err ''failure injection requires --dry-run''
          else
            case p_runtime_dir p of None \<Rightarrow> Err ''runtime directory is required'' | Some dir \<Rightarrow>
            case p_control_uid p of None \<Rightarrow> Err ''control UID is required'' | Some cu \<Rightarrow>
            case p_control_gid p of None \<Rightarrow> Err ''control GID is required'' | Some cg \<Rightarrow>
            case p_sunshine_uid p of None \<Rightarrow> Err ''Sunshine UID is required'' | Some su \<Rightarrow>
            case p_sunshine_gid p of None \<Rightarrow> Err ''Sunshine GID is required'' | Some sg \<Rightarrow>
            case p_event_gid p of None \<Rightarrow> Err ''event GID is required'' | Some eg \<Rightarrow>
            Ok \<lparr>runtime_dir = dir, control_uid = cu, control_gid = cg, sunshine_uid = su, sunshine_gid = sg,
                opt_event_gid = eg, dry_run = p_dry_run p, dry_run_fail_create_slot = p_fail_slot p\<rparr>)"

subsection \<open>Packets\<close>

record control_request =
  operation :: nat
  cr_launch_id :: string

text \<open>A launch id is 32 ASCII bytes, so the UTF-8 check of the source adds nothing to its validation.\<close>

definition decode_control :: "string \<Rightarrow> control_request option" where
  "decode_control bytes =
     (if length bytes \<noteq> CONTROL_BYTES \<or> of_char (bytes ! 0) \<noteq> CONTROL_VERSION then None
      else if \<not> is_ok (validate_launch_id (drop 2 bytes)) then None
      else Some \<lparr>operation = of_char (bytes ! 1), cr_launch_id = drop 2 bytes\<rparr>)"

definition first_byte :: "string \<Rightarrow> nat option" where
  "first_byte bytes = (case bytes of [] \<Rightarrow> None | b # _ \<Rightarrow> Some (of_char b))"

definition decode_coordination :: "(string \<Rightarrow> seat_request option) \<Rightarrow> string \<Rightarrow> seat_request option" where
  "decode_coordination from_slice bytes =
     (if first_byte bytes \<noteq> Some COORDINATION_VERSION \<or> MAX_COORDINATION_BYTES < length bytes then None
      else from_slice (drop 1 bytes))"

definition rejected_coordination :: "seat_failure \<Rightarrow> seat_reply" where
  "rejected_coordination f =
     \<lparr>occupied_local_seats = [], failure = Some f, reply_count = 0, reply_session = None,
      reply_recovery_required = True, reply_slot = None, remote_sources = [], remote_events = []\<rparr>"

subsection \<open>The operating system\<close>

datatype file_kind = Regular | Socket | Directory | Symlink | OtherKind

record revents =
  pollin :: bool
  pollhup :: bool

datatype poll_result = Polled "revents list" | Interrupted | PollFailed string

record ('fd, 'w) rx_os =
  os_stopping :: "'w \<Rightarrow> bool"
  os_poll :: "'fd option list \<Rightarrow> 'w \<Rightarrow> poll_result \<times> 'w"
  os_now :: "'w \<Rightarrow> nat"
  os_recv :: "'fd \<Rightarrow> 'w \<Rightarrow> (string, string) result \<times> 'w"
  os_send :: "'fd \<Rightarrow> string \<Rightarrow> 'w \<Rightarrow> (unit, string) result \<times> 'w"
  os_accept :: "'fd \<Rightarrow> 'w \<Rightarrow> ('fd, string) result \<times> 'w"
  os_peer :: "'fd \<Rightarrow> 'w \<Rightarrow> (nat \<times> nat, string) result"
  os_random :: "'w \<Rightarrow> (string, string) result \<times> 'w"
  os_socket :: "'w \<Rightarrow> ('fd, string) result \<times> 'w"
  os_bind :: "'fd \<Rightarrow> string \<Rightarrow> 'w \<Rightarrow> (unit, string) result \<times> 'w"
  os_close :: "'fd \<Rightarrow> 'w \<Rightarrow> 'w"
  os_lstat :: "string \<Rightarrow> 'w \<Rightarrow> (file_kind \<times> nat \<times> nat, io_error) result"
  os_unlink :: "string \<Rightarrow> 'w \<Rightarrow> (unit, string) result \<times> 'w"
  os_sync_parent :: "string \<Rightarrow> 'w \<Rightarrow> (unit, string) result \<times> 'w"
  os_create :: "string \<Rightarrow> 'w \<Rightarrow> (unit, string) result \<times> 'w"
  os_write :: "string \<Rightarrow> string \<Rightarrow> 'w \<Rightarrow> (unit, string) result \<times> 'w"
  os_chgrp :: "string \<Rightarrow> nat \<Rightarrow> 'w \<Rightarrow> (unit, string) result \<times> 'w"
  os_chmod :: "string \<Rightarrow> nat \<Rightarrow> 'w \<Rightarrow> (unit, string) result \<times> 'w"
  os_fsync :: "string \<Rightarrow> 'w \<Rightarrow> (unit, string) result \<times> 'w"
  os_rename :: "string \<Rightarrow> string \<Rightarrow> 'w \<Rightarrow> (unit, string) result \<times> 'w"
  os_ready :: "'w \<Rightarrow> (unit, string) result \<times> 'w"
  os_pid :: nat

subsection \<open>Files and sockets\<close>

definition remove_runtime_object ::
  "('fd, 'w) rx_os \<Rightarrow> string \<Rightarrow> bool \<Rightarrow> 'w \<Rightarrow> (unit, string) result \<times> 'w" where
  "remove_runtime_object os p sock w =
     (case os_lstat os p w of
        Err (NotFound _) \<Rightarrow> (Ok (), w)
      | Err e \<Rightarrow> (Err (io_text e), w)
      | Ok (kind, _, _) \<Rightarrow>
          if kind = Symlink \<or> (sock \<and> kind \<noteq> Socket) \<or> (\<not> sock \<and> kind \<noteq> Regular)
          then (Err (''unsafe runtime object: '' @ p), w)
          else and_then (os_unlink os p w) (\<lambda>_. os_sync_parent os p))"

definition validate_runtime_directory :: "('fd, 'w) rx_os \<Rightarrow> string \<Rightarrow> bool \<Rightarrow> 'w \<Rightarrow> (unit, string) result" where
  "validate_runtime_directory os p dry w =
     (case os_lstat os p w of
        Err e \<Rightarrow> Err (io_text e)
      | Ok (kind, uid, mode) \<Rightarrow>
          if kind \<noteq> Directory then Err ''runtime path is not a directory''
          else if \<not> dry \<and> (uid \<noteq> 0 \<or> mode mod 512 \<noteq> 457)
          then Err ''runtime directory must be root-owned with mode 0711''
          else Ok ())"

record 'fd listener =
  li_fd :: 'fd
  li_path :: string

definition listener_bind ::
  "('fd, 'w) rx_os \<Rightarrow> string \<Rightarrow> nat \<Rightarrow> nat \<Rightarrow> 'w \<Rightarrow> ('fd listener, string) result \<times> 'w" where
  "listener_bind os p mode gid w =
     and_then (remove_runtime_object os p True w) (\<lambda>_ w1.
     and_then (os_socket os w1) (\<lambda>fd w2.
       case (if p = [] \<or> 108 \<le> length p then (Err ''Unix socket path is invalid'', w2)
             else and_then (os_bind os fd p w2) (\<lambda>_ w3.
                  and_then (os_chmod os p mode w3) (\<lambda>_. os_chgrp os p gid))) of
         (Err e, w3) \<Rightarrow> (Err e, os_close os fd w3)
       | (Ok _, w3) \<Rightarrow> (Ok \<lparr>li_fd = fd, li_path = p\<rparr>, w3)))"

definition listener_drop :: "('fd, 'w) rx_os \<Rightarrow> 'fd listener \<Rightarrow> 'w \<Rightarrow> 'w" where
  "listener_drop os l w = os_close os (li_fd l) (snd (remove_runtime_object os (li_path l) True w))"

text \<open>A packet longer than the capacity is replaced by zeros, which no decoder accepts.\<close>

definition receive_packet ::
  "('fd, 'w) rx_os \<Rightarrow> 'fd \<Rightarrow> nat \<Rightarrow> 'w \<Rightarrow> (string, string) result \<times> 'w" where
  "receive_packet os fd cap w =
     (case os_recv os fd w of
        (Err e, w1) \<Rightarrow> (Err e, w1)
      | (Ok bytes, w1) \<Rightarrow> (Ok (if cap < length bytes then replicate cap (CHR 0x00) else bytes), w1))"

definition send_reply ::
  "('fd, 'w) rx_os \<Rightarrow> 'fd \<Rightarrow> nat \<Rightarrow> nat \<Rightarrow> 'w \<Rightarrow> (unit, string) result \<times> 'w" where
  "send_reply os fd status reason w = os_send os fd [char_of CONTROL_VERSION, char_of status, char_of reason] w"

definition send_coordination ::
  "('fd, 'w) rx_os \<Rightarrow> (seat_reply \<Rightarrow> (string, string) result) \<Rightarrow> 'fd \<Rightarrow> seat_reply \<Rightarrow> 'w
     \<Rightarrow> (unit, string) result \<times> 'w" where
  "send_coordination os to_vec fd reply w =
     (case to_vec reply of
        Err e \<Rightarrow> (Err e, w)
      | Ok json \<Rightarrow>
          let bytes = char_of COORDINATION_VERSION # json in
          if MAX_COORDINATION_BYTES < length bytes then (Err ''coordination reply exceeds bound'', w)
          else os_send os fd bytes w)"

text \<open>\<open>Path::with_extension\<close>: what follows the last dot of the file name is replaced.\<close>

definition with_extension :: "string \<Rightarrow> string \<Rightarrow> string" where
  "with_extension p ext =
     (let name = takeWhile (\<lambda>c. c \<noteq> CHR ''/'') (rev p);
          dir = rev (drop (length name) (rev p));
          tail = takeWhile (\<lambda>c. c \<noteq> CHR ''.'') name;
          stem = (if length tail + 1 < length name then rev (drop (length tail + 1) name) else rev name)
      in dir @ stem @ ''.'' @ ext)"

definition write_sidecar ::
  "('fd, 'w) rx_os \<Rightarrow> (string \<Rightarrow> nat \<Rightarrow> string \<Rightarrow> (string, string) result) \<Rightarrow> string \<Rightarrow> nat \<Rightarrow> string \<Rightarrow> nat
     \<Rightarrow> string \<Rightarrow> 'w \<Rightarrow> (unit, string) result \<times> 'w" where
  "write_sidecar os encode path gid launch gen token w =
     and_then (remove_runtime_object os path False w) (\<lambda>_ w1.
     let tmp = with_extension path (''json.next.'' @ decimal (os_pid os)) in
     and_then (remove_runtime_object os tmp False w1) (\<lambda>_ w2.
       case encode launch gen token of
         Err e \<Rightarrow> (Err e, w2)
       | Ok payload \<Rightarrow>
           if 4096 < length payload + 1 then (Err ''sidecar is too large'', w2)
           else
             case and_then (os_create os tmp w2) (\<lambda>_ w3.
                  and_then (os_write os tmp payload w3) (\<lambda>_ w4.
                  and_then (os_write os tmp [CHR 0x0A] w4) (\<lambda>_ w5.
                  and_then (os_chgrp os tmp gid w5) (\<lambda>_ w6.
                  and_then (os_chmod os tmp 416 w6) (\<lambda>_ w7.
                  and_then (os_fsync os tmp w7) (\<lambda>_ w8.
                  and_then (os_rename os tmp path w8) (\<lambda>_. os_sync_parent os path))))))) of
               (Ok _, w9) \<Rightarrow> (Ok (), w9)
             | (Err e, w9) \<Rightarrow>
                 (Err e, snd (remove_runtime_object os path False (snd (remove_runtime_object os tmp False w9))))))"

definition hex_digit :: "nat \<Rightarrow> char" where
  "hex_digit n = (if n < 10 then char_of (48 + n) else char_of (87 + n))"

definition hex_byte :: "char \<Rightarrow> string" where
  "hex_byte b = [hex_digit (of_char b div 16), hex_digit (of_char b mod 16)]"

definition random_token :: "('fd, 'w) rx_os \<Rightarrow> 'w \<Rightarrow> (string, string) result \<times> 'w" where
  "random_token os w =
     and_then (os_random os w) (\<lambda>bytes w1. (Ok (concat (map hex_byte bytes)), w1))"

subsection \<open>The state of the process\<close>

record 'fd coordinator =
  co_fd :: 'fd
  last_request_ms :: nat

record 'fd lease =
  le_fd :: 'fd
  le_mirror :: "'fd listener"
  le_launch_id :: string

record ('fd, 'b) receiver =
  rx_runtime :: "'b seat_runtime"
  rx_coordinator :: "'fd coordinator option"
  rx_lease :: "'fd lease option"
  generation :: nat

text \<open>What the loop is given: the system, the backend, the JSON codecs, the options and the paths.\<close>

record ('fd, 'w, 'b) rx_env =
  e_os :: "('fd, 'w) rx_os"
  e_ops :: "'b seat_backend"
  e_request :: "string \<Rightarrow> seat_request option"
  e_reply :: "seat_reply \<Rightarrow> (string, string) result"
  e_frame :: "string \<Rightarrow> mirror_envelope option"
  e_launch :: "string \<Rightarrow> nat \<Rightarrow> string \<Rightarrow> (string, string) result"
  e_options :: options
  e_control :: 'fd
  e_mirror_path :: string
  e_sidecar_path :: string

type_synonym ('fd, 'w, 'b) rx_result = "(unit, string) result \<times> ('fd, 'b) receiver \<times> 'w"

definition drop_coordinator :: "('fd, 'w) rx_os \<Rightarrow> 'fd coordinator option \<Rightarrow> 'w \<Rightarrow> 'w" where
  "drop_coordinator os c w = (case c of None \<Rightarrow> w | Some v \<Rightarrow> os_close os (co_fd v) w)"

definition retire_lease ::
  "('fd, 'w, 'b) rx_env \<Rightarrow> bool \<Rightarrow> ('fd, 'b) receiver \<Rightarrow> 'w \<Rightarrow> ('fd, 'w, 'b) rx_result" where
  "retire_lease env acknowledge s w =
     (let os = e_os env;
          (r, rt) = unbind (e_ops env) (rx_runtime s);
          (cleanup, w1) = remove_runtime_object os (e_sidecar_path env) False w;
          both = (case r of Err e \<Rightarrow> Err e | Ok _ \<Rightarrow> cleanup);
          s1 = s\<lparr>rx_runtime := rt, rx_lease := None\<rparr>
      in case rx_lease s of
           None \<Rightarrow> (both, s1, w1)
         | Some v \<Rightarrow>
             let w2 = listener_drop os (le_mirror v) w1;
                 w3 = (if is_ok both \<and> acknowledge then snd (send_reply os (le_fd v) 0 REASON_NONE w2) else w2)
             in (both, s1, os_close os (le_fd v) w3))"

definition lose_coordinator ::
  "('fd, 'w, 'b) rx_env \<Rightarrow> ('fd, 'b) receiver \<Rightarrow> 'w \<Rightarrow> ('fd, 'w, 'b) rx_result" where
  "lose_coordinator env s w =
     (let w1 = drop_coordinator (e_os env) (rx_coordinator s) w;
          (quieted, rt) = coordinator_lost (e_ops env) (rx_runtime s);
          (cleanup, s1, w2) = retire_lease env False (s\<lparr>rx_coordinator := None, rx_runtime := rt\<rparr>) w1
      in (case quieted of Err e \<Rightarrow> Err e | Ok _ \<Rightarrow> cleanup, s1, w2))"

subsection \<open>One turn of the loop\<close>

text \<open>A request of the coordinator. The value says whether the coordinator is lost.\<close>

definition coordinator_request ::
  "('fd, 'w, 'b) rx_env \<Rightarrow> nat \<Rightarrow> 'fd coordinator \<Rightarrow> seat_request \<Rightarrow> ('fd, 'b) receiver \<Rightarrow> 'w
     \<Rightarrow> (bool, string) result \<times> ('fd, 'b) receiver \<times> 'w" where
  "coordinator_request env now c req s w =
     (let (reply, rt) = coordinate (e_ops env) req now (rx_runtime s);
          s1 = s\<lparr>rx_runtime := rt, rx_coordinator := Some (c\<lparr>last_request_ms := now\<rparr>)\<rparr>
      in and_then
           (if rx_lease s1 \<noteq> None \<and> mirror_launch rt = None then retire_lease env False s1 w else (Ok (), s1, w))
           (\<lambda>_ (s2, w2).
             let (sent, w3) = send_coordination (e_os env) (e_reply env) (co_fd c) reply w2
             in if faulted (rx_runtime s2)
                then (Err ''seat backend is uncertain; receiver restart required'', s2, w3)
                else (Ok (\<not> is_ok sent), s2, w3)))"

definition coordinator_part ::
  "('fd, 'w, 'b) rx_env \<Rightarrow> nat \<Rightarrow> revents \<Rightarrow> ('fd, 'b) receiver \<Rightarrow> 'w \<Rightarrow> ('fd, 'w, 'b) rx_result" where
  "coordinator_part env now ev s w =
     (let silent = (case rx_coordinator s of None \<Rightarrow> False | Some c \<Rightarrow> COORDINATOR_TIMEOUT_MS \<le> now - last_request_ms c)
      in and_then
           (if silent \<or> pollhup ev then (Ok True, s, w)
            else if \<not> pollin ev then (Ok False, s, w)
            else case rx_coordinator s of
                   None \<Rightarrow> (Ok False, s, w)
                 | Some c \<Rightarrow>
                     (case receive_packet (e_os env) (co_fd c) (MAX_COORDINATION_BYTES + 1) w of
                        (Err _, w1) \<Rightarrow> (Ok True, s, w1)
                      | (Ok packet, w1) \<Rightarrow>
                          (case decode_coordination (e_request env) packet of
                             None \<Rightarrow> (Ok True, s, w1)
                           | Some Hello \<Rightarrow> (Ok True, s, w1)
                           | Some req \<Rightarrow> coordinator_request env now c req s w1)))
           (\<lambda>lost (s1, w1). if lost then lose_coordinator env s1 w1 else (Ok (), s1, w1)))"

definition reset_reply :: "seat_reset_outcome \<Rightarrow> nat \<times> nat" where
  "reset_reply x = (case x of ResetAccepted \<Rightarrow> (0, REASON_NONE) | ResetStaleLaunch \<Rightarrow> (1, REASON_STALE)
     | ResetBackendFailed \<Rightarrow> (1, REASON_BACKEND))"

definition lease_request ::
  "('fd, 'w, 'b) rx_env \<Rightarrow> 'fd lease \<Rightarrow> control_request option \<Rightarrow> ('fd, 'b) receiver \<Rightarrow> 'w \<Rightarrow> ('fd, 'w, 'b) rx_result" where
  "lease_request env v req s w =
     (case req of
        None \<Rightarrow> retire_lease env False s w
      | Some r \<Rightarrow>
          if operation r = CONTROL_STOP \<and> cr_launch_id r = le_launch_id v then retire_lease env True s w
          else if operation r = CONTROL_RESET then
            let (outcome, rt) = reset (e_ops env) (cr_launch_id r) (rx_runtime s);
                (status, reason) = reset_reply outcome;
                (sent, w1) = send_reply (e_os env) (le_fd v) status reason w;
                s1 = s\<lparr>rx_runtime := rt\<rparr>
            in if faulted rt then (Err ''seat reset failed'', s1, w1)
               else if \<not> is_ok sent then retire_lease env False s1 w1
               else (Ok (), s1, w1)
          else
            let reason = (if operation r = CONTROL_STOP then REASON_STALE else REASON_INVALID);
                (sent, w1) = send_reply (e_os env) (le_fd v) 1 reason w
            in if \<not> is_ok sent then retire_lease env False s w1 else (Ok (), s, w1))"

definition lease_part ::
  "('fd, 'w, 'b) rx_env \<Rightarrow> revents \<Rightarrow> ('fd, 'b) receiver \<Rightarrow> 'w \<Rightarrow> ('fd, 'w, 'b) rx_result" where
  "lease_part env ev s w =
     and_then
       (case (pollin ev, rx_lease s) of
          (True, Some v) \<Rightarrow>
            let (packet, w1) = receive_packet (e_os env) (le_fd v) (CONTROL_BYTES + 1) w;
                req = (case packet of Err _ \<Rightarrow> None | Ok p \<Rightarrow> decode_control p)
            in lease_request env v req s w1
        | _ \<Rightarrow> (Ok (), s, w))
       (\<lambda>_ (s1, w1). if pollhup ev then retire_lease env False s1 w1 else (Ok (), s1, w1))"

definition mirror_part ::
  "('fd, 'w, 'b) rx_env \<Rightarrow> nat \<Rightarrow> revents \<Rightarrow> ('fd, 'b) receiver \<Rightarrow> 'w \<Rightarrow> ('fd, 'w, 'b) rx_result" where
  "mirror_part env now ev s w =
     (case (pollin ev, rx_lease s) of
        (True, Some v) \<Rightarrow>
          (case os_accept (e_os env) (li_fd (le_mirror v)) w of
             (Err _, w1) \<Rightarrow> (Ok (), s, w1)
           | (Ok fd, w1) \<Rightarrow>
               (case os_peer (e_os env) fd w1 of
                  Err e \<Rightarrow> (Err e, s, os_close (e_os env) fd w1)
                | Ok peer \<Rightarrow>
                    if peer \<noteq> (sunshine_uid (e_options env), sunshine_gid (e_options env))
                    then (Ok (), s, os_close (e_os env) fd w1)
                    else
                      let (packet, w2) = receive_packet (e_os env) fd (MAX_MIRROR_FRAME_BYTES + 1) w1;
                          w3 = os_close (e_os env) fd w2
                      in case packet of
                           Err _ \<Rightarrow> (Ok (), s, w3)
                         | Ok bytes \<Rightarrow>
                             let (out, rt) = accept (e_ops env) (e_frame env) bytes now (rx_runtime s);
                                 s1 = s\<lparr>rx_runtime := rt\<rparr>
                             in if out = BackendFailed then (Err ''input-seat backend write failed'', s1, w3)
                                else (Ok (), s1, w3)))
      | _ \<Rightarrow> (Ok (), s, w))"

definition expiry_part ::
  "('fd, 'w, 'b) rx_env \<Rightarrow> nat \<Rightarrow> ('fd, 'b) receiver \<Rightarrow> 'w \<Rightarrow> ('fd, 'w, 'b) rx_result" where
  "expiry_part env now s w =
     (let (r, rt) = expire_stale (e_ops env) now (rx_runtime s); s1 = s\<lparr>rx_runtime := rt\<rparr>
      in case r of
           Err e \<Rightarrow> (Err e, s1, w)
         | Ok _ \<Rightarrow> if feedback_failed rt then lose_coordinator env s1 w else (Ok (), s1, w))"

text \<open>A first packet on the coordination lane: only \<open>Hello\<close>, and only without another coordinator.\<close>

definition coordinator_hello ::
  "('fd, 'w, 'b) rx_env \<Rightarrow> nat \<Rightarrow> 'fd \<Rightarrow> string \<Rightarrow> ('fd, 'b) receiver \<Rightarrow> 'w \<Rightarrow> ('fd, 'w, 'b) rx_result" where
  "coordinator_hello env now fd packet s w =
     (if decode_coordination (e_request env) packet \<noteq> Some Hello
      then (Ok (), s, os_close (e_os env) fd
              (snd (send_coordination (e_os env) (e_reply env) fd (rejected_coordination Invalid) w)))
      else if rx_coordinator s \<noteq> None
      then (Ok (), s, os_close (e_os env) fd
              (snd (send_coordination (e_os env) (e_reply env) fd (rejected_coordination Active) w)))
      else
        let (reply, rt) = coordinate (e_ops env) Hello now (rx_runtime s);
            s1 = s\<lparr>rx_runtime := rt\<rparr>
        in case send_coordination (e_os env) (e_reply env) fd reply w of
             (Ok _, w1) \<Rightarrow> (Ok (), s1\<lparr>rx_coordinator := Some \<lparr>co_fd = fd, last_request_ms = now\<rparr>\<rparr>, w1)
           | (Err _, w1) \<Rightarrow> (Ok (), s1, os_close (e_os env) fd w1))"

text \<open>START: a fresh token is bound before the mirror socket and the sidecar file exist.\<close>

definition start_lease ::
  "('fd, 'w, 'b) rx_env \<Rightarrow> 'fd \<Rightarrow> string \<Rightarrow> ('fd, 'b) receiver \<Rightarrow> 'w \<Rightarrow> ('fd, 'w, 'b) rx_result" where
  "start_lease env fd launch s w =
     (let os = e_os env in
      case random_token os w of
        (Err e, w1) \<Rightarrow> (Err e, s, os_close os fd w1)
      | (Ok token, w1) \<Rightarrow>
          (case bind launch token (rx_runtime s) of
             (Err _, rt) \<Rightarrow>
               (Ok (), s\<lparr>rx_runtime := rt\<rparr>, os_close os fd (snd (send_reply os fd 1 REASON_BACKEND w1)))
           | (Ok _, rt) \<Rightarrow>
               let s1 = s\<lparr>rx_runtime := rt\<rparr> in
               if 2 ^ 64 \<le> generation s1 + 1 then (Err ''input-seat generation overflow'', s1, os_close os fd w1)
               else
                 let s2 = s1\<lparr>generation := generation s1 + 1\<rparr> in
                 case listener_bind os (e_mirror_path env) 432 (sunshine_gid (e_options env)) w1 of
                   (Err e, w2) \<Rightarrow> (Err e, s2, os_close os fd w2)
                 | (Ok lst, w2) \<Rightarrow>
                     (case write_sidecar os (e_launch env) (e_sidecar_path env) (sunshine_gid (e_options env))
                             launch (generation s2) token w2 of
                        (Err e, w3) \<Rightarrow> (Err e, s2, os_close os fd (listener_drop os lst w3))
                      | (Ok _, w3) \<Rightarrow>
                          let s3 = s2\<lparr>rx_lease := Some \<lparr>le_fd = fd, le_mirror = lst, le_launch_id = launch\<rparr>\<rparr> in
                          case send_reply os fd 0 REASON_NONE w3 of
                            (Ok _, w4) \<Rightarrow> (Ok (), s3, w4)
                          | (Err _, w4) \<Rightarrow> retire_lease env False s3 w4)))"

definition reject_control ::
  "('fd, 'w, 'b) rx_env \<Rightarrow> 'fd \<Rightarrow> nat \<Rightarrow> ('fd, 'b) receiver \<Rightarrow> 'w \<Rightarrow> ('fd, 'w, 'b) rx_result" where
  "reject_control env fd reason s w =
     (Ok (), s, os_close (e_os env) fd (snd (send_reply (e_os env) fd 1 reason w)))"

definition control_client ::
  "('fd, 'w, 'b) rx_env \<Rightarrow> nat \<Rightarrow> 'fd \<Rightarrow> ('fd, 'b) receiver \<Rightarrow> 'w \<Rightarrow> ('fd, 'w, 'b) rx_result" where
  "control_client env now fd s w =
     (case os_peer (e_os env) fd w of
        Err e \<Rightarrow> (Err e, s, os_close (e_os env) fd w)
      | Ok peer \<Rightarrow>
          if peer \<noteq> (control_uid (e_options env), control_gid (e_options env))
          then reject_control env fd REASON_PEER s (snd (receive_packet (e_os env) fd (MAX_COORDINATION_BYTES + 1) w))
          else
            case receive_packet (e_os env) fd (MAX_COORDINATION_BYTES + 1) w of
              (Err _, w1) \<Rightarrow> (Ok (), s, os_close (e_os env) fd w1)
            | (Ok packet, w1) \<Rightarrow>
                if first_byte packet = Some COORDINATION_VERSION then coordinator_hello env now fd packet s w1
                else
                  case decode_control packet of
                    None \<Rightarrow> reject_control env fd REASON_INVALID s w1
                  | Some r \<Rightarrow>
                      if rx_lease s \<noteq> None then reject_control env fd REASON_ACTIVE s w1
                      else if operation r \<noteq> CONTROL_START then reject_control env fd REASON_INVALID s w1
                      else if rx_coordinator s = None then reject_control env fd REASON_BACKEND s w1
                      else start_lease env fd (cr_launch_id r) s w1)"

definition control_part ::
  "('fd, 'w, 'b) rx_env \<Rightarrow> nat \<Rightarrow> revents \<Rightarrow> ('fd, 'b) receiver \<Rightarrow> 'w \<Rightarrow> ('fd, 'w, 'b) rx_result" where
  "control_part env now ev s w =
     (if \<not> pollin ev then (Ok (), s, w)
      else case os_accept (e_os env) (e_control env) w of
             (Err _, w1) \<Rightarrow> (Ok (), s, w1)
           | (Ok fd, w1) \<Rightarrow> control_client env now fd s w1)"

definition quiet_events :: revents where "quiet_events = \<lparr>pollin = False, pollhup = False\<rparr>"

definition rx_turn ::
  "('fd, 'w, 'b) rx_env \<Rightarrow> ('fd, 'b) receiver \<Rightarrow> 'w \<Rightarrow> ('fd, 'w, 'b) rx_result" where
  "rx_turn env s w =
     (let fds = [Some (e_control env), map_option co_fd (rx_coordinator s), map_option le_fd (rx_lease s),
                 map_option (\<lambda>v. li_fd (le_mirror v)) (rx_lease s)]
      in case os_poll (e_os env) fds w of
           (Interrupted, w1) \<Rightarrow> (Ok (), s, w1)
         | (PollFailed e, w1) \<Rightarrow> (Err e, s, w1)
         | (Polled evs, w1) \<Rightarrow>
             let ev = (\<lambda>i. if i < length evs then evs ! i else quiet_events);
                 now = os_now (e_os env) w1
             in and_then (coordinator_part env now (ev 1) s w1) (\<lambda>_ (s1, w2).
                and_then (lease_part env (ev 2) s1 w2) (\<lambda>_ (s2, w3).
                and_then (mirror_part env now (ev 3) s2 w3) (\<lambda>_ (s3, w4).
                and_then (expiry_part env now s3 w4) (\<lambda>_ (s4, w5).
                control_part env now (ev 0) s4 w5)))))"

text \<open>The loop with a bound on its turns; \<open>None\<close> when it has not ended within the bound.\<close>

fun rx_loop ::
  "nat \<Rightarrow> ('fd, 'w, 'b) rx_env \<Rightarrow> ('fd, 'b) receiver \<Rightarrow> 'w \<Rightarrow> ('fd, 'w, 'b) rx_result option" where
  "rx_loop 0 env s w = None"
| "rx_loop (Suc n) env s w =
     (if os_stopping (e_os env) w then Some (Ok (), s, w)
      else case rx_turn env s w of
             (Err e, s1, w1) \<Rightarrow> Some (Err e, s1, w1)
           | (Ok _, s1, w1) \<Rightarrow> rx_loop n env s1 w1)"

definition rx_cleanup ::
  "('fd, 'w, 'b) rx_env \<Rightarrow> (unit, string) result \<Rightarrow> ('fd, 'b) receiver \<Rightarrow> 'w \<Rightarrow> ('fd, 'w, 'b) rx_result" where
  "rx_cleanup env r s w =
     (let (cleanup, s1, w1) = retire_lease env False s w;
          (quieted, rt) = coordinator_lost (e_ops env) (rx_runtime s1)
      in (case r of Err e \<Rightarrow> Err e | Ok _ \<Rightarrow> (case cleanup of Err e \<Rightarrow> Err e | Ok _ \<Rightarrow> quieted),
          s1\<lparr>rx_runtime := rt\<rparr>, w1))"

definition rx_serve ::
  "nat \<Rightarrow> ('fd, 'w, 'b) rx_env \<Rightarrow> 'b seat_runtime \<Rightarrow> 'w \<Rightarrow> ('fd, 'w, 'b) rx_result option" where
  "rx_serve n env rt w =
     (case rx_loop n env \<lparr>rx_runtime = rt, rx_coordinator = None, rx_lease = None, generation = 0\<rparr> w of
        None \<Rightarrow> None
      | Some (r, s, w1) \<Rightarrow> Some (rx_cleanup env r s w1))"

text \<open>
  \<open>run\<close>: the directory is checked and stale artifacts are removed before the devices exist, and the
  control socket is bound before readiness is announced. \<open>env\<close> is completed with the control socket.
  \<open>pool_text\<close> renders the error of \<open>boot\<close>.
\<close>

definition rx_prepare ::
  "('fd, 'w) rx_os \<Rightarrow> options \<Rightarrow> 'w \<Rightarrow> (unit, string) result \<times> 'w" where
  "rx_prepare os opt w =
     (case validate_runtime_directory os (runtime_dir opt) (dry_run opt) w of
        Err e \<Rightarrow> (Err e, w)
      | Ok _ \<Rightarrow>
          and_then (remove_runtime_object os (path_join (runtime_dir opt) ''sunshine-input-seat.sock'') True w)
            (\<lambda>_. remove_runtime_object os (path_join (runtime_dir opt) ''sunshine-active-launch.json'') False))"

definition rx_run ::
  "nat \<Rightarrow> (pool_error \<Rightarrow> string) \<Rightarrow> ('fd, 'w, 'b) rx_env \<Rightarrow> 'b \<Rightarrow> 'w \<Rightarrow> ((unit, string) result \<times> 'w) option" where
  "rx_run n pool_text env b w =
     (let os = e_os env; opt = e_options env in
      case rx_prepare os opt w of
        (Err e, w1) \<Rightarrow> Some (Err e, w1)
      | (Ok _, w1) \<Rightarrow>
          (case boot (e_ops env) b of
             Err e \<Rightarrow> Some (Err (pool_text e), w1)
           | Ok rt \<Rightarrow>
               (case listener_bind os (path_join (runtime_dir opt) ''control.sock'') 432 (control_gid opt) w1 of
                  (Err e, w2) \<Rightarrow> Some (Err e, w2)
                | (Ok control, w2) \<Rightarrow>
                    (case os_ready os w2 of
                       (Err e, w3) \<Rightarrow> Some (Err e, listener_drop os control w3)
                     | (Ok _, w3) \<Rightarrow>
                         map_option (\<lambda>(r, s, w4). (r, listener_drop os control w4))
                           (rx_serve n (env\<lparr>e_control := li_fd control,
                              e_mirror_path := path_join (runtime_dir opt) ''sunshine-input-seat.sock'',
                              e_sidecar_path := path_join (runtime_dir opt) ''sunshine-active-launch.json''\<rparr>) rt w3)))))"

end
