(* ===== verification/Receiver_Safety.thy ===== *)
theory Receiver_Safety
  imports Seat_Receiver
begin

text \<open>
  What holds of the receiver: its packet formats and command line are read exactly, its backend
  for dry runs meets the seat contract, every turn of its loop is a run of the seat runtime, and
  the mirror authority of the runtime, the lease and the coordinator stay in step through every
  sequence of events, until the process ends with all authority withdrawn.
\<close>

subsection \<open>Which operations touch the mirror authority\<close>

lemma connect_source_mirror: "connect_source ops k g now h s = (r, s') \<Longrightarrow> mirror s' = mirror s"
  by (auto simp: connect_source_def claim_seat_def Let_def split: if_splits result.splits prod.splits pool_error.splits)

lemma update_source_mirror: "update_source ops k g now s = (r, s') \<Longrightarrow> mirror s' = mirror s"
  by (auto simp: update_source_def deliver_def claim_seat_def Let_def
      split: option.splits if_splits result.splits prod.splits pool_error.splits)

lemma rebalance_loop_mirror: "rebalance_loop ops ks s = (r, s') \<Longrightarrow> mirror s' = mirror s"
proof (induction ks arbitrary: s)
  case (Cons k ks)
  then show ?case by (auto simp: claim_seat_def split: if_splits result.splits prod.splits pool_error.splits option.splits) 
qed simp

lemma rebalance_mirror: "rebalance ops s = (r, s') \<Longrightarrow> mirror s' = mirror s"
  by (auto simp: rebalance_def dest: rebalance_loop_mirror split: if_splits)

lemma disconnect_source_mirror: "disconnect_source ops k s = (r, s') \<Longrightarrow> mirror s' = mirror s"
  by (auto simp: disconnect_source_def Let_def dest!: rebalance_mirror
      split: option.splits result.splits prod.splits if_splits source_key.splits pool_error.splits)

lemma disconnect_all_mirror: "disconnect_all ops ks s = (f, s') \<Longrightarrow> mirror s' = mirror s"
  by (induction ks arbitrary: s f) (auto simp: Let_def dest: disconnect_source_mirror split: prod.splits)

lemma expire_loop_mirror: "expire_loop ops ks s = (r, s') \<Longrightarrow> mirror s' = mirror s"
  by (induction ks arbitrary: s) (auto dest: disconnect_source_mirror split: prod.splits result.splits)

lemma expire_stale_mirror: "expire_stale ops now s = (r, s') \<Longrightarrow> mirror s' = mirror s"
  by (auto simp: expire_stale_def Let_def dest: expire_loop_mirror split: prod.splits result.splits)

lemma reset_loop_mirror: "reset_loop ops ks s = (f, s') \<Longrightarrow> mirror s' = mirror s"
  by (induction ks arbitrary: s f) (auto simp: Let_def split: prod.splits if_splits)

lemma reset_mirror: "reset ops l s = (r, s') \<Longrightarrow> mirror s' = mirror s"
  by (auto simp: reset_def dest: reset_loop_mirror split: prod.splits if_splits)

lemma unbind_mirror: "unbind ops s = (r, s') \<Longrightarrow> mirror s' = None"
  by (auto simp: unbind_def dest: disconnect_all_mirror split: prod.splits if_splits)

lemma coordinator_lost_mirror: "coordinator_lost ops s = (r, s') \<Longrightarrow> mirror s' = None"
  by (auto simp: coordinator_lost_def Let_def dest: disconnect_all_mirror split: prod.splits if_splits)

lemma accept_mirror:
  assumes "accept ops fs packet now s = (out, s')"
  shows "mirror s' = mirror s"
  using assms
proof (rule accept_cases)
  fix k st d t
  assume "accept_state ops k st now s = (d, t)" "s' = t \<or> s' = t\<lparr>faulted := True\<rparr>"
  then show ?thesis
    by (auto simp: accept_state_def Let_def dest!: connect_source_mirror update_source_mirror
        split: if_splits prod.splits result.splits option.splits)
qed (auto dest: disconnect_source_mirror)

lemma set_route_mirror: "set_route ops g s = (r, s') \<Longrightarrow> mirror s' = mirror s"
  by (auto simp: set_route_def Let_def split: prod.splits result.splits)

text \<open>A coordination request never grants the authority; ending the session withdraws it.\<close>

lemma coordinate_mirror:
  assumes "coordinate ops req now s = (reply, s')"
  shows "mirror s' = mirror s \<or> mirror s' = None"
proof -
  obtain r t where t: "apply_request ops req now s = (r, t)" by (cases "apply_request ops req now s")
  with assms have "mirror s' = mirror t"
    by (auto simp: coordinate_def Let_def split: prod.splits result.splits if_splits)
  moreover have "mirror t = mirror s \<or> mirror t = None" using t
    by (cases req)
      (auto simp: apply_request_def apply_count_def apply_begin_def apply_reserve_def apply_end_session_def apply_route_def
        apply_physical_connected_def apply_physical_state_def apply_physical_disconnected_def Let_def
        dest!: rebalance_mirror unbind_mirror set_route_mirror connect_source_mirror update_source_mirror
          disconnect_source_mirror
        split: if_splits result.splits prod.splits)
  ultimately show ?thesis by auto
qed

subsection \<open>Packets and options\<close>

text \<open>
  The control packets are read exactly: a packet decodes to an operation and a launch id
  if and only if it is the version byte, the operation byte and the 32 lower case hexadecimal
  digits of the launch id, and nothing else.
\<close>

theorem control_packets_exact:
  "decode_control bytes = Some r \<longleftrightarrow>
     operation r < 256 \<and> lower_hex_text 32 (cr_launch_id r) \<and>
     bytes = [char_of CONTROL_VERSION, char_of (operation r)] @ cr_launch_id r \<and> control_request.more r = ()"
proof
  assume d: "decode_control bytes = Some r"
  then have len: "length bytes = 34" and v: "of_char (bytes ! 0) = CONTROL_VERSION"
    and hex: "lower_hex_text 32 (drop 2 bytes)"
    and r: "r = \<lparr>operation = of_char (bytes ! 1), cr_launch_id = drop 2 bytes\<rparr>"
    by (auto simp: decode_control_def CONTROL_BYTES_def validate_launch_id_def split: if_splits)
  from len obtain a b cs where bytes: "bytes = a # b # cs" by (cases bytes; cases "tl bytes") auto
  with v have "a = char_of CONTROL_VERSION" by (metis char_of_char nth_Cons_0)
  moreover have "of_char b < (256 :: nat)" by simp
  ultimately show "operation r < 256 \<and> lower_hex_text 32 (cr_launch_id r) \<and>
     bytes = [char_of CONTROL_VERSION, char_of (operation r)] @ cr_launch_id r \<and> control_request.more r = ()"
    using hex r bytes by simp
next
  assume a: "operation r < 256 \<and> lower_hex_text 32 (cr_launch_id r) \<and>
     bytes = [char_of CONTROL_VERSION, char_of (operation r)] @ cr_launch_id r \<and> control_request.more r = ()"
  then have "length (cr_launch_id r) = 32" by (simp add: lower_hex_text_def)
  moreover have "of_char (char_of CONTROL_VERSION :: char) = CONTROL_VERSION" by (simp add: CONTROL_VERSION_def)
  moreover have "of_char (char_of (operation r) :: char) = operation r" using a by simp
  ultimately show "decode_control bytes = Some r"
    using a by (cases r) (simp add: decode_control_def CONTROL_BYTES_def validate_launch_id_def)
qed

lemma hex_digit_hex: "n < 16 \<Longrightarrow> is_lower_hex (hex_digit n)"
  by (auto simp: hex_digit_def is_lower_hex_def is_ascii_digit_def less_eq_char_def)

lemma hex_digit_inj: "m < 16 \<Longrightarrow> n < 16 \<Longrightarrow> hex_digit m = hex_digit n \<Longrightarrow> m = n"
proof -
  assume "m < 16" "n < 16" "hex_digit m = hex_digit n"
  then have "of_char (hex_digit m) = (of_char (hex_digit n) :: nat)" "m < 16" "n < 16" by simp_all
  then show "m = n" by (auto simp: hex_digit_def split: if_splits)
qed

lemma hex_byte_inj: "hex_byte a = hex_byte b \<Longrightarrow> a = b"
proof -
  assume e: "hex_byte a = hex_byte b"
  have l: "of_char a < (256 :: nat)" "of_char b < (256 :: nat)" by simp_all
  then have "of_char a div 16 < (16 :: nat)" "of_char b div 16 < (16 :: nat)" by linarith+
  with e have "of_char a div 16 = (of_char b div 16 :: nat)" "of_char a mod 16 = (of_char b mod 16 :: nat)"
    using hex_digit_inj [of "of_char a div 16" "of_char b div 16"] hex_digit_inj [of "of_char a mod 16" "of_char b mod 16"]
    by (simp_all add: hex_byte_def)
  then have "of_char a = (of_char b :: nat)" by (metis div_mult_mod_eq)
  then show "a = b" by simp
qed

lemma concat_hex_props: "length (concat (map hex_byte bs)) = 2 * length bs \<and> list_all is_lower_hex (concat (map hex_byte bs))"
proof (induction bs)
  case (Cons b bs)
  have "of_char b < (256 :: nat)" by simp
  then have "of_char b div 16 < (16 :: nat)" by linarith
  then have "is_lower_hex (hex_digit (of_char b div 16))" "is_lower_hex (hex_digit (of_char b mod 16))"
    by (simp_all add: hex_digit_hex)
  with Cons show ?case by (simp add: hex_byte_def)
qed simp

lemma concat_hex_inj: "concat (map hex_byte as) = concat (map hex_byte bs) \<Longrightarrow> as = bs"
proof (induction as arbitrary: bs)
  case Nil
  then show ?case by (cases bs) (auto simp: hex_byte_def)
next
  case (Cons a as)
  then obtain b bs' where bs: "bs = b # bs'" by (cases bs) (auto simp: hex_byte_def)
  have "length (hex_byte a) = length (hex_byte b)" by (simp add: hex_byte_def)
  with bs Cons.prems have "hex_byte a = hex_byte b" "concat (map hex_byte as) = concat (map hex_byte bs')"
    by simp_all
  with bs Cons.IH show ?case by (simp add: hex_byte_inj)
qed

text \<open>
  A mirror token is usable and loses nothing: from 32 random bytes the receiver always
  makes a token that the runtime accepts, and different bytes always give different tokens.
\<close>

theorem tokens_valid_and_distinct:
  assumes "os_random os w = (Ok bytes, w')" "length bytes = 32"
  shows "\<exists>token. random_token os w = (Ok token, w') \<and> validate_token token = Ok () \<and>
    (\<forall>others. concat (map hex_byte others) = token \<longrightarrow> others = bytes)"
  using assms concat_hex_props [of bytes] concat_hex_inj [of _ bytes]
  by (auto simp: random_token_def validate_token_def lower_hex_text_def)

text \<open>
  Numeric options are read exactly: text is accepted if and only if it is the canonical
  decimal form of a 32 bit number, without sign, leading zeros or blanks.
\<close>

theorem numeric_options_exact:
  "option_number (Some (Utf8 s)) = Ok n \<longleftrightarrow> s = decimal n \<and> n < 2 ^ 32"
proof
  assume "option_number (Some (Utf8 s)) = Ok n"
  then have p: "parse_unsigned (2 ^ 32 - 1) s = Some n" "s = decimal n"
    by (auto simp: option_number_def split: option.splits if_splits)
  from parse_unsigned_le [OF p(1)] p(2) show "s = decimal n \<and> n < 2 ^ 32" by simp
next
  assume "s = decimal n \<and> n < 2 ^ 32"
  then have "s = decimal n" "n \<le> 2 ^ 32 - 1" by simp_all
  then show "option_number (Some (Utf8 s)) = Ok n" by (simp add: option_number_def)
qed

interpretation dry: seat_backend_contract dry_ops "\<lambda>_ _ _. True" "\<lambda>_. True"
  by unfold_locales simp_all

subsection \<open>The loop runs the runtime\<close>

text \<open>
  \<open>decoder_ok\<close>: the JSON decoder of requests gives counts that fit their byte. \<open>reaches\<close>: one
  receiver state follows from another by operations of the runtime alone.
\<close>

definition decoder_ok :: "('fd, 'w, 'b) rx_env \<Rightarrow> bool" where
  "decoder_ok env \<longleftrightarrow> (\<forall>bytes req. e_request env bytes = Some req \<longrightarrow> request_in_range req)"

definition reaches :: "('fd, 'w, 'b) rx_env \<Rightarrow> 'b seat_runtime \<Rightarrow> 'b seat_runtime \<Rightarrow> bool" where
  "reaches env rt rt' \<longleftrightarrow> (\<exists>xs. rt' = foldl (rt_step (e_ops env) (e_frame env)) rt xs)"

lemma reaches_refl [simp]: "reaches env rt rt"
  unfolding reaches_def by (rule exI [of _ "[]"]) simp

lemma reaches_trans: "reaches env a b \<Longrightarrow> reaches env b c \<Longrightarrow> reaches env a c"
  unfolding reaches_def by (metis foldl_append)

lemma reaches_step: "reaches env rt (rt_step (e_ops env) (e_frame env) rt x)"
  unfolding reaches_def by (rule exI [of _ "[x]"]) simp

lemma reaches_ops:
  "unbind (e_ops env) rt = (a, rt') \<Longrightarrow> reaches env rt rt'"
  "coordinator_lost (e_ops env) rt = (b, rt') \<Longrightarrow> reaches env rt rt'"
  "reset (e_ops env) l rt = (c, rt') \<Longrightarrow> reaches env rt rt'"
  "accept (e_ops env) (e_frame env) p now rt = (d, rt') \<Longrightarrow> reaches env rt rt'"
  "expire_stale (e_ops env) now rt = (e, rt') \<Longrightarrow> reaches env rt rt'"
  "bind l t rt = (f, rt') \<Longrightarrow> reaches env rt rt'"
  "coordinate (e_ops env) req now rt = (g, rt') \<Longrightarrow> request_in_range req \<Longrightarrow> reaches env rt rt'"
  using reaches_step [of env rt RtUnbind] reaches_step [of env rt RtCoordinatorLost] reaches_step [of env rt "RtReset l"]
    reaches_step [of env rt "RtAccept p now"] reaches_step [of env rt "RtExpire now"] reaches_step [of env rt "RtBind l t"]
    reaches_step [of env rt "RtCoordinate req now"]
  by simp_all

lemma reaches_inv: "reaches env rt rt' \<Longrightarrow> rt_inv rt \<Longrightarrow> rt_inv rt'"
  unfolding reaches_def using seat_runs.inv_run by blast

text \<open>
  The state in which no input can reach a seat: nobody may route, no source is present and no
  mirror is authorised.
\<close>

definition idle :: "'b seat_runtime \<Rightarrow> bool" where
  "idle rt \<longleftrightarrow> recovery_required rt \<and> \<not> game_route rt \<and> rt_sources rt = [] \<and> mirror rt = None"

definition rx_inv :: "('fd, 'b) receiver \<Rightarrow> bool" where
  "rx_inv s \<longleftrightarrow> rt_inv (rx_runtime s) \<and>
     mirror_launch (rx_runtime s) = map_option le_launch_id (rx_lease s) \<and>
     (rx_coordinator s = None \<longrightarrow> rx_lease s = None \<and> idle (rx_runtime s))"

lemma keys_of_empty: "keys_of rt = {} \<Longrightarrow> rt_sources rt = []"
  by (cases "rt_sources rt") (auto simp: keys_of_def bt_get_def split: if_splits)

lemma coordinator_lost_idle:
  assumes "rt_inv rt" "coordinator_lost ops rt = (r, rt')"
  shows "idle rt'"
  using coordinator_lost_core [OF rt_invD(1) [OF assms(1)] assms(2)] by (simp add: idle_def keys_of_empty)

lemma unbind_idle: "idle rt \<Longrightarrow> unbind ops rt = (r, rt') \<Longrightarrow> rt' = rt \<and> r = Ok ()"
  by (auto simp: idle_def unbind_def bt_keys_def)

lemma mirror_launch_None [simp]: "mirror_launch rt = None \<longleftrightarrow> mirror rt = None"
  by (simp add: mirror_launch_def)

lemma retire_lease_props:
  assumes "retire_lease env ack s w = (x, s', w')"
  shows "reaches env (rx_runtime s) (rx_runtime s')" and "rx_lease s' = None" and "mirror (rx_runtime s') = None"
    and "rx_coordinator s' = rx_coordinator s" and "idle (rx_runtime s) \<Longrightarrow> rx_runtime s' = rx_runtime s"
proof -
  obtain r rt where u: "unbind (e_ops env) (rx_runtime s) = (r, rt)" by (cases "unbind (e_ops env) (rx_runtime s)")
  with assms have s': "s' = s\<lparr>rx_runtime := rt, rx_lease := None\<rparr>"
    by (auto simp: retire_lease_def Let_def split: prod.splits option.splits)
  show "reaches env (rx_runtime s) (rx_runtime s')" "rx_lease s' = None" "mirror (rx_runtime s') = None"
    "rx_coordinator s' = rx_coordinator s" "idle (rx_runtime s) \<Longrightarrow> rx_runtime s' = rx_runtime s"
    using reaches_ops(1) [OF u] unbind_mirror [OF u] unbind_idle [OF _ u] by (simp_all add: s')
qed

lemma retire_lease_inv:
  assumes "rx_inv s" "retire_lease env ack s w = (x, s', w')"
  shows "rx_inv s'"
  using assms(1) retire_lease_props [OF assms(2)] by (auto simp: rx_inv_def intro: reaches_inv)

lemma lose_coordinator_props:
  assumes "rt_inv (rx_runtime s)" "lose_coordinator env s w = (x, s', w')"
  shows "reaches env (rx_runtime s) (rx_runtime s')" and "rx_inv s'" and "rx_coordinator s' = None"
proof -
  obtain q rt where q: "coordinator_lost (e_ops env) (rx_runtime s) = (q, rt)"
    by (cases "coordinator_lost (e_ops env) (rx_runtime s)")
  let ?s = "s\<lparr>rx_coordinator := None, rx_runtime := rt\<rparr>"
  let ?w = "drop_coordinator (e_os env) (rx_coordinator s) w"
  obtain y t v where r: "retire_lease env False ?s ?w = (y, t, v)" by (cases "retire_lease env False ?s ?w")
  from assms(2) q r have s': "s' = t" by (auto simp: lose_coordinator_def Let_def)
  have idle: "idle rt" by (rule coordinator_lost_idle [OF assms(1) q])
  note p = retire_lease_props [OF r]
  have inv: "rt_inv rt" by (rule reaches_inv [OF reaches_ops(2) [OF q] assms(1)])
  show "reaches env (rx_runtime s) (rx_runtime s')"
    using reaches_trans [OF reaches_ops(2) [OF q]] p(1) by (simp add: s')
  show "rx_coordinator s' = None" using p(4) by (simp add: s')
  show "rx_inv s'" using p idle inv by (simp add: s' rx_inv_def mirror_launch_def)
qed

text \<open>What a part of a turn promises, whether it succeeds or fails.\<close>

definition part_ok :: "('fd, 'w, 'b) rx_env \<Rightarrow> ('fd, 'b) receiver \<Rightarrow> ('a, string) result \<times> ('fd, 'b) receiver \<times> 'w \<Rightarrow> bool" where
  "part_ok env s res = (case res of (x, s', w') \<Rightarrow>
     reaches env (rx_runtime s) (rx_runtime s') \<and> (is_ok x \<longrightarrow> rx_inv s'))"

lemma part_ok_inv: "part_ok env s (x, s', w') \<Longrightarrow> rx_inv s \<Longrightarrow> rt_inv (rx_runtime s')"
  by (auto simp: part_ok_def rx_inv_def intro: reaches_inv)

lemma part_ok_and_then:
  assumes "part_ok env s x" and "\<And>a s1 w1. rx_inv s1 \<Longrightarrow> part_ok env s1 (f a (s1, w1))"
  shows "part_ok env s (and_then x f)"
proof (cases x)
  case (fields r s1 w1)
  show ?thesis
  proof (cases r)
    case (Ok a)
    obtain y s2 w2 where y: "f a (s1, w1) = (y, s2, w2)" by (cases "f a (s1, w1)")
    have s1: "rx_inv s1" "reaches env (rx_runtime s) (rx_runtime s1)"
      using assms(1) fields Ok by (simp_all add: part_ok_def)
    from assms(2) [OF s1(1), of a w1] y s1 reaches_trans [OF s1(2)] fields Ok show ?thesis
      by (simp add: part_ok_def)
  next
    case (Err e)
    with assms(1) fields show ?thesis by (simp add: part_ok_def)
  qed
qed

lemma part_ok_stays: "rx_inv s \<Longrightarrow> part_ok env s (x, s, w)"
  by (simp add: part_ok_def)

lemma part_ok_retire: "rx_inv s \<Longrightarrow> part_ok env s (retire_lease env ack s w)"
  by (cases "retire_lease env ack s w")
    (auto simp: part_ok_def dest: retire_lease_props(1) intro: retire_lease_inv)

lemma part_ok_lose: "rt_inv (rx_runtime s) \<Longrightarrow> part_ok env s (lose_coordinator env s w)"
  by (cases "lose_coordinator env s w") (auto simp: part_ok_def dest: lose_coordinator_props)

lemma rx_inv_runtime:
  "rx_inv s \<Longrightarrow> rt_inv rt \<Longrightarrow> mirror rt = mirror (rx_runtime s) \<Longrightarrow> rx_coordinator s \<noteq> None \<Longrightarrow>
   rx_inv (s\<lparr>rx_runtime := rt\<rparr>)"
  by (auto simp: rx_inv_def mirror_launch_def)

lemma part_ok_runtime:
  assumes "rx_inv s" "reaches env (rx_runtime s) rt" "mirror rt = mirror (rx_runtime s)" "rx_coordinator s \<noteq> None"
  shows "part_ok env s (x, s\<lparr>rx_runtime := rt\<rparr>, w)"
proof -
  have "rt_inv rt" using assms(1,2) by (auto simp: rx_inv_def intro: reaches_inv)
  with assms show ?thesis by (simp add: part_ok_def rx_inv_runtime)
qed

lemma part_ok_from:
  assumes "part_ok env (s\<lparr>rx_runtime := rt\<rparr>) res" "reaches env (rx_runtime s) rt"
  shows "part_ok env s res"
  using assms by (auto simp: part_ok_def intro: reaches_trans split: prod.splits)

lemma coordinator_request_ok:
  assumes inv: "rx_inv s" and c: "rx_coordinator s = Some c" and req: "request_in_range req"
  shows "part_ok env s (coordinator_request env now c req s w)"
proof -
  obtain reply rt where rt: "coordinate (e_ops env) req now (rx_runtime s) = (reply, rt)"
    by (cases "coordinate (e_ops env) req now (rx_runtime s)")
  let ?s = "s\<lparr>rx_runtime := rt, rx_coordinator := Some (c\<lparr>last_request_ms := now\<rparr>)\<rparr>"
  have r: "reaches env (rx_runtime s) rt" by (rule reaches_ops(7) [OF rt req])
  then have i: "rt_inv rt" using inv by (auto simp: rx_inv_def intro: reaches_inv)
  let ?x = "if rx_lease ?s \<noteq> None \<and> mirror_launch rt = None then retire_lease env False ?s w else (Ok (), ?s, w)"
  have first: "part_ok env s ?x"
  proof (cases "rx_lease ?s \<noteq> None \<and> mirror_launch rt = None")
    case True
    obtain y t v where y: "retire_lease env False ?s w = (y, t, v)" by (cases "retire_lease env False ?s w")
    note p = retire_lease_props [OF y]
    have "rx_inv t" using p reaches_inv [OF p(1)] i by (simp add: rx_inv_def)
    moreover have "reaches env (rx_runtime s) (rx_runtime t)" using reaches_trans [OF r] p(1) by simp
    ultimately show ?thesis using True y by (simp add: part_ok_def)
  next
    case False
    then have "mirror_launch rt = map_option le_launch_id (rx_lease s)"
      using coordinate_mirror [OF rt] inv by (auto simp: rx_inv_def mirror_launch_def)
    with i have "rx_inv ?s" by (simp add: rx_inv_def)
    with False r show ?thesis by (auto simp: part_ok_def)
  qed
  have "part_ok env s (and_then ?x (\<lambda>_ (s2, w2).
      let (sent, w3) = send_coordination (e_os env) (e_reply env) (co_fd c) reply w2
      in if faulted (rx_runtime s2) then (Err ''seat backend is uncertain; receiver restart required'', s2, w3)
         else (Ok (\<not> is_ok sent), s2, w3)))"
    by (rule part_ok_and_then [OF first]) (auto simp: part_ok_def split: prod.splits)
  then show ?thesis by (simp add: coordinator_request_def rt Let_def)
qed

lemma coordinator_part_ok:
  assumes inv: "rx_inv s" and dec: "decoder_ok env"
  shows "part_ok env s (coordinator_part env now ev s w)"
  unfolding coordinator_part_def Let_def
proof (rule part_ok_and_then)
  have req: "part_ok env s (coordinator_request env now c req s v)"
    if "rx_coordinator s = Some c" "decode_coordination (e_request env) packet = Some req" for c req packet v
  proof -
    have "request_in_range req" using that(2) dec by (auto simp: decode_coordination_def decoder_ok_def split: if_splits)
    with that(1) inv show ?thesis by (intro coordinator_request_ok)
  qed
  show "part_ok env s
     (if (case rx_coordinator s of None \<Rightarrow> False | Some c \<Rightarrow> COORDINATOR_TIMEOUT_MS \<le> now - last_request_ms c) \<or> pollhup ev
      then (Ok True, s, w)
      else if \<not> pollin ev then (Ok False, s, w)
      else case rx_coordinator s of
             None \<Rightarrow> (Ok False, s, w)
           | Some c \<Rightarrow>
               (case receive_packet (e_os env) (co_fd c) (MAX_COORDINATION_BYTES + 1) w of
                  (Err _, w1) \<Rightarrow> (Ok True, s, w1)
                | (Ok packet, w1) \<Rightarrow>
                    (case decode_coordination (e_request env) packet of
                       None \<Rightarrow> (Ok True, s, w1)
                     | Some Hello \<Rightarrow> (Ok True, s, w1)
                     | Some req \<Rightarrow> coordinator_request env now c req s w1)))"
    by (auto simp: part_ok_stays [OF inv] req split: option.splits prod.splits result.splits seat_request.splits)
qed (auto simp: part_ok_stays part_ok_lose rx_inv_def)

lemma lease_request_ok:
  assumes inv: "rx_inv s" and l: "rx_lease s \<noteq> None"
  shows "part_ok env s (lease_request env v req s w)"
proof -
  have co: "rx_coordinator s \<noteq> None" using inv l by (auto simp: rx_inv_def)
  have reset: "part_ok env s (Err e, s\<lparr>rx_runtime := rt\<rparr>, w1)" "part_ok env s (Ok (), s\<lparr>rx_runtime := rt\<rparr>, w1)"
    "part_ok env s (retire_lease env False (s\<lparr>rx_runtime := rt\<rparr>) w1)"
    if rt: "reset (e_ops env) launch (rx_runtime s) = (o', rt)" for e rt w1 launch o'
  proof -
    note r = reaches_ops(3) [OF rt] and m = reset_mirror [OF rt]
    show "part_ok env s (Err e, s\<lparr>rx_runtime := rt\<rparr>, w1)" "part_ok env s (Ok (), s\<lparr>rx_runtime := rt\<rparr>, w1)"
      by (rule part_ok_runtime [OF inv r m co])+
    have "rt_inv rt" using inv r by (auto simp: rx_inv_def intro: reaches_inv)
    then have "rx_inv (s\<lparr>rx_runtime := rt\<rparr>)" using m co by (rule rx_inv_runtime [OF inv])
    then show "part_ok env s (retire_lease env False (s\<lparr>rx_runtime := rt\<rparr>) w1)"
      by (intro part_ok_from [OF part_ok_retire r])
  qed
  show ?thesis
    by (auto simp: lease_request_def Let_def part_ok_stays [OF inv] part_ok_retire [OF inv]
        intro: reset split: option.splits prod.splits)
qed

lemma lease_part_ok:
  assumes inv: "rx_inv s"
  shows "part_ok env s (lease_part env ev s w)"
  unfolding lease_part_def
proof (rule part_ok_and_then)
  show "part_ok env s (case (pollin ev, rx_lease s) of
      (True, Some v) \<Rightarrow>
        let (packet, w1) = receive_packet (e_os env) (le_fd v) (CONTROL_BYTES + 1) w;
            req = (case packet of Err _ \<Rightarrow> None | Ok p \<Rightarrow> decode_control p)
        in lease_request env v req s w1
    | _ \<Rightarrow> (Ok (), s, w))"
    by (auto simp: Let_def part_ok_stays [OF inv] intro!: lease_request_ok [OF inv] split: option.splits bool.splits prod.splits)
qed (auto simp: part_ok_stays part_ok_retire)

lemma mirror_part_ok:
  assumes inv: "rx_inv s"
  shows "part_ok env s (mirror_part env now ev s w)"
proof (cases "rx_lease s")
  case None
  then show ?thesis by (auto simp: mirror_part_def part_ok_stays [OF inv] split: bool.splits)
next
  case (Some v)
  then have co: "rx_coordinator s \<noteq> None" using inv by (auto simp: rx_inv_def)
  have a: "part_ok env s (x, s\<lparr>rx_runtime := rt\<rparr>, w1)"
    if rt: "accept (e_ops env) (e_frame env) bytes now (rx_runtime s) = (out, rt)" for x rt w1 bytes out
    by (rule part_ok_runtime [OF inv reaches_ops(4) [OF rt] accept_mirror [OF rt] co])
  show ?thesis
    by (auto simp: mirror_part_def Let_def Some part_ok_stays [OF inv] intro: a
        split: bool.splits prod.splits result.splits)
qed

lemma expiry_part_ok:
  assumes inv: "rx_inv s"
  shows "part_ok env s (expiry_part env now s w)"
proof -
  obtain r rt where rt: "expire_stale (e_ops env) now (rx_runtime s) = (r, rt)"
    by (cases "expire_stale (e_ops env) now (rx_runtime s)")
  note re = reaches_ops(5) [OF rt] and m = expire_stale_mirror [OF rt]
  have i: "rt_inv rt" using inv re by (auto simp: rx_inv_def intro: reaches_inv)
  have "rt = rx_runtime s" if "idle (rx_runtime s)"
    using rt that by (simp add: idle_def expire_stale_def Let_def List.map_filter_def)
  with inv m i have "rx_inv (s\<lparr>rx_runtime := rt\<rparr>)" by (auto simp: rx_inv_def mirror_launch_def)
  then have "part_ok env s (x, s\<lparr>rx_runtime := rt\<rparr>, w)" for x using re by (simp add: part_ok_def)
  moreover have "part_ok env s (lose_coordinator env (s\<lparr>rx_runtime := rt\<rparr>) w)"
    by (rule part_ok_from [OF part_ok_lose re]) (simp add: i)
  ultimately show ?thesis by (auto simp: expiry_part_def rt Let_def split: result.splits)
qed

lemma coordinate_hello:
  assumes "coordinate ops Hello now rt = (reply, rt')"
  shows "mirror rt' = mirror rt" and "idle rt \<Longrightarrow> idle rt'"
  using assms
  by (auto simp: coordinate_def apply_request_def idle_def Let_def split: prod.splits result.splits if_splits)

lemma coordinator_hello_ok:
  assumes inv: "rx_inv s"
  shows "part_ok env s (coordinator_hello env now fd packet s w)"
proof (cases "decode_coordination (e_request env) packet = Some Hello \<and> rx_coordinator s = None")
  case True
  obtain reply rt where rt: "coordinate (e_ops env) Hello now (rx_runtime s) = (reply, rt)"
    by (cases "coordinate (e_ops env) Hello now (rx_runtime s)")
  have r: "reaches env (rx_runtime s) rt" by (rule reaches_ops(7) [OF rt]) simp
  have i: "rt_inv rt" using inv r by (auto simp: rx_inv_def intro: reaches_inv)
  have lease: "rx_lease s = None" "idle (rx_runtime s)" using inv True by (auto simp: rx_inv_def)
  then have idle: "idle rt" "mirror rt = None" using coordinate_hello [OF rt] by (auto simp: idle_def)
  have "rx_inv (s\<lparr>rx_runtime := rt\<rparr>)" "rx_inv (s\<lparr>rx_runtime := rt, rx_coordinator := Some c\<rparr>)" for c
    using i idle lease by (auto simp: rx_inv_def mirror_launch_def)
  with r True rt show ?thesis
    by (auto simp: coordinator_hello_def part_ok_def Let_def split: prod.splits result.splits)
next
  case False
  then show ?thesis by (auto simp: coordinator_hello_def part_ok_stays [OF inv])
qed

lemma bind_Ok: "bind l t rt = (Ok u, rt') \<Longrightarrow> rt' = rt\<lparr>mirror := Some (l, t)\<rparr>"
  by (auto simp: bind_def split: result.splits if_splits)

lemma bind_Err: "bind l t rt = (Err e, rt') \<Longrightarrow> rt' = rt"
  by (auto simp: bind_def split: result.splits if_splits)

lemma start_lease_ok:
  assumes inv: "rx_inv s" and co: "rx_coordinator s \<noteq> None"
  shows "part_ok env s (start_lease env fd launch s w)"
proof -
  obtain k w1 where k: "random_token (e_os env) w = (k, w1)" by (cases "random_token (e_os env) w")
  show ?thesis
  proof (cases k)
    case (Err e)
    with k show ?thesis by (simp add: start_lease_def part_ok_stays [OF inv])
  next
    case (Ok token)
    obtain b rt where b: "bind launch token (rx_runtime s) = (b, rt)" by (cases "bind launch token (rx_runtime s)")
    have r: "reaches env (rx_runtime s) rt" by (rule reaches_ops(6) [OF b])
    have i: "rt_inv rt" using inv r by (auto simp: rx_inv_def intro: reaches_inv)
    show ?thesis
    proof (cases b)
      case (Err e)
      with b k \<open>k = Ok token\<close> bind_Err [of launch token "rx_runtime s" e rt] show ?thesis
        by (simp add: start_lease_def Let_def part_ok_stays [OF inv])
    next
      case (Ok u)
      then have "mirror_launch rt = Some launch" using b bind_Ok by (fastforce simp: mirror_launch_def)
      then have l: "rx_inv (s\<lparr>rx_runtime := rt, generation := g, rx_lease := Some \<lparr>le_fd = fd, le_mirror = m, le_launch_id = launch\<rparr>\<rparr>)"
        (is "rx_inv (?t g m)") for g m using i co by (simp add: rx_inv_def)
      have "part_ok env s (retire_lease env False (?t g m) v)" for g m v
      proof (rule part_ok_from)
        show "reaches env (rx_runtime s) rt" by (rule r)
        show "part_ok env (s\<lparr>rx_runtime := rt\<rparr>) (retire_lease env False (?t g m) v)"
          using part_ok_retire [where env = env and ack = False and w = v, OF l [of m g]] by (simp add: part_ok_def)
      qed
      moreover have "part_ok env s (Err e, s\<lparr>rx_runtime := rt\<rparr>, v)" "part_ok env s (Err e, s\<lparr>rx_runtime := rt, generation := g\<rparr>, v)"
        "part_ok env s (Ok (), ?t g m, v)" for e v g m using r l by (simp_all add: part_ok_def)
      ultimately show ?thesis using k \<open>k = Ok token\<close> b Ok
        by (auto simp: start_lease_def Let_def split: prod.splits result.splits)
    qed
  qed
qed

lemma control_client_ok:
  assumes inv: "rx_inv s"
  shows "part_ok env s (control_client env now fd s w)"
  by (auto simp: control_client_def reject_control_def part_ok_stays [OF inv] coordinator_hello_ok [OF inv]
      start_lease_ok [OF inv] split: result.splits prod.splits option.splits)

lemma control_part_ok: "rx_inv s \<Longrightarrow> part_ok env s (control_part env now ev s w)"
  by (auto simp: control_part_def part_ok_stays control_client_ok split: result.splits prod.splits)

lemma rx_turn_ok:
  assumes inv: "rx_inv s" and dec: "decoder_ok env"
  shows "part_ok env s (rx_turn env s w)"
proof -
  have run: "part_ok env s
    (and_then (coordinator_part env now e1 s v) (\<lambda>_ (s1, w2).
     and_then (lease_part env e2 s1 w2) (\<lambda>_ (s2, w3).
     and_then (mirror_part env now e3 s2 w3) (\<lambda>_ (s3, w4).
     and_then (expiry_part env now s3 w4) (\<lambda>_ (s4, w5). control_part env now e0 s4 w5)))))" for now e0 e1 e2 e3 v
    by (auto intro!: part_ok_and_then coordinator_part_ok [OF inv dec] lease_part_ok mirror_part_ok expiry_part_ok control_part_ok)
  show ?thesis
    by (auto simp: rx_turn_def Let_def part_ok_stays [OF inv] intro: run split: prod.splits poll_result.splits)
qed

subsection \<open>Reachable states of the process\<close>

text \<open>
  The states of the process between two turns. The world may be any other before each turn, since
  clients and the kernel act in between.
\<close>

inductive rx_reachable :: "('fd, 'w, 'b) rx_env \<Rightarrow> ('fd, 'b) receiver \<Rightarrow> bool" for env where
  rx_starts: "boot (e_ops env) b = Ok rt \<Longrightarrow>
    rx_reachable env \<lparr>rx_runtime = rt, rx_coordinator = None, rx_lease = None, generation = 0\<rparr>"
| rx_turns: "rx_reachable env s \<Longrightarrow> rx_turn env s w = (Ok u, s', w') \<Longrightarrow> rx_reachable env s'"

lemma boot_idle: "boot ops b = Ok rt \<Longrightarrow> idle rt"
  by (auto simp: boot_def idle_def split: result.splits)

lemma rx_inv_start:
  "boot ops b = Ok rt \<Longrightarrow> rx_inv \<lparr>rx_runtime = rt, rx_coordinator = None, rx_lease = None, generation = g\<rparr>"
  using boot_idle [of ops b rt] by (auto simp: rx_inv_def idle_def mirror_launch_def intro: boot_inv)

lemma rx_reachable_inv:
  assumes "rx_reachable env s" "decoder_ok env"
  shows "rx_inv s"
  using assms(1)
proof (induction rule: rx_reachable.induct)
  case (rx_starts b rt)
  then show ?case by (rule rx_inv_start)
next
  case (rx_turns s w u s' w')
  with rx_turn_ok [OF rx_turns.IH assms(2), of w] show ?case by (simp add: part_ok_def)
qed

text \<open>
  C12. The mirror authority follows the lease and the coordinator. In every state between two
  turns, the runtime authorises a mirror exactly for the launch of the current lease, that launch
  is the session's, and there is a lease only while a coordinator is connected. While none is, the
  route is closed, no source is present, and no seat is known to show anything but neutral.
\<close>

theorem authority_follows_lease:
  assumes "rx_reachable env s" "decoder_ok env"
  shows "mirror_launch (rx_runtime s) = map_option le_launch_id (rx_lease s) \<and>
    (rx_lease s = None \<or> session (pool (rx_runtime s)) = map_option le_launch_id (rx_lease s) \<and> rx_coordinator s \<noteq> None) \<and>
    (rx_coordinator s \<noteq> None \<or>
      \<not> game_route (rx_runtime s) \<and> rt_sources (rx_runtime s) = [] \<and> recovery_required (rx_runtime s) \<and>
      (\<forall>x \<in> set (seats (pool (rx_runtime s))). known_state x \<in> {None, Some neutral}))"
proof -
  have inv: "rx_inv s" by (rule rx_reachable_inv [OF assms])
  have rt: "rt_inv (rx_runtime s)" using inv by (simp add: rx_inv_def)
  have "session (pool (rx_runtime s)) = Some l" if "mirror_launch (rx_runtime s) = Some l" for l
    using rt_invD(2) [OF rt] that by (simp add: rt_link_def)
  moreover have "known_state x \<in> {None, Some neutral}" if "\<not> game_route (rx_runtime s)" "x \<in> set (seats (pool (rx_runtime s)))" for x
  proof -
    obtain i where "i < length (seats (pool (rx_runtime s)))" "x = seats (pool (rx_runtime s)) ! i"
      using \<open>x \<in> set _\<close> by (metis in_set_conv_nth)
    with routedD(3) [OF rt_coreD(1) [OF rt_invD(1) [OF rt]]] that(1) show ?thesis
      by (auto simp: seat_ok_def quiet_def)
  qed
  ultimately show ?thesis using inv by (cases "rx_lease s") (auto simp: rx_inv_def idle_def)
qed

text \<open>
  The process is a driver of the seat runtime: whatever arrives in a turn and whichever
  system call fails, also in a turn that ends the process, the runtime moves by a sequence of its
  own operations. What holds for every run of the runtime therefore holds in the process.
\<close>

theorem turns_run_the_runtime:
  assumes "rx_reachable env s" "decoder_ok env"
  shows "\<exists>xs. rx_runtime (fst (snd (rx_turn env s w))) = foldl (rt_step (e_ops env) (e_frame env)) (rx_runtime s) xs"
  using rx_turn_ok [OF rx_reachable_inv [OF assms] assms(2), of w]
  by (auto simp: part_ok_def reaches_def split: prod.splits)

lemma rx_loop_inv:
  assumes dec: "decoder_ok env"
  shows "rx_inv s \<Longrightarrow> rx_loop n env s w = Some (r, s', w') \<Longrightarrow> rt_inv (rx_runtime s')"
proof (induction n arbitrary: s w)
  case (Suc n)
  obtain x t v where x: "rx_turn env s w = (x, t, v)" by (cases "rx_turn env s w")
  have ok: "part_ok env s (x, t, v)" using rx_turn_ok [OF Suc.prems(1) dec, of w] x by simp
  show ?case
  proof (cases "os_stopping (e_os env) w")
    case True
    with Suc.prems show ?thesis by (simp add: rx_inv_def)
  next
    case False
    show ?thesis
    proof (cases x)
      case (Ok u)
      with ok have "rx_inv t" by (simp add: part_ok_def)
      with Suc False x Ok show ?thesis by auto
    next
      case (Err e)
      with Suc.prems False x part_ok_inv [OF ok] show ?thesis by auto
    qed
  qed
qed simp

text \<open>
  C13. The process always gives its authority back. However the loop ends, by a signal, a failed
  system call or a backend failure, the final state has no lease, no mirror, no source and a
  closed route, and when the process reports success every seat is known to be neutral.
\<close>

theorem exit_withdraws_authority:
  assumes "boot (e_ops env) b = Ok rt" "decoder_ok env" "rx_serve n env rt w = Some (r, s', w')"
  shows "rx_lease s' = None \<and> idle (rx_runtime s') \<and> rt_inv (rx_runtime s') \<and>
    (is_ok r \<longrightarrow> (\<forall>x \<in> set (seats (pool (rx_runtime s'))). known_state x = Some neutral))"
proof -
  let ?s = "\<lparr>rx_runtime = rt, rx_coordinator = None, rx_lease = None, generation = 0\<rparr>"
  from assms(3) obtain q s1 w1 where l: "rx_loop n env ?s w = Some (q, s1, w1)" and c: "rx_cleanup env q s1 w1 = (r, s', w')"
    by (auto simp: rx_serve_def split: option.splits)
  have i1: "rt_inv (rx_runtime s1)" by (rule rx_loop_inv [OF assms(2) rx_inv_start [OF assms(1)] l])
  obtain y s2 w2 where y: "retire_lease env False s1 w1 = (y, s2, w2)" by (cases "retire_lease env False s1 w1")
  note p = retire_lease_props [OF y]
  have i2: "rt_inv (rx_runtime s2)" by (rule reaches_inv [OF p(1) i1])
  obtain z rt' where z: "coordinator_lost (e_ops env) (rx_runtime s2) = (z, rt')"
    by (cases "coordinator_lost (e_ops env) (rx_runtime s2)")
  have s': "s' = s2\<lparr>rx_runtime := rt'\<rparr>" and ok: "is_ok r \<Longrightarrow> is_ok z"
    using c y z by (auto simp: rx_cleanup_def split: result.splits)
  have "rt_inv rt'" by (rule reaches_inv [OF reaches_ops(2) [OF z] i2])
  with coordinator_lost_core(8) [OF rt_invD(1) [OF i2] z] coordinator_lost_idle [OF i2 z] ok p(2) show ?thesis
    by (auto simp: s')
qed

subsection \<open>Who may act\<close>

text \<open>
  Only authenticated peers act. A control connection changes nothing unless the kernel
  reports the permitted user and group for it, and a mirror connection changes nothing unless
  there is a lease and the kernel reports Sunshine's user and group.
\<close>

theorem only_authenticated_peers_act:
  "(fst (snd (control_client env now fd s w)) = s \<or>
     os_peer (e_os env) fd w = Ok (control_uid (e_options env), control_gid (e_options env))) \<and>
   (fst (snd (mirror_part env now ev s w)) = s \<or>
     (\<exists>v fd' w1. rx_lease s = Some v \<and> os_accept (e_os env) (li_fd (le_mirror v)) w = (Ok fd', w1) \<and>
        os_peer (e_os env) fd' w1 = Ok (sunshine_uid (e_options env), sunshine_gid (e_options env))))"
proof
  show "fst (snd (control_client env now fd s w)) = s \<or>
     os_peer (e_os env) fd w = Ok (control_uid (e_options env), control_gid (e_options env))"
    by (auto simp: control_client_def reject_control_def split: result.splits)
  show "fst (snd (mirror_part env now ev s w)) = s \<or>
     (\<exists>v fd' w1. rx_lease s = Some v \<and> os_accept (e_os env) (li_fd (le_mirror v)) w = (Ok fd', w1) \<and>
        os_peer (e_os env) fd' w1 = Ok (sunshine_uid (e_options env), sunshine_gid (e_options env)))"
    by (auto simp: mirror_part_def split: result.splits option.splits prod.splits bool.splits if_splits)
qed

subsection \<open>An example process\<close>

text \<open>
  A world that scripts the events of each turn and the packets received; the process is asked to
  stop when the script is over.
\<close>

record script =
  sc_polls :: "revents list list"
  sc_packets :: "string list"

definition example_os :: "(nat, script) rx_os" where
  "example_os =
     \<lparr>os_stopping = (\<lambda>w. sc_polls w = []),
      os_poll = (\<lambda>_ w. (Polled (hd (sc_polls w)), w\<lparr>sc_polls := tl (sc_polls w)\<rparr>)),
      os_now = (\<lambda>_. 0),
      os_recv = (\<lambda>_ w. case sc_packets w of [] \<Rightarrow> (Err ''empty'', w) | p # ps \<Rightarrow> (Ok p, w\<lparr>sc_packets := ps\<rparr>)),
      os_send = (\<lambda>_ _ w. (Ok (), w)),
      os_accept = (\<lambda>fd w. (Ok (fd + 1), w)),
      os_peer = (\<lambda>_ _. Ok (1, 1)),
      os_random = (\<lambda>w. (Ok (replicate 32 (CHR 0xAB)), w)),
      os_socket = (\<lambda>w. (Ok 9, w)),
      os_bind = (\<lambda>_ _ w. (Ok (), w)),
      os_close = (\<lambda>_ w. w),
      os_lstat = (\<lambda>_ _. Err (NotFound [])),
      os_unlink = (\<lambda>_ w. (Ok (), w)), os_sync_parent = (\<lambda>_ w. (Ok (), w)), os_create = (\<lambda>_ w. (Ok (), w)),
      os_write = (\<lambda>_ _ w. (Ok (), w)), os_chgrp = (\<lambda>_ _ w. (Ok (), w)), os_chmod = (\<lambda>_ _ w. (Ok (), w)),
      os_fsync = (\<lambda>_ w. (Ok (), w)), os_rename = (\<lambda>_ _ w. (Ok (), w)), os_ready = (\<lambda>w. (Ok (), w)), os_pid = 3\<rparr>"

definition example_env :: "(nat, script, (nat \<times> gamepad_state) list) rx_env" where
  "example_env =
     \<lparr>e_os = example_os, e_ops = example_backend, e_request = (\<lambda>bytes. if bytes = [] then Some Hello else Some Poll),
      e_reply = (\<lambda>_. Ok []), e_frame = (\<lambda>_. None), e_launch = (\<lambda>_ _ _. Ok []),
      e_options = \<lparr>runtime_dir = ''/run'', control_uid = 1, control_gid = 1, sunshine_uid = 1, sunshine_gid = 1,
        opt_event_gid = 1, dry_run = False, dry_run_fail_create_slot = None\<rparr>,
      e_control = 0, e_mirror_path = ''/run/m'', e_sidecar_path = ''/run/s''\<rparr>"

definition example_start :: "(nat, (nat \<times> gamepad_state) list) receiver" where
  "example_start = \<lparr>rx_runtime = example_runtime, rx_coordinator = None, rx_lease = None, generation = 0\<rparr>"

text \<open>The world in which a control client says hello.\<close>

definition example_hello :: script where
  "example_hello = \<lparr>sc_polls = [[\<lparr>pollin = True, pollhup = False\<rparr>, quiet_events, quiet_events, quiet_events]],
     sc_packets = [[char_of COORDINATION_VERSION]]\<rparr>"

lemma example_env_decoder: "decoder_ok example_env"
  by (auto simp: decoder_ok_def example_env_def split: if_splits)

lemma example_env_sel [simp]:
  "e_os example_env = example_os" "e_ops example_env = example_backend" "e_frame example_env = (\<lambda>_. None)"
  by (simp_all add: example_env_def)

lemma example_start_reachable: "rx_reachable example_env example_start"
  unfolding example_start_def by (rule rx_starts [of _ "[]"]) (simp add: example_runtime_boot)

lemma example_hello_turn:
  "\<exists>s' w'. rx_turn example_env example_start example_hello = (Ok (), s', w') \<and> rx_coordinator s' \<noteq> None"
proof -
  have rt: "rt_sources example_runtime = []" "\<not> feedback_failed example_runtime" by code_simp+
  have ev: "control_part example_env 0 \<lparr>pollin = True, pollhup = False\<rparr> example_start (example_hello\<lparr>sc_polls := []\<rparr>) =
      coordinator_hello example_env 0 1 [char_of COORDINATION_VERSION] example_start (example_hello\<lparr>sc_polls := [], sc_packets := []\<rparr>)"
    by (simp add: control_part_def control_client_def example_env_def example_os_def receive_packet_def example_hello_def
        first_byte_def COORDINATION_VERSION_def MAX_COORDINATION_BYTES_def)
  have "rx_turn example_env example_start example_hello =
      coordinator_hello example_env 0 1 [char_of COORDINATION_VERSION] example_start (example_hello\<lparr>sc_polls := [], sc_packets := []\<rparr>)"
    unfolding ev [symmetric]
    by (simp add: rx_turn_def example_os_def example_hello_def coordinator_part_def lease_part_def mirror_part_def
        expiry_part_def example_start_def quiet_events_def expire_stale_def rt List.map_filter_def Let_def)
  then show ?thesis
    by (auto simp: coordinator_hello_def decode_coordination_def first_byte_def COORDINATION_VERSION_def
        MAX_COORDINATION_BYTES_def example_env_def example_os_def example_start_def send_coordination_def
        split: prod.splits)
qed

text \<open>Witness of C12: after the hello there is a coordinator and no lease.\<close>

theorem authority_follows_lease_witness:
  "\<exists>s. rx_reachable example_env s \<and> rx_coordinator s \<noteq> None \<and>
     mirror_launch (rx_runtime s) = map_option le_launch_id (rx_lease s)"
proof -
  obtain s' w' where t: "rx_turn example_env example_start example_hello = (Ok (), s', w')" "rx_coordinator s' \<noteq> None"
    using example_hello_turn by blast
  have r: "rx_reachable example_env s'" by (rule rx_turns [OF example_start_reachable t(1)])
  from authority_follows_lease [OF r example_env_decoder] r t(2) show ?thesis by blast
qed

text \<open>An instance: the turn of the hello.\<close>

theorem turns_run_the_runtime_witness:
  "\<exists>xs. rx_runtime (fst (snd (rx_turn example_env example_start example_hello))) =
     foldl (rt_step example_backend (\<lambda>_. None)) example_runtime xs"
  using turns_run_the_runtime [OF example_start_reachable example_env_decoder, of example_hello]
  by (simp add: example_start_def)

text \<open>Witness of C13: a process that is asked to stop at once.\<close>

theorem exit_withdraws_authority_witness:
  "\<exists>r s' w'. rx_serve 1 example_env example_runtime \<lparr>sc_polls = [], sc_packets = []\<rparr> = Some (r, s', w') \<and>
     rx_lease s' = None \<and> idle (rx_runtime s')"
proof -
  let ?w = "\<lparr>sc_polls = [], sc_packets = []\<rparr>"
  have "rx_serve 1 example_env example_runtime ?w \<noteq> None"
    by (simp add: rx_serve_def example_os_def)
  then obtain r s' w' where s: "rx_serve 1 example_env example_runtime ?w = Some (r, s', w')" by auto
  have "boot (e_ops example_env) [] = Ok example_runtime" by (simp add: example_runtime_boot)
  from exit_withdraws_authority [OF this example_env_decoder s] s show ?thesis by blast
qed

text \<open>The bytes of the example.\<close>

theorem tokens_valid_and_distinct_witness:
  "\<exists>token. random_token example_os example_hello = (Ok token, example_hello) \<and> validate_token token = Ok ()"
proof -
  have "os_random example_os example_hello = (Ok (replicate 32 (CHR 0xAB)), example_hello)"
    by (simp add: example_os_def)
  from tokens_valid_and_distinct [OF this] show ?thesis by auto
qed

end
