(* ===== verification/Limits_Daemon.thy ===== *)
theory Limits_Daemon
  imports Host_Files
begin

text \<open>
  The daemon that limits CPU and GPU frequencies, \<open>services/limitsd/src/lib.rs\<close>: which
  frequencies a percentage selects, in which order an interval is written, and the session state
  machine with its roll back. Percentages (\<open>u8\<close>) and frequencies (\<open>u64\<close>) are natural numbers; the
  casts to \<open>u64\<close> are written out. Files are the parameter \<open>host_files\<close>, JSON is not modelled.
  A division by zero or an empty step list panics in the source; the invariant \<open>service_ok\<close> rules
  both out.
\<close>

definition PARENT_SLICE :: string where "PARENT_SLICE = ''korri.slice''"
definition GAME_SLICE :: string where "GAME_SLICE = ''korri-games.slice''"

record limits =
  lim_min :: nat
  lim_max :: nat

definition limits_validate :: "limits \<Rightarrow> (unit, string) result" where
  "limits_validate l =
     (if 100 < lim_min l \<or> lim_max l = 0 \<or> 100 < lim_max l \<or> lim_max l < lim_min l
      then Err ''percents require 0 <= min <= max <= 100 and max >= 1''
      else Ok ())"

record defaults =
  def_cpu :: limits
  def_gpu :: limits
  governor :: string

datatype request =
    Describe
  | ApplyDevice defaults
  | ApplySession string limits limits
  | EndSession string

record cpu_policy =
  policy_name :: string
  cpus :: "nat list"
  cpuinfo_max_freq :: nat
  available_frequencies :: "nat list"
  available_governors :: "string list"
  min_freq :: nat

record gpu_devfreq =
  gpu_name :: string
  gpu_frequencies :: "nat list"

datatype response_value = Description defaults "cpu_policy list" "gpu_devfreq list" | Empty
datatype response = ResponseOk response_value | ResponseErr string

record roots =
  sysfs :: string
  cgroup_root :: string

definition roots_cpu :: "roots \<Rightarrow> string \<Rightarrow> string" where
  "roots_cpu r name = path_join (path_join (sysfs r) ''devices/system/cpu/cpufreq'') name"

definition roots_gpu :: "roots \<Rightarrow> string \<Rightarrow> string" where
  "roots_gpu r name = path_join (path_join (sysfs r) ''class/devfreq'') name"

definition parent_slice :: "roots \<Rightarrow> string" where
  "parent_slice r = path_join (cgroup_root r) PARENT_SLICE"

definition games_slice :: "roots \<Rightarrow> string" where
  "games_slice r = path_join (parent_slice r) GAME_SLICE"

datatype session =
    Active (session_unit: string) defaults limits limits
  | Reverting (session_unit: string)

record limitsd =
  ld_roots :: roots
  ld_defaults :: defaults
  ld_device :: defaults
  policies :: "cpu_policy list"
  gpus :: "gpu_devfreq list"
  ld_session :: "session option"

subsection \<open>Reading\<close>

definition read_text :: "'w host_files \<Rightarrow> string \<Rightarrow> 'w \<Rightarrow> (string, string) result" where
  "read_text fs p w =
     (case fs_read fs p w of
        Ok s \<Rightarrow> Ok (trim s)
      | Err e \<Rightarrow> Err (''read '' @ p @ '': '' @ io_text e))"

definition parse_u64 :: "string \<Rightarrow> nat option" where
  "parse_u64 s = parse_unsigned (2 ^ 64 - 1) s"

definition parse_u32 :: "string \<Rightarrow> nat option" where
  "parse_u32 s = parse_unsigned (2 ^ 32 - 1) s"

definition number :: "'w host_files \<Rightarrow> string \<Rightarrow> 'w \<Rightarrow> (nat, string) result" where
  "number fs p w =
     (case read_text fs p w of
        Err e \<Rightarrow> Err e
      | Ok s \<Rightarrow> ok_or (''invalid frequency in '' @ p) (parse_u64 s))"

text \<open>Collecting an iterator of results: the first error wins.\<close>

fun collect :: "('a \<Rightarrow> ('b, 'e) result) \<Rightarrow> 'a list \<Rightarrow> ('b list, 'e) result" where
  "collect f [] = Ok []"
| "collect f (x # xs) =
     (case f x of
        Err e \<Rightarrow> Err e
      | Ok y \<Rightarrow> (case collect f xs of Err e \<Rightarrow> Err e | Ok ys \<Rightarrow> Ok (y # ys)))"

definition frequencies :: "'w host_files \<Rightarrow> string \<Rightarrow> 'w \<Rightarrow> (nat list, string) result" where
  "frequencies fs p w =
     (case fs_read fs p w of
        Err (NotFound _) \<Rightarrow> Ok []
      | Err e \<Rightarrow> Err (''read '' @ p @ '': '' @ io_text e)
      | Ok text \<Rightarrow>
          (case collect (\<lambda>v. ok_or (''invalid frequency in '' @ p) (parse_u64 v)) (split_whitespace text) of
             Err e \<Rightarrow> Err e
           | Ok vs \<Rightarrow>
               if 0 \<in> set vs then Err (''zero frequency in '' @ p)
               else Ok (remdups_adj (sort vs))))"

subsection \<open>From percentages to frequencies\<close>

definition clamp :: "nat \<Rightarrow> nat \<Rightarrow> nat \<Rightarrow> nat" where
  "clamp v lo hi = (if v < lo then lo else if hi < v then hi else v)"

definition step_percent :: "nat \<Rightarrow> nat \<Rightarrow> nat" where
  "step_percent hi step = (step * 100 + hi div 2) div hi"

definition as_u64 :: "nat \<Rightarrow> nat" where
  "as_u64 n = n mod 2 ^ 64"

definition mapped :: "limits \<Rightarrow> nat \<Rightarrow> nat \<Rightarrow> nat list \<Rightarrow> nat \<times> nat" where
  "mapped l hi lo steps =
     (let raw_min = as_u64 ((hi * lim_min l + 99) div 100);
          raw_max = as_u64 (hi * lim_max l div 100);
          mx = (case find (\<lambda>v. step_percent hi v \<le> lim_max l) (rev steps) of
                  Some v \<Rightarrow> v
                | None \<Rightarrow> (case steps of v # _ \<Rightarrow> v | [] \<Rightarrow> clamp raw_max lo hi));
          mn = (case find (\<lambda>v. lim_min l \<le> step_percent hi v) steps of
                  Some v \<Rightarrow> v
                | None \<Rightarrow> if steps = [] then clamp raw_min lo hi else last steps)
      in (min mn mx, mx))"

definition validate_unit :: "string \<Rightarrow> (unit, string) result" where
  "validate_unit u =
     (if length u \<noteq> length ''korri-game-'' + 32 + length ''.service''
         \<or> \<not> starts_with ''korri-game-'' u
         \<or> \<not> ends_with ''.service'' u
         \<or> \<not> list_all is_lower_hex (take 32 (drop 11 u))
      then Err (''unit must match ^korri-game-[0-9a-f]{32}'' @ [CHR 0x5C] @ ''.service$'')
      else Ok ())"

subsection \<open>CPU policies\<close>

definition is_policy_name :: "string \<Rightarrow> bool" where
  "is_policy_name name =
     (case strip_prefix ''policy'' name of
        None \<Rightarrow> False
      | Some suffix \<Rightarrow> suffix \<noteq> [] \<and> list_all is_ascii_digit suffix)"

definition read_policy :: "'w host_files \<Rightarrow> roots \<Rightarrow> string \<Rightarrow> 'w \<Rightarrow> (cpu_policy, string) result" where
  "read_policy fs r name w =
     (let path = roots_cpu r name in
      case number fs (path_join path ''cpuinfo_max_freq'') w of Err e \<Rightarrow> Err e | Ok hi \<Rightarrow>
      case number fs (path_join path ''cpuinfo_min_freq'') w of Err e \<Rightarrow> Err e | Ok lo \<Rightarrow>
      if lo = 0 \<or> hi < lo then Err (''invalid hardware frequency range for '' @ name)
      else
        case read_text fs (path_join path ''related_cpus'') w of Err e \<Rightarrow> Err e | Ok related \<Rightarrow>
        case collect (\<lambda>s. ok_or ''invalid related_cpus'' (parse_u32 s)) (split_whitespace related) of
          Err e \<Rightarrow> Err e | Ok cs \<Rightarrow>
        case frequencies fs (path_join path ''scaling_available_frequencies'') w of Err e \<Rightarrow> Err e | Ok steps \<Rightarrow>
        case read_text fs (path_join path ''scaling_available_governors'') w of Err e \<Rightarrow> Err e | Ok govs \<Rightarrow>
        Ok \<lparr>policy_name = name, cpus = cs, cpuinfo_max_freq = hi, available_frequencies = steps,
            available_governors = split_whitespace govs, min_freq = lo\<rparr>)"

fun read_policies ::
  "'w host_files \<Rightarrow> roots \<Rightarrow> (string option, string) result list \<Rightarrow> 'w \<Rightarrow> (cpu_policy list, string) result" where
  "read_policies fs r [] w = Ok []"
| "read_policies fs r (Err e # es) w = Err e"
| "read_policies fs r (Ok None # es) w = Err ''non-UTF8 CPU policy''"
| "read_policies fs r (Ok (Some name) # es) w =
     (if \<not> is_policy_name name then read_policies fs r es w
      else case read_policy fs r name w of Err e \<Rightarrow> Err e | Ok p \<Rightarrow>
           case read_policies fs r es w of Err e \<Rightarrow> Err e | Ok ps \<Rightarrow> Ok (p # ps))"

definition cpu_policies :: "'w host_files \<Rightarrow> roots \<Rightarrow> 'w \<Rightarrow> (cpu_policy list, string) result" where
  "cpu_policies fs r w =
     (let cpu_root = path_join (sysfs r) ''devices/system/cpu/cpufreq'' in
      case fs_entries fs cpu_root w of
        Ok entries \<Rightarrow>
          (case read_policies fs r entries w of
             Err e \<Rightarrow> Err e
           | Ok ps \<Rightarrow> Ok (sort_key policy_name ps))
      | Err (NotFound _) \<Rightarrow> Ok []
      | Err e \<Rightarrow> Err (''read '' @ cpu_root @ '': '' @ io_text e))"

subsection \<open>Writing\<close>

text \<open>
  \<open>Limitsd::write\<close>: a failed write below a real \<open>/sys\<close> is retried once after a remount; the
  cgroup tree is never remounted.
\<close>

definition ld_write ::
  "'w host_files \<Rightarrow> roots \<Rightarrow> string \<Rightarrow> string \<Rightarrow> 'w \<Rightarrow> (unit, string) result \<times> 'w" where
  "ld_write fs r p v w =
     (case fs_write fs p (v @ [CHR 0x0A]) w of
        (Ok _, w1) \<Rightarrow> (Ok (), w1)
      | (Err first, w1) \<Rightarrow>
          if path_eq (sysfs r) ''/sys'' \<and> path_starts_with (sysfs r) p \<and> \<not> path_starts_with (cgroup_root r) p
          then case fs_write fs p (v @ [CHR 0x0A]) (fs_remount fs w1) of
                 (Ok _, w2) \<Rightarrow> (Ok (), w2)
               | (Err e, w2) \<Rightarrow>
                   (Err (''write '' @ p @ '': '' @ io_text e @ '' (before retry: '' @ io_text first @ '')''), w2)
          else (Err (''write '' @ p @ '': '' @ io_text first), w1))"

fun governor_missing :: "string \<Rightarrow> cpu_policy list \<Rightarrow> (unit, string) result" where
  "governor_missing g [] = Ok ()"
| "governor_missing g (p # ps) =
     (if g \<notin> set (available_governors p)
      then Err (''governor '' @ [CHR 0x27] @ g @ [CHR 0x27] @ '' is unavailable on '' @ policy_name p)
      else governor_missing g ps)"

definition validate_device :: "limitsd \<Rightarrow> defaults \<Rightarrow> (unit, string) result" where
  "validate_device s d =
     (case limits_validate (def_cpu d) of Err e \<Rightarrow> Err e | Ok _ \<Rightarrow>
      case limits_validate (def_gpu d) of Err e \<Rightarrow> Err e | Ok _ \<Rightarrow>
      governor_missing (governor d) (policies s))"

definition write_interval ::
  "'w host_files \<Rightarrow> roots \<Rightarrow> string \<Rightarrow> string \<Rightarrow> string \<Rightarrow> nat \<Rightarrow> nat \<Rightarrow> 'w \<Rightarrow> (unit, string) result \<times> 'w" where
  "write_interval fs r root min_name max_name mn mx w =
     (case number fs (path_join root min_name) w of
        Err e \<Rightarrow> (Err e, w)
      | Ok old_min \<Rightarrow>
          if mx < old_min
          then and_then (ld_write fs r (path_join root min_name) (decimal mn) w)
                 (\<lambda>_. ld_write fs r (path_join root max_name) (decimal mx))
          else and_then (ld_write fs r (path_join root max_name) (decimal mx) w)
                 (\<lambda>_. ld_write fs r (path_join root min_name) (decimal mn)))"

definition apply_policy ::
  "'w host_files \<Rightarrow> roots \<Rightarrow> defaults \<Rightarrow> nat \<Rightarrow> cpu_policy \<Rightarrow> 'w \<Rightarrow> (unit, string) result \<times> 'w" where
  "apply_policy fs r d cpu_max p w =
     (let path = roots_cpu r (policy_name p) in
      and_then (ld_write fs r (path_join path ''scaling_governor'') (governor d) w) (\<lambda>_ w1.
        let (mn, _) = mapped (def_cpu d) (cpuinfo_max_freq p) (min_freq p) (available_frequencies p);
            (_, mx) = mapped \<lparr>lim_min = 0, lim_max = cpu_max\<rparr> (cpuinfo_max_freq p) (min_freq p) (available_frequencies p)
        in write_interval fs r path ''scaling_min_freq'' ''scaling_max_freq'' mn mx w1))"

fun apply_policies ::
  "'w host_files \<Rightarrow> roots \<Rightarrow> defaults \<Rightarrow> nat \<Rightarrow> cpu_policy list \<Rightarrow> 'w \<Rightarrow> (unit, string) result \<times> 'w" where
  "apply_policies fs r d cpu_max [] w = (Ok (), w)"
| "apply_policies fs r d cpu_max (p # ps) w =
     and_then (apply_policy fs r d cpu_max p w) (\<lambda>_. apply_policies fs r d cpu_max ps)"

definition apply_gpu ::
  "'w host_files \<Rightarrow> roots \<Rightarrow> limits \<Rightarrow> gpu_devfreq \<Rightarrow> 'w \<Rightarrow> (unit, string) result \<times> 'w" where
  "apply_gpu fs r gpu n w =
     (let bottom = hd (gpu_frequencies n);
          upper = last (gpu_frequencies n);
          (mn, mx) = mapped gpu upper bottom (gpu_frequencies n)
      in write_interval fs r (roots_gpu r (gpu_name n)) ''min_freq'' ''max_freq'' mn mx w)"

fun apply_gpus ::
  "'w host_files \<Rightarrow> roots \<Rightarrow> limits \<Rightarrow> gpu_devfreq list \<Rightarrow> 'w \<Rightarrow> (unit, string) result \<times> 'w" where
  "apply_gpus fs r gpu [] w = (Ok (), w)"
| "apply_gpus fs r gpu (n # ns) w = and_then (apply_gpu fs r gpu n w) (\<lambda>_. apply_gpus fs r gpu ns)"

definition apply_hardware ::
  "'w host_files \<Rightarrow> limitsd \<Rightarrow> defaults \<Rightarrow> nat \<Rightarrow> limits \<Rightarrow> 'w \<Rightarrow> (unit, string) result \<times> 'w" where
  "apply_hardware fs s d cpu_max gpu w =
     and_then (apply_policies fs (ld_roots s) d cpu_max (policies s) w)
       (\<lambda>_. apply_gpus fs (ld_roots s) gpu (gpus s))"

definition apply_device ::
  "'w host_files \<Rightarrow> limitsd \<Rightarrow> defaults \<Rightarrow> 'w \<Rightarrow> (unit, string) result \<times> 'w" where
  "apply_device fs s d w = apply_hardware fs s d (lim_max (def_cpu d)) (def_gpu d) w"

subsection \<open>Starting\<close>

definition valid_gpu_node :: "string \<Rightarrow> bool" where
  "valid_gpu_node name \<longleftrightarrow>
     name \<noteq> [] \<and> name \<noteq> ''.'' \<and> name \<noteq> ''..'' \<and>
     list_all (\<lambda>c. is_ascii_digit c \<or> (CHR ''a'' \<le> c \<and> c \<le> CHR ''z'') \<or> (CHR ''A'' \<le> c \<and> c \<le> CHR ''Z'')
                  \<or> c \<in> set ''._:-'') name"

fun read_gpus :: "'w host_files \<Rightarrow> roots \<Rightarrow> string list \<Rightarrow> 'w \<Rightarrow> (gpu_devfreq list, string) result" where
  "read_gpus fs r [] w = Ok []"
| "read_gpus fs r (name # names) w =
     (if \<not> valid_gpu_node name then Err ''invalid configured GPU node''
      else case frequencies fs (path_join (roots_gpu r name) ''available_frequencies'') w of Err e \<Rightarrow> Err e | Ok steps \<Rightarrow>
        if steps = [] then Err (''GPU '' @ name @ '' has no available_frequencies'')
        else case read_gpus fs r names w of Err e \<Rightarrow> Err e | Ok gs \<Rightarrow>
          Ok (\<lparr>gpu_name = name, gpu_frequencies = steps\<rparr> # gs))"

fun prepare_slices ::
  "'w host_files \<Rightarrow> roots \<Rightarrow> string list \<Rightarrow> 'w \<Rightarrow> (unit, string) result \<times> 'w" where
  "prepare_slices fs r [] w = (Ok (), w)"
| "prepare_slices fs r (sl # sls) w =
     and_then (ld_write fs r (path_join sl ''cgroup.subtree_control'') ''+cpu'' w) (\<lambda>_ w1.
     and_then (ld_write fs r (path_join sl ''cpu.uclamp.min'') ''max'' w1) (\<lambda>_.
     prepare_slices fs r sls))"

definition ld_start ::
  "'w host_files \<Rightarrow> roots \<Rightarrow> defaults \<Rightarrow> string list \<Rightarrow> 'w \<Rightarrow> (limitsd, string) result \<times> 'w" where
  "ld_start fs r d gpu_nodes w =
     (case cpu_policies fs r w of Err e \<Rightarrow> (Err e, w) | Ok ps \<Rightarrow>
      case read_gpus fs r gpu_nodes w of Err e \<Rightarrow> (Err e, w) | Ok gs \<Rightarrow>
      let s = \<lparr>ld_roots = r, ld_defaults = d, ld_device = d, policies = ps, gpus = gs, ld_session = None\<rparr> in
      case validate_device s d of Err e \<Rightarrow> (Err e, w) | Ok _ \<Rightarrow>
      and_then (prepare_slices fs r [parent_slice r, games_slice r] w) (\<lambda>_ w1.
      and_then (apply_device fs s (ld_device s) w1) (\<lambda>_ w2. (Ok s, w2))))"

subsection \<open>The game's cgroup\<close>

definition game_cgroup :: "'w host_files \<Rightarrow> roots \<Rightarrow> string \<Rightarrow> 'w \<Rightarrow> (string, string) result" where
  "game_cgroup fs r u w =
     (case validate_unit u of Err e \<Rightarrow> Err e | Ok _ \<Rightarrow>
      case fs_canonicalize fs (cgroup_root r) w of
        Err e \<Rightarrow> Err (''resolve cgroup root: '' @ io_text e)
      | Ok root \<Rightarrow>
          let expected = path_join (path_join (path_join root PARENT_SLICE) GAME_SLICE) u in
          case fs_canonicalize fs (path_join (games_slice r) u) w of
            Err e \<Rightarrow> Err (''resolve game cgroup: '' @ io_text e)
          | Ok path \<Rightarrow>
              if \<not> path_eq path expected
              then Err ''game cgroup must resolve at korri.slice/korri-games.slice/<unit>''
              else Ok path)"

definition populated :: "'w host_files \<Rightarrow> roots \<Rightarrow> string \<Rightarrow> 'w \<Rightarrow> (bool, string) result" where
  "populated fs r u w =
     (case fs_exists fs (path_join (games_slice r) u) w of
        Err e \<Rightarrow> Err (io_text e)
      | Ok False \<Rightarrow> Ok False
      | Ok True \<Rightarrow>
          (case game_cgroup fs r u w of Err e \<Rightarrow> Err e | Ok path \<Rightarrow>
           case read_text fs (path_join path ''cgroup.events'') w of Err e \<Rightarrow> Err e | Ok events \<Rightarrow>
           case List.map_filter (strip_prefix ''populated '') (text_lines events) of
             [] \<Rightarrow> Err ''invalid cgroup.events populated value''
           | v # _ \<Rightarrow>
               if v = ''0'' then Ok False
               else if v = ''1'' then Ok True
               else Err ''invalid cgroup.events populated value''))"

definition write_uclamp ::
  "'w host_files \<Rightarrow> roots \<Rightarrow> string \<Rightarrow> limits \<Rightarrow> 'w \<Rightarrow> (unit, string) result \<times> 'w" where
  "write_uclamp fs r u cpu w =
     (case game_cgroup fs r u w of
        Err e \<Rightarrow> (Err e, w)
      | Ok path \<Rightarrow>
          and_then (ld_write fs r (path_join path ''cpu.uclamp.min'') (decimal (lim_min cpu)) w)
            (\<lambda>_. ld_write fs r (path_join path ''cpu.uclamp.max'') (decimal (lim_max cpu))))"

subsection \<open>Sessions\<close>

text \<open>
  \<open>restore\<close> marks the session as reverting before the first write, and forgets it after the last
  one succeeded.
\<close>

definition restore :: "'w host_files \<Rightarrow> limitsd \<Rightarrow> 'w \<Rightarrow> (unit, string) result \<times> limitsd \<times> 'w" where
  "restore fs s w =
     (let s1 = s\<lparr>ld_session := map_option (\<lambda>x. Reverting (session_unit x)) (ld_session s)\<rparr> in
      case apply_device fs s1 (ld_device s1) w of
        (Err e, w1) \<Rightarrow> (Err e, s1, w1)
      | (Ok _, w1) \<Rightarrow>
          (case ld_session s1 of
             None \<Rightarrow> (Ok (), s1\<lparr>ld_session := None\<rparr>, w1)
           | Some x \<Rightarrow>
               (case fs_exists fs (path_join (games_slice (ld_roots s1)) (session_unit x)) w1 of
                  Err e \<Rightarrow> (Err (io_text e), s1, w1)
                | Ok False \<Rightarrow> (Ok (), s1\<lparr>ld_session := None\<rparr>, w1)
                | Ok True \<Rightarrow>
                    (case write_uclamp fs (ld_roots s1) (session_unit x) \<lparr>lim_min = 0, lim_max = 100\<rparr> w1 of
                       (Err e, w2) \<Rightarrow> (Err e, s1, w2)
                     | (Ok _, w2) \<Rightarrow> (Ok (), s1\<lparr>ld_session := None\<rparr>, w2)))))"

definition poll_session :: "'w host_files \<Rightarrow> limitsd \<Rightarrow> 'w \<Rightarrow> (unit, string) result \<times> limitsd \<times> 'w" where
  "poll_session fs s w =
     (case ld_session s of
        None \<Rightarrow> (Ok (), s, w)
      | Some (Reverting u) \<Rightarrow> restore fs s w
      | Some (Active u d cpu gpu) \<Rightarrow>
          (case populated fs (ld_roots s) u w of
             Err e \<Rightarrow> (Err e, s, w)
           | Ok True \<Rightarrow> (Ok (), s, w)
           | Ok False \<Rightarrow> restore fs s w))"

fun clamp_slices :: "'w host_files \<Rightarrow> roots \<Rightarrow> string list \<Rightarrow> 'w \<Rightarrow> (unit, string) result \<times> 'w" where
  "clamp_slices fs r [] w = (Ok (), w)"
| "clamp_slices fs r (sl # sls) w =
     and_then (ld_write fs r (path_join sl ''cpu.uclamp.min'') ''max'' w) (\<lambda>_. clamp_slices fs r sls)"

definition apply_session ::
  "'w host_files \<Rightarrow> limitsd \<Rightarrow> string \<Rightarrow> defaults \<Rightarrow> limits \<Rightarrow> limits \<Rightarrow> 'w \<Rightarrow> (unit, string) result \<times> 'w" where
  "apply_session fs s u d cpu gpu w =
     and_then (apply_hardware fs s d (max (lim_max (def_cpu d)) (lim_max cpu)) gpu w)
       (\<lambda>_. write_uclamp fs (ld_roots s) u cpu)"

definition reassert :: "'w host_files \<Rightarrow> limitsd \<Rightarrow> 'w \<Rightarrow> (unit, string) result \<times> limitsd \<times> 'w" where
  "reassert fs s w =
     (case cpu_policies fs (ld_roots s) w of
        Err e \<Rightarrow> (Err e, s, w)
      | Ok ps \<Rightarrow>
          (case poll_session fs (s\<lparr>policies := ps\<rparr>) w of
             (Err e, s1, w1) \<Rightarrow> (Err e, s1, w1)
           | (Ok _, s1, w1) \<Rightarrow>
               (case clamp_slices fs (ld_roots s1) [parent_slice (ld_roots s1), games_slice (ld_roots s1)] w1 of
                  (Err e, w2) \<Rightarrow> (Err e, s1, w2)
                | (Ok _, w2) \<Rightarrow>
                    let (x, w3) =
                      (case ld_session s1 of
                         Some (Active u d cpu gpu) \<Rightarrow> apply_session fs s1 u d cpu gpu w2
                       | _ \<Rightarrow> apply_device fs s1 (ld_device s1) w2)
                    in (x, s1, w3))))"

definition execute_device ::
  "'w host_files \<Rightarrow> limitsd \<Rightarrow> defaults \<Rightarrow> 'w \<Rightarrow> (response_value, string) result \<times> limitsd \<times> 'w" where
  "execute_device fs s d w =
     (case validate_device s d of
        Err e \<Rightarrow> (Err e, s, w)
      | Ok _ \<Rightarrow>
          if ld_session s = None
          then case apply_device fs s d w of
                 (Err e, w1) \<Rightarrow> (Err e, s, snd (apply_device fs s (ld_device s) w1))
               | (Ok _, w1) \<Rightarrow> (Ok Empty, s\<lparr>ld_device := d\<rparr>, w1)
          else (Ok Empty, s\<lparr>ld_device := d\<rparr>, w))"

definition session_request ::
  "'w host_files \<Rightarrow> limitsd \<Rightarrow> string \<Rightarrow> limits \<Rightarrow> limits \<Rightarrow> 'w \<Rightarrow> (unit, string) result" where
  "session_request fs s u cpu gpu w =
     (case validate_unit u of Err e \<Rightarrow> Err e | Ok _ \<Rightarrow>
      case limits_validate cpu of Err e \<Rightarrow> Err e | Ok _ \<Rightarrow>
      case limits_validate gpu of Err e \<Rightarrow> Err e | Ok _ \<Rightarrow>
      case validate_device s (ld_device s) of Err e \<Rightarrow> Err e | Ok _ \<Rightarrow>
      if ld_session s \<noteq> None then Err ''a session is already active''
      else
        case populated fs (ld_roots s) u w of Err e \<Rightarrow> Err e | Ok p \<Rightarrow>
        if \<not> p then Err ''game cgroup must exist and be populated''
        else
          case game_cgroup fs (ld_roots s) u w of Err e \<Rightarrow> Err e | Ok path \<Rightarrow>
          case read_text fs (path_join path ''cpu.uclamp.min'') w of Err e \<Rightarrow> Err e | Ok _ \<Rightarrow>
          case read_text fs (path_join path ''cpu.uclamp.max'') w of Err e \<Rightarrow> Err e | Ok _ \<Rightarrow> Ok ())"

definition execute_session ::
  "'w host_files \<Rightarrow> limitsd \<Rightarrow> string \<Rightarrow> limits \<Rightarrow> limits \<Rightarrow> 'w \<Rightarrow> (response_value, string) result \<times> limitsd \<times> 'w" where
  "execute_session fs s u cpu gpu w =
     (case session_request fs s u cpu gpu w of
        Err e \<Rightarrow> (Err e, s, w)
      | Ok _ \<Rightarrow>
          let s1 = s\<lparr>ld_session := Some (Active u (ld_device s) cpu gpu)\<rparr> in
          case apply_session fs s1 u (ld_device s1) cpu gpu w of
            (Ok _, w1) \<Rightarrow> (Ok Empty, s1, w1)
          | (Err e, w1) \<Rightarrow> (let (_, s2, w2) = restore fs s1 w1 in (Err e, s2, w2)))"

definition execute_end ::
  "'w host_files \<Rightarrow> limitsd \<Rightarrow> string \<Rightarrow> 'w \<Rightarrow> (response_value, string) result \<times> limitsd \<times> 'w" where
  "execute_end fs s u w =
     (case validate_unit u of
        Err e \<Rightarrow> (Err e, s, w)
      | Ok _ \<Rightarrow>
          if \<not> (case ld_session s of None \<Rightarrow> False | Some x \<Rightarrow> session_unit x = u)
          then (Err ''unit does not name the active session'', s, w)
          else case restore fs s w of
                 (Err e, s1, w1) \<Rightarrow> (Err e, s1, w1)
               | (Ok _, s1, w1) \<Rightarrow> (Ok Empty, s1, w1))"

definition execute ::
  "'w host_files \<Rightarrow> limitsd \<Rightarrow> request \<Rightarrow> 'w \<Rightarrow> (response_value, string) result \<times> limitsd \<times> 'w" where
  "execute fs s req w =
     (case cpu_policies fs (ld_roots s) w of
        Err e \<Rightarrow> (Err e, s, w)
      | Ok ps \<Rightarrow>
          let s1 = s\<lparr>policies := ps\<rparr> in
          case req of
            Describe \<Rightarrow> (Ok (Description (ld_defaults s1) (policies s1) (gpus s1)), s1, w)
          | ApplyDevice d \<Rightarrow> execute_device fs s1 d w
          | ApplySession u cpu gpu \<Rightarrow> execute_session fs s1 u cpu gpu w
          | EndSession u \<Rightarrow> execute_end fs s1 u w)"

definition ld_handle ::
  "'w host_files \<Rightarrow> limitsd \<Rightarrow> request \<Rightarrow> 'w \<Rightarrow> response \<times> limitsd \<times> 'w" where
  "ld_handle fs s req w =
     (case execute fs s req w of
        (Ok v, s1, w1) \<Rightarrow> (ResponseOk v, s1, w1)
      | (Err e, s1, w1) \<Rightarrow> (ResponseErr e, s1, w1))"

subsection \<open>One connection\<close>

text \<open>
  The peer's credentials and the bytes of the connection come from the kernel: \<open>uid\<close> is what
  \<open>SO_PEERCRED\<close> reports, \<open>timeout\<close> the result of setting the read timeout, and \<open>input\<close> the bytes
  until the peer stops sending, or the error of reading them. \<open>from_slice\<close> is the JSON decoder.
\<close>

fun read_until :: "char \<Rightarrow> string \<Rightarrow> string" where
  "read_until b [] = []"
| "read_until b (c # cs) = (if c = b then [c] else c # read_until b cs)"

definition receive ::
  "(string \<Rightarrow> (request, string) result) \<Rightarrow> (nat, string) result \<Rightarrow> nat \<Rightarrow> (unit, string) result
     \<Rightarrow> (string, string) result \<Rightarrow> (request, string) result" where
  "receive from_slice uid allowed_uid timeout input =
     (case uid of Err e \<Rightarrow> Err e | Ok peer \<Rightarrow>
      let authorized = (peer = allowed_uid) in
      case timeout of Err e \<Rightarrow> Err e | Ok _ \<Rightarrow>
      case map_err (\<lambda>e. ''read request: '' @ e) input of Err e \<Rightarrow> Err e | Ok stream \<Rightarrow>
      let bytes = read_until (CHR 0x0A) (take 4097 stream) in
      if \<not> authorized then Err ''peer uid is not korrid''
      else if 4096 < length bytes \<or> (bytes = [] \<or> last bytes \<noteq> CHR 0x0A)
      then Err ''request must be one JSON line of at most 4096 bytes''
      else map_err (\<lambda>e. ''invalid request: '' @ e) (from_slice bytes))"

definition serve_connection ::
  "'w host_files \<Rightarrow> (string \<Rightarrow> (request, string) result) \<Rightarrow> (nat, string) result \<Rightarrow> nat
     \<Rightarrow> (unit, string) result \<Rightarrow> (string, string) result \<Rightarrow> limitsd \<Rightarrow> 'w \<Rightarrow> response \<times> limitsd \<times> 'w" where
  "serve_connection fs from_slice uid allowed_uid timeout input s w =
     (case receive from_slice uid allowed_uid timeout input of
        Ok req \<Rightarrow> ld_handle fs s req w
      | Err m \<Rightarrow> (ResponseErr m, s, w))"

section \<open>Correctness\<close>

subsection \<open>Percentages\<close>

lemma find_rev_Some_greatest:
  assumes "sorted_wrt (<) (xs :: nat list)" "find P (rev xs) = Some x"
  shows "x \<in> set xs" "P x" "\<forall>y \<in> set xs. P y \<longrightarrow> y \<le> x"
proof -
  from assms(2) obtain i where i: "i < length xs" "P (rev xs ! i)" "x = rev xs ! i" "\<forall>j<i. \<not> P (rev xs ! j)"
    by (auto simp: find_Some_iff)
  from i show "x \<in> set xs" "P x" by (auto simp: rev_nth)
  show "\<forall>y \<in> set xs. P y \<longrightarrow> y \<le> x"
  proof (intro ballI impI)
    fix y assume "y \<in> set xs" and P: "P y"
    then obtain j where j: "j < length xs" "y = rev xs ! j" by (metis in_set_conv_nth length_rev set_rev)
    with i P have "i \<le> j" by (metis not_less)
    moreover have "sorted_wrt (\<lambda>a b. b < a) (rev xs)" using assms(1) by (simp add: sorted_wrt_rev)
    ultimately show "y \<le> x" using i j by (cases "i = j") (auto simp: sorted_wrt_iff_nth_less less_imp_le)
  qed
qed

lemma find_Some_least:
  assumes "sorted_wrt (<) (xs :: nat list)" "find P xs = Some x"
  shows "x \<in> set xs" "P x" "\<forall>y \<in> set xs. P y \<longrightarrow> x \<le> y"
proof -
  from assms(2) obtain i where i: "i < length xs" "P (xs ! i)" "x = xs ! i" "\<forall>j<i. \<not> P (xs ! j)"
    by (auto simp: find_Some_iff)
  from i show "x \<in> set xs" "P x" by auto
  show "\<forall>y \<in> set xs. P y \<longrightarrow> x \<le> y"
  proof (intro ballI impI)
    fix y assume "y \<in> set xs" and P: "P y"
    then obtain j where j: "j < length xs" "y = xs ! j" by (metis in_set_conv_nth)
    with i P have "i \<le> j" by (metis not_less)
    with assms(1) i j show "x \<le> y" by (cases "i = j") (auto simp: sorted_wrt_iff_nth_less less_imp_le)
  qed
qed

lemma limits_validate_Ok:
  "limits_validate l = Ok u \<longleftrightarrow> lim_min l \<le> lim_max l \<and> 0 < lim_max l \<and> lim_max l \<le> 100"
  by (auto simp: limits_validate_def)

text \<open>The two halves of \<open>mapped\<close> as functions of the percentage they use.\<close>

definition pick_max :: "nat \<Rightarrow> nat \<Rightarrow> nat \<Rightarrow> nat list \<Rightarrow> nat" where
  "pick_max pct hi lo steps =
     (case find (\<lambda>v. step_percent hi v \<le> pct) (rev steps) of
        Some v \<Rightarrow> v
      | None \<Rightarrow> (case steps of v # _ \<Rightarrow> v | [] \<Rightarrow> clamp (as_u64 (hi * pct div 100)) lo hi))"

definition pick_min :: "nat \<Rightarrow> nat \<Rightarrow> nat \<Rightarrow> nat list \<Rightarrow> nat" where
  "pick_min pct hi lo steps =
     (case find (\<lambda>v. pct \<le> step_percent hi v) steps of
        Some v \<Rightarrow> v
      | None \<Rightarrow> if steps = [] then clamp (as_u64 ((hi * pct + 99) div 100)) lo hi else last steps)"

lemma mapped_picks:
  "mapped l hi lo steps =
     (min (pick_min (lim_min l) hi lo steps) (pick_max (lim_max l) hi lo steps), pick_max (lim_max l) hi lo steps)"
  by (simp add: mapped_def pick_max_def pick_min_def Let_def)

lemma percent_le:
  assumes "pct \<le> 100"
  shows "hi * pct div 100 \<le> (hi :: nat)" "(hi * pct + 99) div 100 \<le> hi"
proof -
  have "hi * pct \<le> hi * 100" using assms by (rule mult_le_mono2)
  then show "hi * pct div 100 \<le> hi" "(hi * pct + 99) div 100 \<le> hi" by linarith+
qed

lemma raw_percent_fits:
  assumes "pct \<le> 100" "hi < 2 ^ 64"
  shows "as_u64 (hi * pct div 100) = hi * pct div 100"
    and "as_u64 ((hi * pct + 99) div 100) = (hi * pct + 99) div 100"
  using percent_le [OF assms(1), of hi] assms(2) by (auto simp: as_u64_def)

lemma find_None_rev: "find P (rev xs) = None \<longleftrightarrow> (\<forall>x \<in> set xs. \<not> P x)"
  by (auto simp: find_None_iff)

lemma sorted_hd_le: "sorted_wrt (<) xs \<Longrightarrow> (v :: nat) \<in> set xs \<Longrightarrow> hd xs \<le> v"
  by (cases xs) (auto simp: less_imp_le)

lemma sorted_le_last:
  assumes "sorted_wrt (<) xs" "(v :: nat) \<in> set xs"
  shows "v \<le> last xs"
proof -
  from assms(2) have "xs = butlast xs @ [last xs]" by (cases xs rule: rev_cases) simp_all
  then obtain ys z where xs: "xs = ys @ [z]" by blast
  with assms show ?thesis by (auto simp: sorted_wrt_append less_imp_le)
qed

lemma pick_max_steps:
  assumes "sorted_wrt (<) steps" "steps \<noteq> []"
  shows "pick_max pct hi lo steps \<in> set steps"
    and "\<forall>v \<in> set steps. step_percent hi v \<le> pct \<longrightarrow> v \<le> pick_max pct hi lo steps"
    and "step_percent hi (pick_max pct hi lo steps) \<le> pct \<or> pick_max pct hi lo steps = hd steps"
proof -
  let ?f = "find (\<lambda>v. step_percent hi v \<le> pct) (rev steps)"
  have r: "pick_max pct hi lo steps \<in> set steps \<and>
      (\<forall>v \<in> set steps. step_percent hi v \<le> pct \<longrightarrow> v \<le> pick_max pct hi lo steps) \<and>
      (step_percent hi (pick_max pct hi lo steps) \<le> pct \<or> pick_max pct hi lo steps = hd steps)"
  proof (cases ?f)
    case None
    then have "pick_max pct hi lo steps = hd steps"
      using assms(2) by (cases steps) (auto simp: pick_max_def)
    with None assms(2) show ?thesis by (simp add: find_None_rev)
  next
    case (Some x)
    with find_rev_Some_greatest [OF assms(1) Some] show ?thesis by (simp add: pick_max_def)
  qed
  from r show "pick_max pct hi lo steps \<in> set steps"
    and "\<forall>v \<in> set steps. step_percent hi v \<le> pct \<longrightarrow> v \<le> pick_max pct hi lo steps"
    and "step_percent hi (pick_max pct hi lo steps) \<le> pct \<or> pick_max pct hi lo steps = hd steps" by blast+
qed

lemma pick_min_steps:
  assumes "sorted_wrt (<) steps" "steps \<noteq> []"
  shows "pick_min pct hi lo steps \<in> set steps"
    and "\<forall>v \<in> set steps. pct \<le> step_percent hi v \<longrightarrow> pick_min pct hi lo steps \<le> v"
    and "pct \<le> step_percent hi (pick_min pct hi lo steps) \<or> pick_min pct hi lo steps = last steps"
proof -
  have r: "pick_min pct hi lo steps \<in> set steps \<and>
      (\<forall>v \<in> set steps. pct \<le> step_percent hi v \<longrightarrow> pick_min pct hi lo steps \<le> v) \<and>
      (pct \<le> step_percent hi (pick_min pct hi lo steps) \<or> pick_min pct hi lo steps = last steps)"
  proof (cases "find (\<lambda>v. pct \<le> step_percent hi v) steps")
    case None
    then have "pick_min pct hi lo steps = last steps" using assms(2) by (simp add: pick_min_def)
    with None assms(2) show ?thesis by (simp add: find_None_iff)
  next
    case (Some x)
    with find_Some_least [OF assms(1) Some] show ?thesis by (simp add: pick_min_def)
  qed
  from r show "pick_min pct hi lo steps \<in> set steps"
    and "\<forall>v \<in> set steps. pct \<le> step_percent hi v \<longrightarrow> pick_min pct hi lo steps \<le> v"
    and "pct \<le> step_percent hi (pick_min pct hi lo steps) \<or> pick_min pct hi lo steps = last steps" by blast+
qed

lemma pick_max_raw:
  "pct \<le> 100 \<Longrightarrow> hi < 2 ^ 64 \<Longrightarrow> lo \<le> hi \<Longrightarrow> pick_max pct hi lo [] = max lo (hi * pct div 100)"
  using percent_le(1) [of pct hi] raw_percent_fits(1) [of pct hi] by (auto simp: pick_max_def clamp_def)

lemma pick_min_raw:
  "pct \<le> 100 \<Longrightarrow> hi < 2 ^ 64 \<Longrightarrow> lo \<le> hi \<Longrightarrow> pick_min pct hi lo [] = max lo ((hi * pct + 99) div 100)"
  using percent_le(2) [of pct hi] raw_percent_fits(2) [of pct hi] by (auto simp: pick_min_def clamp_def)

text \<open>A higher percentage never selects a lower cap.\<close>

lemma pick_max_mono:
  assumes "pct \<le> pct'" "pct' \<le> 100" "lo \<le> hi" "hi < 2 ^ 64" "sorted_wrt (<) steps"
  shows "pick_max pct hi lo steps \<le> pick_max pct' hi lo steps"
proof (cases "steps = []")
  case True
  have "hi * pct div 100 \<le> hi * pct' div 100" using assms(1) by (intro div_le_mono mult_le_mono2)
  with True assms show ?thesis by (simp add: pick_max_raw)
next
  case False
  note s = pick_max_steps [OF assms(5) False]
  from s(3) [of hi pct lo] show ?thesis
  proof
    assume "step_percent hi (pick_max pct hi lo steps) \<le> pct"
    with assms(1) s(1) s(2) [of hi pct' lo] show ?thesis by (meson order_trans)
  next
    assume "pick_max pct hi lo steps = hd steps"
    with sorted_hd_le [OF assms(5) s(1)] show ?thesis by simp
  qed
qed

text \<open>
  The frequencies that a percentage interval selects. The lower end is never above the
  upper one. With a list of frequency steps both ends are steps: the upper end is the highest step
  whose rounded percentage is within the cap, or the lowest step when none is; the lower end is
  the lowest step at or above the floor, unless the cap is lower, which then wins. Without steps
  the ends are the exact percentages, rounded down and up and kept inside the hardware range.
\<close>

theorem mapped_selects_steps:
  assumes "limits_validate l = Ok ()" "lo \<le> hi" "hi < 2 ^ 64" "sorted_wrt (<) steps"
    and "mapped l hi lo steps = (mn, mx)"
  shows "mn \<le> mx \<and>
    (if steps = []
     then mx = max lo (hi * lim_max l div 100) \<and> mn = min mx (max lo ((hi * lim_min l + 99) div 100)) \<and> mx \<le> hi
     else mn \<in> set steps \<and> mx \<in> set steps \<and>
       (\<forall>v \<in> set steps. step_percent hi v \<le> lim_max l \<longrightarrow> v \<le> mx) \<and>
       (step_percent hi mx \<le> lim_max l \<or> mx = hd steps) \<and>
       (\<forall>v \<in> set steps. lim_min l \<le> step_percent hi v \<longrightarrow> mn \<le> v) \<and>
       (lim_min l \<le> step_percent hi mn \<or> mn = mx))"
proof (cases "steps = []")
  case True
  have v: "lim_min l \<le> 100" "lim_max l \<le> 100" using assms(1) by (auto simp: limits_validate_Ok)
  with True assms(2,3,5) percent_le(1) [OF v(2), of hi] show ?thesis
    by (auto simp: mapped_picks pick_max_raw pick_min_raw min.commute)
next
  case False
  note mx = pick_max_steps [OF assms(4) False, where hi = hi and lo = lo]
    and mn = pick_min_steps [OF assms(4) False, where hi = hi and lo = lo]
  have eq: "mx = pick_max (lim_max l) hi lo steps" "mn = min (pick_min (lim_min l) hi lo steps) mx"
    using assms(5) by (auto simp: mapped_picks)
  have "mn \<in> set steps" using mx(1) mn(1) by (simp add: eq min_def)
  moreover have "lim_min l \<le> step_percent hi mn \<or> mn = mx"
    using mn(3) [of "lim_min l"] sorted_le_last [OF assms(4) mx(1) [of "lim_max l"]] by (auto simp: eq min_def)
  ultimately show ?thesis using False mx mn(2) by (auto simp: eq min_le_iff_disj)
qed

text \<open>An instance: steps of 408, 1008 and 1800 MHz with a cap of 60 percent and a floor of 30.\<close>

theorem mapped_selects_steps_witness:
  "mapped \<lparr>lim_min = 30, lim_max = 60\<rparr> 1800 408 [408, 1008, 1800] = (1008, 1008) \<and>
   (step_percent 1800 1008 \<le> 60 \<or> 1008 = hd [408, 1008, 1800 :: nat])"
proof -
  let ?l = "\<lparr>lim_min = 30, lim_max = 60\<rparr>"
  have m: "mapped ?l 1800 408 [408, 1008, 1800] = (1008, 1008)" by (simp add: mapped_def step_percent_def)
  have "limits_validate ?l = Ok ()" "(408 :: nat) \<le> 1800" "(1800 :: nat) < 2 ^ 64"
    "sorted_wrt (<) [408, 1008, 1800 :: nat]" by (simp_all add: limits_validate_def)
  from mapped_selects_steps [OF this m] m show ?thesis by simp
qed

subsection \<open>Units\<close>

text \<open>
  Only unit names of the exact form \<open>korri-game-\<close>, 32 lower case hexadecimal digits,
  \<open>.service\<close> are accepted, so a unit can never name a path outside the games' slice.
\<close>

theorem unit_names_exact:
  "validate_unit u = Ok () \<longleftrightarrow> (\<exists>h. u = ''korri-game-'' @ h @ ''.service'' \<and> lower_hex_text 32 h)"
proof
  assume v: "validate_unit u = Ok ()"
  then have len: "length u = 51" and hex: "list_all is_lower_hex (take 32 (drop 11 u))"
    by (auto simp: validate_unit_def split: if_splits)
  from v obtain a where a: "u = ''korri-game-'' @ a" by (auto simp: validate_unit_def starts_with_iff split: if_splits)
  from v obtain b where b: "u = b @ ''.service''" by (auto simp: validate_unit_def ends_with_iff split: if_splits)
  have "length a = 40" "drop 11 u = a" using a len by simp_all
  moreover have lb: "length b = 43" using b len by simp
  moreover have "drop 32 a = ''.service''"
  proof -
    have "drop 32 a = drop 43 u" using a by simp
    with b lb show ?thesis by simp
  qed
  ultimately have "u = ''korri-game-'' @ take 32 a @ ''.service''" "lower_hex_text 32 (take 32 a)"
    using a hex append_take_drop_id [of 32 a] by (auto simp: lower_hex_text_def)
  then show "\<exists>h. u = ''korri-game-'' @ h @ ''.service'' \<and> lower_hex_text 32 h" by blast
next
  assume "\<exists>h. u = ''korri-game-'' @ h @ ''.service'' \<and> lower_hex_text 32 h"
  then obtain h where h: "u = ''korri-game-'' @ h @ ''.service''" "length h = 32" "list_all is_lower_hex h"
    by (auto simp: lower_hex_text_def)
  have "take 32 (drop 11 u) = h" using h by simp
  moreover have "starts_with ''korri-game-'' u" unfolding starts_with_iff using h by blast
  moreover have "ends_with ''.service'' u"
    unfolding ends_with_iff using h(1) by (intro exI [of _ "''korri-game-'' @ h"]) simp
  moreover have "length u = 51" using h by simp
  ultimately show "validate_unit u = Ok ()" using h by (simp add: validate_unit_def)
qed

subsection \<open>What a service knows about its hardware\<close>

definition steps_ok :: "nat list \<Rightarrow> bool" where
  "steps_ok steps \<longleftrightarrow> sorted_wrt (<) steps \<and> (\<forall>v \<in> set steps. 0 < v \<and> v < 2 ^ 64)"

definition policy_ok :: "cpu_policy \<Rightarrow> bool" where
  "policy_ok p \<longleftrightarrow> is_policy_name (policy_name p) \<and> 0 < min_freq p \<and> min_freq p \<le> cpuinfo_max_freq p \<and>
     cpuinfo_max_freq p < 2 ^ 64 \<and> steps_ok (available_frequencies p)"

definition gpu_ok :: "gpu_devfreq \<Rightarrow> bool" where
  "gpu_ok g \<longleftrightarrow> valid_gpu_node (gpu_name g) \<and> gpu_frequencies g \<noteq> [] \<and> steps_ok (gpu_frequencies g)"

definition session_ok :: "session \<Rightarrow> bool" where
  "session_ok x \<longleftrightarrow> validate_unit (session_unit x) = Ok () \<and>
     (case x of
        Active u d cpu gpu \<Rightarrow> limits_validate (def_cpu d) = Ok () \<and> limits_validate cpu = Ok () \<and> limits_validate gpu = Ok ()
      | Reverting u \<Rightarrow> True)"

definition device_ok :: "defaults \<Rightarrow> bool" where
  "device_ok d \<longleftrightarrow> limits_validate (def_cpu d) = Ok () \<and> limits_validate (def_gpu d) = Ok ()"

definition service_ok :: "limitsd \<Rightarrow> bool" where
  "service_ok s \<longleftrightarrow> list_all policy_ok (policies s) \<and> list_all gpu_ok (gpus s) \<and> device_ok (ld_device s) \<and>
     pred_option session_ok (ld_session s)"

lemma parse_u64_less: "parse_u64 s = Some n \<Longrightarrow> n < 2 ^ 64"
  using parse_unsigned_le [of "2 ^ 64 - 1" s n] by (simp add: parse_u64_def)

lemma number_less: "number fs p w = Ok n \<Longrightarrow> n < 2 ^ 64"
  by (auto simp: number_def ok_or_def dest: parse_u64_less split: result.splits option.splits)

lemma collect_Ok: "collect f xs = Ok ys \<Longrightarrow> y \<in> set ys \<Longrightarrow> \<exists>x \<in> set xs. f x = Ok y"
  by (induction xs arbitrary: ys) (auto split: result.splits)

lemma sorted_remdups_adj_strict: "sorted xs \<Longrightarrow> sorted_wrt (<) (remdups_adj (xs :: nat list))"
  by (induction xs rule: remdups_adj.induct) (auto simp: less_le)

lemma frequencies_ok:
  assumes "frequencies fs p w = Ok steps"
  shows "steps_ok steps"
proof (cases "fs_read fs p w")
  case (Ok content)
  with assms obtain vs where v:
    "collect (\<lambda>v. ok_or (''invalid frequency in '' @ p) (parse_u64 v)) (split_whitespace content) = Ok vs"
    "0 \<notin> set vs" "steps = remdups_adj (sort vs)"
    by (auto simp: frequencies_def split: result.splits if_splits)
  have "n < 2 ^ 64" if n: "n \<in> set vs" for n
  proof -
    from collect_Ok [OF v(1) n] obtain x where "parse_u64 x = Some n" by (auto simp: ok_or_def split: option.splits)
    then show ?thesis by (rule parse_u64_less)
  qed
  moreover have "0 < n" if "n \<in> set vs" for n using v(2) that by (cases n) auto
  ultimately show ?thesis by (simp add: steps_ok_def v(3) sorted_remdups_adj_strict)
next
  case (Err e)
  with assms show ?thesis by (cases e) (auto simp: frequencies_def steps_ok_def)
qed

lemma read_policy_ok:
  "read_policy fs r name w = Ok p \<Longrightarrow> is_policy_name name \<Longrightarrow> policy_ok p \<and> policy_name p = name"
  by (auto simp: read_policy_def policy_ok_def Let_def dest: number_less frequencies_ok
      split: result.splits if_splits)

lemma read_policies_ok: "read_policies fs r es w = Ok ps \<Longrightarrow> list_all policy_ok ps"
  by (induction fs r es w arbitrary: ps rule: read_policies.induct)
    (auto dest: read_policy_ok split: result.splits if_splits)

lemma cpu_policies_ok:
  assumes "cpu_policies fs r w = Ok ps"
  shows "list_all policy_ok ps"
proof (cases "fs_entries fs (path_join (sysfs r) ''devices/system/cpu/cpufreq'') w")
  case (Ok es)
  with assms obtain qs where "read_policies fs r es w = Ok qs" "ps = sort_key policy_name qs"
    by (auto simp: cpu_policies_def split: result.splits)
  with read_policies_ok show ?thesis by (simp add: list_all_iff)
next
  case (Err e)
  with assms show ?thesis by (cases e) (auto simp: cpu_policies_def)
qed

lemma read_gpus_ok: "read_gpus fs r names w = Ok gs \<Longrightarrow> list_all gpu_ok gs"
  by (induction names arbitrary: gs) (auto simp: gpu_ok_def dest: frequencies_ok split: result.splits if_splits)

lemma validate_device_ok: "validate_device s d = Ok u \<Longrightarrow> device_ok d"
  by (auto simp: validate_device_def device_ok_def split: result.splits)

lemma ld_start_ok: "ld_start fs r d names w = (Ok s, w') \<Longrightarrow> service_ok s \<and> ld_session s = None \<and> ld_roots s = r"
  by (auto simp: ld_start_def service_ok_def Let_def cpu_policies_ok read_gpus_ok validate_device_ok
      split: result.splits dest!: and_then_OkD)

subsection \<open>The session state machine\<close>

text \<open>
  The abstract contract of a session. It goes from idle to active, from active back to idle or,
  when taking the limits back failed, to reverting, and from reverting only to idle. The unit and
  the settings of an active session never change.
\<close>

inductive session_step :: "session option \<Rightarrow> session option \<Rightarrow> bool" where
  session_stays: "session_step x x"
| session_begins: "session_step None (Some (Active u d cpu gpu))"
| session_begin_fails: "session_step None (Some (Reverting u))"
| session_reverts: "session_step (Some (Active u d cpu gpu)) (Some (Reverting u))"
| session_ends: "session_step (Some x) None"

inductive_simps session_step_None: "session_step None y"
inductive_simps session_step_Active: "session_step (Some (Active u d cpu gpu)) y"
inductive_simps session_step_Reverting: "session_step (Some (Reverting u)) y"

lemmas session_steps = session_step_None session_step_Active session_step_Reverting

lemma restore_result:
  assumes "restore fs s w = (x, s', w')"
  shows "s' = s\<lparr>ld_session := if is_ok x then None else map_option (\<lambda>x. Reverting (session_unit x)) (ld_session s)\<rparr>"
  using assms
  by (auto simp: restore_def Let_def split: prod.splits result.splits option.splits bool.splits)

lemma restore_step: "restore fs s w = (x, s', w') \<Longrightarrow> session_step (ld_session s) (ld_session s')"
  using restore_result [of fs s w x s' w']
  by (cases "ld_session s"; cases "the (ld_session s)") (auto simp: session_steps)

lemma poll_session_result:
  assumes "poll_session fs s w = (x, s', w')"
  shows "s' = s \<or> restore fs s w = (x, s', w')"
  using assms by (auto simp: poll_session_def split: option.splits session.splits result.splits bool.splits)

lemma reassert_result:
  assumes "reassert fs s w = (x, s', w')"
  shows "s' = s \<or> (\<exists>ps. cpu_policies fs (ld_roots s) w = Ok ps \<and>
           (s' = s\<lparr>policies := ps\<rparr> \<or> (\<exists>y v. restore fs (s\<lparr>policies := ps\<rparr>) w = (y, s', v))))"
proof (cases "cpu_policies fs (ld_roots s) w")
  case (Ok ps)
  obtain y t v where p: "poll_session fs (s\<lparr>policies := ps\<rparr>) w = (y, t, v)"
    by (cases "poll_session fs (s\<lparr>policies := ps\<rparr>) w")
  with assms Ok have "s' = t" by (auto simp: reassert_def Let_def split: prod.splits result.splits)
  with poll_session_result [OF p] Ok show ?thesis by auto
next
  case (Err e)
  with assms show ?thesis by (simp add: reassert_def)
qed

lemma execute_session_cases:
  assumes "execute_session fs s u cpu gpu w = (x, s', w')"
  obtains (refused) "s' = s" "w' = w" "\<not> is_ok x"
  | (begun) "is_ok x" "session_request fs s u cpu gpu w = Ok ()" "s' = s\<lparr>ld_session := Some (Active u (ld_device s) cpu gpu)\<rparr>"
  | (rolled_back) "\<not> is_ok x" "session_request fs s u cpu gpu w = Ok ()" "s' = s\<lparr>ld_session := None\<rparr>"
  | (reverting) "\<not> is_ok x" "session_request fs s u cpu gpu w = Ok ()" "s' = s\<lparr>ld_session := Some (Reverting u)\<rparr>"
proof (cases "session_request fs s u cpu gpu w")
  case (Ok i)
  let ?s = "s\<lparr>ld_session := Some (Active u (ld_device s) cpu gpu)\<rparr>"
  obtain y w1 where y: "apply_session fs ?s u (ld_device s) cpu gpu w = (y, w1)"
    by (cases "apply_session fs ?s u (ld_device s) cpu gpu w")
  obtain z t w2 where z: "restore fs ?s w1 = (z, t, w2)" by (cases "restore fs ?s w1")
  show thesis
  proof (cases y)
    case (Err e)
    with assms Ok y z have x: "\<not> is_ok x" "s' = t" by (auto simp: execute_session_def Let_def)
    show thesis
    proof (cases "is_ok z")
      case True
      with restore_result [OF z] x Ok show thesis by (intro that(3)) simp_all
    next
      case False
      with restore_result [OF z] x Ok show thesis by (intro that(4)) simp_all
    qed
  next
    case (Ok j)
    with assms \<open>session_request fs s u cpu gpu w = Ok i\<close> y have "is_ok x" "s' = ?s"
      by (auto simp: execute_session_def Let_def)
    with \<open>session_request fs s u cpu gpu w = Ok i\<close> show thesis by (intro that(2)) simp_all
  qed
next
  case (Err e)
  with assms that(1) show thesis by (auto simp: execute_session_def)
qed

lemma session_request_Ok:
  "session_request fs s u cpu gpu w = Ok () \<Longrightarrow>
     validate_unit u = Ok () \<and> limits_validate cpu = Ok () \<and> limits_validate gpu = Ok () \<and> ld_session s = None"
  by (auto simp: session_request_def split: result.splits if_splits)

lemma execute_device_result:
  "execute_device fs s d w = (x, s', w') \<Longrightarrow>
     s' = s \<and> \<not> is_ok x \<or> s' = s\<lparr>ld_device := d\<rparr> \<and> is_ok x \<and> validate_device s d = Ok ()"
  by (auto simp: execute_device_def split: result.splits prod.splits if_splits)

lemma execute_end_result:
  assumes "execute_end fs s u w = (x, s', w')"
  shows "s' = s \<and> \<not> is_ok x \<or>
    (\<exists>y. restore fs s w = (y, s', w') \<and> is_ok y = is_ok x \<and> map_option session_unit (ld_session s) = Some u)"
  using assms by (auto simp: execute_end_def split: result.splits option.splits if_splits prod.splits)

text \<open>How every entry point of the daemon moves the service.\<close>

lemma execute_cases:
  assumes "execute fs s req w = (x, s', w')"
  obtains (failed) e where "x = Err e" "s' = s"
  | (describe) ps where "cpu_policies fs (ld_roots s) w = Ok ps" "req = Describe" "s' = s\<lparr>policies := ps\<rparr>" "w' = w"
      "x = Ok (Description (ld_defaults s) ps (gpus s))"
  | (device) ps d where "cpu_policies fs (ld_roots s) w = Ok ps" "req = ApplyDevice d"
      "execute_device fs (s\<lparr>policies := ps\<rparr>) d w = (x, s', w')"
  | (session) ps u cpu gpu where "cpu_policies fs (ld_roots s) w = Ok ps" "req = ApplySession u cpu gpu"
      "execute_session fs (s\<lparr>policies := ps\<rparr>) u cpu gpu w = (x, s', w')"
  | (finish) ps u where "cpu_policies fs (ld_roots s) w = Ok ps" "req = EndSession u"
      "execute_end fs (s\<lparr>policies := ps\<rparr>) u w = (x, s', w')"
  using assms by (cases req) (auto simp: execute_def Let_def split: result.splits)

datatype ld_input = LdRequest request | LdPoll | LdReassert

text \<open>One turn of the daemon's loop, together with the world the files live in.\<close>

fun ld_step :: "'w host_files \<Rightarrow> limitsd \<times> 'w \<Rightarrow> ld_input \<Rightarrow> limitsd \<times> 'w" where
  "ld_step fs (s, w) (LdRequest req) = snd (ld_handle fs s req w)"
| "ld_step fs (s, w) LdPoll = snd (poll_session fs s w)"
| "ld_step fs (s, w) LdReassert = snd (reassert fs s w)"

lemma ld_handle_execute: "snd (ld_handle fs s req w) = snd (execute fs s req w)"
  by (auto simp: ld_handle_def split: prod.splits result.splits)

lemma service_ok_upd:
  "service_ok s \<Longrightarrow> list_all policy_ok ps \<Longrightarrow> service_ok (s\<lparr>policies := ps\<rparr>)"
  "service_ok s \<Longrightarrow> device_ok d \<Longrightarrow> service_ok (s\<lparr>ld_device := d\<rparr>)"
  "service_ok s \<Longrightarrow> pred_option session_ok x \<Longrightarrow> service_ok (s\<lparr>ld_session := x\<rparr>)"
  by (simp_all add: service_ok_def)

lemma restore_ok:
  assumes "service_ok s" "restore fs s w = (x, s', w')"
  shows "service_ok s'"
proof -
  have "pred_option session_ok (map_option (\<lambda>x. Reverting (session_unit x)) (ld_session s))"
    using assms(1) by (cases "ld_session s") (auto simp: service_ok_def session_ok_def)
  with assms(1) show ?thesis unfolding restore_result [OF assms(2)] by (intro service_ok_upd(3)) simp_all
qed

lemma execute_ok:
  assumes ok: "service_ok s" and e: "execute fs s req w = (x, s', w')"
  shows "service_ok s'"
  using e
proof (cases rule: execute_cases)
  case (device ps d)
  have ps: "service_ok (s\<lparr>policies := ps\<rparr>)" using ok cpu_policies_ok [OF device(1)] by (rule service_ok_upd)
  from execute_device_result [OF device(3)] ps show ?thesis
    using service_ok_upd(2) [OF ps, of d] validate_device_ok by auto
next
  case (session ps u cpu gpu)
  have ps: "service_ok (s\<lparr>policies := ps\<rparr>)" using ok cpu_policies_ok [OF session(1)] by (rule service_ok_upd)
  from session(3) show ?thesis
  proof (cases rule: execute_session_cases)
    case begun
    with session_request_Ok [OF begun(2)] ps show ?thesis
      by (auto simp: service_ok_def session_ok_def device_ok_def)
  next
    case reverting
    with session_request_Ok [OF reverting(2)] ps show ?thesis by (auto simp: service_ok_def session_ok_def)
  qed (use ps in \<open>auto simp: service_ok_def\<close>)
next
  case (finish ps u)
  have ps: "service_ok (s\<lparr>policies := ps\<rparr>)" using ok cpu_policies_ok [OF finish(1)] by (rule service_ok_upd)
  from execute_end_result [OF finish(3)] ps restore_ok [OF ps] show ?thesis by auto
qed (use ok in \<open>auto intro: service_ok_upd dest: cpu_policies_ok\<close>)

lemma reassert_ok:
  assumes ok: "service_ok s" and r: "reassert fs s w = (x, s', w')"
  shows "service_ok s'"
  using reassert_result [OF r]
proof (elim disjE exE conjE)
  fix ps y v
  assume "cpu_policies fs (ld_roots s) w = Ok ps" and y: "restore fs (s\<lparr>policies := ps\<rparr>) w = (y, s', v)"
  then have "service_ok (s\<lparr>policies := ps\<rparr>)" by (intro service_ok_upd(1) ok cpu_policies_ok)
  then show ?thesis using y by (rule restore_ok)
qed (use ok in \<open>auto intro: service_ok_upd dest: cpu_policies_ok\<close>)

lemma ld_step_ok: "service_ok (fst sw) \<Longrightarrow> service_ok (fst (ld_step fs sw i))"
proof (cases sw)
  case (Pair s w)
  assume "service_ok (fst sw)"
  with Pair have ok: "service_ok s" by simp
  show ?thesis
  proof (cases i)
    case (LdRequest req)
    with Pair ok execute_ok [OF ok prod.collapse [symmetric, THEN trans]] show ?thesis
      by (cases "execute fs s req w") (auto simp: ld_handle_execute intro: execute_ok)
  next
    case LdPoll
    obtain x t v where p: "poll_session fs s w = (x, t, v)" by (cases "poll_session fs s w")
    with Pair LdPoll ok poll_session_result [OF p] show ?thesis by (auto intro: restore_ok)
  next
    case LdReassert
    obtain x t v where p: "reassert fs s w = (x, t, v)" by (cases "reassert fs s w")
    with Pair LdReassert ok show ?thesis by (auto intro: reassert_ok)
  qed
qed

lemma ld_step_session: "session_step (ld_session (fst sw)) (ld_session (fst (ld_step fs sw i)))"
proof (cases sw)
  case (Pair s w)
  show ?thesis
  proof (cases i)
    case (LdRequest req)
    obtain x t v where e: "execute fs s req w = (x, t, v)" by (cases "execute fs s req w")
    from e have "session_step (ld_session s) (ld_session t)"
    proof (cases rule: execute_cases)
      case (device ps d)
      from execute_device_result [OF device(3)] show ?thesis by (auto intro: session_stays)
    next
      case (session ps u cpu gpu)
      from session(3) show ?thesis
      proof (cases rule: execute_session_cases)
        case begun
        with session_request_Ok [OF begun(2)] show ?thesis by (simp add: session_begins)
      next
        case reverting
        with session_request_Ok [OF reverting(2)] show ?thesis by (simp add: session_begin_fails)
      next
        case rolled_back
        with session_request_Ok [OF rolled_back(2)] show ?thesis by (simp add: session_stays)
      qed (simp add: session_stays)
    next
      case (finish ps u)
      from execute_end_result [OF finish(3)] show ?thesis
        using restore_step [of fs "s\<lparr>policies := ps\<rparr>" w _ t v] by (auto intro: session_stays)
    qed (auto intro: session_stays)
    with Pair LdRequest e show ?thesis by (simp add: ld_handle_execute)
  next
    case LdPoll
    obtain x t v where p: "poll_session fs s w = (x, t, v)" by (cases "poll_session fs s w")
    with Pair LdPoll poll_session_result [OF p] show ?thesis by (auto intro: session_stays restore_step)
  next
    case LdReassert
    obtain x t v where p: "reassert fs s w = (x, t, v)" by (cases "reassert fs s w")
    with Pair LdReassert reassert_result [OF p] show ?thesis
      by (auto intro: session_stays dest: restore_step)
  qed
qed

interpretation limits_runs: machine "ld_step fs" "\<lambda>sw. service_ok (fst sw)"
  by unfold_locales (rule ld_step_ok)

text \<open>
  C11. The daemon implements the session contract: whatever a request, a poll or a reassertion
  finds and however the file operations fail, the session only moves along the abstract steps.
  In particular a reverting session never becomes active again, an active one is never replaced
  by another, and its frozen baseline and limits never change.
\<close>

theorem session_refines_contract:
  "session_step (ld_session s) (ld_session (fst (ld_step fs (s, w) i)))"
  using ld_step_session [of "(s, w)" fs i] by simp

text \<open>
  The outcome of starting and of ending a session. A successful start was idle before,
  checked the unit and both intervals, and freezes the current device settings. A failed start
  leaves the session as it was, except that a failed roll back leaves it reverting. Ending
  requires the unit of the session; it leaves no session exactly when every write succeeded, and
  a reverting one otherwise, which every later poll tries again. The device settings stay.
\<close>

definition outcome_of_start :: "limitsd \<Rightarrow> string \<Rightarrow> limits \<Rightarrow> limits \<Rightarrow> bool \<Rightarrow> limitsd \<Rightarrow> bool" where
  "outcome_of_start s u cpu gpu success s' \<longleftrightarrow>
     ld_device s' = ld_device s \<and>
     (if success
      then ld_session s = None \<and> validate_unit u = Ok () \<and> limits_validate cpu = Ok () \<and> limits_validate gpu = Ok () \<and>
        ld_session s' = Some (Active u (ld_device s) cpu gpu)
      else ld_session s' = ld_session s \<or> ld_session s = None \<and> ld_session s' = Some (Reverting u))"

definition outcome_of_end :: "limitsd \<Rightarrow> string \<Rightarrow> bool \<Rightarrow> limitsd \<Rightarrow> bool" where
  "outcome_of_end s u success s' \<longleftrightarrow>
     ld_device s' = ld_device s \<and>
     (if success
      then map_option session_unit (ld_session s) = Some u \<and> ld_session s' = None
      else ld_session s' = ld_session s \<or>
        map_option session_unit (ld_session s) = Some u \<and> ld_session s' = Some (Reverting u))"

theorem session_outcomes:
  "(case execute fs s (ApplySession u cpu gpu) w of (x, s', _) \<Rightarrow> outcome_of_start s u cpu gpu (is_ok x) s') \<and>
   (case execute fs s (EndSession u) w of (x, s', _) \<Rightarrow> outcome_of_end s u (is_ok x) s')"
proof
  obtain x s' w' where e: "execute fs s (ApplySession u cpu gpu) w = (x, s', w')"
    by (cases "execute fs s (ApplySession u cpu gpu) w")
  then have "outcome_of_start s u cpu gpu (is_ok x) s'"
  proof (cases rule: execute_cases)
    case (session ps u' cpu' gpu')
    then have eq: "u' = u" "cpu' = cpu" "gpu' = gpu" by simp_all
    from session(3) show ?thesis unfolding eq
    proof (cases rule: execute_session_cases)
      case begun
      from session_request_Ok [OF begun(2)] begun show ?thesis by (simp add: outcome_of_start_def)
    next
      case rolled_back
      from session_request_Ok [OF rolled_back(2)] rolled_back show ?thesis by (simp add: outcome_of_start_def)
    next
      case reverting
      from session_request_Ok [OF reverting(2)] reverting show ?thesis by (simp add: outcome_of_start_def)
    qed (simp add: outcome_of_start_def)
  qed (simp_all add: outcome_of_start_def)
  with e show "case execute fs s (ApplySession u cpu gpu) w of (x, s', _) \<Rightarrow> outcome_of_start s u cpu gpu (is_ok x) s'"
    by simp
next
  obtain x s' w' where e: "execute fs s (EndSession u) w = (x, s', w')" by (cases "execute fs s (EndSession u) w")
  then have "outcome_of_end s u (is_ok x) s'"
  proof (cases rule: execute_cases)
    case (finish ps u')
    then have "u' = u" by simp
    with execute_end_result [OF finish(3)] show ?thesis
      by (auto simp: outcome_of_end_def dest!: restore_result)
  qed (simp_all add: outcome_of_end_def)
  with e show "case execute fs s (EndSession u) w of (x, s', _) \<Rightarrow> outcome_of_end s u (is_ok x) s'" by simp
qed

subsection \<open>Requests of other users\<close>

lemma read_until_length: "length (read_until b xs) \<le> length xs"
  by (induction xs) auto

lemma read_until_no_break: "b \<notin> set (butlast (read_until b xs))"
  by (induction xs) auto

lemma serve_connection_cases:
  assumes "serve_connection fs from_slice uid allowed timeout input s w = (resp, s', w')"
  shows "(s' = s \<and> w' = w \<and> (\<exists>m. resp = ResponseErr m)) \<or>
    (\<exists>line req. uid = Ok allowed \<and> timeout = Ok () \<and> length line < 4096 \<and> CHR 0x0A \<notin> set line \<and>
       (\<exists>rest. input = Ok (line @ [CHR 0x0A] @ rest)) \<and> from_slice (line @ [CHR 0x0A]) = Ok req \<and>
       ld_handle fs s req w = (resp, s', w'))"
proof (cases "receive from_slice uid allowed timeout input")
  case (Err m)
  with assms show ?thesis by (auto simp: serve_connection_def)
next
  case (Ok req)
  then obtain stream where r: "uid = Ok allowed" "timeout = Ok ()" "input = Ok stream"
    and b: "length (read_until (CHR 0x0A) (take 4097 stream)) \<le> 4096"
      "read_until (CHR 0x0A) (take 4097 stream) \<noteq> []" "last (read_until (CHR 0x0A) (take 4097 stream)) = CHR 0x0A"
      "from_slice (read_until (CHR 0x0A) (take 4097 stream)) = Ok req"
    by (cases input; cases "from_slice (read_until (CHR 0x0A) (take 4097 (ok_value input)))")
      (auto simp: receive_def Let_def split: result.splits if_splits)
  define line where "line = butlast (read_until (CHR 0x0A) (take 4097 stream))"
  have line: "read_until (CHR 0x0A) (take 4097 stream) = line @ [CHR 0x0A]"
    using b(2,3) append_butlast_last_id unfolding line_def by metis
  have "\<exists>ys. take 4097 stream = read_until (CHR 0x0A) (take 4097 stream) @ ys" for stream
  proof -
    have "\<exists>ys. xs = read_until b xs @ ys" for b and xs :: string by (induction xs) auto
    then show ?thesis by blast
  qed
  then obtain ys where "take 4097 stream = line @ [CHR 0x0A] @ ys" using line by (metis append.assoc)
  then have "stream = line @ [CHR 0x0A] @ (ys @ drop 4097 stream)"
    using append_take_drop_id [of 4097 stream] by (metis append.assoc)
  moreover have "CHR 0x0A \<notin> set line" unfolding line_def by (rule read_until_no_break)
  moreover have "length line < 4096" using b(1) by (simp add: line)
  moreover have "ld_handle fs s req w = (resp, s', w')" using assms Ok by (simp add: serve_connection_def)
  ultimately show ?thesis using r b(4) line by auto
qed

text \<open>
  Only one well formed line of the permitted user reaches the service. When the peer has
  another user id, when its line is longer than 4096 bytes or not terminated, or when the
  credentials or the bytes cannot be read, nothing is executed: the service and the files stay
  as they were and the answer is an error.
\<close>

theorem only_permitted_lines_execute:
  "case serve_connection fs from_slice uid allowed timeout input s w of (resp, s', w') \<Rightarrow>
     (s' = s \<and> w' = w \<and> (\<exists>m. resp = ResponseErr m)) \<or>
     (\<exists>line req. uid = Ok allowed \<and> timeout = Ok () \<and> length line < 4096 \<and> CHR 0x0A \<notin> set line \<and>
       (\<exists>rest. input = Ok (line @ [CHR 0x0A] @ rest)) \<and> from_slice (line @ [CHR 0x0A]) = Ok req \<and>
       ld_handle fs s req w = (resp, s', w'))"
proof -
  obtain resp s' w' where c: "serve_connection fs from_slice uid allowed timeout input s w = (resp, s', w')"
    by (cases "serve_connection fs from_slice uid allowed timeout input s w")
  from serve_connection_cases [OF c] show ?thesis unfolding c prod.case .
qed

subsection \<open>Which files are written\<close>

inductive writable :: "'w host_files \<Rightarrow> roots \<Rightarrow> string \<Rightarrow> bool" for fs r where
  writable_cpu: "is_policy_name name \<Longrightarrow> f \<in> {''scaling_governor'', ''scaling_min_freq'', ''scaling_max_freq''} \<Longrightarrow>
    writable fs r (path_join (roots_cpu r name) f)"
| writable_gpu: "valid_gpu_node name \<Longrightarrow> f \<in> {''min_freq'', ''max_freq''} \<Longrightarrow>
    writable fs r (path_join (roots_gpu r name) f)"
| writable_slice: "sl \<in> {parent_slice r, games_slice r} \<Longrightarrow> f \<in> {''cgroup.subtree_control'', ''cpu.uclamp.min''} \<Longrightarrow>
    writable fs r (path_join sl f)"
| writable_clamp: "fs_canonicalize fs (cgroup_root r) w = Ok root \<Longrightarrow> validate_unit u = Ok () \<Longrightarrow>
    path_eq path (path_join (path_join (path_join root PARENT_SLICE) GAME_SLICE) u) \<Longrightarrow>
    f \<in> {''cpu.uclamp.min'', ''cpu.uclamp.max''} \<Longrightarrow> writable fs r (path_join path f)"

lemma writable_game:
  assumes "game_cgroup fs r u w = Ok path" "f \<in> {''cpu.uclamp.min'', ''cpu.uclamp.max''}"
  shows "writable fs r (path_join path f)"
proof -
  from assms(1) obtain root where "fs_canonicalize fs (cgroup_root r) w = Ok root" "validate_unit u = Ok ()"
    "path_eq path (path_join (path_join (path_join root PARENT_SLICE) GAME_SLICE) u)"
    by (auto simp: game_cgroup_def Let_def split: result.splits if_splits)
  then show ?thesis using assms(2) by (rule writable_clamp)
qed

text \<open>
  What holds of the world and survives writes to the writable files survives every operation of
  the service.
\<close>

locale confined_world =
  fixes fs :: "'w host_files" and r :: roots and holds :: "'w \<Rightarrow> bool"
  assumes write_keeps: "writable fs r p \<Longrightarrow> holds w \<Longrightarrow> holds (snd (fs_write fs p v w))"
    and remount_keeps: "holds w \<Longrightarrow> holds (fs_remount fs w)"
begin

lemma seq_keeps:
  "holds (snd x) \<Longrightarrow> (\<And>a w. holds w \<Longrightarrow> holds (snd (f a w))) \<Longrightarrow> holds (snd (and_then x f))"
  by (rule and_then_keeps)

lemma ld_write_keeps:
  assumes "writable fs r p" "holds w"
  shows "holds (snd (ld_write fs r p v w))"
proof -
  obtain x w1 where x: "fs_write fs p (v @ [CHR 0x0A]) w = (x, w1)" by (cases "fs_write fs p (v @ [CHR 0x0A]) w")
  then have w1: "holds w1" using write_keeps [OF assms, of "v @ [CHR 0x0A]"] by simp
  have "holds (snd (fs_write fs p (v @ [CHR 0x0A]) (fs_remount fs w1)))"
    by (rule write_keeps [OF assms(1) remount_keeps [OF w1]])
  with w1 x show ?thesis by (auto simp: ld_write_def split: result.splits prod.splits)
qed

lemma write_interval_keeps:
  assumes "writable fs r (path_join root mn)" "writable fs r (path_join root mx)" "holds w"
  shows "holds (snd (write_interval fs r root mn mx a b w))"
proof (cases "number fs (path_join root mn) w")
  case (Ok old)
  then show ?thesis
    by (cases "b < old") (simp_all add: write_interval_def seq_keeps ld_write_keeps assms)
qed (simp add: write_interval_def assms)

lemma apply_policy_keeps:
  assumes "policy_ok p" "holds w"
  shows "holds (snd (apply_policy fs r d c p w))"
proof -
  have name: "is_policy_name (policy_name p)" using assms(1) by (simp add: policy_ok_def)
  have files: "writable fs r (path_join (roots_cpu r (policy_name p)) f)"
    if "f \<in> {''scaling_governor'', ''scaling_min_freq'', ''scaling_max_freq''}" for f
    by (rule writable_cpu [OF name that])
  show ?thesis unfolding apply_policy_def Let_def case_prod_beta
    by (intro seq_keeps ld_write_keeps write_interval_keeps files assms(2)) simp_all
qed

lemma apply_policies_keeps: "list_all policy_ok ps \<Longrightarrow> holds w \<Longrightarrow> holds (snd (apply_policies fs r d c ps w))"
  by (induction ps arbitrary: w) (simp_all add: seq_keeps apply_policy_keeps)

lemma apply_gpu_keeps:
  assumes "gpu_ok g" "holds w"
  shows "holds (snd (apply_gpu fs r l g w))"
proof -
  have name: "valid_gpu_node (gpu_name g)" using assms(1) by (simp add: gpu_ok_def)
  have files: "writable fs r (path_join (roots_gpu r (gpu_name g)) f)" if "f \<in> {''min_freq'', ''max_freq''}" for f
    by (rule writable_gpu [OF name that])
  show ?thesis unfolding apply_gpu_def Let_def case_prod_beta
    by (intro write_interval_keeps files assms(2)) simp_all
qed

lemma apply_gpus_keeps: "list_all gpu_ok gs \<Longrightarrow> holds w \<Longrightarrow> holds (snd (apply_gpus fs r l gs w))"
  by (induction gs arbitrary: w) (simp_all add: seq_keeps apply_gpu_keeps)

lemma apply_hardware_keeps:
  "service_ok s \<Longrightarrow> ld_roots s = r \<Longrightarrow> holds w \<Longrightarrow> holds (snd (apply_hardware fs s d c l w))"
  by (simp add: apply_hardware_def service_ok_def seq_keeps apply_policies_keeps apply_gpus_keeps)

lemma apply_device_keeps:
  "service_ok s \<Longrightarrow> ld_roots s = r \<Longrightarrow> holds w \<Longrightarrow> holds (snd (apply_device fs s d w))"
  unfolding apply_device_def by (rule apply_hardware_keeps)

lemma write_uclamp_keeps:
  assumes "holds w"
  shows "holds (snd (write_uclamp fs r u l w))"
proof (cases "game_cgroup fs r u w")
  case (Ok path)
  have "writable fs r (path_join path f)" if "f \<in> {''cpu.uclamp.min'', ''cpu.uclamp.max''}" for f
    by (rule writable_game [OF Ok that])
  with Ok assms show ?thesis by (simp add: write_uclamp_def seq_keeps ld_write_keeps)
qed (simp add: write_uclamp_def assms)

lemma slice_files_writable:
  "set sls \<subseteq> {parent_slice r, games_slice r} \<Longrightarrow> sl \<in> set sls \<Longrightarrow>
   writable fs r (path_join sl ''cgroup.subtree_control'') \<and> writable fs r (path_join sl ''cpu.uclamp.min'')"
  by (intro conjI writable_slice) auto

lemma clamp_slices_keeps:
  "set sls \<subseteq> {parent_slice r, games_slice r} \<Longrightarrow> holds w \<Longrightarrow> holds (snd (clamp_slices fs r sls w))"
proof (induction sls arbitrary: w)
  case (Cons sl sls)
  note files = slice_files_writable [OF Cons.prems(1), of sl]
  from Cons.prems(1) have "set sls \<subseteq> {parent_slice r, games_slice r}" by simp
  with Cons.IH Cons.prems(2) files show ?case by (simp add: seq_keeps ld_write_keeps)
qed simp

lemma prepare_slices_keeps:
  "set sls \<subseteq> {parent_slice r, games_slice r} \<Longrightarrow> holds w \<Longrightarrow> holds (snd (prepare_slices fs r sls w))"
proof (induction sls arbitrary: w)
  case (Cons sl sls)
  note files = slice_files_writable [OF Cons.prems(1), of sl]
  from Cons.prems(1) have "set sls \<subseteq> {parent_slice r, games_slice r}" by simp
  with Cons.IH Cons.prems(2) files show ?case by (simp add: seq_keeps ld_write_keeps)
qed simp

lemma apply_session_keeps:
  "service_ok s \<Longrightarrow> ld_roots s = r \<Longrightarrow> holds w \<Longrightarrow> holds (snd (apply_session fs s u d cpu gpu w))"
  by (simp add: apply_session_def seq_keeps apply_hardware_keeps write_uclamp_keeps)

lemma restore_keeps:
  assumes "service_ok s" "ld_roots s = r" "holds w" "restore fs s w = (x, s', w')"
  shows "holds w'"
proof -
  let ?s = "s\<lparr>ld_session := map_option (\<lambda>x. Reverting (session_unit x)) (ld_session s)\<rparr>"
  obtain y w1 where y: "apply_device fs ?s (ld_device s) w = (y, w1)" by (cases "apply_device fs ?s (ld_device s) w")
  have "pred_option session_ok (map_option (\<lambda>x. Reverting (session_unit x)) (ld_session s))"
    using assms(1) by (cases "ld_session s") (auto simp: service_ok_def session_ok_def)
  then have "service_ok ?s" using assms(1) by (intro service_ok_upd(3))
  then have w1: "holds w1" using apply_device_keeps [of ?s w "ld_device s"] assms(2,3) y by simp
  have "w' = w1 \<or> (\<exists>u. w' = snd (write_uclamp fs r u \<lparr>lim_min = 0, lim_max = 100\<rparr> w1))"
    using assms(2,4) y
    by (auto simp: restore_def Let_def split: result.splits option.splits bool.splits prod.splits)
      (metis snd_conv)+
  with w1 write_uclamp_keeps [OF w1] show ?thesis by auto
qed

end

lemma restore_roots: "restore fs s w = (x, s', w') \<Longrightarrow> ld_roots s' = ld_roots s"
  using restore_result [of fs s w x s' w'] by simp

lemma execute_roots:
  assumes "execute fs s req w = (x, s', w')"
  shows "ld_roots s' = ld_roots s"
  using assms
proof (cases rule: execute_cases)
  case (device ps d)
  from execute_device_result [OF device(3)] show ?thesis by auto
next
  case (session ps u cpu gpu)
  from session(3) show ?thesis by (cases rule: execute_session_cases) simp_all
next
  case (finish ps u)
  from execute_end_result [OF finish(3)] show ?thesis by (auto dest: restore_roots)
qed simp_all

context confined_world
begin

lemma poll_session_keeps:
  assumes "service_ok s" "ld_roots s = r" "holds w" "poll_session fs s w = (x, s', w')"
  shows "holds w'"
proof -
  from assms(4) have "w' = w \<or> restore fs s w = (x, s', w')"
    by (auto simp: poll_session_def split: option.splits session.splits result.splits bool.splits)
  with assms restore_keeps show ?thesis by blast
qed

lemma reassert_keeps:
  assumes ok: "service_ok s" and r: "ld_roots s = r" and h: "holds w" and e: "reassert fs s w = (x, s', w')"
  shows "holds w'"
proof (cases "cpu_policies fs (ld_roots s) w")
  case (Ok ps)
  let ?s = "s\<lparr>policies := ps\<rparr>"
  have oks: "service_ok ?s" by (rule service_ok_upd(1) [OF ok cpu_policies_ok [OF Ok]])
  obtain y t v where p: "poll_session fs ?s w = (y, t, v)" by (cases "poll_session fs ?s w")
  have v: "holds v" using poll_session_keeps [OF oks _ h p] r by simp
  have t: "service_ok t" "ld_roots t = r"
    using poll_session_result [OF p] oks r by (auto dest: restore_roots restore_ok)
  obtain z v2 where z: "clamp_slices fs r [parent_slice r, games_slice r] v = (z, v2)"
    by (cases "clamp_slices fs r [parent_slice r, games_slice r] v")
  have v2: "holds v2" using clamp_slices_keeps [of "[parent_slice r, games_slice r]" v] v z by simp
  note last = apply_session_keeps [OF t v2] apply_device_keeps [OF t v2]
  from e Ok p t z have "w' = v \<or> w' = v2 \<or> (\<exists>u d cpu gpu. w' = snd (apply_session fs t u d cpu gpu v2)) \<or>
      (\<exists>d. w' = snd (apply_device fs t d v2))"
    by (auto simp: reassert_def Let_def split: result.splits prod.splits option.splits session.splits)
      (metis snd_conv)+
  with v v2 last show ?thesis by auto
next
  case (Err m)
  with e h show ?thesis by (simp add: reassert_def)
qed

lemma execute_session_keeps:
  assumes ok: "service_ok s" and r: "ld_roots s = r" and h: "holds w"
    and e: "execute_session fs s u cpu gpu w = (x, s', w')"
  shows "holds w'"
proof (cases "session_request fs s u cpu gpu w")
  case (Ok i)
  let ?s = "s\<lparr>ld_session := Some (Active u (ld_device s) cpu gpu)\<rparr>"
  have oks: "service_ok ?s" using ok session_request_Ok [of fs s u cpu gpu w] Ok
    by (auto simp: service_ok_def session_ok_def device_ok_def)
  obtain y w1 where y: "apply_session fs ?s u (ld_device s) cpu gpu w = (y, w1)"
    by (cases "apply_session fs ?s u (ld_device s) cpu gpu w")
  have w1: "holds w1" using apply_session_keeps [OF oks _ h, of u "ld_device s" cpu gpu] r y by simp
  obtain z t w2 where z: "restore fs ?s w1 = (z, t, w2)" by (cases "restore fs ?s w1")
  have "holds w2" by (rule restore_keeps [OF oks _ w1 z]) (simp add: r)
  with w1 e Ok y z show ?thesis by (cases y) (auto simp: execute_session_def Let_def)
next
  case (Err m)
  with e h show ?thesis by (simp add: execute_session_def)
qed

lemma execute_keeps:
  assumes ok: "service_ok s" and r: "ld_roots s = r" and h: "holds w" and e: "execute fs s req w = (x, s', w')"
  shows "holds w'"
proof (cases "cpu_policies fs (ld_roots s) w")
  case (Ok ps)
  let ?s = "s\<lparr>policies := ps\<rparr>"
  have oks: "service_ok ?s" by (rule service_ok_upd(1) [OF ok cpu_policies_ok [OF Ok]])
  have rs: "ld_roots ?s = r" using r by simp
  show ?thesis
  proof (cases req)
    case (ApplyDevice d)
    obtain y w1 where y: "apply_device fs ?s d w = (y, w1)" by (cases "apply_device fs ?s d w")
    have w1: "holds w1" using apply_device_keeps [OF oks rs h, of d] y by simp
    have "holds (snd (apply_device fs ?s (ld_device s) w1))" by (rule apply_device_keeps [OF oks rs w1])
    with e Ok ApplyDevice y w1 h show ?thesis
      by (auto simp: execute_def execute_device_def Let_def split: result.splits if_splits)
  next
    case (ApplySession u cpu gpu)
    with e Ok execute_session_keeps [OF oks rs h, of u cpu gpu x s' w'] show ?thesis by (simp add: execute_def)
  next
    case (EndSession u)
    with e Ok have "w' = w \<or> (\<exists>y. restore fs ?s w = (y, s', w'))"
      by (auto simp: execute_def execute_end_def Let_def split: result.splits if_splits prod.splits)
    with h restore_keeps [OF oks rs h] show ?thesis by blast
  qed (use e Ok h in \<open>auto simp: execute_def\<close>)
next
  case (Err m)
  with e h show ?thesis by (simp add: execute_def)
qed

lemma ld_start_keeps:
  assumes "holds w"
  shows "holds (snd (ld_start fs r d names w))"
proof -
  have run: "holds (snd (and_then (prepare_slices fs r [parent_slice r, games_slice r] w)
      (\<lambda>_ w1. and_then (apply_device fs s (ld_device s) w1) (\<lambda>_ w2. (Ok s, w2)))))"
    if "service_ok s" "ld_roots s = r" for s
    by (intro seq_keeps prepare_slices_keeps apply_device_keeps that assms) simp_all
  let ?s = "\<lambda>ps gs. \<lparr>ld_roots = r, ld_defaults = d, ld_device = d, policies = ps, gpus = gs, ld_session = None\<rparr>"
  have "(\<exists>e. ld_start fs r d names w = (Err e, w)) \<or> (\<exists>ps gs. cpu_policies fs r w = Ok ps \<and>
      read_gpus fs r names w = Ok gs \<and> validate_device (?s ps gs) d = Ok ())"
  proof (cases "cpu_policies fs r w")
    case (Ok ps)
    then show ?thesis
      by (cases "read_gpus fs r names w"; cases "validate_device (?s ps (ok_value (read_gpus fs r names w))) d")
        (auto simp: ld_start_def)
  qed (simp add: ld_start_def)
  then show ?thesis
  proof (elim disjE exE conjE)
    fix ps gs
    assume ready: "cpu_policies fs r w = Ok ps" "read_gpus fs r names w = Ok gs" "validate_device (?s ps gs) d = Ok ()"
    then have "service_ok (?s ps gs)"
      by (simp add: service_ok_def cpu_policies_ok read_gpus_ok validate_device_ok)
    from run [OF this] ready show ?thesis by (simp add: ld_start_def Let_def del: prepare_slices.simps)
  qed (simp add: assms)
qed

lemma ld_step_keeps:
  assumes "service_ok s" "ld_roots s = r" "holds w" "ld_step fs (s, w) i = (s', w')"
  shows "service_ok s' \<and> ld_roots s' = r \<and> holds w'"
proof (cases i)
  case (LdRequest req)
  with assms(4) obtain x where "execute fs s req w = (x, s', w')"
    by (cases "execute fs s req w") (auto simp: ld_handle_execute)
  with assms show ?thesis by (auto dest: execute_ok execute_roots execute_keeps)
next
  case LdPoll
  with assms(4) obtain x where p: "poll_session fs s w = (x, s', w')" by (cases "poll_session fs s w") auto
  with assms poll_session_result [OF p] show ?thesis
    by (auto dest: restore_ok restore_roots poll_session_keeps)
next
  case LdReassert
  with assms(4) obtain x where p: "reassert fs s w = (x, s', w')" by (cases "reassert fs s w") auto
  with assms reassert_result [OF p] show ?thesis
    by (auto dest: restore_roots reassert_keeps reassert_ok)
qed

sublocale confined_runs: machine "ld_step fs" "\<lambda>sw. service_ok (fst sw) \<and> ld_roots (fst sw) = r \<and> holds (snd sw)"
  by unfold_locales (auto dest: ld_step_keeps [OF _ _ _ prod.collapse [symmetric]])

end

text \<open>Any file system, with the paths it was asked to write recorded beside its world.\<close>

definition logging :: "'w host_files \<Rightarrow> ('w \<times> string list) host_files" where
  "logging fs =
     \<lparr>fs_read = (\<lambda>p w. fs_read fs p (fst w)),
      fs_write = (\<lambda>p v w. let (x, w1) = fs_write fs p v (fst w) in (x, w1, p # snd w)),
      fs_entries = (\<lambda>p w. fs_entries fs p (fst w)),
      fs_canonicalize = (\<lambda>p w. fs_canonicalize fs p (fst w)),
      fs_exists = (\<lambda>p w. fs_exists fs p (fst w)),
      fs_remount = (\<lambda>w. (fs_remount fs (fst w), snd w))\<rparr>"

lemma logging_simps [simp]:
  "snd (snd (fs_write (logging fs) p v w)) = p # snd w"
  "snd (fs_remount (logging fs) w) = snd w"
  "fs_canonicalize (logging fs) p w = fs_canonicalize fs p (fst w)"
  by (simp_all add: logging_def case_prod_beta Let_def)

lemma writable_logging: "writable (logging fs) r p \<Longrightarrow> writable fs r p"
proof (induction rule: writable.induct)
  case (writable_clamp w root u path f)
  from writable_clamp(1) have "fs_canonicalize fs (cgroup_root r) (fst w) = Ok root" by simp
  then show ?case using writable_clamp(2-4) by (rule writable.writable_clamp)
qed (rule writable.intros, assumption+)+

interpretation logged: confined_world "logging fs" r "\<lambda>w. \<forall>p \<in> set (snd w). writable fs r p"
  by unfold_locales (simp_all add: writable_logging)

text \<open>
  C10. The daemon only ever writes the files it is meant to. From its start and through every
  sequence of requests, polls and reassertions, whatever the files contain and whichever
  operations fail, each path it asks to write is a governor or frequency limit of a CPU policy, a
  frequency limit of a configured GPU, the controller or uclamp file of the two slices, or a
  uclamp file of a game's cgroup that resolves inside the games' slice.
\<close>

theorem writes_confined:
  assumes "ld_start (logging fs) r d names (w, []) = (Ok s, w1)"
  shows "\<forall>p \<in> set (snd (snd (foldl (ld_step (logging fs)) (s, w1) is))). writable fs r p"
proof -
  have w1: "\<forall>p \<in> set (snd w1). writable fs r p"
    using logged.ld_start_keeps [of "(w, [])" fs r d names] assms by simp
  have "service_ok s" "ld_roots s = r" using ld_start_ok [OF assms] by simp_all
  with w1 logged.confined_runs.inv_run [of "(s, w1)" r fs "is"] show ?thesis by simp
qed

subsection \<open>The frequency limits of the kernel\<close>

text \<open>
  What the daemon relies on of cpufreq and devfreq: the directory of a node has a file for the
  lower and one for the upper limit, the two are never crossed, a write that would cross them is
  not accepted, and one that does not cross them and whose value the hardware accepts takes
  effect. Writing a governor may change the limits of that policy, and of no other node.
\<close>

datatype freq_node = CpuNode string | GpuNode string

primrec node_dir :: "roots \<Rightarrow> freq_node \<Rightarrow> string" where
  "node_dir r (CpuNode name) = roots_cpu r name"
| "node_dir r (GpuNode name) = roots_gpu r name"

primrec node_min :: "freq_node \<Rightarrow> string" where
  "node_min (CpuNode _) = ''scaling_min_freq''"
| "node_min (GpuNode _) = ''min_freq''"

primrec node_max :: "freq_node \<Rightarrow> string" where
  "node_max (CpuNode _) = ''scaling_max_freq''"
| "node_max (GpuNode _) = ''max_freq''"

locale freq_kernel =
  fixes fs :: "'w host_files" and r :: roots and nodes :: "freq_node set" and accepts :: "freq_node \<Rightarrow> nat \<Rightarrow> bool"
    and valid :: "'w \<Rightarrow> bool" and interval :: "'w \<Rightarrow> freq_node \<Rightarrow> nat \<times> nat"
  assumes ordered: "valid w \<Longrightarrow> n \<in> nodes \<Longrightarrow> fst (interval w n) \<le> snd (interval w n)"
    and min_reads: "valid w \<Longrightarrow> n \<in> nodes \<Longrightarrow>
      number fs (path_join (node_dir r n) (node_min n)) w = Ok (fst (interval w n))"
    and min_writes: "valid w \<Longrightarrow> n \<in> nodes \<Longrightarrow> accepts n v \<Longrightarrow> v \<le> snd (interval w n) \<Longrightarrow>
      \<exists>w'. fs_write fs (path_join (node_dir r n) (node_min n)) (decimal v @ [CHR 0x0A]) w = (Ok (), w') \<and>
        valid w' \<and> interval w' = (interval w)(n := (v, snd (interval w n)))"
    and max_writes: "valid w \<Longrightarrow> n \<in> nodes \<Longrightarrow> accepts n v \<Longrightarrow> fst (interval w n) \<le> v \<Longrightarrow>
      \<exists>w'. fs_write fs (path_join (node_dir r n) (node_max n)) (decimal v @ [CHR 0x0A]) w = (Ok (), w') \<and>
        valid w' \<and> interval w' = (interval w)(n := (fst (interval w n), v))"
    and governor_writes: "valid w \<Longrightarrow> CpuNode name \<in> nodes \<Longrightarrow>
      fs_write fs (path_join (roots_cpu r name) ''scaling_governor'') t w = (x, w') \<Longrightarrow>
      valid w' \<and> (\<forall>n. n \<noteq> CpuNode name \<longrightarrow> interval w' n = interval w n)"
    and remounts: "valid w \<Longrightarrow> valid (fs_remount fs w) \<and> interval (fs_remount fs w) = interval w"
begin

text \<open>The order of the two writes never crosses the limits, whatever they were.\<close>

lemma write_interval_sets:
  assumes w: "valid w" and n: "n \<in> nodes" and a: "accepts n mn" "accepts n mx" and le: "mn \<le> mx"
  shows "\<exists>w'. write_interval fs r (node_dir r n) (node_min n) (node_max n) mn mx w = (Ok (), w') \<and>
    valid w' \<and> interval w' = (interval w)(n := (mn, mx))"
proof (cases "mx < fst (interval w n)")
  case True
  then have "mn \<le> snd (interval w n)" using le ordered [OF w n] by simp
  from min_writes [OF w n a(1) this] obtain w1 where w1:
    "fs_write fs (path_join (node_dir r n) (node_min n)) (decimal mn @ [CHR 0x0A]) w = (Ok (), w1)"
    "valid w1" "interval w1 = (interval w)(n := (mn, snd (interval w n)))" by blast
  have "fst (interval w1 n) \<le> mx" using le by (simp add: w1(3))
  from max_writes [OF w1(2) n a(2) this] obtain w2 where
    "fs_write fs (path_join (node_dir r n) (node_max n)) (decimal mx @ [CHR 0x0A]) w1 = (Ok (), w2)"
    "valid w2" "interval w2 = (interval w)(n := (mn, mx))" by (auto simp: w1(3))
  with w1 True show ?thesis by (simp add: write_interval_def min_reads [OF w n] ld_write_def)
next
  case False
  then have "fst (interval w n) \<le> mx" by simp
  from max_writes [OF w n a(2) this] obtain w1 where w1:
    "fs_write fs (path_join (node_dir r n) (node_max n)) (decimal mx @ [CHR 0x0A]) w = (Ok (), w1)"
    "valid w1" "interval w1 = (interval w)(n := (fst (interval w n), mx))" by blast
  have "mn \<le> snd (interval w1 n)" using le by (simp add: w1(3))
  from min_writes [OF w1(2) n a(1) this] obtain w2 where
    "fs_write fs (path_join (node_dir r n) (node_min n)) (decimal mn @ [CHR 0x0A]) w1 = (Ok (), w2)"
    "valid w2" "interval w2 = (interval w)(n := (mn, mx))" by (auto simp: w1(3))
  with w1 False show ?thesis by (simp add: write_interval_def min_reads [OF w n] ld_write_def)
qed

lemma governor_write_frame:
  assumes w: "valid w" and n: "CpuNode name \<in> nodes"
    and g: "ld_write fs r (path_join (roots_cpu r name) ''scaling_governor'') t w = (x, w')"
  shows "valid w' \<and> (\<forall>n. n \<noteq> CpuNode name \<longrightarrow> interval w' n = interval w n)"
proof -
  let ?p = "path_join (roots_cpu r name) ''scaling_governor''"
  obtain y w1 where y: "fs_write fs ?p (t @ [CHR 0x0A]) w = (y, w1)" by (cases "fs_write fs ?p (t @ [CHR 0x0A]) w")
  note w1 = governor_writes [OF w n y]
  obtain z w2 where z: "fs_write fs ?p (t @ [CHR 0x0A]) (fs_remount fs w1) = (z, w2)"
    by (cases "fs_write fs ?p (t @ [CHR 0x0A]) (fs_remount fs w1)")
  have rm: "valid (fs_remount fs w1)" "interval (fs_remount fs w1) = interval w1" using remounts w1 by simp_all
  note w2 = governor_writes [OF rm(1) n z, unfolded rm(2)]
  from g y z have "w' = w1 \<or> w' = w2" by (auto simp: ld_write_def split: result.splits if_splits)
  with w1 w2 show ?thesis by auto
qed

end

definition in_hardware :: "nat \<Rightarrow> nat \<Rightarrow> nat list \<Rightarrow> nat \<Rightarrow> bool" where
  "in_hardware hi lo steps v \<longleftrightarrow> (if steps = [] then lo \<le> v \<and> v \<le> hi else v \<in> set steps)"

definition policy_target :: "defaults \<Rightarrow> nat \<Rightarrow> cpu_policy \<Rightarrow> nat \<times> nat" where
  "policy_target d cpu_max p =
     (fst (mapped (def_cpu d) (cpuinfo_max_freq p) (min_freq p) (available_frequencies p)),
      snd (mapped \<lparr>lim_min = 0, lim_max = cpu_max\<rparr> (cpuinfo_max_freq p) (min_freq p) (available_frequencies p)))"

definition gpu_target :: "limits \<Rightarrow> gpu_devfreq \<Rightarrow> nat \<times> nat" where
  "gpu_target l g = mapped l (last (gpu_frequencies g)) (hd (gpu_frequencies g)) (gpu_frequencies g)"

lemma pick_in_hardware:
  assumes "pct \<le> 100" "lo \<le> hi" "hi < 2 ^ 64" "sorted_wrt (<) steps"
  shows "in_hardware hi lo steps (pick_max pct hi lo steps)" "in_hardware hi lo steps (pick_min pct hi lo steps)"
proof -
  show "in_hardware hi lo steps (pick_max pct hi lo steps)"
    using assms percent_le(1) [OF assms(1), of hi] pick_max_steps(1) [OF assms(4)]
    by (cases "steps = []") (auto simp: in_hardware_def pick_max_raw)
  show "in_hardware hi lo steps (pick_min pct hi lo steps)"
    using assms percent_le(2) [OF assms(1), of hi] pick_min_steps(1) [OF assms(4)]
    by (cases "steps = []") (auto simp: in_hardware_def pick_min_raw)
qed

lemma mapped_in_hardware:
  assumes "lim_min l \<le> 100" "lim_max l \<le> 100" "lo \<le> hi" "hi < 2 ^ 64" "sorted_wrt (<) steps"
  shows "in_hardware hi lo steps (fst (mapped l hi lo steps))" "in_hardware hi lo steps (snd (mapped l hi lo steps))"
  using pick_in_hardware [OF assms(1,3-5)] pick_in_hardware [OF assms(2,3-5)]
  by (simp_all add: mapped_picks min_def)

lemma policy_target_ok:
  assumes "policy_ok p" "limits_validate (def_cpu d) = Ok ()" "lim_max (def_cpu d) \<le> cpu_max" "cpu_max \<le> 100"
  shows "fst (policy_target d cpu_max p) \<le> snd (policy_target d cpu_max p)"
    and "in_hardware (cpuinfo_max_freq p) (min_freq p) (available_frequencies p) (fst (policy_target d cpu_max p))"
    and "in_hardware (cpuinfo_max_freq p) (min_freq p) (available_frequencies p) (snd (policy_target d cpu_max p))"
proof -
  have hw: "min_freq p \<le> cpuinfo_max_freq p" "cpuinfo_max_freq p < 2 ^ 64" "sorted_wrt (<) (available_frequencies p)"
    using assms(1) unfolding policy_ok_def steps_ok_def by blast+
  have lim: "lim_min (def_cpu d) \<le> 100" "lim_max (def_cpu d) \<le> 100" using assms(2) by (auto simp: limits_validate_Ok)
  from pick_max_mono [OF assms(3,4) hw]
  show "fst (policy_target d cpu_max p) \<le> snd (policy_target d cpu_max p)"
    by (simp add: policy_target_def mapped_picks)
  from mapped_in_hardware(1) [OF lim hw]
  show "in_hardware (cpuinfo_max_freq p) (min_freq p) (available_frequencies p) (fst (policy_target d cpu_max p))"
    by (simp add: policy_target_def)
  from mapped_in_hardware(2) [of "\<lparr>lim_min = 0, lim_max = cpu_max\<rparr>", OF _ _ hw] assms(4)
  show "in_hardware (cpuinfo_max_freq p) (min_freq p) (available_frequencies p) (snd (policy_target d cpu_max p))"
    by (simp add: policy_target_def)
qed

lemma gpu_target_ok:
  assumes "gpu_ok g" "limits_validate l = Ok ()"
  shows "fst (gpu_target l g) \<le> snd (gpu_target l g)"
    and "fst (gpu_target l g) \<in> set (gpu_frequencies g)" "snd (gpu_target l g) \<in> set (gpu_frequencies g)"
proof -
  let ?s = "gpu_frequencies g"
  have s: "?s \<noteq> []" "sorted_wrt (<) ?s" "\<forall>v \<in> set ?s. v < 2 ^ 64"
    using assms(1) unfolding gpu_ok_def steps_ok_def by blast+
  have hw: "hd ?s \<le> last ?s" "last ?s < 2 ^ 64" using s sorted_hd_le [OF s(2), of "last ?s"] by simp_all
  have lim: "lim_min l \<le> 100" "lim_max l \<le> 100" using assms(2) by (auto simp: limits_validate_Ok)
  show "fst (gpu_target l g) \<le> snd (gpu_target l g)" by (simp add: gpu_target_def mapped_picks)
  show "fst (gpu_target l g) \<in> set ?s" "snd (gpu_target l g) \<in> set ?s"
    using mapped_in_hardware [OF lim hw s(2)] s(1) by (simp_all add: gpu_target_def in_hardware_def)
qed

text \<open>A node of the kernel that stands for a policy or a GPU of the service.\<close>

definition policy_node :: "freq_node set \<Rightarrow> (freq_node \<Rightarrow> nat \<Rightarrow> bool) \<Rightarrow> cpu_policy \<Rightarrow> bool" where
  "policy_node nodes accepts p \<longleftrightarrow> CpuNode (policy_name p) \<in> nodes \<and>
     (\<forall>v. in_hardware (cpuinfo_max_freq p) (min_freq p) (available_frequencies p) v \<longrightarrow> accepts (CpuNode (policy_name p)) v)"

definition gpu_node :: "freq_node set \<Rightarrow> (freq_node \<Rightarrow> nat \<Rightarrow> bool) \<Rightarrow> gpu_devfreq \<Rightarrow> bool" where
  "gpu_node nodes accepts g \<longleftrightarrow> GpuNode (gpu_name g) \<in> nodes \<and>
     (\<forall>v \<in> set (gpu_frequencies g). accepts (GpuNode (gpu_name g)) v)"

definition governor_fails :: "'w host_files \<Rightarrow> roots \<Rightarrow> defaults \<Rightarrow> cpu_policy \<Rightarrow> bool" where
  "governor_fails fs r d p \<longleftrightarrow>
     (\<exists>w. \<not> is_ok (fst (ld_write fs r (path_join (roots_cpu r (policy_name p)) ''scaling_governor'') (governor d) w)))"

context freq_kernel
begin

lemma apply_policy_sets:
  assumes p: "policy_ok p" "policy_node nodes accepts p"
    and d: "limits_validate (def_cpu d) = Ok ()" "lim_max (def_cpu d) \<le> c" "c \<le> 100"
    and w: "valid w" and e: "apply_policy fs r d c p w = (x, w')"
  shows "valid w'" "\<forall>n. n \<noteq> CpuNode (policy_name p) \<longrightarrow> interval w' n = interval w n"
    and "if is_ok x then interval w' (CpuNode (policy_name p)) = policy_target d c p else governor_fails fs r d p"
proof -
  let ?n = "CpuNode (policy_name p)" and ?t = "policy_target d c p"
  let ?g = "ld_write fs r (path_join (roots_cpu r (policy_name p)) ''scaling_governor'') (governor d) w"
  have n: "?n \<in> nodes" using p(2) by (simp add: policy_node_def)
  obtain y w1 where y: "?g = (y, w1)" by (cases ?g)
  note w1 = governor_write_frame [OF w n y]
  have "accepts ?n (fst ?t)" "accepts ?n (snd ?t)" "fst ?t \<le> snd ?t"
    using policy_target_ok [OF p(1) d] p(2) by (simp_all add: policy_node_def)
  with write_interval_sets [of w1 ?n "fst ?t" "snd ?t"] n w1 obtain w2 where w2:
    "write_interval fs r (roots_cpu r (policy_name p)) ''scaling_min_freq'' ''scaling_max_freq'' (fst ?t) (snd ?t) w1 = (Ok (), w2)"
    "valid w2" "interval w2 = (interval w1)(?n := ?t)" by auto
  have "valid w' \<and> (\<forall>n. n \<noteq> ?n \<longrightarrow> interval w' n = interval w n) \<and>
    (if is_ok x then interval w' ?n = ?t else governor_fails fs r d p)"
  proof (cases y)
    case (Ok u)
    with e y w2 have "x = Ok ()" "w' = w2" by (auto simp: apply_policy_def Let_def policy_target_def case_prod_beta)
    with w1 w2 show ?thesis by simp
  next
    case (Err m)
    with e y have "x = Err m" "w' = w1" by (auto simp: apply_policy_def Let_def)
    moreover have "governor_fails fs r d p" using Err y unfolding governor_fails_def by (metis fst_conv is_ok.simps(2))
    ultimately show ?thesis using w1 by simp
  qed
  then show "valid w'" "\<forall>n. n \<noteq> ?n \<longrightarrow> interval w' n = interval w n"
    and "if is_ok x then interval w' ?n = ?t else governor_fails fs r d p" by blast+
qed

lemma apply_policies_sets:
  assumes d: "limits_validate (def_cpu d) = Ok ()" "lim_max (def_cpu d) \<le> c" "c \<le> 100"
  shows "list_all policy_ok ps \<Longrightarrow> list_all (policy_node nodes accepts) ps \<Longrightarrow> distinct (map policy_name ps) \<Longrightarrow>
    valid w \<Longrightarrow> apply_policies fs r d c ps w = (x, w') \<Longrightarrow>
    valid w' \<and> (\<forall>n. n \<notin> CpuNode ` policy_name ` set ps \<longrightarrow> interval w' n = interval w n) \<and>
    (if is_ok x then \<forall>p \<in> set ps. interval w' (CpuNode (policy_name p)) = policy_target d c p
     else \<exists>p \<in> set ps. governor_fails fs r d p)"
proof (induction ps arbitrary: w)
  case (Cons p ps)
  obtain y w1 where y: "apply_policy fs r d c p w = (y, w1)" by (cases "apply_policy fs r d c p w")
  have p: "policy_ok p" "policy_node nodes accepts p" using Cons.prems by simp_all
  note s = apply_policy_sets [OF p d Cons.prems(4) y]
  show ?case
  proof (cases y)
    case (Ok u)
    with Cons.prems(5) y have "apply_policies fs r d c ps w1 = (x, w')" by simp
    with Cons.IH [of w1] Cons.prems s(1) have ih: "valid w'"
      "\<forall>n. n \<notin> CpuNode ` policy_name ` set ps \<longrightarrow> interval w' n = interval w1 n"
      "if is_ok x then \<forall>p \<in> set ps. interval w' (CpuNode (policy_name p)) = policy_target d c p
       else \<exists>p \<in> set ps. governor_fails fs r d p" by simp_all
    have "CpuNode (policy_name p) \<notin> CpuNode ` policy_name ` set ps" using Cons.prems(3) by auto
    then have "interval w' (CpuNode (policy_name p)) = policy_target d c p" using ih(2) s(3) Ok by simp
    with ih s(2) show ?thesis by (auto split: if_splits)
  next
    case (Err m)
    with Cons.prems(5) y s show ?thesis by auto
  qed
qed auto

lemma apply_gpus_sets:
  assumes l: "limits_validate l = Ok ()"
  shows "list_all gpu_ok gs \<Longrightarrow> list_all (gpu_node nodes accepts) gs \<Longrightarrow> distinct (map gpu_name gs) \<Longrightarrow>
    valid w \<Longrightarrow> \<exists>w'. apply_gpus fs r l gs w = (Ok (), w') \<and>
    valid w' \<and> (\<forall>n. n \<notin> GpuNode ` gpu_name ` set gs \<longrightarrow> interval w' n = interval w n) \<and>
    (\<forall>g \<in> set gs. interval w' (GpuNode (gpu_name g)) = gpu_target l g)"
proof (induction gs arbitrary: w)
  case (Cons g gs)
  let ?n = "GpuNode (gpu_name g)" and ?t = "gpu_target l g"
  have g: "gpu_ok g" "?n \<in> nodes" using Cons.prems by (simp_all add: gpu_node_def)
  have "accepts ?n (fst ?t)" "accepts ?n (snd ?t)" "fst ?t \<le> snd ?t"
    using gpu_target_ok [OF g(1) l] Cons.prems(2) by (simp_all add: gpu_node_def)
  with write_interval_sets [of w ?n "fst ?t" "snd ?t"] g Cons.prems(4) obtain w1 where w1:
    "apply_gpu fs r l g w = (Ok (), w1)" "valid w1" "interval w1 = (interval w)(?n := ?t)"
    by (auto simp: apply_gpu_def Let_def gpu_target_def case_prod_beta)
  from Cons.IH [of w1] Cons.prems w1(2) obtain w' where w':
    "apply_gpus fs r l gs w1 = (Ok (), w')" "valid w'"
    "\<forall>n. n \<notin> GpuNode ` gpu_name ` set gs \<longrightarrow> interval w' n = interval w1 n"
    "\<forall>g \<in> set gs. interval w' (GpuNode (gpu_name g)) = gpu_target l g" by auto
  have "?n \<notin> GpuNode ` gpu_name ` set gs" using Cons.prems(3) by auto
  then have "interval w' ?n = ?t" using w'(3) w1(3) by simp
  with w1 w' show ?case by auto
qed simp

end

text \<open>
  C9. Applying limits reaches the hardware. On a kernel that keeps its side of the contract,
  with settings that passed validation, applying them either puts every CPU policy and every GPU
  at exactly the frequencies that the percentages select, from whatever limits were in force
  before, or fails because a governor could not be written. The order of the writes never lets
  the kernel refuse an interval, also when a session raises the CPU cap above the device's.
\<close>

theorem limits_reach_hardware:
  assumes k: "freq_kernel fs (ld_roots s) nodes accepts valid interval" and s: "service_ok s"
    and n: "list_all (policy_node nodes accepts) (policies s)" "list_all (gpu_node nodes accepts) (gpus s)"
    and u: "distinct (map policy_name (policies s))" "distinct (map gpu_name (gpus s))"
    and d: "limits_validate (def_cpu d) = Ok ()" "limits_validate gpu = Ok ()"
    and c: "lim_max (def_cpu d) \<le> c" "c \<le> 100" and w: "valid w"
  shows "case apply_hardware fs s d c gpu w of (x, w') \<Rightarrow> valid w' \<and>
    (if is_ok x
     then (\<forall>p \<in> set (policies s). interval w' (CpuNode (policy_name p)) = policy_target d c p) \<and>
       (\<forall>g \<in> set (gpus s). interval w' (GpuNode (gpu_name g)) = gpu_target gpu g)
     else \<exists>p \<in> set (policies s). governor_fails fs (ld_roots s) d p)"
proof -
  have ok: "list_all policy_ok (policies s)" "list_all gpu_ok (gpus s)" using s by (simp_all add: service_ok_def)
  obtain y w1 where y: "apply_policies fs (ld_roots s) d c (policies s) w = (y, w1)"
    by (cases "apply_policies fs (ld_roots s) d c (policies s) w")
  note p = freq_kernel.apply_policies_sets [OF k d(1) c ok(1) n(1) u(1) w y]
  then have "valid w1" by simp
  from freq_kernel.apply_gpus_sets [OF k d(2) ok(2) n(2) u(2) this] obtain w2 where w2:
    "apply_gpus fs (ld_roots s) gpu (gpus s) w1 = (Ok (), w2)" "valid w2"
    "\<forall>n. n \<notin> GpuNode ` gpu_name ` set (gpus s) \<longrightarrow> interval w2 n = interval w1 n"
    "\<forall>g \<in> set (gpus s). interval w2 (GpuNode (gpu_name g)) = gpu_target gpu g" by blast
  have "interval w2 (CpuNode name) = interval w1 (CpuNode name)" for name using w2(3) by blast
  with p w2 y show ?thesis by (cases y) (auto simp: apply_hardware_def)
qed

subsection \<open>A simulated kernel\<close>

text \<open>
  A handheld with one CPU policy and one GPU, whose limits are the world. It refuses a write that
  would cross the limits and accepts every other file of the two slices and the governor.
\<close>

definition sim_roots :: roots where
  "sim_roots = \<lparr>sysfs = ''/sys'', cgroup_root = ''/c''\<rparr>"

definition sim_static :: "(string \<times> string) list" where
  "sim_static =
     [(path_join (roots_cpu sim_roots ''policy0'') ''cpuinfo_max_freq'', ''9''),
      (path_join (roots_cpu sim_roots ''policy0'') ''cpuinfo_min_freq'', ''2''),
      (path_join (roots_cpu sim_roots ''policy0'') ''related_cpus'', ''0 1''),
      (path_join (roots_cpu sim_roots ''policy0'') ''scaling_available_frequencies'', ''2 5 9''),
      (path_join (roots_cpu sim_roots ''policy0'') ''scaling_available_governors'', ''x''),
      (path_join (roots_gpu sim_roots ''gpu'') ''available_frequencies'', ''3 6'')]"

definition sim_parse :: "string \<Rightarrow> nat" where
  "sim_parse v = (case parse_u64 (butlast v) of None \<Rightarrow> 0 | Some n \<Rightarrow> n)"

definition sim_nodes :: "(freq_node \<times> string \<times> string) list" where
  "sim_nodes = map (\<lambda>n. (n, path_join (node_dir sim_roots n) (node_min n), path_join (node_dir sim_roots n) (node_max n)))
     [CpuNode ''policy0'', GpuNode ''gpu'']"

definition sim_write :: "string \<Rightarrow> string \<Rightarrow> (freq_node \<Rightarrow> nat \<times> nat) \<Rightarrow> (unit, io_error) result \<times> (freq_node \<Rightarrow> nat \<times> nat)" where
  "sim_write p v w =
     (case find (\<lambda>(n, mn, mx). p = mn \<or> p = mx) sim_nodes of
        None \<Rightarrow> (Ok (), w)
      | Some (n, mn, mx) \<Rightarrow>
          let (a, b) = w n; c = sim_parse v in
          if p = mn
          then if c \<le> b then (Ok (), w(n := (c, b))) else (Err (OtherIo ''Invalid argument''), w)
          else if a \<le> c then (Ok (), w(n := (a, c))) else (Err (OtherIo ''Invalid argument''), w))"

definition sim_files :: "(freq_node \<Rightarrow> nat \<times> nat) host_files" where
  "sim_files =
     \<lparr>fs_read = (\<lambda>p w. case find (\<lambda>(n, mn, mx). p = mn) sim_nodes of
          Some (n, _, _) \<Rightarrow> Ok (decimal (fst (w n)))
        | None \<Rightarrow> (case map_of sim_static p of Some v \<Rightarrow> Ok v | None \<Rightarrow> Err (NotFound ''No such file or directory''))),
      fs_write = sim_write,
      fs_entries = (\<lambda>_ _. Ok [Ok (Some ''policy0'')]),
      fs_canonicalize = (\<lambda>p _. Ok p),
      fs_exists = (\<lambda>_ _. Ok False),
      fs_remount = (\<lambda>w. w)\<rparr>"

definition sim_valid :: "(freq_node \<Rightarrow> nat \<times> nat) \<Rightarrow> bool" where
  "sim_valid w \<longleftrightarrow> (\<forall>n. fst (w n) \<le> snd (w n) \<and> snd (w n) < 2 ^ 64)"

lemma sim_parse_decimal: "v < 2 ^ 64 \<Longrightarrow> sim_parse (decimal v @ [CHR 0x0A]) = v"
  by (simp add: sim_parse_def parse_u64_def)

lemma sim_find_node:
  assumes "n \<in> {CpuNode ''policy0'', GpuNode ''gpu''}"
  shows "find (\<lambda>(_, mn, mx). path_join (node_dir sim_roots n) (node_min n) = mn \<or>
        path_join (node_dir sim_roots n) (node_min n) = mx) sim_nodes =
      Some (n, path_join (node_dir sim_roots n) (node_min n), path_join (node_dir sim_roots n) (node_max n))"
    and "find (\<lambda>(_, mn, mx). path_join (node_dir sim_roots n) (node_max n) = mn \<or>
        path_join (node_dir sim_roots n) (node_max n) = mx) sim_nodes =
      Some (n, path_join (node_dir sim_roots n) (node_min n), path_join (node_dir sim_roots n) (node_max n))"
    and "find (\<lambda>(_, mn, mx). path_join (node_dir sim_roots n) (node_min n) = mn) sim_nodes =
      Some (n, path_join (node_dir sim_roots n) (node_min n), path_join (node_dir sim_roots n) (node_max n))"
    and "path_join (node_dir sim_roots n) (node_max n) \<noteq> path_join (node_dir sim_roots n) (node_min n)"
  using assms by - (elim insertE emptyE; hypsubst; code_simp)+

lemma sim_write_node:
  assumes "n \<in> {CpuNode ''policy0'', GpuNode ''gpu''}"
  shows "sim_write (path_join (node_dir sim_roots n) (node_min n)) v w =
      (if sim_parse v \<le> snd (w n) then (Ok (), w(n := (sim_parse v, snd (w n)))) else (Err (OtherIo ''Invalid argument''), w))"
    and "sim_write (path_join (node_dir sim_roots n) (node_max n)) v w =
      (if fst (w n) \<le> sim_parse v then (Ok (), w(n := (fst (w n), sim_parse v))) else (Err (OtherIo ''Invalid argument''), w))"
  unfolding sim_write_def by (simp_all only: sim_find_node [OF assms]) (simp_all add: Let_def case_prod_beta sim_find_node(4) [OF assms])

lemma sim_write_governor:
  "sim_write (path_join (roots_cpu sim_roots ''policy0'') ''scaling_governor'') v w = (Ok (), w)"
proof -
  have "find (\<lambda>(_, mn, mx). path_join (roots_cpu sim_roots ''policy0'') ''scaling_governor'' = mn \<or>
      path_join (roots_cpu sim_roots ''policy0'') ''scaling_governor'' = mx) sim_nodes = None" by code_simp
  then show ?thesis by (simp add: sim_write_def)
qed

lemma sim_number:
  assumes "n \<in> {CpuNode ''policy0'', GpuNode ''gpu''}" "sim_valid w"
  shows "number sim_files (path_join (node_dir sim_roots n) (node_min n)) w = Ok (fst (w n))"
proof -
  have "fs_read sim_files (path_join (node_dir sim_roots n) (node_min n)) w = Ok (decimal (fst (w n)))"
    by (simp only: sim_files_def host_files.simps sim_find_node [OF assms(1)]) simp
  moreover have "fst (w n) < 2 ^ 64" using assms(2) unfolding sim_valid_def by (meson order_le_less_trans)
  then have "fst (w n) \<le> 2 ^ 64 - 1" by simp
  ultimately show ?thesis by (simp add: number_def read_text_def ok_or_def parse_u64_def)
qed

interpretation sim: freq_kernel sim_files sim_roots "{CpuNode ''policy0'', GpuNode ''gpu''}" "\<lambda>_ v. v < 2 ^ 64" sim_valid "\<lambda>w. w"
proof (unfold_locales, goal_cases)
  case (2 w n)
  then show ?case by (intro sim_number)
next
  case (3 w n v)
  then show ?case by (simp add: sim_files_def sim_write_node(1) sim_parse_decimal sim_valid_def)
next
  case (4 w n v)
  then show ?case by (simp add: sim_files_def sim_write_node(2) sim_parse_decimal sim_valid_def)
next
  case (5 w name t x w')
  then have "name = ''policy0''" by simp
  with 5 show ?case by (simp add: sim_files_def sim_write_governor)
qed (simp_all add: sim_valid_def sim_files_def)

definition example_policy :: cpu_policy where
  "example_policy = \<lparr>policy_name = ''policy0'', cpus = [0, 1], cpuinfo_max_freq = 9, available_frequencies = [2, 5, 9],
     available_governors = [''x''], min_freq = 2\<rparr>"

definition example_gpu :: gpu_devfreq where
  "example_gpu = \<lparr>gpu_name = ''gpu'', gpu_frequencies = [3, 6]\<rparr>"

definition example_defaults :: defaults where
  "example_defaults = \<lparr>def_cpu = \<lparr>lim_min = 0, lim_max = 60\<rparr>, def_gpu = \<lparr>lim_min = 0, lim_max = 60\<rparr>, governor = ''x''\<rparr>"

definition example_service :: limitsd where
  "example_service = \<lparr>ld_roots = sim_roots, ld_defaults = example_defaults, ld_device = example_defaults,
     policies = [example_policy], gpus = [example_gpu], ld_session = None\<rparr>"

text \<open>
  Witness of C9: from limits of 9 to 9 on the CPU and 3 to 6 on the GPU, a cap of 60 percent ends
  at 2 to 5 and 3 to 3.
\<close>

theorem limits_reach_hardware_witness:
  "let w' = snd (apply_hardware sim_files example_service example_defaults 60 (def_gpu example_defaults)
       ((\<lambda>_. (0, 0))(CpuNode ''policy0'' := (9, 9), GpuNode ''gpu'' := (3, 6))))
   in w' (CpuNode ''policy0'') = (2, 5) \<and> w' (GpuNode ''gpu'') = (3, 3)"
proof -
  let ?w = "(\<lambda>_. (0, 0))(CpuNode ''policy0'' := (9, 9), GpuNode ''gpu'' := (3 :: nat, 6 :: nat))"
  let ?N = "{CpuNode ''policy0'', GpuNode ''gpu''}"
  have k: "freq_kernel sim_files (ld_roots example_service) ?N (\<lambda>_ v. v < 2 ^ 64) sim_valid (\<lambda>w. w)"
    unfolding example_service_def limitsd.simps by (rule sim.freq_kernel_axioms)
  have "is_policy_name ''policy0''" "valid_gpu_node ''gpu''" by code_simp+
  then have s: "service_ok example_service"
    by (simp add: service_ok_def example_service_def example_policy_def example_gpu_def example_defaults_def
        policy_ok_def gpu_ok_def steps_ok_def device_ok_def limits_validate_def)
  have n: "list_all (policy_node ?N (\<lambda>_ v. v < 2 ^ 64)) (policies example_service)"
    "list_all (gpu_node ?N (\<lambda>_ v. v < 2 ^ 64)) (gpus example_service)"
    by (simp_all add: example_service_def example_policy_def example_gpu_def policy_node_def gpu_node_def in_hardware_def)
  have u: "distinct (map policy_name (policies example_service))" "distinct (map gpu_name (gpus example_service))"
    by (simp_all add: example_service_def)
  have d: "limits_validate (def_cpu example_defaults) = Ok ()" "limits_validate (def_gpu example_defaults) = Ok ()"
    "lim_max (def_cpu example_defaults) \<le> 60" "(60 :: nat) \<le> 100"
    by (simp_all add: example_defaults_def limits_validate_def)
  have w: "sim_valid ?w" by (simp add: sim_valid_def)
  have "\<not> governor_fails sim_files sim_roots example_defaults example_policy"
    by (simp add: governor_fails_def ld_write_def sim_files_def example_policy_def sim_write_governor)
  moreover have "policy_target example_defaults 60 example_policy = (2, 5)" "gpu_target (def_gpu example_defaults) example_gpu = (3, 3)"
    by (simp_all add: policy_target_def gpu_target_def mapped_def step_percent_def example_defaults_def
        example_policy_def example_gpu_def)
  moreover obtain x w' where a: "apply_hardware sim_files example_service example_defaults 60 (def_gpu example_defaults) ?w = (x, w')"
    by (cases "apply_hardware sim_files example_service example_defaults 60 (def_gpu example_defaults) ?w")
  moreover note limits_reach_hardware [where fs = sim_files and s = example_service and interval = "\<lambda>w. w" and w = ?w,
      OF k s n u d w, unfolded a prod.case]
  ultimately show ?thesis by (cases "is_ok x") (simp_all add: example_service_def example_policy_def example_gpu_def)
qed

text \<open>
  Witness of C10: a host without frequency scaling, where starting writes the two files of each
  slice and a reassertion writes the uclamp files again.
\<close>

definition bare_files :: "unit host_files" where
  "bare_files =
     \<lparr>fs_read = (\<lambda>_ _. Err (NotFound [])), fs_write = (\<lambda>_ _ w. (Ok (), w)),
      fs_entries = (\<lambda>_ _. Err (NotFound [])), fs_canonicalize = (\<lambda>p _. Ok p), fs_exists = (\<lambda>_ _. Ok False),
      fs_remount = (\<lambda>w. w)\<rparr>"

theorem writes_confined_witness:
  "\<exists>s w1. ld_start (logging bare_files) sim_roots example_defaults [] ((), []) = (Ok s, w1) \<and>
     length (snd (snd (foldl (ld_step (logging bare_files)) (s, w1) [LdReassert]))) = 6 \<and>
     (\<forall>p \<in> set (snd (snd (foldl (ld_step (logging bare_files)) (s, w1) [LdReassert]))). writable bare_files sim_roots p)"
proof -
  let ?s = "\<lparr>ld_roots = sim_roots, ld_defaults = example_defaults, ld_device = example_defaults,
     policies = [], gpus = [], ld_session = None\<rparr>"
  let ?log = "[path_join (games_slice sim_roots) ''cpu.uclamp.min'', path_join (games_slice sim_roots) ''cgroup.subtree_control'',
     path_join (parent_slice sim_roots) ''cpu.uclamp.min'', path_join (parent_slice sim_roots) ''cgroup.subtree_control'']"
  have start: "ld_start (logging bare_files) sim_roots example_defaults [] ((), []) = (Ok ?s, (), ?log)"
    by (simp add: ld_start_def cpu_policies_def Let_def logging_def bare_files_def validate_device_def limits_validate_def
        example_defaults_def ld_write_def apply_device_def apply_hardware_def)
  moreover have "length (snd (snd (ld_step (logging bare_files) (?s, (), ?log) LdReassert))) = 6"
    by (simp add: reassert_def cpu_policies_def Let_def logging_def bare_files_def poll_session_def ld_write_def
        apply_device_def apply_hardware_def)
  moreover note writes_confined [OF start, of "[LdReassert]"]
  ultimately show ?thesis unfolding foldl_Cons foldl_Nil by (intro exI conjI)
qed

end
