(* ===== verification/Invites.thy ===== *)
theory Invites
  imports Ordered_Map "HOL-Library.Product_Lexorder"
begin

text \<open>
  The cache of invitations, \<open>services/korrid/src/invites/cache.rs\<close>: the invites that peers announced
  last, and the ones the person dismissed. A dismissal names one device and one launch.

  The hash map of the source is a map in the order of its keys; the source does not specify the
  order in which it iterates. The SHA-256 digest together with its hexadecimal rendering comes
  from other crates and is the argument \<open>digest\<close> of the definitions that need it. The parts of an
  invite that the cache only carries are type variables.
\<close>

record 'r active_session =
  session_launch :: string
  session_rest :: 'r

record ('n, 'r) invite =
  invite_netplay :: "'n option"
  invite_name :: string
  device_public_key :: string
  device_label :: string
  person_name :: string
  invite_session :: "'r active_session"

type_synonym invite_key = "string \<times> string"

record ('n, 'r) invite_cache =
  invites :: "(invite_key, ('n, 'r) invite) btree"
  dismissed :: "invite_key set"

definition cache_default :: "('n, 'r) invite_cache" where
  "cache_default = \<lparr>invites = [], dismissed = {}\<rparr>"

definition to_be_bytes :: "nat \<Rightarrow> string" where
  "to_be_bytes n = map (\<lambda>i. char_of (n div 256 ^ i mod 256)) [7, 6, 5, 4, 3, 2, 1, 0]"

text \<open>The bytes that go into the digest: each part after its length as a 64 bit number.\<close>

definition invite_frame :: "string \<Rightarrow> string \<Rightarrow> string" where
  "invite_frame device launch = concat (map (\<lambda>part. to_be_bytes (length part) @ part) [device, launch])"

definition invite_id :: "(string \<Rightarrow> string) \<Rightarrow> string \<Rightarrow> string \<Rightarrow> string" where
  "invite_id digest device launch = digest (invite_frame device launch)"

definition invite_key :: "('n, 'r) invite \<Rightarrow> invite_key" where
  "invite_key i = (device_public_key i, session_launch (invite_session i))"

definition retained_dismissals :: "('n, 'r) invite list \<Rightarrow> invite_key set \<Rightarrow> invite_key set" where
  "retained_dismissals announced ds =
     Set.filter (\<lambda>(device, launch).
       \<not> list_ex (\<lambda>i. device_public_key i = device \<and> session_launch (invite_session i) \<noteq> launch) announced) ds"

definition cache_replace ::
  "(string \<Rightarrow> string) \<Rightarrow> ('n, 'r) invite list \<Rightarrow> ('n, 'r) invite_cache \<Rightarrow> ('n, 'r) invite_cache" where
  "cache_replace digest announced c =
     (let ds = retained_dismissals announced (dismissed c);
          next = foldl (\<lambda>m i. if invite_key i \<in> ds then m
                   else bt_insert (invite_key i)
                     (i\<lparr>invite_name := invite_id digest (fst (invite_key i)) (snd (invite_key i))\<rparr>) m) [] announced
      in \<lparr>invites = next, dismissed = ds\<rparr>)"

definition cache_clear :: "('n, 'r) invite_cache \<Rightarrow> ('n, 'r) invite_cache" where
  "cache_clear c = c\<lparr>invites := []\<rparr>"

definition cache_list :: "('n, 'r) invite_cache \<Rightarrow> ('n, 'r) invite list" where
  "cache_list c = sort_key device_public_key (bt_values (invites c))"

definition cache_get :: "('n, 'r) invite_cache \<Rightarrow> string \<Rightarrow> ('n, 'r) invite option" where
  "cache_get c name = find (\<lambda>i. invite_name i = name) (bt_values (invites c))"

definition cache_dismiss :: "string \<Rightarrow> ('n, 'r) invite_cache \<Rightarrow> bool \<times> ('n, 'r) invite_cache" where
  "cache_dismiss name c =
     (case cache_get c name of
        None \<Rightarrow> (False, c)
      | Some i \<Rightarrow> (True, \<lparr>invites = bt_remove (invite_key i) (invites c),
                         dismissed = insert (invite_key i) (dismissed c)\<rparr>))"

datatype ('n, 'r) invite_input =
    Replace "('n, 'r) invite list"
  | Clear
  | Dismiss string

primrec invite_step ::
  "(string \<Rightarrow> string) \<Rightarrow> ('n, 'r) invite_cache \<Rightarrow> ('n, 'r) invite_input \<Rightarrow> ('n, 'r) invite_cache" where
  "invite_step digest c (Replace announced) = cache_replace digest announced c"
| "invite_step digest c Clear = cache_clear c"
| "invite_step digest c (Dismiss name) = snd (cache_dismiss name c)"

subsection \<open>Invariant\<close>

text \<open>Every entry is stored under its own key, carries the id of that key and is not dismissed.\<close>

definition invite_inv :: "(string \<Rightarrow> string) \<Rightarrow> ('n, 'r) invite_cache \<Rightarrow> bool" where
  "invite_inv digest c \<longleftrightarrow> bt_wf (invites c) \<and>
     (\<forall>k i. bt_get (invites c) k = Some i \<longrightarrow>
        k = invite_key i \<and> invite_name i = invite_id digest (fst k) (snd k) \<and> k \<notin> dismissed c)"

lemma invite_key_name [simp]: "invite_key (i\<lparr>invite_name := n\<rparr>) = invite_key i"
  by (simp add: invite_key_def)

text \<open>A lookup after the loop of \<open>replace\<close>: the last announcement of a key that is not dismissed.\<close>

lemma bt_get_foldl_insert:
  "bt_get (foldl (\<lambda>m i. if P (key i) then m else bt_insert (key i) (f i) m) m0 xs) k =
     (if P k then bt_get m0 k
      else case find (\<lambda>i. key i = k) (rev xs) of None \<Rightarrow> bt_get m0 k | Some i \<Rightarrow> Some (f i))"
  by (induction xs rule: rev_induct) (auto split: option.splits)

lemma bt_wf_foldl_insert:
  "bt_wf m0 \<Longrightarrow> bt_wf (foldl (\<lambda>m i. if P i then m else bt_insert (key i) (f i) m) m0 xs)"
  by (induction xs arbitrary: m0) auto

lemma find_key: "find (\<lambda>i. key i = k) xs = Some i \<Longrightarrow> key i = k"
  by (induction xs) (auto split: if_splits)

lemma get_replace:
  "bt_get (invites (cache_replace digest announced c)) k =
     (if k \<in> retained_dismissals announced (dismissed c) then None
      else map_option (\<lambda>i. i\<lparr>invite_name := invite_id digest (fst k) (snd k)\<rparr>)
             (find (\<lambda>i. invite_key i = k) (rev announced)))"
proof -
  let ?f = "\<lambda>i. i\<lparr>invite_name := invite_id digest (fst (invite_key i)) (snd (invite_key i))\<rparr>"
  have "map_option ?f (find (\<lambda>i. invite_key i = k) (rev announced)) =
      map_option (\<lambda>i. i\<lparr>invite_name := invite_id digest (fst k) (snd k)\<rparr>)
        (find (\<lambda>i. invite_key i = k) (rev announced))"
    by (rule option.map_cong0) (auto dest: find_key)
  then show ?thesis
    using bt_get_foldl_insert [where P = "\<lambda>k. k \<in> retained_dismissals announced (dismissed c)"
        and key = invite_key and f = ?f and xs = announced and ?m0.0 = "[]" and k = k]
    by (simp add: cache_replace_def Let_def split: option.splits)
qed

lemma invite_inv_step: "invite_inv digest c \<Longrightarrow> invite_inv digest (invite_step digest c x)"
proof (cases x)
  case (Replace announced)
  have "bt_wf (invites (cache_replace digest announced c))"
    unfolding cache_replace_def Let_def by (simp add: bt_wf_foldl_insert)
  moreover have "dismissed (cache_replace digest announced c) = retained_dismissals announced (dismissed c)"
    by (simp add: cache_replace_def Let_def)
  ultimately show ?thesis
    by (auto simp: Replace invite_inv_def get_replace find_Some_iff split: if_splits)
next
  case (Dismiss name)
  assume inv: "invite_inv digest c"
  then show ?thesis
    by (auto simp: Dismiss cache_dismiss_def invite_inv_def split: option.splits if_splits)
qed (simp add: invite_inv_def cache_clear_def)

interpretation invite: machine "invite_step digest" "invite_inv digest" for digest
  by unfold_locales (rule invite_inv_step)

lemma in_cache_list: "invite_inv digest c \<Longrightarrow> i \<in> set (cache_list c) \<longleftrightarrow> bt_get (invites c) (invite_key i) = Some i"
  unfolding invite_inv_def cache_list_def set_sort by (subst bt_values_get) (simp, metis)

lemma cache_get_SomeD:
  "invite_inv digest c \<Longrightarrow> cache_get c name = Some i \<Longrightarrow>
   bt_get (invites c) (invite_key i) = Some i \<and> invite_name i = name \<and> i \<in> set (cache_list c)"
  unfolding in_cache_list [symmetric] by (auto simp: cache_get_def find_Some_iff cache_list_def)

lemma invite_inv_entry:
  assumes "invite_inv digest c" and "i \<in> set (cache_list c)"
  shows "invite_name i = invite_id digest (device_public_key i) (session_launch (invite_session i)) \<and>
    invite_key i \<notin> dismissed c"
proof -
  from assms(2) have "bt_get (invites c) (invite_key i) = Some i" unfolding in_cache_list [OF assms(1)] .
  with assms(1) show ?thesis unfolding invite_inv_def by (metis fst_conv invite_key_def snd_conv)
qed

lemma dismissed_not_listed:
  "invite_inv digest c \<Longrightarrow> k \<in> dismissed c \<Longrightarrow> k \<notin> invite_key ` set (cache_list c)"
  using invite_inv_entry by blast

subsection \<open>Dismissals\<close>

text \<open>Some announcement of the input names another launch of the device of this key.\<close>

definition announces_other :: "invite_key \<Rightarrow> ('n, 'r) invite_input \<Rightarrow> bool" where
  "announces_other k x =
     (case x of Replace announced \<Rightarrow>
          list_ex (\<lambda>i. device_public_key i = fst k \<and> session_launch (invite_session i) \<noteq> snd k) announced
      | _ \<Rightarrow> False)"

lemma dismissed_step:
  "k \<in> dismissed c \<Longrightarrow> \<not> announces_other k x \<Longrightarrow> k \<in> dismissed (invite_step digest c x)"
  by (cases x)
    (auto simp: announces_other_def cache_replace_def Let_def retained_dismissals_def cache_clear_def
      cache_dismiss_def list_ex_iff split: option.splits)

lemma dismissed_run:
  "k \<in> dismissed c \<Longrightarrow> list_all (\<lambda>x. \<not> announces_other k x) xs \<Longrightarrow>
   k \<in> dismissed (foldl (invite_step digest) c xs)"
  by (induction xs arbitrary: c) (auto intro: dismissed_step)

text \<open>
  C16. A dismissal lasts. After the person dismissed an invite, it is not shown again, through
  announcements that repeat it, announcements that miss the device, and clearing, in any order,
  until the device announces another launch.
\<close>

theorem dismissal_lasts:
  assumes "invite_inv digest c" and "cache_get c name = Some i"
    and "list_all (\<lambda>x. \<not> announces_other (invite_key i) x) xs"
  shows "fst (cache_dismiss name c) \<and>
    invite_key i \<notin> invite_key ` set (cache_list (foldl (invite_step digest) (snd (cache_dismiss name c)) xs))"
proof -
  from assms(2) have d: "fst (cache_dismiss name c)" "invite_key i \<in> dismissed (snd (cache_dismiss name c))"
    by (simp_all add: cache_dismiss_def)
  have "invite_inv digest (snd (cache_dismiss name c))"
    using invite_inv_step [OF assms(1), of "Dismiss name"] by simp
  then have "invite_inv digest (foldl (invite_step digest) (snd (cache_dismiss name c)) xs)"
    by (rule invite.inv_run)
  from dismissed_not_listed [OF this dismissed_run [OF d(2) assms(3)]] d(1) show ?thesis by simp
qed

text \<open>The only invite is dismissed, missed once, cleared and announced again.\<close>

definition demo_invite :: "string \<Rightarrow> string \<Rightarrow> (unit, unit) invite" where
  "demo_invite device launch = \<lparr>invite_netplay = None, invite_name = '''', device_public_key = device,
     device_label = ''Device'', person_name = ''Person'',
     invite_session = \<lparr>session_launch = launch, session_rest = ()\<rparr>\<rparr>"

definition demo_cache :: "(unit, unit) invite_cache" where
  "demo_cache = invite_step (\<lambda>x. x) cache_default (Replace [demo_invite ''a'' ''1'', demo_invite ''b'' ''1''])"

lemma demo_cache_inv: "invite_inv (\<lambda>x. x) demo_cache"
  unfolding demo_cache_def by (rule invite_inv_step) (simp add: invite_inv_def cache_default_def)

lemma demo_cache_entries:
  "invites demo_cache =
     [((''a'', ''1''), (demo_invite ''a'' ''1'')\<lparr>invite_name := invite_id (\<lambda>x. x) ''a'' ''1''\<rparr>),
      ((''b'', ''1''), (demo_invite ''b'' ''1'')\<lparr>invite_name := invite_id (\<lambda>x. x) ''b'' ''1''\<rparr>)]"
  by (simp add: demo_cache_def cache_replace_def cache_default_def retained_dismissals_def invite_key_def
      demo_invite_def less_char_def)

theorem dismissal_lasts_witness:
  "(''a'', ''1'') \<notin> invite_key ` set (cache_list (foldl (invite_step (\<lambda>x. x))
     (snd (cache_dismiss (invite_id (\<lambda>x. x) ''a'' ''1'') demo_cache))
     [Replace [], Clear, Replace [demo_invite ''a'' ''1'']]))"
proof -
  have get: "cache_get demo_cache (invite_id (\<lambda>x. x) ''a'' ''1'') =
      Some ((demo_invite ''a'' ''1'')\<lparr>invite_name := invite_id (\<lambda>x. x) ''a'' ''1''\<rparr>)"
    by (simp add: cache_get_def demo_cache_entries bt_values_def)
  have key: "invite_key ((demo_invite ''a'' ''1'')\<lparr>invite_name := invite_id (\<lambda>x. x) ''a'' ''1''\<rparr>) = (''a'', ''1'')"
    by (simp add: invite_key_def demo_invite_def)
  have "list_all (\<lambda>x. \<not> announces_other (''a'', ''1'') x) [Replace [], Clear, Replace [demo_invite ''a'' ''1'']]"
    by (simp add: announces_other_def demo_invite_def)
  from dismissal_lasts [OF demo_cache_inv get, unfolded key, OF this] show ?thesis by blast
qed

subsection \<open>What is shown\<close>

text \<open>
  What the list shows after the peers' sessions were observed: sorted by device, one entry
  per device and launch, and exactly the announced launches whose dismissal, if there is one, has
  ended because the device announced another launch; each as it was announced last, with the id
  of its device and launch.
\<close>

theorem invites_shown_exact:
  "let l = cache_list (cache_replace digest announced c) in
     sorted (map device_public_key l) \<and> distinct (map invite_key l) \<and>
     set l = {i\<lparr>invite_name := invite_id digest (fst k) (snd k)\<rparr> | k i.
        find (\<lambda>i. invite_key i = k) (rev announced) = Some i \<and>
        (if k \<in> dismissed c
         then \<exists>j \<in> set announced. device_public_key j = fst k \<and> session_launch (invite_session j) \<noteq> snd k
         else True)}"
proof -
  define c' where "c' = cache_replace digest announced c"
  define l where "l = cache_list c'"
  have empty: "cache_replace digest announced c = cache_replace digest announced (c\<lparr>invites := []\<rparr>)"
    by (simp add: cache_replace_def)
  have inv: "invite_inv digest c'"
    using invite_inv_step [of digest "c\<lparr>invites := []\<rparr>" "Replace announced"]
    by (simp add: c'_def empty [symmetric] invite_inv_def)
  have set_l: "i \<in> set l \<longleftrightarrow> bt_get (invites c') (invite_key i) = Some i" for i
    unfolding l_def by (rule in_cache_list [OF inv])
  have "invite_key ` set (bt_values (invites c')) = set (bt_keys (invites c')) \<and>
      map invite_key (bt_values (invites c')) = bt_keys (invites c')"
  proof -
    have "\<forall>(k, i) \<in> set (invites c'). invite_key i = k"
      using inv unfolding invite_inv_def by (auto simp: bt_get_iff)
    then have "map invite_key (bt_values (invites c')) = bt_keys (invites c')"
      by (auto simp: bt_values_def bt_keys_def)
    then show ?thesis by (metis set_map)
  qed
  then have "distinct (map invite_key (bt_values (invites c')))"
    using inv bt_wf_distinct [of "invites c'"] by (simp add: invite_inv_def)
  then have dist: "distinct (map invite_key l)"
    by (simp add: l_def cache_list_def distinct_map)
  have "i \<in> set l \<longleftrightarrow> (\<exists>k j. i = j\<lparr>invite_name := invite_id digest (fst k) (snd k)\<rparr> \<and>
        find (\<lambda>i. invite_key i = k) (rev announced) = Some j \<and> k \<notin> retained_dismissals announced (dismissed c))"
    (is "_ = (\<exists>k j. ?shown k j)") for i
  proof
    assume "i \<in> set l"
    then have "?shown (invite_key i) (the (find (\<lambda>j. invite_key j = invite_key i) (rev announced)))"
      unfolding set_l c'_def get_replace by (auto split: if_splits)
    then show "\<exists>k j. ?shown k j" by blast
  next
    assume "\<exists>k j. ?shown k j"
    then obtain k j where kj: "?shown k j" by blast
    then have "invite_key j = k" by (blast dest: find_key)
    with kj show "i \<in> set l" unfolding set_l c'_def get_replace by simp
  qed
  then have "set l = {i\<lparr>invite_name := invite_id digest (fst k) (snd k)\<rparr> | k i.
        find (\<lambda>i. invite_key i = k) (rev announced) = Some i \<and> k \<notin> retained_dismissals announced (dismissed c)}"
    by blast
  moreover have "sorted (map device_public_key l)" by (simp add: l_def cache_list_def)
  ultimately show ?thesis
    using dist unfolding l_def c'_def Let_def
    by (auto simp: retained_dismissals_def list_ex_iff)
qed

subsection \<open>Names\<close>

lemma to_be_bytes_length [simp]: "length (to_be_bytes n) = 8"
  by (simp add: to_be_bytes_def)

lemma to_be_bytes_inj:
  assumes "n < 2 ^ 64" and "m < 2 ^ 64" and "to_be_bytes n = to_be_bytes m"
  shows "n = m"
proof -
  have digit: "n div 256 ^ i mod 256 = m div 256 ^ i mod 256" if "i \<in> {0 ..< 8}" for i
  proof -
    from that have "i \<in> set [7, 6, 5, 4, 3, 2, 1, 0]" by auto
    with assms(3) have "char_of (n div 256 ^ i mod 256) = (char_of (m div 256 ^ i mod 256) :: char)"
      unfolding to_be_bytes_def by (simp only: map_eq_conv)
    then have "of_char (char_of (n div 256 ^ i mod 256) :: char) = (of_char (char_of (m div 256 ^ i mod 256) :: char) :: nat)"
      by simp
    then show ?thesis by simp
  qed
  have "n mod 256 ^ i = m mod 256 ^ i" if "i \<le> 8" for i
    using that
  proof (induction i)
    case (Suc i)
    then have "n mod 256 ^ i = m mod 256 ^ i" and "n div 256 ^ i mod 256 = m div 256 ^ i mod 256"
      by (simp_all add: digit)
    moreover have "k mod 256 ^ Suc i = 256 ^ i * (k div 256 ^ i mod 256) + k mod 256 ^ i" for k :: nat
      by (simp add: mod_mult2_eq power_Suc2 del: power_Suc)
    ultimately show ?case by simp
  qed simp
  from this [of 8] assms(1,2) show ?thesis by simp
qed

lemma invite_frame_inj:
  assumes "length d < 2 ^ 64" and "length d' < 2 ^ 64" and "invite_frame d l = invite_frame d' l'"
  shows "(d, l) = (d', l')"
proof -
  from assms(3) have "to_be_bytes (length d) = to_be_bytes (length d')"
    and rest: "d @ to_be_bytes (length l) @ l = d' @ to_be_bytes (length l') @ l'"
    by (simp_all add: invite_frame_def)
  then have "length d = length d'" using to_be_bytes_inj assms(1,2) by blast
  with rest show ?thesis by (auto simp: append_eq_append_conv)
qed

text \<open>
  Ids name one launch of one device. While the digest has no collision among the launches that
  are shown, looking up the id of a shown invite returns this invite, and dismissing it removes
  this invite from the list and no other. The lengths that are hashed with device and launch are
  what makes the bytes of two different launches different.
\<close>

theorem dismiss_removes_one:
  assumes "invite_inv digest c" and "i \<in> set (cache_list c)"
    and "inj_on digest ((\<lambda>j. invite_frame (device_public_key j) (session_launch (invite_session j))) ` set (cache_list c))"
    and "\<forall>j \<in> set (cache_list c). length (device_public_key j) < 2 ^ 64"
  shows "cache_get c (invite_name i) = Some i \<and>
    set (cache_list (snd (cache_dismiss (invite_name i) c))) = set (cache_list c) - {i}"
proof -
  have name: "invite_name j = digest (invite_frame (device_public_key j) (session_launch (invite_session j)))"
    if "j \<in> set (cache_list c)" for j
    using invite_inv_entry [OF assms(1) that] by (simp add: invite_id_def)
  have key_inj: "j = i" if j: "j \<in> set (cache_list c)" and "invite_key j = invite_key i" for j
    using that assms(1,2) by (simp add: in_cache_list)
  have same: "j = i" if j: "j \<in> set (cache_list c)" and "invite_name j = invite_name i" for j
  proof -
    from that name assms(2,3) have "invite_frame (device_public_key j) (session_launch (invite_session j)) =
        invite_frame (device_public_key i) (session_launch (invite_session i))"
      by (metis (no_types, lifting) image_eqI inj_onD)
    then have "invite_key j = invite_key i"
      using invite_frame_inj assms(2,4) j unfolding invite_key_def by blast
    then show ?thesis by (rule key_inj [OF j])
  qed
  from assms(2) have "cache_get c (invite_name i) \<noteq> None"
    by (auto simp: cache_get_def find_None_iff cache_list_def)
  then obtain j where "cache_get c (invite_name i) = Some j" by blast
  with cache_get_SomeD [OF assms(1) this] same have get: "cache_get c (invite_name i) = Some i" by metis
  have "invite_inv digest (snd (cache_dismiss (invite_name i) c))"
    using invite_inv_step [OF assms(1), of "Dismiss (invite_name i)"] by simp
  from in_cache_list [OF this] in_cache_list [OF assms(1)] key_inj
  have "j \<in> set (cache_list (snd (cache_dismiss (invite_name i) c))) \<longleftrightarrow> j \<in> set (cache_list c) \<and> j \<noteq> i" for j
    by (auto simp: cache_dismiss_def get)
  with get show ?thesis by blast
qed

text \<open>An instance: two invites, one of them dismissed by its id.\<close>

theorem dismiss_removes_one_witness:
  "\<exists>i. cache_get demo_cache (invite_name i) = Some i \<and> invite_key i = (''a'', ''1'') \<and>
    set (cache_list (snd (cache_dismiss (invite_name i) demo_cache))) = set (cache_list demo_cache) - {i}"
proof -
  define i where "i = (demo_invite ''a'' ''1'')\<lparr>invite_name := invite_id (\<lambda>x. x) ''a'' ''1''\<rparr>"
  have l: "cache_list demo_cache = [i, (demo_invite ''b'' ''1'')\<lparr>invite_name := invite_id (\<lambda>x. x) ''b'' ''1''\<rparr>]"
    by (simp add: i_def cache_list_def demo_cache_entries bt_values_def demo_invite_def less_eq_char_def)
  have "\<forall>j \<in> set (cache_list demo_cache). length (device_public_key j) < 2 ^ 64"
    unfolding l by (simp add: i_def demo_invite_def)
  with dismiss_removes_one [OF demo_cache_inv, of i] l
  have "cache_get demo_cache (invite_name i) = Some i \<and>
      set (cache_list (snd (cache_dismiss (invite_name i) demo_cache))) = set (cache_list demo_cache) - {i}"
    by (simp add: inj_on_def)
  moreover have "invite_key i = (''a'', ''1'')" by (simp add: i_def invite_key_def demo_invite_def)
  ultimately show ?thesis by blast
qed

end
