(* ===== verification/Launch_Reservation.thy ===== *)
theory Launch_Reservation
  imports Ordered_Map
begin

text \<open>
  Reservations of launches, \<open>services/korrid/src/host/launch_reservation.rs\<close>. A reservation is a
  shared object (\<open>Arc\<close>): the table names it by its launch id, and the worker that started it keeps a
  handle after the table has dropped it. So the objects live in a store that only grows, and the
  table maps launch ids to addresses in it.

  The table is protected by a mutex, but \<open>commit\<close> changes the phase of an object without it, by
  a compare and exchange. The only operation that reads a phase and then writes it under the
  mutex is \<open>cancel\<close>; its loop is modelled with the commits of the worker between the load and the
  exchange as an argument. The other operations are atomic. The order in which the source's hash
  table is iterated is not specified; here it is the order of the launch ids.
\<close>

datatype phase = RESERVED | PREPARING | COMMITTING | CANCELLED | CANCELLED_COMMITTING

record session_prepared =
  game_id :: string
  launch_id :: string

record launch_reservation =
  identity :: session_prepared
  caller :: string
  person :: "string option"
  since :: nat
  phase_of :: phase

record reservations =
  objects :: "launch_reservation list"
  pending :: "(string, nat) btree"

datatype pending_phase = Reserved | Preparing | Committing | Cancelling

record pending_launch =
  pl_session :: session_prepared
  pl_phase :: pending_phase

record rpc_failure =
  code :: string
  message :: string

definition cancelled :: rpc_failure where
  "cancelled = \<lparr>code = ''LaunchCancelled'', message = ''the exact launch startup was cancelled''\<rparr>"

definition stale :: rpc_failure where
  "stale = \<lparr>code = ''StaleLaunchIdentity'',
     message = ''the exact launch reservation is unavailable or already started''\<rparr>"

definition denied :: rpc_failure where
  "denied = \<lparr>code = ''AuthorizationDenied'', message = ''the launch reservation belongs to another caller''\<rparr>"

definition is_cancelled :: "launch_reservation \<Rightarrow> bool" where
  "is_cancelled r \<longleftrightarrow> phase_of r = CANCELLED \<or> phase_of r = CANCELLED_COMMITTING"

definition compare_exchange :: "phase \<Rightarrow> phase \<Rightarrow> phase \<Rightarrow> bool \<times> phase" where
  "compare_exchange cur expected new = (if cur = expected then (True, new) else (False, cur))"

definition set_phase :: "nat \<Rightarrow> phase \<Rightarrow> reservations \<Rightarrow> reservations" where
  "set_phase a ph s = s\<lparr>objects := (objects s)[a := (objects s ! a)\<lparr>phase_of := ph\<rparr>]\<rparr>"

definition commit :: "nat \<Rightarrow> reservations \<Rightarrow> (unit, rpc_failure) result \<times> reservations" where
  "commit a s =
     (case compare_exchange (phase_of (objects s ! a)) PREPARING COMMITTING of
        (True, ph) \<Rightarrow> (Ok (), set_phase a ph s)
      | (False, _) \<Rightarrow> (Err cancelled, s))"

definition launch_reserve ::
  "string \<Rightarrow> string \<Rightarrow> string option \<Rightarrow> string \<Rightarrow> nat \<Rightarrow> reservations \<Rightarrow> session_prepared \<times> reservations" where
  "launch_reserve game call per launch now s =
     (let i = \<lparr>game_id = game, launch_id = launch\<rparr>;
          r = \<lparr>identity = i, caller = call, person = per, since = now, phase_of = RESERVED\<rparr>
      in (i, s\<lparr>objects := objects s @ [r], pending := bt_insert launch (length (objects s)) (pending s)\<rparr>))"

definition pending_objects :: "reservations \<Rightarrow> launch_reservation list" where
  "pending_objects s = map (\<lambda>a. objects s ! a) (bt_values (pending s))"

definition in_use :: "string \<Rightarrow> string \<Rightarrow> reservations \<Rightarrow> nat option" where
  "in_use per game s =
     (let times = map since (filter (\<lambda>r. person r = Some per \<and> game_id (identity r) = game \<and> \<not> is_cancelled r)
                    (pending_objects s))
      in if times = [] then None else Some (Min (set times)))"

primrec visible_phase :: "phase \<Rightarrow> pending_phase option" where
  "visible_phase RESERVED = Some Reserved"
| "visible_phase PREPARING = Some Preparing"
| "visible_phase COMMITTING = Some Committing"
| "visible_phase CANCELLED_COMMITTING = Some Cancelling"
| "visible_phase CANCELLED = None"

definition snapshot :: "string \<Rightarrow> string option \<Rightarrow> reservations \<Rightarrow> pending_launch list" where
  "snapshot call per s =
     List.map_filter (\<lambda>r. map_option (\<lambda>ph. \<lparr>pl_session = identity r, pl_phase = ph\<rparr>) (visible_phase (phase_of r)))
       (filter (\<lambda>r. caller r = call \<and> person r = per) (pending_objects s))"

definition launch_start ::
  "string \<Rightarrow> string \<Rightarrow> string \<Rightarrow> string option \<Rightarrow> reservations \<Rightarrow> (nat, rpc_failure) result \<times> reservations" where
  "launch_start game launch call per s =
     (case bt_get (pending s) launch of
        None \<Rightarrow> (Err stale, s)
      | Some a \<Rightarrow>
          let r = objects s ! a in
          if caller r \<noteq> call \<or> person r \<noteq> per then (Err denied, s)
          else if game_id (identity r) \<noteq> game then (Err stale, s)
          else case compare_exchange (phase_of r) RESERVED PREPARING of
                 (True, ph) \<Rightarrow> (Ok a, set_phase a ph s)
               | (False, _) \<Rightarrow> (Err stale, s))"

text \<open>
  The loop of \<open>cancel\<close>: \<open>races\<close> says for each round whether the worker's commit runs between the
  load and the exchange. It ends because a commit can succeed only once.
\<close>

definition commit_phase :: "phase \<Rightarrow> phase" where
  "commit_phase ph = snd (compare_exchange ph PREPARING COMMITTING)"

function cancel_loop :: "bool list \<Rightarrow> phase \<Rightarrow> bool \<times> phase" where
  "cancel_loop races prior =
     (let committing = (prior = COMMITTING \<or> prior = CANCELLED_COMMITTING);
          new = (if committing then CANCELLED_COMMITTING else CANCELLED);
          cur = (if races \<noteq> [] \<and> hd races then commit_phase prior else prior)
      in case compare_exchange cur prior new of
           (True, ph) \<Rightarrow> (committing, ph)
         | (False, _) \<Rightarrow> cancel_loop (tl races) cur)"
  by pat_completeness auto
termination
  by (relation "measure (\<lambda>(_, ph). if ph = PREPARING then 1 else 0)")
    (auto simp: commit_phase_def compare_exchange_def split: if_splits)

declare cancel_loop.simps [simp del]

definition cancel ::
  "bool list \<Rightarrow> string \<Rightarrow> string \<Rightarrow> string option \<Rightarrow> reservations \<Rightarrow> (bool option, rpc_failure) result \<times> reservations" where
  "cancel races launch call per s =
     (case bt_get (pending s) launch of
        None \<Rightarrow> (Ok None, s)
      | Some a \<Rightarrow>
          let r = objects s ! a in
          if caller r \<noteq> call \<or> person r \<noteq> per then (Err denied, s)
          else
            let (committing, ph) = cancel_loop races (phase_of r);
                s1 = set_phase a ph s
            in (Ok (Some committing),
                if committing then s1 else s1\<lparr>pending := bt_remove launch (pending s1)\<rparr>))"

definition retire_completed :: "string \<Rightarrow> reservations \<Rightarrow> reservations" where
  "retire_completed launch s =
     (case bt_get (pending s) launch of
        None \<Rightarrow> s
      | Some a \<Rightarrow>
          if phase_of (objects s ! a) = COMMITTING \<or> phase_of (objects s ! a) = CANCELLED_COMMITTING
          then s\<lparr>pending := bt_remove launch (pending s)\<rparr> else s)"

definition launch_finish :: "nat \<Rightarrow> reservations \<Rightarrow> bool option \<times> reservations" where
  "launch_finish a s =
     (case phase_of (objects s ! a) of
        CANCELLED \<Rightarrow> Some False
      | CANCELLED_COMMITTING \<Rightarrow> Some True
      | _ \<Rightarrow> None,
      s\<lparr>pending := bt_remove (launch_id (identity (objects s ! a))) (pending s)\<rparr>)"

subsection \<open>The race between cancel and commit\<close>

lemma cancel_loop_atomic:
  "\<exists>ph \<in> {prior, commit_phase prior}. cancel_loop races prior =
     (if ph = COMMITTING \<or> ph = CANCELLED_COMMITTING then (True, CANCELLED_COMMITTING) else (False, CANCELLED))"
proof (cases "races \<noteq> [] \<and> hd races \<and> prior = PREPARING")
  case True
  then have "cancel_loop races prior = cancel_loop (tl races) COMMITTING"
    by (subst cancel_loop.simps) (simp add: commit_phase_def compare_exchange_def)
  also have "\<dots> = (True, CANCELLED_COMMITTING)"
    by (subst cancel_loop.simps) (simp add: commit_phase_def compare_exchange_def)
  finally show ?thesis using True by (simp add: commit_phase_def compare_exchange_def)
next
  case False
  then have "(if races \<noteq> [] \<and> hd races then commit_phase prior else prior) = prior"
    by (auto simp: commit_phase_def compare_exchange_def)
  then have "cancel_loop races prior =
     (if prior = COMMITTING \<or> prior = CANCELLED_COMMITTING then (True, CANCELLED_COMMITTING) else (False, CANCELLED))"
    by (subst cancel_loop.simps) (simp add: compare_exchange_def)
  then show ?thesis by blast
qed

subsection \<open>Runs\<close>

text \<open>
  What callers and workers do between them. A worker holds the address of an object that
  \<open>launch_start\<close> gave it; an address that is not in the store is no handle, and such a step does
  nothing. Launch ids and times of new reservations are arbitrary.
\<close>

datatype res_input =
    Reserve string string "string option" string nat
  | Start string string string "string option"
  | Commit nat
  | Cancel "bool list" string string "string option"
  | Retire string
  | Finish nat

primrec res_step :: "reservations \<Rightarrow> res_input \<Rightarrow> reservations" where
  "res_step s (Reserve game call per launch now) = snd (launch_reserve game call per launch now s)"
| "res_step s (Start game launch call per) = snd (launch_start game launch call per s)"
| "res_step s (Commit a) = (if a < length (objects s) then snd (commit a s) else s)"
| "res_step s (Cancel races launch call per) = snd (cancel races launch call per s)"
| "res_step s (Retire launch) = retire_completed launch s"
| "res_step s (Finish a) = (if a < length (objects s) then snd (launch_finish a s) else s)"

text \<open>The moves of one reservation: there is no way back from any phase.\<close>

inductive phase_move :: "phase \<Rightarrow> phase \<Rightarrow> bool" where
  started: "phase_move RESERVED PREPARING"
| committed: "phase_move PREPARING COMMITTING"
| dropped: "ph = RESERVED \<or> ph = PREPARING \<Longrightarrow> phase_move ph CANCELLED"
| stopped: "phase_move COMMITTING CANCELLED_COMMITTING"

inductive_cases phase_move_casesE [elim!]: "phase_move ph ph'"

abbreviation moves :: "phase \<Rightarrow> phase \<Rightarrow> bool" where
  "moves \<equiv> phase_move\<^sup>*\<^sup>*"

definition stays :: "phase \<Rightarrow> phase set" where
  "stays ph = (case ph of
       RESERVED \<Rightarrow> UNIV
     | PREPARING \<Rightarrow> - {RESERVED}
     | COMMITTING \<Rightarrow> {COMMITTING, CANCELLED_COMMITTING}
     | CANCELLED \<Rightarrow> {CANCELLED}
     | CANCELLED_COMMITTING \<Rightarrow> {CANCELLED_COMMITTING})"

lemma moves_stays: "moves ph ph' \<Longrightarrow> ph' \<in> stays ph"
  by (induction rule: rtranclp_induct) (auto simp: stays_def split: phase.splits)

lemma moves_cancel_loop:
  assumes "cancel_loop races ph = (b, ph')"
  shows "moves ph ph'" and "ph' = (if b then CANCELLED_COMMITTING else CANCELLED)"
proof -
  obtain q where q: "q \<in> {ph, commit_phase ph}" and "cancel_loop races ph =
      (if q = COMMITTING \<or> q = CANCELLED_COMMITTING then (True, CANCELLED_COMMITTING) else (False, CANCELLED))"
    using cancel_loop_atomic by blast
  with assms have *: "b \<longleftrightarrow> q = COMMITTING \<or> q = CANCELLED_COMMITTING"
    and ph': "ph' = (if b then CANCELLED_COMMITTING else CANCELLED)"
    by (auto split: if_splits)
  have "moves ph q"
    using q by (auto simp: commit_phase_def compare_exchange_def intro: phase_move.intros split: if_splits)
  also have "moves q ph'"
    unfolding ph' using * by (cases q) (auto intro: phase_move.intros)
  finally show "moves ph ph'" .
  show "ph' = (if b then CANCELLED_COMMITTING else CANCELLED)" by (rule ph')
qed

text \<open>What two states of a run have to do with each other: objects stay, keep their owner, and move.\<close>

definition res_le :: "reservations \<Rightarrow> reservations \<Rightarrow> bool" where
  "res_le s t \<longleftrightarrow> length (objects s) \<le> length (objects t) \<and>
     (\<forall>a < length (objects s).
        (objects t ! a)\<lparr>phase_of := phase_of (objects s ! a)\<rparr> = objects s ! a \<and>
        moves (phase_of (objects s ! a)) (phase_of (objects t ! a)))"

definition res_inv :: "reservations \<Rightarrow> bool" where
  "res_inv s \<longleftrightarrow> bt_wf (pending s) \<and>
     (\<forall>k a. bt_get (pending s) k = Some a \<longrightarrow>
        a < length (objects s) \<and> launch_id (identity (objects s ! a)) = k \<and> phase_of (objects s ! a) \<noteq> CANCELLED)"

lemma res_le_refl [simp]: "res_le s s"
  by (simp add: res_le_def)

lemma res_le_trans: "res_le s t \<Longrightarrow> res_le t u \<Longrightarrow> res_le s u"
  unfolding res_le_def
proof (intro conjI allI impI, goal_cases)
  case (2 a)
  then have "a < length (objects t)" by simp
  with 2 have "(objects t ! a)\<lparr>phase_of := phase_of (objects s ! a)\<rparr> = objects s ! a"
    and "(objects u ! a)\<lparr>phase_of := phase_of (objects t ! a)\<rparr> = objects t ! a" by simp_all
  then show ?case by (metis launch_reservation.update_convs(5) launch_reservation.surjective)
next
  case (3 a)
  then show ?case by (meson order_less_le_trans rtranclp_trans)
qed simp

lemma res_le_pending [simp]: "res_le s (t\<lparr>pending := m\<rparr>) = res_le s t"
  by (simp add: res_le_def)

lemma set_phase_sel [simp]:
  "pending (set_phase a ph s) = pending s"
  "length (objects (set_phase a ph s)) = length (objects s)"
  "b < length (objects s) \<Longrightarrow> objects (set_phase a ph s) ! b =
     (if b = a then (objects s ! a)\<lparr>phase_of := ph\<rparr> else objects s ! b)"
  by (auto simp: set_phase_def)

lemma res_le_set_phase: "moves (phase_of (objects s ! a)) ph \<Longrightarrow> res_le s (set_phase a ph s)"
  by (auto simp: res_le_def)

lemma res_inv_set_phase:
  "res_inv s \<Longrightarrow> ph \<noteq> CANCELLED \<Longrightarrow> res_inv (set_phase a ph s)"
  by (auto simp: res_inv_def)

lemma res_inv_remove: "res_inv s \<Longrightarrow> res_inv (s\<lparr>pending := bt_remove k (pending s)\<rparr>)"
  by (auto simp: res_inv_def split: if_splits)

lemma res_inv_cancelled:
  "res_inv s \<Longrightarrow> bt_get (pending s) k = Some a \<Longrightarrow>
   res_inv ((set_phase a ph s)\<lparr>pending := bt_remove k (pending s)\<rparr>)"
  unfolding res_inv_def by (simp add: bt_wf_remove) metis

text \<open>The whole effect of each operation that moves a phase.\<close>

lemma start_OkD:
  assumes "launch_start game launch call per s = (Ok a, t)"
  shows "bt_get (pending s) launch = Some a" "phase_of (objects s ! a) = RESERVED" "t = set_phase a PREPARING s"
    "caller (objects s ! a) = call" "person (objects s ! a) = per" "game_id (identity (objects s ! a)) = game"
  using assms by (auto simp: launch_start_def compare_exchange_def Let_def split: option.splits if_splits)

lemma commit_OkD:
  assumes "commit a s = (Ok (), t)"
  shows "phase_of (objects s ! a) = PREPARING" "t = set_phase a COMMITTING s"
  using assms by (auto simp: commit_def compare_exchange_def split: if_splits)

lemma cancel_SomeD:
  assumes "cancel races launch call per s = (Ok (Some b), t)"
  obtains a ph where "bt_get (pending s) launch = Some a" "cancel_loop races (phase_of (objects s ! a)) = (b, ph)"
    "caller (objects s ! a) = call" "person (objects s ! a) = per"
    "t = (if b then set_phase a ph s
          else (set_phase a ph s)\<lparr>pending := bt_remove launch (pending s)\<rparr>)"
  using assms by (auto simp: cancel_def Let_def split: option.splits if_splits prod.splits)

lemma start_cases:
  obtains a where "launch_start game launch call per s = (Ok a, set_phase a PREPARING s)"
      "bt_get (pending s) launch = Some a" "phase_of (objects s ! a) = RESERVED"
  | e where "launch_start game launch call per s = (Err e, s)"
proof (cases "launch_start game launch call per s")
  case (Pair r t)
  show thesis
  proof (cases r)
    case (Ok a)
    then show thesis using start_OkD [of game launch call per s a t] Pair that(1) by simp
  next
    case (Err e)
    then have "t = s" using Pair
      by (auto simp: launch_start_def compare_exchange_def Let_def split: option.splits if_splits)
    then show thesis using that(2) Err Pair by simp
  qed
qed

lemma cancel_cases:
  obtains b where "cancel races launch call per s = (Ok (Some b), snd (cancel races launch call per s))"
  | "snd (cancel races launch call per s) = s"
proof -
  have "snd (cancel races launch call per s) = s \<or> (\<exists>b. fst (cancel races launch call per s) = Ok (Some b))"
    by (auto simp: cancel_def Let_def split: option.splits prod.splits)
  then show thesis using that by (metis prod.collapse)
qed

lemma res_inv_cancel: "res_inv s \<Longrightarrow> res_inv (snd (cancel races launch call per s))"
proof (rule cancel_cases [of races launch call per s])
  fix b
  assume inv: "res_inv s" and "cancel races launch call per s = (Ok (Some b), snd (cancel races launch call per s))"
  from cancel_SomeD [OF this(2)] obtain a ph where a: "bt_get (pending s) launch = Some a"
    and l: "cancel_loop races (phase_of (objects s ! a)) = (b, ph)"
    and t: "snd (cancel races launch call per s) = (if b then set_phase a ph s
          else (set_phase a ph s)\<lparr>pending := bt_remove launch (pending s)\<rparr>)" by blast
  show ?thesis unfolding t
    using moves_cancel_loop(2) [OF l] inv res_inv_cancelled [OF inv a] by (simp add: res_inv_set_phase)
qed simp

lemma res_le_cancel: "res_le s (snd (cancel races launch call per s))"
proof (rule cancel_cases [of races launch call per s])
  fix b
  assume "cancel races launch call per s = (Ok (Some b), snd (cancel races launch call per s))"
  from cancel_SomeD [OF this] obtain a ph where
    l: "cancel_loop races (phase_of (objects s ! a)) = (b, ph)"
    and t: "snd (cancel races launch call per s) = (if b then set_phase a ph s
          else (set_phase a ph s)\<lparr>pending := bt_remove launch (pending s)\<rparr>)" by blast
  show ?thesis unfolding t
    using res_le_set_phase [OF moves_cancel_loop(1) [OF l]] by simp
qed simp

lemma res_inv_step: "res_inv s \<Longrightarrow> res_inv (res_step s i)"
proof (cases i)
  case (Reserve game call per launch now)
  assume "res_inv s"
  then show ?thesis
    by (auto simp: Reserve res_inv_def launch_reserve_def Let_def nth_append less_Suc_eq split: if_splits)
next
  case (Start game launch call per)
  assume "res_inv s"
  then show ?thesis
    by (cases rule: start_cases [of game launch call per s]) (simp_all add: Start res_inv_set_phase)
next
  case (Finish a)
  assume "res_inv s"
  then show ?thesis by (simp add: Finish launch_finish_def res_inv_remove)
qed (auto simp: commit_def compare_exchange_def retire_completed_def res_inv_set_phase res_inv_remove res_inv_cancel
  split: option.splits)

lemma res_le_step: "res_le s (res_step s i)"
proof (cases i)
  case (Reserve game call per launch now)
  then show ?thesis
    by (simp add: Reserve res_le_def launch_reserve_def Let_def nth_append)
next
  case (Start game launch call per)
  then show ?thesis
    by (cases rule: start_cases [of game launch call per s])
      (auto intro!: res_le_set_phase phase_move.intros)
next
  case (Commit a)
  then show ?thesis
    by (auto simp: commit_def compare_exchange_def intro!: res_le_set_phase phase_move.intros)
qed (auto simp: retire_completed_def launch_finish_def res_le_cancel split: option.splits)

interpretation res: machine res_step res_inv
  by unfold_locales (rule res_inv_step)

lemma res_le_run:
  assumes "res_inv s"
  shows "res_le s (foldl res_step s xs)"
  using res.rel_run [OF assms, of res_le] res_le_refl res_le_trans res_le_step by blast

text \<open>What the phase of one object can be after a run, with the facts that do not change.\<close>

lemma object_after_run:
  assumes "res_inv s" and "a < length (objects s)"
  shows "phase_of (objects (foldl res_step s xs) ! a) \<in> stays (phase_of (objects s ! a))"
  using res_le_run [OF assms(1), of xs] assms(2) by (auto simp: res_le_def intro: moves_stays)

subsection \<open>Properties\<close>


text \<open>
  C14. A cancel is final. Once the owner of a reservation is told that its cancel succeeded, then
  after anything that callers and workers do, in any order, the worker's commit fails, so that no
  further effect starts, nobody can start the reservation, and when the worker finishes it learns
  of the cancellation. The answer to the canceller and the one to the worker are the same: \<open>false\<close>
  to both when no effect had started, \<open>true\<close> to both when the worker still has something to stop.
\<close>

theorem cancel_is_final:
  assumes "res_inv s"
    and "cancel races launch call per s = (Ok (Some b), s1)"
  shows "\<exists>a. bt_get (pending s) launch = Some a \<and>
     fst (commit a (foldl res_step s1 xs)) = Err cancelled \<and>
     fst (launch_finish a (foldl res_step s1 xs)) = Some b \<and>
     fst (launch_start game' launch' call' per' (foldl res_step s1 xs)) \<noteq> Ok a"
proof -
  from cancel_SomeD [OF assms(2)] obtain a ph where a: "bt_get (pending s) launch = Some a"
    and l: "cancel_loop races (phase_of (objects s ! a)) = (b, ph)"
    and s1: "s1 = (if b then set_phase a ph s
          else (set_phase a ph s)\<lparr>pending := bt_remove launch (pending s)\<rparr>)" by blast
  from assms(1) a have "a < length (objects s)" by (simp add: res_inv_def)
  with s1 moves_cancel_loop(2) [OF l] have len: "a < length (objects s1)"
    and ph: "phase_of (objects s1 ! a) = (if b then CANCELLED_COMMITTING else CANCELLED)" by simp_all
  have "res_inv s1" using res_inv_cancel [OF assms(1), of races launch call per] assms(2) by simp
  from object_after_run [OF this len, of xs]
  have fin: "phase_of (objects (foldl res_step s1 xs) ! a) = (if b then CANCELLED_COMMITTING else CANCELLED)"
    by (simp add: ph stays_def split: if_splits)
  then have "fst (launch_start game' launch' call' per' (foldl res_step s1 xs)) \<noteq> Ok a"
    using start_OkD(2) by (metis phase.distinct(5,7) prod.collapse)
  with a fin show ?thesis
    by (auto simp: commit_def compare_exchange_def launch_finish_def)
qed

text \<open>Witness of C14: the owner cancels a started launch, then the worker tries to commit.\<close>

definition demo_started :: reservations where
  "demo_started = res_step (res_step \<lparr>objects = [], pending = []\<rparr>
     (Reserve ''game'' ''alice'' None ''l1'' 5)) (Start ''game'' ''l1'' ''alice'' None)"

lemma demo_started_inv: "res_inv demo_started"
  unfolding demo_started_def by (intro res_inv_step) (simp add: res_inv_def)

theorem cancel_is_final_witness:
  "fst (commit 0 (foldl res_step (snd (cancel [] ''l1'' ''alice'' None demo_started)) [Commit 0])) = Err cancelled"
proof -
  have "cancel [] ''l1'' ''alice'' None demo_started =
      (Ok (Some False), snd (cancel [] ''l1'' ''alice'' None demo_started))" by code_simp
  from cancel_is_final [OF demo_started_inv this, of "[Commit 0]"]
  have "\<exists>a. bt_get (pending demo_started) ''l1'' = Some a \<and> fst (commit a
     (foldl res_step (snd (cancel [] ''l1'' ''alice'' None demo_started)) [Commit 0])) = Err cancelled" by blast
  moreover have "bt_get (pending demo_started) ''l1'' = Some 0" by code_simp
  ultimately show ?thesis by simp
qed

text \<open>
  A commit is final. After a worker was allowed to start effects, whatever happens, a later
  commit of the same launch is refused, nobody can start it again, and no caller is told that the
  launch was cancelled before its effects: while the reservation is listed, its owner's cancel
  answers that effects have started, and from then on finishing it tells the worker to stop.
\<close>

theorem commit_is_final:
  assumes "res_inv s" and "a < length (objects s)"
    and "commit a s = (Ok (), s1)"
  shows "let t = foldl res_step s1 xs in
     fst (commit a t) = Err cancelled \<and>
     fst (launch_start game' launch' call' per' t) \<noteq> Ok a \<and>
     fst (launch_finish a t) \<in> {None, Some True} \<and>
     (bt_get (pending t) launch \<noteq> Some a \<or>
      (case cancel races launch call per t of
         (r, u) \<Rightarrow> r = Err denied \<and> u = t \<or> r = Ok (Some True) \<and> fst (launch_finish a u) = Some True))"
proof -
  define t where "t = foldl res_step s1 xs"
  from assms commit_OkD [OF assms(3)] have s1: "res_inv s1" "a < length (objects s1)"
      and "phase_of (objects s1 ! a) = COMMITTING"
    by (simp_all add: res_inv_set_phase)
  with object_after_run [OF s1, of xs]
  have ph: "phase_of (objects t ! a) \<in> {COMMITTING, CANCELLED_COMMITTING}"
    by (simp add: t_def stays_def)
  have len: "a < length (objects t)"
    using res_le_run [OF s1(1), of xs] s1(2) by (simp add: res_le_def t_def)
  from ph have loop: "cancel_loop races (phase_of (objects t ! a)) = (True, CANCELLED_COMMITTING)"
    using cancel_loop_atomic [of "phase_of (objects t ! a)" races]
    by (auto simp: commit_phase_def compare_exchange_def)
  have "fst (launch_start game' launch' call' per' t) \<noteq> Ok a"
    using start_OkD(2) ph by (metis insertE phase.distinct(3,7) prod.collapse singletonD)
  moreover have "bt_get (pending t) launch \<noteq> Some a \<or> (case cancel races launch call per t of
         (r, u) \<Rightarrow> r = Err denied \<and> u = t \<or> r = Ok (Some True) \<and> fst (launch_finish a u) = Some True)"
    using loop len by (simp add: cancel_def Let_def launch_finish_def)
  ultimately show ?thesis
    using ph unfolding t_def [symmetric] Let_def
    by (auto simp: commit_def compare_exchange_def launch_finish_def)
qed

text \<open>An instance: the worker commits, then the owner cancels twice.\<close>

theorem commit_is_final_witness:
  "fst (commit 0 (foldl res_step (snd (commit 0 demo_started)) [Cancel [] ''l1'' ''alice'' None])) = Err cancelled"
proof -
  have "commit 0 demo_started = (Ok (), snd (commit 0 demo_started))" and "0 < length (objects demo_started)"
    by code_simp+
  from commit_is_final [OF demo_started_inv this(2,1), of "[Cancel [] ''l1'' ''alice'' None]"]
  show ?thesis unfolding Let_def by blast
qed

text \<open>
  A reservation belongs to the caller and person that made it. Nobody else can start or cancel
  it or sees it: with another caller or person both answer that access is denied, or that there is
  no such reservation, and change nothing, and a snapshot shows only the caller's own reservations.
  A reservation is started at most once, in whatever order the calls come.
\<close>

theorem reservations_bound_to_owner:
  assumes "res_inv s"
  shows "(case bt_get (pending s) launch of
       None \<Rightarrow> launch_start game launch call per s = (Err stale, s) \<and> cancel races launch call per s = (Ok None, s)
     | Some a \<Rightarrow> (caller (objects s ! a), person (objects s ! a)) = (call, per) \<or>
         launch_start game launch call per s = (Err denied, s) \<and> cancel races launch call per s = (Err denied, s))
    \<and> pl_session ` set (snapshot call per s) \<subseteq>
        {identity r | r. r \<in> set (objects s) \<and> (caller r, person r) = (call, per)}
    \<and> (case launch_start game launch call per s of (Err _, t) \<Rightarrow> t = s
       | (Ok a, t) \<Rightarrow> fst (launch_start game' launch' call' per' (foldl res_step t xs)) \<noteq> Ok a)"
proof (intro conjI)
  show "case bt_get (pending s) launch of
       None \<Rightarrow> launch_start game launch call per s = (Err stale, s) \<and> cancel races launch call per s = (Ok None, s)
     | Some a \<Rightarrow> (caller (objects s ! a), person (objects s ! a)) = (call, per) \<or>
         launch_start game launch call per s = (Err denied, s) \<and> cancel races launch call per s = (Err denied, s)"
    by (auto simp: launch_start_def cancel_def Let_def split: option.splits)
next
  have "r \<in> set (objects s)" if "r \<in> set (pending_objects s)" for r
    using that assms unfolding pending_objects_def res_inv_def by (auto simp: bt_values_get)
  then show "pl_session ` set (snapshot call per s) \<subseteq>
      {identity r | r. r \<in> set (objects s) \<and> (caller r, person r) = (call, per)}"
    by (auto simp: snapshot_def map_filter_def)
next
  show "case launch_start game launch call per s of (Err _, t) \<Rightarrow> t = s
     | (Ok a, t) \<Rightarrow> fst (launch_start game' launch' call' per' (foldl res_step t xs)) \<noteq> Ok a"
  proof (cases rule: start_cases [of game launch call per s])
    case (1 a)
    from assms 1(2) have len: "a < length (objects (set_phase a PREPARING s))"
      and ph: "phase_of (objects (set_phase a PREPARING s) ! a) = PREPARING" by (auto simp: res_inv_def)
    from object_after_run [OF res_inv_set_phase [OF assms] len, of xs]
    have "phase_of (objects (foldl res_step (set_phase a PREPARING s) xs) ! a) \<noteq> RESERVED"
      by (simp add: ph stays_def)
    then have "fst (launch_start game' launch' call' per' (foldl res_step (set_phase a PREPARING s) xs)) \<noteq> Ok a"
      using start_OkD(2) by (metis prod.collapse)
    with 1 show ?thesis by simp
  qed simp
qed

text \<open>An instance: another caller tries to cancel the launch.\<close>

theorem reservations_bound_to_owner_witness:
  "cancel [] ''l1'' ''mallory'' None demo_started = (Err denied, demo_started)"
proof -
  have a: "bt_get (pending demo_started) ''l1'' = Some 0" and own: "caller (objects demo_started ! 0) = ''alice''"
    by code_simp+
  show ?thesis
    using reservations_bound_to_owner [OF demo_started_inv, where launch = "''l1''" and call = "''mallory''" and per = None and races = "[]"]
    unfolding a option.case own by simp
qed

end
