(* ===== verification/Utf8.thy ===== *)
theory Utf8
  imports Korri_Prelude
begin

text \<open>
  UTF-8 as Rust's standard library reads it: \<open>String::from_utf8\<close>, \<open>String::from_utf8_lossy\<close>,
  \<open>chars().count()\<close> and \<open>char::is_control\<close> on strings of bytes, and the case functions on ASCII.
\<close>

definition byte_in :: "nat \<Rightarrow> nat \<Rightarrow> char \<Rightarrow> bool" where
  "byte_in lo hi c \<longleftrightarrow> lo \<le> of_char c \<and> of_char c \<le> hi"

text \<open>
  The first unit of a string that is not empty: whether it is a character, and how many bytes it
  has. The bytes of an ill-formed unit are the longest prefix of a character, at least one.
\<close>

definition tail_byte :: "nat \<Rightarrow> string \<Rightarrow> bool" where
  "tail_byte i s \<longleftrightarrow> i < length s \<and> byte_in 0x80 0xBF (s ! i)"

definition second_byte :: "nat \<Rightarrow> nat \<Rightarrow> string \<Rightarrow> bool" where
  "second_byte lo hi s \<longleftrightarrow> 1 < length s \<and> byte_in lo hi (s ! 1)"

definition utf8_unit :: "string \<Rightarrow> bool \<times> nat" where
  "utf8_unit s =
     (let c = hd s;
          three = (\<lambda>lo hi. if \<not> second_byte lo hi s then (False, 1)
                    else if \<not> tail_byte 2 s then (False, 2) else (True, 3));
          four = (\<lambda>lo hi. if \<not> second_byte lo hi s then (False, 1)
                    else if \<not> tail_byte 2 s then (False, 2)
                    else if \<not> tail_byte 3 s then (False, 3) else (True, 4))
      in if byte_in 0 0x7F c then (True, 1)
         else if byte_in 0xC2 0xDF c then (if tail_byte 1 s then (True, 2) else (False, 1))
         else if byte_in 0xE0 0xE0 c then three 0xA0 0xBF
         else if byte_in 0xED 0xED c then three 0x80 0x9F
         else if byte_in 0xE1 0xEF c then three 0x80 0xBF
         else if byte_in 0xF0 0xF0 c then four 0x90 0xBF
         else if byte_in 0xF1 0xF3 c then four 0x80 0xBF
         else if byte_in 0xF4 0xF4 c then four 0x80 0x8F
         else (False, 1))"

lemma utf8_unit_pos [simp]: "0 < snd (utf8_unit s)"
  by (auto simp: utf8_unit_def Let_def)

function utf8_valid :: "string \<Rightarrow> bool" where
  "utf8_valid s =
     (if s = [] then True else if fst (utf8_unit s) then utf8_valid (drop (snd (utf8_unit s)) s) else False)"
  by pat_completeness auto
termination by (relation "measure length") auto

definition replacement :: string where
  "replacement = [CHR 0xEF, CHR 0xBF, CHR 0xBD]"

function from_utf8_lossy :: "string \<Rightarrow> string" where
  "from_utf8_lossy s =
     (if s = [] then []
      else (if fst (utf8_unit s) then take (snd (utf8_unit s)) s else replacement)
           @ from_utf8_lossy (drop (snd (utf8_unit s)) s))"
  by pat_completeness auto
termination by (relation "measure length") auto

declare utf8_valid.simps [simp del] from_utf8_lossy.simps [simp del]

definition chars_count :: "string \<Rightarrow> nat" where
  "chars_count s = length (filter (\<lambda>c. \<not> byte_in 0x80 0xBF c) s)"

text \<open>Control characters: U+0000 to U+001F and U+007F to U+009F.\<close>

fun has_control :: "string \<Rightarrow> bool" where
  "has_control [] = False"
| "has_control (c # cs) =
     (byte_in 0 0x1F c \<or> c = CHR 0x7F \<or>
      (c = CHR 0xC2 \<and> cs \<noteq> [] \<and> byte_in 0x80 0x9F (hd cs)) \<or> has_control cs)"

definition to_ascii_lowercase :: "string \<Rightarrow> string" where
  "to_ascii_lowercase s = map (\<lambda>c. if byte_in 65 90 c then char_of (of_char c + 32 :: nat) else c) s"

definition eq_ignore_ascii_case :: "string \<Rightarrow> string \<Rightarrow> bool" where
  "eq_ignore_ascii_case s t \<longleftrightarrow> to_ascii_lowercase s = to_ascii_lowercase t"

lemma from_utf8_lossy_valid: "utf8_valid s \<Longrightarrow> from_utf8_lossy s = s"
proof (induction s rule: from_utf8_lossy.induct)
  case (1 s)
  show ?case
  proof (cases "s = []")
    case False
    with 1(2) have "fst (utf8_unit s)" and "utf8_valid (drop (snd (utf8_unit s)) s)"
      by (simp_all add: utf8_valid.simps [of s] split: if_splits)
    with 1(1) False have "from_utf8_lossy (drop (snd (utf8_unit s)) s) = drop (snd (utf8_unit s)) s" by simp
    with False \<open>fst (utf8_unit s)\<close> show ?thesis by (subst from_utf8_lossy.simps) simp
  qed (simp add: from_utf8_lossy.simps)
qed

lemma chars_count_le: "chars_count s \<le> length s"
  by (simp add: chars_count_def)

lemma to_ascii_lowercase_idem [simp]: "to_ascii_lowercase (to_ascii_lowercase s) = to_ascii_lowercase s"
  by (auto simp: to_ascii_lowercase_def byte_in_def)

end
