(* ===== verification/Acquisition_Policy.thy ===== *)
theory Acquisition_Policy
  imports Utf8 Ordered_Map
begin

unbundle bit_operations_syntax

text \<open>
  What an acquisition may ask for and what it may believe:
  \<open>services/korrid/src/acquisition/policy.rs\<close> (addresses, URLs, redirects, file names) and
  \<open>services/korrid/src/acquisition/claims.rs\<close> (admission of a provider plugin's output).

  The crate \<open>url\<close> is outside the sources. A parsed URL is the record of what its accessors return,
  and parsing, joining and rendering are the operations of the parameter \<open>url_crate\<close>, about which
  nothing is assumed. The address policy that only tests use is left out.
\<close>

subsection \<open>Addresses\<close>

datatype ipv4 = Octets "8 word" "8 word" "8 word" "8 word"

datatype ipv6 = Segments "16 word" "16 word" "16 word" "16 word" "16 word" "16 word" "16 word" "16 word"

datatype ip_addr = V4 ipv4 | V6 ipv6

primrec v6_is_loopback :: "ipv6 \<Rightarrow> bool" where
  "v6_is_loopback (Segments a b c d e f g h) = ((a, b, c, d, e, f, g, h) = (0, 0, 0, 0, 0, 0, 0, 1))"

primrec v6_is_unspecified :: "ipv6 \<Rightarrow> bool" where
  "v6_is_unspecified (Segments a b c d e f g h) = ((a, b, c, d, e, f, g, h) = (0, 0, 0, 0, 0, 0, 0, 0))"

primrec public_v4 :: "ipv4 \<Rightarrow> bool" where
  "public_v4 (Octets a b c d) \<longleftrightarrow>
     \<not> (a = 0 \<or> a = 10 \<or> a = 127) \<and>
     \<not> (a = 100 \<and> 64 \<le> b \<and> b \<le> 127) \<and>
     \<not> (a = 169 \<and> b = 254) \<and>
     \<not> (a = 172 \<and> 16 \<le> b \<and> b \<le> 31) \<and>
     \<not> (a = 192 \<and> b = 168)"

primrec public_v6 :: "ipv6 \<Rightarrow> bool" where
  "public_v6 (Segments a b c d e f g h) \<longleftrightarrow>
     \<not> v6_is_loopback (Segments a b c d e f g h) \<and>
     \<not> v6_is_unspecified (Segments a b c d e f g h) \<and>
     a AND 0xffc0 \<noteq> 0xfe80 \<and>
     a AND 0xfe00 \<noteq> 0xfc00 \<and>
     [a, b, c, d, e, f] \<noteq> [0x64, 0xff9b, 0, 0, 0, 0] \<and>
     [a, b, c, d, e, f] \<noteq> [0, 0, 0, 0, 0, 0xffff]"

primrec public_address :: "ip_addr \<Rightarrow> bool" where
  "public_address (V4 ip) = public_v4 ip"
| "public_address (V6 ip) = public_v6 ip"

datatype address_policy = Public

primrec allows :: "address_policy \<Rightarrow> ip_addr \<Rightarrow> bool" where
  "allows Public ip = public_address ip"

subsection \<open>URLs\<close>

datatype url_host = Domain string | Ipv4 ipv4 | Ipv6 ipv6

record url =
  scheme :: string
  username :: string
  password :: "string option"
  url_host :: "url_host option"
  port_or_known_default :: "nat option"
  path_segments :: "string list option"
  query_pairs :: "(string \<times> string) list"

record url_crate =
  url_parse :: "string \<Rightarrow> url option"
  url_join :: "url \<Rightarrow> string \<Rightarrow> url option"
  url_text :: "url \<Rightarrow> string"
  host_str :: "url \<Rightarrow> string option"
  form_urlencoded :: "(string \<times> string) list \<Rightarrow> string"

datatype acq_failure =
    UnsafeUrl | UnsafePath | Redirect | Network | Stalled | Hash | Storage | NoSpace | Unpack
  | Cancelled | UndeclaredHost | TooLarge | WebPage | Empty | NotSystemFile

definition validate :: "url \<Rightarrow> address_policy \<Rightarrow> (unit, acq_failure) result" where
  "validate u addresses =
     (if \<not> (scheme u = ''http'' \<or> scheme u = ''https'') \<or> username u \<noteq> '''' \<or> password u \<noteq> None
      then Err UnsafeUrl
      else case url_host u of
          None \<Rightarrow> Err UnsafeUrl
        | Some (Domain h) \<Rightarrow>
            if eq_ignore_ascii_case h ''localhost'' \<or> eq_ignore_ascii_case h ''localhost.''
            then Err UnsafeUrl else Ok ()
        | Some (Ipv4 ip) \<Rightarrow> if allows addresses (V4 ip) then Ok () else Err UnsafeUrl
        | Some (Ipv6 ip) \<Rightarrow> if allows addresses (V6 ip) then Ok () else Err UnsafeUrl)"

datatype hosts = Any | Only "string list"

primrec declared :: "url \<Rightarrow> hosts \<Rightarrow> (unit, acq_failure) result" where
  "declared u Any = Ok ()"
| "declared u (Only hs) =
     (case url_host u of
        Some (Domain h) \<Rightarrow> if h \<in> set hs then Ok () else Err UndeclaredHost
      | _ \<Rightarrow> Err UndeclaredHost)"

definition follow_redirect ::
  "url_crate \<Rightarrow> url \<Rightarrow> string \<Rightarrow> nat \<Rightarrow> address_policy \<Rightarrow> (url, acq_failure) result" where
  "follow_redirect cr from location hops addresses =
     (if 5 \<le> hops then Err Redirect
      else case url_join cr from location of
          None \<Rightarrow> Err UnsafeUrl
        | Some to \<Rightarrow>
            (case validate from addresses of
               Err e \<Rightarrow> Err e
             | Ok _ \<Rightarrow>
                 (case validate to addresses of
                    Err e \<Rightarrow> Err e
                  | Ok _ \<Rightarrow> if scheme from = ''https'' \<and> scheme to \<noteq> ''https'' then Err UnsafeUrl else Ok to)))"

subsection \<open>File names\<close>

definition hex_digit :: "char \<Rightarrow> nat option" where
  "hex_digit c =
     (let n = of_char c in
      if 48 \<le> n \<and> n \<le> 57 then Some (n - 48)
      else if 97 \<le> n \<and> n \<le> 102 then Some (n - 87)
      else if 65 \<le> n \<and> n \<le> 70 then Some (n - 55)
      else None)"

fun percent_decode :: "string \<Rightarrow> (string, acq_failure) result" where
  "percent_decode [] = Ok []"
| "percent_decode (byte # input) =
     (if byte = CHR ''%'' then
        (case input of
           x # y # rest \<Rightarrow>
             (case (hex_digit x, hex_digit y) of
                (Some a, Some b) \<Rightarrow>
                  (case percent_decode rest of Ok bs \<Rightarrow> Ok (char_of (a * 16 + b) # bs) | Err e \<Rightarrow> Err e)
              | _ \<Rightarrow> Err UnsafePath)
         | _ \<Rightarrow> Err UnsafePath)
      else case percent_decode input of Ok bs \<Rightarrow> Ok (byte # bs) | Err e \<Rightarrow> Err e)"

definition basename :: "url_crate \<Rightarrow> string \<Rightarrow> (string, acq_failure) result" where
  "basename cr value =
     (case url_parse cr value of
        None \<Rightarrow> Err UnsafeUrl
      | Some u \<Rightarrow>
          (case Option.bind (path_segments u) (\<lambda>segs. if segs = [] then None else Some (last segs)) of
             None \<Rightarrow> Err UnsafePath
           | Some encoded \<Rightarrow>
               (case percent_decode encoded of
                  Err e \<Rightarrow> Err e
                | Ok name \<Rightarrow>
                    if \<not> utf8_valid name then Err UnsafePath
                    else if name = '''' \<or> name = ''.'' \<or> name = ''..'' \<or> CHR ''/'' \<in> set name \<or> has_control name
                    then Err UnsafePath
                    else Ok name)))"

subsection \<open>Address blocks\<close>

text \<open>The specification: addresses as numbers, and blocks as a first address and a prefix length.\<close>

primrec v4_number :: "ipv4 \<Rightarrow> nat" where
  "v4_number (Octets a b c d) = ((unat a * 256 + unat b) * 256 + unat c) * 256 + unat d"

primrec v6_number :: "ipv6 \<Rightarrow> nat" where
  "v6_number (Segments a b c d e f g h) =
     foldl (\<lambda>n s. n * 65536 + unat s) 0 [a, b, c, d, e, f, g, h]"

definition in_block :: "nat \<Rightarrow> nat \<times> nat \<Rightarrow> nat \<Rightarrow> bool" where
  "in_block width blk n \<longleftrightarrow> n div 2 ^ (width - snd blk) = fst blk div 2 ^ (width - snd blk)"

definition v4_blocks :: "(nat \<times> nat) list" where
  "v4_blocks =
     [(v4_number (Octets 0 0 0 0), 8),
      (v4_number (Octets 10 0 0 0), 8),
      (v4_number (Octets 127 0 0 0), 8),
      (v4_number (Octets 100 64 0 0), 10),
      (v4_number (Octets 169 254 0 0), 16),
      (v4_number (Octets 172 16 0 0), 12),
      (v4_number (Octets 192 168 0 0), 16)]"

definition v6_blocks :: "(nat \<times> nat) list" where
  "v6_blocks =
     [(v6_number (Segments 0 0 0 0 0 0 0 1), 128),
      (v6_number (Segments 0 0 0 0 0 0 0 0), 128),
      (v6_number (Segments 0xfe80 0 0 0 0 0 0 0), 10),
      (v6_number (Segments 0xfc00 0 0 0 0 0 0 0), 7),
      (v6_number (Segments 0x64 0xff9b 0 0 0 0 0 0), 96),
      (v6_number (Segments 0 0 0 0 0 0xffff 0 0), 96)]"

primrec in_private_block :: "ip_addr \<Rightarrow> bool" where
  "in_private_block (V4 ip) = list_ex (\<lambda>blk. in_block 32 blk (v4_number ip)) v4_blocks"
| "in_private_block (V6 ip) = list_ex (\<lambda>blk. in_block 128 blk (v6_number ip)) v6_blocks"

text \<open>Leading digits of a number in base \<open>2 ^ k\<close>.\<close>

lemma split_digit: "x < m \<Longrightarrow> y < m \<Longrightarrow> (a * m + x = b * m + y) = (a = b \<and> x = y)" for a b x y m :: nat
proof
  assume "x < m" "y < m" and e: "a * m + x = b * m + y"
  then have "(a * m + x) div m = (b * m + y) div m" "(a * m + x) mod m = (b * m + y) mod m" by simp_all
  with \<open>x < m\<close> \<open>y < m\<close> show "a = b \<and> x = y" by simp
qed simp

lemma drop_digit: "x < m \<Longrightarrow> (a * m + x) div (m * k) = a div k" for a x m k :: nat
  by (simp add: div_mult2_eq)

lemma octet_lt: "unat (a :: 8 word) < 256"
  using unsigned_less [of a] by simp

lemma segment_lt: "unat (a :: 16 word) < 65536"
  using unsigned_less [of a] by simp

declare v4_number.simps [simp del] v6_number.simps [simp del]

lemma v4_number_div:
  "v4_number (Octets a b c d) div 65536 = unat a * 256 + unat b"
  "v4_number (Octets a b c d) div 16777216 = unat a"
  "v4_number (Octets a b c d) div 4194304 = (unat a * 256 + unat b) div 64"
  "v4_number (Octets a b c d) div 1048576 = (unat a * 256 + unat b) div 16"
proof -
  have 16: "v4_number (Octets a b c d) div (256 * (256 * k)) = (unat a * 256 + unat b) div k" for k
    by (simp only: v4_number.simps drop_digit [OF octet_lt])
  from 16 [of 1] show "v4_number (Octets a b c d) div 65536 = unat a * 256 + unat b" by simp
  from 16 [of 256] octet_lt [of b] show "v4_number (Octets a b c d) div 16777216 = unat a" by simp
  from 16 [of 64] show "v4_number (Octets a b c d) div 4194304 = (unat a * 256 + unat b) div 64" by simp
  from 16 [of 16] show "v4_number (Octets a b c d) div 1048576 = (unat a * 256 + unat b) div 16" by simp
qed

lemma octet_ranges:
  "b < 256 \<Longrightarrow> ((a * 256 + b) div 64 = 401) = (a = 100 \<and> 64 \<le> b \<and> b \<le> 127)"
  "b < 256 \<Longrightarrow> ((a * 256 + b) div 16 = 2753) = (a = 172 \<and> 16 \<le> b \<and> b \<le> 31)" for a b :: nat
proof -
  assume b: "b < 256"
  have "(a * 256 + b) div 64 = a * 4 + b div 64" "(a * 256 + b) div 16 = a * 16 + b div 16"
    using div_mult_self3 [of 64 "a * 4" b] div_mult_self3 [of 16 "a * 16" b] by (simp_all add: algebra_simps)
  moreover have "(b div 64 = 1) = (64 \<le> b \<and> b \<le> 127)" "(b div 16 = 1) = (16 \<le> b \<and> b \<le> 31)"
    "b div 64 < 4" "b div 16 < 16" using b by auto
  moreover have "(a * 4 + q = 401) = (a = 100 \<and> q = 1)" if "q < 4" for q using that by presburger
  moreover have "(a * 16 + q = 2753) = (a = 172 \<and> q = 1)" if "q < 16" for q using that by presburger
  ultimately show "((a * 256 + b) div 64 = 401) = (a = 100 \<and> 64 \<le> b \<and> b \<le> 127)"
    and "((a * 256 + b) div 16 = 2753) = (a = 172 \<and> 16 \<le> b \<and> b \<le> 31)" by simp_all
qed

lemma public_v4_blocks: "public_v4 ip \<longleftrightarrow> \<not> in_private_block (V4 ip)"
proof (cases ip)
  case (Octets a b c d)
  have *: "(unat a * 256 + unat b = k * 256 + l) = (unat a = k \<and> unat b = l)" if "l < 256" for k l
    using split_digit [OF octet_lt that] by simp
  have 64: "((unat a * 256 + unat b) div 64 = 401) = (unat a = 100 \<and> 64 \<le> unat b \<and> unat b \<le> 127)"
    by (rule octet_ranges [OF octet_lt])
  have 16: "((unat a * 256 + unat b) div 16 = 2753) = (unat a = 172 \<and> 16 \<le> unat b \<and> unat b \<le> 31)"
    by (rule octet_ranges [OF octet_lt])
  have 0: "(unat a * 256 + unat b = 43518) = (unat a = 169 \<and> unat b = 254)"
    and 1: "(unat a * 256 + unat b = 49320) = (unat a = 192 \<and> unat b = 168)"
    using * [of 254 169] * [of 168 192] by simp_all
  show ?thesis
    using 0 1 64 16
    by (simp add: Octets v4_blocks_def in_block_def v4_number_div word_unat_eq_iff word_le_nat_alt)
qed

text \<open>Masking the low bits of a word away, and comparing the rest.\<close>

lemma and_not_mask: "w AND NOT (mask n) = push_bit n (drop_bit n w)" for w :: "'a::len word"
  by (rule bit_word_eqI) (auto simp: bit_simps)

lemma masked_eq:
  fixes w c :: "'a::len word"
  assumes "c AND NOT (mask n) = c"
  shows "(w AND NOT (mask n) = c) = (unat w div 2 ^ n = unat c div 2 ^ n)"
proof -
  have "(w AND NOT (mask n) = c) = (drop_bit n w = drop_bit n c)"
  proof
    assume "w AND NOT (mask n) = c"
    moreover have "drop_bit n (w AND NOT (mask n)) = drop_bit n w"
      by (rule bit_word_eqI) (auto simp: bit_simps dest: bit_imp_le_length)
    ultimately show "drop_bit n w = drop_bit n c" by simp
  next
    assume "drop_bit n w = drop_bit n c"
    then show "w AND NOT (mask n) = c" using assms by (simp add: and_not_mask)
  qed
  also have "\<dots> = (unat w div 2 ^ n = unat c div 2 ^ n)"
    by (simp add: word_unat_eq_iff unat_drop_bit_eq flip: drop_bit_eq_div)
  finally show ?thesis .
qed

lemma segment_masks:
  "(a AND 0xffc0 = 0xfe80) = (unat a div 64 = 0x3fa)"
  "(a AND 0xfe00 = 0xfc00) = (unat a div 512 = 0x7e)" for a :: "16 word"
proof -
  have "NOT (mask 6) = (0xffc0 :: 16 word)" "NOT (mask 9) = (0xfe00 :: 16 word)" by code_simp+
  then show "(a AND 0xffc0 = 0xfe80) = (unat a div 64 = 0x3fa)"
    "(a AND 0xfe00 = 0xfc00) = (unat a div 512 = 0x7e)"
    using masked_eq [of "0xfe80" 6 a] masked_eq [of "0xfc00" 9 a] by simp_all
qed

lemma v6_number_div:
  "v6_number (Segments a b c d e f g h) div (65536 * (65536 * k)) =
     foldl (\<lambda>n s. n * 65536 + unat s) 0 [a, b, c, d, e, f] div k"
  "foldl (\<lambda>n s. n * 65536 + unat s) 0 [a, b, c, d, e, f] div (65536 * (65536 * (65536 * (65536 * (65536 * k))))) =
     unat a div k"
  by (simp_all only: v6_number.simps foldl_Cons foldl_Nil drop_digit [OF segment_lt] mult_0 add_0)

lemma six_segments_eq:
  "(foldl (\<lambda>n s. n * 65536 + unat s) 0 [a, b, c, d, e, f] = foldl (\<lambda>n s. n * 65536 + unat s) 0 [a', b', c', d', e', f'])
     = ([a, b, c, d, e, f] = [a', b', c', d', e', f'])" for a :: "16 word"
  by (simp only: foldl_Cons foldl_Nil split_digit [OF segment_lt segment_lt] word_unat_eq_iff mult_0 add_0
      list.inject simp_thms conj_assoc)

lemma v6_number_eq:
  "(v6_number (Segments a b c d e f g h) = v6_number (Segments a' b' c' d' e' f' g' h')) =
     ((a, b, c, d, e, f, g, h) = (a', b', c', d', e', f', g', h'))"
  by (simp only: v6_number.simps foldl_Cons foldl_Nil split_digit [OF segment_lt segment_lt] word_unat_eq_iff
      mult_0 add_0 prod.inject simp_thms conj_assoc)

lemma public_v6_blocks: "public_v6 ip \<longleftrightarrow> \<not> in_private_block (V6 ip)"
proof (cases ip)
  case (Segments a b c d e f g h)
  let ?n = "v6_number (Segments a b c d e f g h)"
  have whole: "in_block 128 (v6_number (Segments a' b' c' d' e' f' g' h'), 128) ?n =
      ((a, b, c, d, e, f, g, h) = (a', b', c', d', e', f', g', h'))" for a' b' c' d' e' f' g' h'
    unfolding in_block_def using v6_number_eq by simp
  have 96: "in_block 128 (v6_number (Segments a' b' c' d' e' f' 0 0), 96) ?n =
      ([a, b, c, d, e, f] = [a', b', c', d', e', f'])" for a' b' c' d' e' f'
  proof -
    have pow: "2 ^ (128 - 96) = 65536 * (65536 * 1 :: nat)" by simp
    show ?thesis unfolding in_block_def fst_conv snd_conv pow v6_number_div(1) div_by_1 by (rule six_segments_eq)
  qed
  have top: "in_block 128 (v6_number (Segments a' 0 0 0 0 0 0 0), 16 - k) ?n = (unat a div 2 ^ k = unat a' div 2 ^ k)"
    if "k \<le> 16" for a' k
  proof -
    have pow: "2 ^ (128 - (16 - k)) =
        65536 * (65536 * (65536 * (65536 * (65536 * (65536 * (65536 * 2 ^ k))))) :: nat)"
      using that by (simp add: power_add)
    show ?thesis unfolding in_block_def fst_conv snd_conv pow v6_number_div ..
  qed
  show ?thesis
    using top [of 6 "0xfe80"] top [of 9 "0xfc00"]
    by (simp add: Segments v6_blocks_def whole 96 segment_masks)
qed

text \<open>
  The address check admits exactly the addresses outside the blocks that a host on the local
  network or the machine itself can have: for version 4 the blocks 0/8, 10/8, 127/8, 100.64/10,
  169.254/16, 172.16/12 and 192.168/16, for version 6 the loopback and the unspecified address,
  fe80::/10, fc00::/7, the translated block 64:ff9b::/96 and the mapped block ::ffff:0:0/96.
\<close>

theorem public_address_exact: "allows Public ip \<longleftrightarrow> \<not> in_private_block ip"
  by (cases ip) (simp_all add: public_v4_blocks public_v6_blocks del: in_private_block.simps)

subsection \<open>Names from URLs\<close>

definition hex_char :: "nat \<Rightarrow> char" where
  "hex_char n = char_of (if n < 10 then 48 + n else 55 + n)"

definition percent_encode :: "string \<Rightarrow> string" where
  "percent_encode s = concat (map (\<lambda>c. [CHR ''%'', hex_char (of_char c div 16), hex_char (of_char c mod 16)]) s)"

lemma hex_digit_char [simp]: "n < 16 \<Longrightarrow> hex_digit (hex_char n) = Some n"
  by (auto simp: hex_digit_def hex_char_def Let_def)

lemma percent_decode_encode [simp]: "percent_decode (percent_encode s) = Ok s"
proof (induction s)
  case (Cons c s)
  have "of_char c < (256 :: nat)" using of_char_mod_256 [of c] by (metis mod_less_divisor zero_less_numeral)
  then have "of_char c div 16 < (16 :: nat)" by linarith
  with Cons show ?case by (simp add: percent_encode_def mult.commute)
qed (simp add: percent_encode_def)

lemma percent_decode_Err: "percent_decode s = Err e \<Longrightarrow> e = UnsafePath"
proof (induction s arbitrary: e rule: percent_decode.induct)
  case (2 byte input)
  show ?case
  proof (cases "byte = CHR ''%''")
    case True
    with 2(3) 2(1) show ?thesis by (force split: list.splits option.splits result.splits)
  next
    case False
    with 2(3) 2(2) show ?thesis by (auto split: result.splits)
  qed
qed simp

text \<open>
  File names survive the URL, and only safe ones come out. When the last segment of a URL is
  the percent-encoding of a name, the name is returned unless it is unsafe as a file name: empty,
  a dot or two, not UTF-8, or with a slash or a control character in it. Whatever the URL, a name
  that is returned is a single safe path component, and an error is one of two kinds.
\<close>

theorem basename_exact:
  assumes "url_parse cr value = Some u" and "path_segments u = Some (segs @ [percent_encode name])"
  shows "basename cr value =
      (if utf8_valid name \<and> name \<notin> {'''', ''.'', ''..''} \<and> CHR ''/'' \<notin> set name \<and> \<not> has_control name
       then Ok name else Err UnsafePath) \<and>
    (case basename cr value' of
       Ok n \<Rightarrow> utf8_valid n \<and> n \<notin> {'''', ''.'', ''..''} \<and> CHR ''/'' \<notin> set n \<and> \<not> has_control n
     | Err e \<Rightarrow> e \<in> {UnsafeUrl, UnsafePath})"
proof
  show "basename cr value =
      (if utf8_valid name \<and> name \<notin> {'''', ''.'', ''..''} \<and> CHR ''/'' \<notin> set name \<and> \<not> has_control name
       then Ok name else Err UnsafePath)"
    using assms by (simp add: basename_def)
  show "case basename cr value' of
       Ok n \<Rightarrow> utf8_valid n \<and> n \<notin> {'''', ''.'', ''..''} \<and> CHR ''/'' \<notin> set n \<and> \<not> has_control n
     | Err e \<Rightarrow> e \<in> {UnsafeUrl, UnsafePath}"
    unfolding basename_def by (auto split: option.splits result.splits dest: percent_decode_Err)
qed

text \<open>An instance: a name with a space and a percent sign.\<close>

definition demo_url :: url where
  "demo_url = \<lparr>scheme = ''https'', username = '''', password = None, url_host = Some (Domain ''example.com''),
     port_or_known_default = Some 443, path_segments = Some [''files'', percent_encode ''a b%''], query_pairs = []\<rparr>"

definition demo_crate :: url_crate where
  "demo_crate = \<lparr>url_parse = (\<lambda>s. if s = ''u'' then Some demo_url else None), url_join = (\<lambda>u _. Some u),
     url_text = (\<lambda>_. ''u''), host_str = (\<lambda>_. Some ''example.com''), form_urlencoded = (\<lambda>_. [])\<rparr>"

theorem basename_exact_witness: "basename demo_crate ''u'' = Ok ''a b%''"
proof -
  have "url_parse demo_crate ''u'' = Some demo_url" by (simp add: demo_crate_def)
  moreover have "path_segments demo_url = Some ([''files''] @ [percent_encode ''a b%''])" by (simp add: demo_url_def)
  moreover have "utf8_valid ''a b%''" and "\<not> has_control ''a b%''" by code_simp+
  ultimately show ?thesis using basename_exact [of demo_crate "''u''" demo_url "[''files'']" "''a b%''"] by simp
qed

end
