(* ===== verification/Acquisition_Claims.thy ===== *)
theory Acquisition_Claims
  imports Acquisition_Policy
begin

text \<open>
  Admission of a provider plugin's output, \<open>services/korrid/src/acquisition/claims.rs\<close>: claims,
  their details and the resolution of a download. Decoding the JSON of a plugin into these records
  is derived code of the crate \<open>serde\<close> and not modelled; the fields that only hold the fixed tag of
  a record are left out.
\<close>

datatype artifact_kind = Content | Patch

record semantic_format =
  sf_id :: string
  sf_version :: "string option"

record artifact_file =
  af_name :: string
  af_extension :: "string option"
  af_media_type :: "string option"
  af_size_bytes :: "nat option"

record artifact_hint =
  ah_kind :: artifact_kind
  ah_system :: "string option"
  ah_format :: semantic_format
  ah_file :: "artifact_file option"

record provider_claim =
  pc_provider_id :: string
  pc_id :: string
  pc_title :: string
  pc_url :: string
  pc_platform :: "string option"
  pc_thumbnail_url :: "string option"
  pc_artifact :: "artifact_hint option"
  pc_fetched_at :: "string option"

record provider_claim_details =
  pd_provider_id :: string
  pd_id :: string
  pd_title :: string
  pd_url :: string
  pd_description :: "string option"
  pd_download_page_url :: "string option"
  pd_artifact :: "artifact_hint option"
  pd_fetched_at :: "string option"

datatype final_download_method = Post

record final_download =
  fd_provider_id :: string
  fd_url :: string
  fd_filename :: "string option"
  fd_content_type :: "string option"
  fd_method :: "final_download_method option"
  fd_body :: "(string, string) btree option"

datatype non_final_reason = Interstitial | RequiresUserAction | Unsupported

record download_choice =
  dc_id :: string
  dc_file_name :: "string option"
  dc_size :: "string option"
  dc_platforms :: "string list option"

record non_final_download =
  nd_provider_id :: string
  nd_reason :: non_final_reason
  nd_url :: "string option"
  nd_choices :: "download_choice list option"

datatype failed_reason = ProviderError | Configuration | NotFoundThere | DefectiveProvider

record failed_download =
  xd_provider_id :: string
  xd_reason :: failed_reason
  xd_message :: string

datatype download_resolution =
    Final final_download
  | NonFinal non_final_download
  | Failed failed_download

subsection \<open>Checks\<close>

text \<open>The error is the text of \<open>Inadmissible\<close>. \<open>then_do\<close> is the sequence of two checks with \<open>?\<close>.\<close>

type_synonym admission = "(unit, string) result"

definition then_do :: "admission \<Rightarrow> admission \<Rightarrow> admission" where
  "then_do a b = (case a of Ok _ \<Rightarrow> b | Err e \<Rightarrow> Err e)"

fun all_checks :: "admission list \<Rightarrow> admission" where
  "all_checks [] = Ok ()"
| "all_checks (a # as) = then_do a (all_checks as)"

definition check :: "bool \<Rightarrow> string \<Rightarrow> admission" where
  "check ok reason = (if ok then Ok () else Err reason)"

definition safe_text_chars :: nat where
  "safe_text_chars = 8192"

definition claim_id_chars :: nat where
  "claim_id_chars = 2048"

definition safe_text :: "string \<Rightarrow> admission" where
  "safe_text value = check (chars_count value \<le> safe_text_chars) ''text exceeds 8192 characters''"

definition safe_url :: "url_crate \<Rightarrow> string \<Rightarrow> admission" where
  "safe_url cr value =
     (case url_parse cr value of
        None \<Rightarrow> Err ''invalid URL''
      | Some u \<Rightarrow>
          if \<not> (scheme u = ''http'' \<or> scheme u = ''https'') \<or> username u \<noteq> '''' \<or> password u \<noteq> None \<or> url_host u = None
          then Err ''URL must be http(s) without credentials''
          else safe_text value)"

definition claim_id :: "string \<Rightarrow> admission" where
  "claim_id value =
     check (0 < chars_count value \<and> chars_count value \<le> claim_id_chars) ''claim id must be 1 to 2048 characters''"

definition check_provider :: "string \<Rightarrow> string \<Rightarrow> admission" where
  "check_provider asked value = check (asked = value) ''result names another provider''"

definition check_optional :: "'a option \<Rightarrow> ('a \<Rightarrow> admission) \<Rightarrow> admission" where
  "check_optional value f = (case value of None \<Rightarrow> Ok () | Some v \<Rightarrow> f v)"

definition is_ascii_lowercase :: "char \<Rightarrow> bool" where
  "is_ascii_lowercase c \<longleftrightarrow> byte_in 97 122 c"

definition semantic_id :: "string \<Rightarrow> bool" where
  "semantic_id value \<longleftrightarrow>
     value \<noteq> [] \<and> length value \<le> 64 \<and> (is_ascii_lowercase (hd value) \<or> is_ascii_digit (hd value)) \<and>
     list_all (\<lambda>b. is_ascii_lowercase b \<or> is_ascii_digit b \<or> b \<in> set ''.-_'') (tl value)"

definition safe_file_name :: "string \<Rightarrow> bool" where
  "safe_file_name value \<longleftrightarrow>
     value \<noteq> '''' \<and> value \<noteq> ''.'' \<and> value \<noteq> ''..'' \<and>
     \<not> list_ex (\<lambda>c. c = CHR ''/'' \<or> c = CHR 0x5C \<or> c = CHR 0x00) value \<and>
     chars_count value \<le> safe_text_chars"

definition safe_extension :: "string \<Rightarrow> bool" where
  "safe_extension value \<longleftrightarrow>
     value \<noteq> [] \<and> length value \<le> 32 \<and> (is_ascii_lowercase (hd value) \<or> is_ascii_digit (hd value)) \<and>
     list_all (\<lambda>b. is_ascii_lowercase b \<or> is_ascii_digit b \<or> b = CHR ''-'') (tl value)"

definition hint :: "artifact_hint \<Rightarrow> admission" where
  "hint value =
     (if ah_system value = Some '''' then Err ''artifact system must not be empty''
      else if \<not> semantic_id (sf_id (ah_format value)) \<or> sf_version (ah_format value) = Some ''''
      then Err ''artifact format is invalid''
      else case ah_file value of
          None \<Rightarrow> Ok ()
        | Some f \<Rightarrow>
            check (\<not> (\<not> safe_file_name (af_name f) \<or>
                     (case af_extension f of None \<Rightarrow> False | Some e \<Rightarrow> \<not> safe_extension e) \<or>
                     af_media_type f = Some '''' \<or> af_size_bytes f = Some 0))
              ''artifact file is invalid'')"

definition admit_claim :: "url_crate \<Rightarrow> provider_claim \<Rightarrow> string \<Rightarrow> admission" where
  "admit_claim cr c asked = all_checks
     [check_provider asked (pc_provider_id c),
      claim_id (pc_id c),
      safe_text (pc_title c),
      safe_url cr (pc_url c),
      check_optional (pc_platform c) safe_text,
      check_optional (pc_thumbnail_url c) (safe_url cr),
      check_optional (pc_fetched_at c) safe_text,
      check_optional (pc_artifact c) hint]"

definition admit_details :: "url_crate \<Rightarrow> provider_claim_details \<Rightarrow> string \<Rightarrow> string \<Rightarrow> admission" where
  "admit_details cr d asked name = all_checks
     [check_provider asked (pd_provider_id d),
      check (pd_id d = name) ''details name another claim'',
      safe_text (pd_title d),
      safe_url cr (pd_url d),
      check_optional (pd_description d) safe_text,
      check_optional (pd_download_page_url d) (safe_url cr),
      check_optional (pd_fetched_at d) safe_text,
      check_optional (pd_artifact d) hint]"

definition encode_form ::
  "url_crate \<Rightarrow> final_download_method option \<Rightarrow> (string, string) btree option \<Rightarrow> string option" where
  "encode_form cr method body =
     map_option (\<lambda>_. form_urlencoded cr (case body of None \<Rightarrow> [] | Some pairs \<Rightarrow> pairs)) method"

definition download_form :: "url_crate \<Rightarrow> final_download \<Rightarrow> string option" where
  "download_form cr d = encode_form cr (fd_method d) (fd_body d)"

definition admit_form ::
  "url_crate \<Rightarrow> final_download_method option \<Rightarrow> (string, string) btree option \<Rightarrow> (string option, string) result" where
  "admit_form cr method body =
     (if body \<noteq> None \<and> method = None then Err ''download body needs method POST''
      else case check_optional (encode_form cr method body) safe_text of
          Err e \<Rightarrow> Err e
        | Ok _ \<Rightarrow> Ok (encode_form cr method body))"

definition form_check ::
  "url_crate \<Rightarrow> final_download_method option \<Rightarrow> (string, string) btree option \<Rightarrow> admission" where
  "form_check cr method body = (case admit_form cr method body of Ok _ \<Rightarrow> Ok () | Err e \<Rightarrow> Err e)"

primrec admit_resolution :: "url_crate \<Rightarrow> download_resolution \<Rightarrow> string \<Rightarrow> admission" where
  "admit_resolution cr (Final d) asked = all_checks
     [check_provider asked (fd_provider_id d),
      safe_url cr (fd_url d),
      check_optional (fd_filename d)
        (\<lambda>v. check (safe_file_name v \<and> \<not> has_control v) ''download file name is unsafe''),
      form_check cr (fd_method d) (fd_body d),
      check_optional (fd_content_type d) safe_text]"
| "admit_resolution cr (NonFinal d) asked = all_checks
     ([check_provider asked (nd_provider_id d),
       check_optional (nd_url d) (safe_url cr)] @
      concat (map (\<lambda>choice. [safe_text (dc_id choice), check_optional (dc_file_name choice) safe_text,
                             check_optional (dc_size choice) safe_text])
        (case nd_choices d of None \<Rightarrow> [] | Some cs \<Rightarrow> cs)))"
| "admit_resolution cr (Failed d) asked = all_checks
     [check_provider asked (xd_provider_id d), safe_text (xd_message d)]"

lemma then_do_Ok [simp]: "then_do a b = Ok () \<longleftrightarrow> a = Ok () \<and> b = Ok ()"
  by (cases a) (simp_all add: then_do_def)

lemma all_checks_Ok [simp]: "all_checks as = Ok () \<longleftrightarrow> (\<forall>a \<in> set as. a = Ok ())"
  by (induction as) auto

lemma check_Ok [simp]: "check b e = Ok () \<longleftrightarrow> b"
  by (simp add: check_def)

lemma check_optional_Ok: "check_optional v f = Ok () \<longleftrightarrow> (case v of None \<Rightarrow> True | Some a \<Rightarrow> f a = Ok ())"
  by (simp add: check_optional_def split: option.splits)

end
