(* ===== verification/Acquisition_Turns.thy ===== *)
theory Acquisition_Turns
  imports Acquisition_Claims
begin

text \<open>
  Provider traffic: the transport of \<open>services/korrid/src/acquisition/download.rs\<close> (\<open>client\<close>, \<open>send\<close>,
  \<open>fetch_text\<close>) and the turns of \<open>services/korrid/src/acquisition/turns.rs\<close>. A provider plugin
  performs no I/O: it answers with a result or with requests, which are admitted and fetched for it.

  The network, name resolution, the HTTP client and the plugin process are outside: they are the
  operations of the parameter \<open>outside\<close> over a world \<open>'w\<close>, about which nothing is assumed. Every
  request that goes out is recorded with the addresses its connection is pinned to, so that the
  properties can speak about all of them. A deadline that passes in the middle of a transfer cuts
  it after some number of requests.
\<close>

subsection \<open>The network\<close>

record http_request =
  rq_url :: url
  rq_addresses :: "ip_addr list"
  rq_port :: nat
  rq_form :: "string option"
  rq_headers :: "(string \<times> string) list"

datatype transport_error = Timeout | OtherTransport

record http_response =
  rs_status :: nat
  rs_headers :: "(string \<times> string) list"
  rs_content_length :: "nat option"
  rs_chunks :: "(string, transport_error) result list"

record 'w outside =
  parse_ip :: "string \<Rightarrow> ip_addr option"
  lookup_host :: "string \<Rightarrow> nat \<Rightarrow> 'w \<Rightarrow> ip_addr list option \<times> 'w"
  client_builds :: "'w \<Rightarrow> bool"
  transmit :: "http_request \<Rightarrow> 'w \<Rightarrow> (http_response, transport_error) result \<times> 'w"
  deadline :: "nat \<Rightarrow> 'w \<Rightarrow> nat option"
  header_to_str :: "string \<Rightarrow> string option"
  header_name_ok :: "string \<Rightarrow> bool"
  header_value_ok :: "string \<Rightarrow> bool"
  call_plugin :: "string \<Rightarrow> string \<Rightarrow> 'w \<Rightarrow> (string, string) result option \<times> 'w"

record 'w net =
  world :: 'w
  sent :: "http_request list"
  handler_inputs :: "string list"

definition trim_brackets :: "string \<Rightarrow> string" where
  "trim_brackets s =
     (let p = (\<lambda>c. c = CHR ''['' \<or> c = CHR '']'') in rev (dropWhile p (rev (dropWhile p s))))"

text \<open>The addresses a connection is pinned to, with the port.\<close>

definition client ::
  "url_crate \<Rightarrow> 'w outside \<Rightarrow> address_policy \<Rightarrow> url \<Rightarrow> 'w net \<Rightarrow> (ip_addr list \<times> nat, acq_failure) result \<times> 'w net" where
  "client cr out pol u n =
     (case validate u pol of
        Err e \<Rightarrow> (Err e, n)
      | Ok _ \<Rightarrow>
          (case host_str cr u of
             None \<Rightarrow> (Err UnsafeUrl, n)
           | Some h0 \<Rightarrow>
               let h = trim_brackets h0 in
               (case port_or_known_default u of
                  None \<Rightarrow> (Err UnsafeUrl, n)
                | Some port \<Rightarrow>
                    let (found, w) = (case parse_ip out h of
                           Some ip \<Rightarrow> (Some [ip], world n)
                         | None \<Rightarrow> lookup_host out h port (world n));
                        n' = n\<lparr>world := w\<rparr>
                    in case found of
                         None \<Rightarrow> (Err Network, n')
                       | Some addresses \<Rightarrow>
                           if addresses = [] then (Err Network, n')
                           else if \<not> list_all (allows pol) addresses then (Err UnsafeUrl, n')
                           else if \<not> client_builds out w then (Err Network, n')
                           else (Ok (addresses, port), n'))))"

definition transfer :: "transport_error \<Rightarrow> acq_failure" where
  "transfer e = (if e = Timeout then Stalled else Network)"

definition do_transmit ::
  "'w outside \<Rightarrow> http_request \<Rightarrow> 'w net \<Rightarrow> (http_response, acq_failure) result \<times> 'w net" where
  "do_transmit out rq n =
     (let (r, w) = transmit out rq (world n)
      in (map_err transfer r, n\<lparr>world := w, sent := sent n @ [rq]\<rparr>))"

definition get_header :: "string \<Rightarrow> (string \<times> string) list \<Rightarrow> string option" where
  "get_header name hs = map_option snd (find (\<lambda>h. fst h = name) hs)"

definition hop_request :: "url \<Rightarrow> ip_addr list \<Rightarrow> nat \<Rightarrow> string option \<Rightarrow> (string \<times> string) list \<Rightarrow> http_request" where
  "hop_request u addresses port form conf =
     \<lparr>rq_url = u, rq_addresses = addresses, rq_port = port, rq_form = form,
      rq_headers =
        (case form of None \<Rightarrow> [] | Some _ \<Rightarrow> [(''content-type'', ''application/x-www-form-urlencoded'')])
        @ [(''accept-encoding'', ''identity'')] @ conf\<rparr>"

fun send_hops ::
  "url_crate \<Rightarrow> 'w outside \<Rightarrow> address_policy \<Rightarrow> hosts \<Rightarrow> (string \<times> string) list \<Rightarrow> nat list \<Rightarrow> url \<Rightarrow> string option \<Rightarrow>
   'w net \<Rightarrow> (url \<times> http_response, acq_failure) result \<times> 'w net" where
  "send_hops cr out pol hs conf [] u form n = (Err Redirect, n)"
| "send_hops cr out pol hs conf (hop # hops) u form n =
     (case client cr out pol u n of
        (Err e, n1) \<Rightarrow> (Err e, n1)
      | (Ok (addresses, port), n1) \<Rightarrow>
          (case do_transmit out (hop_request u addresses port form conf) n1 of
               (Err e, n2) \<Rightarrow> (Err e, n2)
             | (Ok response, n2) \<Rightarrow>
                 if \<not> (300 \<le> rs_status response \<and> rs_status response < 400) then (Ok (u, response), n2)
                 else
                   let form' = (if 301 \<le> rs_status response \<and> rs_status response \<le> 303 then None else form)
                   in case Option.bind (get_header ''location'' (rs_headers response)) (header_to_str out) of
                        None \<Rightarrow> (Err Redirect, n2)
                      | Some location \<Rightarrow>
                          (case follow_redirect cr u location hop pol of
                             Err e \<Rightarrow> (Err e, n2)
                           | Ok u' \<Rightarrow>
                               (case declared u' hs of
                                  Err e \<Rightarrow> (Err e, n2)
                                | Ok _ \<Rightarrow> send_hops cr out pol hs conf hops u' form' n2))))"

definition send_within ::
  "url_crate \<Rightarrow> 'w outside \<Rightarrow> address_policy \<Rightarrow> nat list \<Rightarrow> url \<Rightarrow> hosts \<Rightarrow> string option \<Rightarrow> (string \<times> string) list \<Rightarrow>
   'w net \<Rightarrow> (url \<times> http_response, acq_failure) result \<times> 'w net" where
  "send_within cr out pol hops u hs form conf n =
     (case declared u hs of Err e \<Rightarrow> (Err e, n) | Ok _ \<Rightarrow> send_hops cr out pol hs conf hops u form n)"

definition send ::
  "url_crate \<Rightarrow> 'w outside \<Rightarrow> address_policy \<Rightarrow> url \<Rightarrow> hosts \<Rightarrow> string option \<Rightarrow> (string \<times> string) list \<Rightarrow>
   'w net \<Rightarrow> (url \<times> http_response, acq_failure) result \<times> 'w net" where
  "send cr out pol = send_within cr out pol [0 ..< 6]"

subsection \<open>Text responses\<close>

record text_request =
  tr_url :: url
  tr_headers :: "(string \<times> string) list"
  tr_timeout :: "nat option"
  tr_form :: "string option"

record text_response =
  tx_status :: nat
  tx_url :: string
  tx_headers :: "(string, string) btree"
  tx_text :: string

definition max_text_bytes :: nat where
  "max_text_bytes = 512 * 1024"

fun read_body :: "nat \<Rightarrow> (string, transport_error) result list \<Rightarrow> string \<Rightarrow> (string, acq_failure) result" where
  "read_body limit [] body = Ok body"
| "read_body limit (Err e # _) body = Err (transfer e)"
| "read_body limit (Ok chunk # chunks) body =
     (if limit < length body + length chunk then Err TooLarge else read_body limit chunks (body @ chunk))"

definition join_headers :: "(string \<times> string) list \<Rightarrow> (string, string) btree" where
  "join_headers hs =
     foldl (\<lambda>m (name, value).
        let name' = to_ascii_lowercase name; v = from_utf8_lossy value
        in case bt_get m name' of
             None \<Rightarrow> bt_insert name' v m
           | Some joined \<Rightarrow> bt_insert name' (joined @ '', '' @ v) m) [] hs"

definition text_of :: "url_crate \<Rightarrow> nat \<Rightarrow> url \<times> http_response \<Rightarrow> (text_response, acq_failure) result" where
  "text_of cr limit ur =
     (let (u, response) = ur in
      if (case rs_content_length response of None \<Rightarrow> False | Some l \<Rightarrow> limit < l) then Err TooLarge
      else case read_body limit (rs_chunks response) [] of
          Err e \<Rightarrow> Err e
        | Ok body \<Rightarrow> Ok \<lparr>tx_status = rs_status response, tx_url = url_text cr u,
                          tx_headers = join_headers (rs_headers response), tx_text = from_utf8_lossy body\<rparr>)"

definition fetch_text ::
  "url_crate \<Rightarrow> 'w outside \<Rightarrow> address_policy \<Rightarrow> text_request \<Rightarrow> string list \<Rightarrow>
   'w net \<Rightarrow> (text_response, acq_failure) result \<times> 'w net" where
  "fetch_text cr out pol request hs n =
     (let work = (\<lambda>hops. send_within cr out pol hops (tr_url request) (Only hs) (tr_form request) (tr_headers request) n)
      in case Option.bind (tr_timeout request) (\<lambda>limit. deadline out limit (world n)) of
           Some k \<Rightarrow> (Err Stalled, snd (work (take k [0 ..< 6])))
         | None \<Rightarrow>
             (case work [0 ..< 6] of
                (Err e, n1) \<Rightarrow> (Err e, n1)
              | (Ok ur, n1) \<Rightarrow> (text_of cr max_text_bytes ur, n1)))"

subsection \<open>Requests of a plugin\<close>

text \<open>A JSON number is represented by its text.\<close>

datatype query_value = QString string | QNumber string | QBoolean bool

record plugin_http_request =
  ph_url :: string
  ph_query :: "(string, query_value) btree option"
  ph_headers :: "(string, string) btree option"
  ph_timeout_ms :: "nat option"
  ph_method :: "final_download_method option"
  ph_body :: "(string, string) btree option"

record plugin_http_response =
  pr_status :: nat
  pr_ok :: bool
  pr_url :: string
  pr_headers :: "(string, string) btree"
  pr_text :: string

datatype provider_error = Unreachable acq_failure | ProviderFailed string

definition max_calls :: nat where
  "max_calls = 4"

definition max_requests_per_turn :: nat where
  "max_requests_per_turn = 8"

definition max_input_bytes :: nat where
  "max_input_bytes = 4 * 1024 * 1024"

definition refused_headers :: "string list" where
  "refused_headers = [''cookie'', ''set-cookie'', ''authorization'', ''proxy-authorization'', ''host'']"

definition provider_rpc :: "provider_error \<Rightarrow> string \<times> string" where
  "provider_rpc e =
     (case e of
        Unreachable _ \<Rightarrow> (''ProviderUnreachable'', ''The provider is not answering. Check the connection and retry.'')
      | ProviderFailed _ \<Rightarrow> (''ProviderFailed'', ''The provider sent an answer Korri cannot use. Please retry later.''))"

record admitted =
  ad_url :: url
  ad_headers :: "(string \<times> string) list"
  ad_timeout :: "nat option"
  ad_form :: "string option"

primrec query_text :: "query_value \<Rightarrow> string" where
  "query_text (QString v) = v"
| "query_text (QNumber v) = v"
| "query_text (QBoolean b) = (if b then ''true'' else ''false'')"

fun merge_pairs ::
  "(string, query_value) btree \<Rightarrow> string set \<Rightarrow> (string \<times> string) list \<Rightarrow> (string \<times> string) list \<times> string set" where
  "merge_pairs q done [] = ([], done)"
| "merge_pairs q done ((key, value) # rest) =
     (case bt_get q key of
        Some put \<Rightarrow>
          if key \<in> done then merge_pairs q done rest
          else (let (ps, d) = merge_pairs q (insert key done) rest in ((key, query_text put) # ps, d))
      | None \<Rightarrow> (let (ps, d) = merge_pairs q done rest in ((key, value) # ps, d)))"

definition set_query :: "(string, query_value) btree \<Rightarrow> (string \<times> string) list \<Rightarrow> (string \<times> string) list" where
  "set_query q old =
     (let (ps, done) = merge_pairs q {} old
      in ps @ map (\<lambda>(k, v). (k, query_text v)) (filter (\<lambda>(k, _). k \<notin> done) q))"

fun admit_headers ::
  "'w outside \<Rightarrow> final_download_method option \<Rightarrow> (string \<times> string) list \<Rightarrow> ((string \<times> string) list, provider_error) result" where
  "admit_headers out method [] = Ok []"
| "admit_headers out method ((name, value) # rest) =
     (let lower = to_ascii_lowercase name in
      if lower \<in> set refused_headers \<or> \<not> header_name_ok out name \<or> \<not> header_value_ok out value
      then Err (ProviderFailed ''refused or invalid request header'')
      else if method \<noteq> None \<and> lower = ''content-type'' then
        (if \<not> eq_ignore_ascii_case value ''application/x-www-form-urlencoded''
         then Err (ProviderFailed ''a form POST needs the form content type'')
         else admit_headers out method rest)
      else case admit_headers out method rest of
          Err e \<Rightarrow> Err e
        | Ok hs \<Rightarrow> Ok ((lower, value) # hs))"

definition admit_request ::
  "url_crate \<Rightarrow> 'w outside \<Rightarrow> plugin_http_request \<Rightarrow> string list \<Rightarrow> (admitted, provider_error) result" where
  "admit_request cr out request hs =
     (case safe_url cr (ph_url request) of
        Err e \<Rightarrow> Err (ProviderFailed e)
      | Ok _ \<Rightarrow>
          (case url_parse cr (ph_url request) of
             None \<Rightarrow> Err (ProviderFailed ''invalid request URL'')
           | Some u0 \<Rightarrow>
               (case declared u0 (Only hs) of
                  Err _ \<Rightarrow> Err (ProviderFailed ''request to an undeclared host'')
                | Ok _ \<Rightarrow>
                    let u = (case ph_query request of None \<Rightarrow> u0
                           | Some q \<Rightarrow> u0\<lparr>query_pairs := set_query q (query_pairs u0)\<rparr>)
                    in case admit_headers out (ph_method request) (case ph_headers request of None \<Rightarrow> [] | Some h \<Rightarrow> h) of
                         Err e \<Rightarrow> Err e
                       | Ok headers \<Rightarrow>
                           if ph_timeout_ms request = Some 0 then Err (ProviderFailed ''timeoutMs must be positive'')
                           else case admit_form cr (ph_method request) (ph_body request) of
                               Err e \<Rightarrow> Err (ProviderFailed e)
                             | Ok form \<Rightarrow>
                                 Ok \<lparr>ad_url = u, ad_headers = headers, ad_timeout = ph_timeout_ms request, ad_form = form\<rparr>)))"

fun admit_all ::
  "url_crate \<Rightarrow> 'w outside \<Rightarrow> plugin_http_request list \<Rightarrow> string list \<Rightarrow> (admitted list, provider_error) result" where
  "admit_all cr out [] hs = Ok []"
| "admit_all cr out (r # rs) hs =
     (case admit_request cr out r hs of
        Err e \<Rightarrow> Err e
      | Ok a \<Rightarrow> (case admit_all cr out rs hs of Err e \<Rightarrow> Err e | Ok as \<Rightarrow> Ok (a # as)))"

subsection \<open>Turns\<close>

datatype 't turn = Requests "plugin_http_request list" | Result 't

definition to_plugin_response :: "text_response \<Rightarrow> plugin_http_response" where
  "to_plugin_response r =
     \<lparr>pr_status = tx_status r, pr_ok = (200 \<le> tx_status r \<and> tx_status r < 300), pr_url = tx_url r,
      pr_headers = tx_headers r, pr_text = tx_text r\<rparr>"

definition to_text_request :: "admitted \<Rightarrow> text_request" where
  "to_text_request a =
     \<lparr>tr_url = ad_url a, tr_headers = ad_headers a, tr_timeout = ad_timeout a, tr_form = ad_form a\<rparr>"

fun fetch_all ::
  "url_crate \<Rightarrow> 'w outside \<Rightarrow> address_policy \<Rightarrow> admitted list \<Rightarrow> string list \<Rightarrow> plugin_http_response list \<Rightarrow>
   'w net \<Rightarrow> (plugin_http_response list, provider_error) result \<times> 'w net" where
  "fetch_all cr out pol [] hs responses n = (Ok responses, n)"
| "fetch_all cr out pol (a # as) hs responses n =
     (case fetch_text cr out pol (to_text_request a) hs n of
        (Err e, n1) \<Rightarrow> (Err (Unreachable e), n1)
      | (Ok r, n1) \<Rightarrow> fetch_all cr out pol as hs (responses @ [to_plugin_response r]) n1)"

definition call_handler :: "'w outside \<Rightarrow> string \<Rightarrow> string \<Rightarrow> 'w net \<Rightarrow> (string, provider_error) result \<times> 'w net" where
  "call_handler out operation input n =
     (let (r, w) = call_plugin out operation input (world n)
      in (case r of None \<Rightarrow> Err (ProviderFailed ''handler call was interrupted'')
            | Some (Err e) \<Rightarrow> Err (ProviderFailed e)
            | Some (Ok output) \<Rightarrow> Ok output,
          n\<lparr>world := w, handler_inputs := handler_inputs n @ [input]\<rparr>))"

text \<open>One round of the loop: \<open>Inl\<close> returns from the operation, \<open>Inr\<close> continues with all responses so far.\<close>

definition one_turn ::
  "url_crate \<Rightarrow> 'w outside \<Rightarrow> address_policy \<Rightarrow> string list \<Rightarrow> string \<Rightarrow>
   (plugin_http_response list \<Rightarrow> (string, string) result) \<Rightarrow> (string \<Rightarrow> ('t turn, string) result) \<Rightarrow>
   nat \<Rightarrow> plugin_http_response list \<Rightarrow> 'w net \<Rightarrow>
   (('t, provider_error) result + plugin_http_response list) \<times> 'w net" where
  "one_turn cr out pol hs operation encode decode call responses n =
     (case encode responses of
        Err e \<Rightarrow> (Inl (Err (ProviderFailed e)), n)
      | Ok input \<Rightarrow>
          if max_input_bytes < length input then (Inl (Err (ProviderFailed ''handler input exceeds 4 MiB'')), n)
          else case call_handler out operation input n of
              (Err e, n1) \<Rightarrow> (Inl (Err e), n1)
            | (Ok output, n1) \<Rightarrow>
                (case decode output of
                   Err e \<Rightarrow> (Inl (Err (ProviderFailed (''invalid '' @ operation @ '' output: '' @ e))), n1)
                 | Ok (Result r) \<Rightarrow> (Inl (Ok r), n1)
                 | Ok (Requests requests) \<Rightarrow>
                     if call = max_calls
                     then (Inl (Err (ProviderFailed ''the fourth handler call must return a result'')), n1)
                     else if requests = [] \<or> max_requests_per_turn < length requests
                     then (Inl (Err (ProviderFailed ''a turn must ask for 1 to 8 requests'')), n1)
                     else case admit_all cr out requests hs of
                         Err e \<Rightarrow> (Inl (Err e), n1)
                       | Ok admitted \<Rightarrow>
                           (case fetch_all cr out pol admitted hs responses n1 of
                              (Err e, n2) \<Rightarrow> (Inl (Err e), n2)
                            | (Ok responses', n2) \<Rightarrow> (Inr responses', n2))))"

text \<open>The calls that are left are a list of their numbers; the last one is \<open>max_calls\<close>.\<close>

fun run_calls ::
  "url_crate \<Rightarrow> 'w outside \<Rightarrow> address_policy \<Rightarrow> string list \<Rightarrow> string \<Rightarrow>
   (plugin_http_response list \<Rightarrow> (string, string) result) \<Rightarrow> (string \<Rightarrow> ('t turn, string) result) \<Rightarrow>
   nat list \<Rightarrow> plugin_http_response list \<Rightarrow> 'w net \<Rightarrow> ('t, provider_error) result option \<times> 'w net" where
  "run_calls cr out pol hs operation encode decode [] responses n = (None, n)"
| "run_calls cr out pol hs operation encode decode (call # calls) responses n =
     (case one_turn cr out pol hs operation encode decode call responses n of
        (Inl r, n1) \<Rightarrow> (Some r, n1)
      | (Inr responses', n1) \<Rightarrow> run_calls cr out pol hs operation encode decode calls responses' n1)"

text \<open>\<open>None\<close> stands for reaching the end of the loop, which the source calls unreachable.\<close>

definition run_turns ::
  "url_crate \<Rightarrow> 'w outside \<Rightarrow> address_policy \<Rightarrow> string list \<Rightarrow> string \<Rightarrow>
   (plugin_http_response list \<Rightarrow> (string, string) result) \<Rightarrow> (string \<Rightarrow> ('t turn, string) result) \<Rightarrow>
   'w net \<Rightarrow> ('t, provider_error) result option \<times> 'w net" where
  "run_turns cr out pol hs operation encode decode n =
     run_calls cr out pol hs operation encode decode [1 ..< max_calls + 1] [] n"

subsection \<open>Operations of a provider\<close>

text \<open>
  The JSON side of an operation: parsing, the tag of a value, and decoding it as requests or as
  the result. The source checks the tag first.
\<close>

record ('j, 't) codec =
  json_parse :: "string \<Rightarrow> ('j, string) result"
  json_tag :: "'j \<Rightarrow> string option"
  json_requests :: "'j \<Rightarrow> (plugin_http_request list, string) result"
  json_result :: "'j \<Rightarrow> ('t, string) result"

definition decode_turn :: "('j, 't) codec \<Rightarrow> string \<Rightarrow> ('t turn, string) result" where
  "decode_turn co output =
     (case json_parse co output of
        Err e \<Rightarrow> Err e
      | Ok j \<Rightarrow>
          if json_tag co j = Some ''HttpRequests''
          then (case json_requests co j of Err e \<Rightarrow> Err e | Ok rs \<Rightarrow> Ok (Requests rs))
          else (case json_result co j of Err e \<Rightarrow> Err e | Ok r \<Rightarrow> Ok (Result r)))"

record provider_context =
  px_provider_id :: string
  px_hosts :: "string list"

definition claims_search :: string where
  "claims_search = ''claims.search''"

definition claims_details :: string where
  "claims_details = ''claims.details''"

definition artifact_resolve_download :: string where
  "artifact_resolve_download = ''artifact.resolve-download''"

text \<open>The check after the turns: the first inadmissible part refuses the whole result.\<close>

definition admit_result ::
  "('t \<Rightarrow> (unit, string) result) \<Rightarrow> ('t, provider_error) result option \<times> 'w net \<Rightarrow>
   ('t, provider_error) result option \<times> 'w net" where
  "admit_result chk r =
     (case r of
        (Some (Ok t), n) \<Rightarrow> (case chk t of Ok _ \<Rightarrow> (Some (Ok t), n) | Err e \<Rightarrow> (Some (Err (ProviderFailed e)), n))
      | _ \<Rightarrow> r)"

definition provider_search ::
  "url_crate \<Rightarrow> 'w outside \<Rightarrow> address_policy \<Rightarrow> ('j, provider_claim list) codec \<Rightarrow>
   (string \<Rightarrow> string \<Rightarrow> plugin_http_response list \<Rightarrow> (string, string) result) \<Rightarrow> provider_context \<Rightarrow> string \<Rightarrow>
   'w net \<Rightarrow> (provider_claim list, provider_error) result option \<times> 'w net" where
  "provider_search cr out pol co encode cx query n =
     admit_result (\<lambda>claims. all_checks (map (\<lambda>c. admit_claim cr c (px_provider_id cx)) claims))
       (run_turns cr out pol (px_hosts cx) claims_search (encode (px_provider_id cx) query) (decode_turn co) n)"

definition provider_details ::
  "url_crate \<Rightarrow> 'w outside \<Rightarrow> address_policy \<Rightarrow> ('j, provider_claim_details) codec \<Rightarrow>
   (string \<Rightarrow> string \<Rightarrow> plugin_http_response list \<Rightarrow> (string, string) result) \<Rightarrow> provider_context \<Rightarrow> string \<Rightarrow>
   'w net \<Rightarrow> (provider_claim_details, provider_error) result option \<times> 'w net" where
  "provider_details cr out pol co encode cx name n =
     admit_result (\<lambda>d. admit_details cr d (px_provider_id cx) name)
       (run_turns cr out pol (px_hosts cx) claims_details (encode (px_provider_id cx) name) (decode_turn co) n)"

definition declared_download :: "url_crate \<Rightarrow> string list \<Rightarrow> download_resolution \<Rightarrow> (unit, string) result" where
  "declared_download cr hs r =
     (case r of
        Final d \<Rightarrow>
          (case url_parse cr (fd_url d) of
             None \<Rightarrow> Err ''invalid download URL''
           | Some u \<Rightarrow> (case declared u (Only hs) of Ok _ \<Rightarrow> Ok () | Err _ \<Rightarrow> Err ''download from an undeclared host''))
      | _ \<Rightarrow> Ok ())"

definition resolve_download ::
  "url_crate \<Rightarrow> 'w outside \<Rightarrow> address_policy \<Rightarrow> ('j, download_resolution) codec \<Rightarrow>
   (string \<Rightarrow> string \<Rightarrow> string option \<Rightarrow> plugin_http_response list \<Rightarrow> (string, string) result) \<Rightarrow> provider_context \<Rightarrow>
   string \<Rightarrow> string option \<Rightarrow> 'w net \<Rightarrow> (download_resolution, provider_error) result option \<times> 'w net" where
  "resolve_download cr out pol co encode cx candidate file n =
     admit_result (declared_download cr (px_hosts cx))
       (admit_result (\<lambda>r. admit_resolution cr r (px_provider_id cx))
         (run_turns cr out pol (px_hosts cx) artifact_resolve_download
           (encode (px_provider_id cx) candidate file) (decode_turn co) n))"

subsection \<open>Where requests go\<close>

definition request_ok :: "address_policy \<Rightarrow> hosts \<Rightarrow> http_request \<Rightarrow> bool" where
  "request_ok pol hs rq \<longleftrightarrow>
     is_ok (validate (rq_url rq) pol) \<and> is_ok (declared (rq_url rq) hs) \<and>
     rq_addresses rq \<noteq> [] \<and> list_all (allows pol) (rq_addresses rq)"

text \<open>What a later request of one transfer may be after an earlier one.\<close>

definition follows :: "http_request \<Rightarrow> http_request \<Rightarrow> bool" where
  "follows p q \<longleftrightarrow>
     (if scheme (rq_url p) = ''https'' then scheme (rq_url q) = ''https'' else True) \<and>
     (rq_form q = rq_form p \<or> rq_form q = None)"

definition sent_by ::
  "address_policy \<Rightarrow> hosts \<Rightarrow> nat \<Rightarrow> (string \<times> string) list \<Rightarrow> 'w net \<Rightarrow> 'w net \<Rightarrow> http_request list \<Rightarrow> bool" where
  "sent_by pol hs bound conf n n' new \<longleftrightarrow>
     sent n' = sent n @ new \<and> handler_inputs n' = handler_inputs n \<and> length new \<le> bound \<and>
     list_all (request_ok pol hs) new \<and> sorted_wrt follows new \<and>
     list_all (\<lambda>rq. set (rq_headers rq) \<subseteq>
        {(''content-type'', ''application/x-www-form-urlencoded''), (''accept-encoding'', ''identity'')} \<union> set conf) new"

lemma client_net: "sent (snd (client cr out pol u n)) = sent n \<and> handler_inputs (snd (client cr out pol u n)) = handler_inputs n"
  by (auto simp: client_def Let_def split: result.splits option.splits prod.splits)

lemma client_OkD:
  assumes "client cr out pol u n = (Ok (addresses, port), n1)"
  shows "is_ok (validate u pol)" "addresses \<noteq> []" "list_all (allows pol) addresses"
    "sent n1 = sent n" "handler_inputs n1 = handler_inputs n"
  using assms client_net [of cr out pol u n]
  by (auto simp: client_def Let_def split: result.splits option.splits prod.splits if_splits)

lemma follow_redirect_OkD:
  "follow_redirect cr u location hop pol = Ok u' \<Longrightarrow> scheme u = ''https'' \<Longrightarrow> scheme u' = ''https''"
  by (auto simp: follow_redirect_def split: if_splits option.splits result.splits)

lemma do_transmit_net:
  "sent (snd (do_transmit out rq n)) = sent n @ [rq] \<and> handler_inputs (snd (do_transmit out rq n)) = handler_inputs n"
  by (simp add: do_transmit_def Let_def split: prod.splits)

lemma sent_by_Nil: "sent n' = sent n \<Longrightarrow> handler_inputs n' = handler_inputs n \<Longrightarrow> sent_by pol hs b conf n n' []"
  by (simp add: sent_by_def)

text \<open>
  One hop in front of the rest: the new request is admitted, and the rest of the transfer only
  sends requests that may come after it.
\<close>

lemma sent_by_Cons:
  assumes "sent n2 = sent n @ [rq]" and "handler_inputs n2 = handler_inputs n" and "request_ok pol hs rq"
    and "set (rq_headers rq) \<subseteq>
      {(''content-type'', ''application/x-www-form-urlencoded''), (''accept-encoding'', ''identity'')} \<union> set conf"
    and "sent_by pol hs b conf n2 n' new" and "\<And>q. q \<in> set new \<Longrightarrow> follows rq q"
  shows "sent_by pol hs (Suc b) conf n n' (rq # new)"
  using assms by (simp add: sent_by_def)

lemma send_hops_next:
  assumes "client cr out pol u n = (Ok (addresses, port), n1)"
    and "do_transmit out (hop_request u addresses port form conf) n1 = (r2, n2)"
    and "snd (send_hops cr out pol hs conf (hop # hops) u form n) \<noteq> n2"
  shows "\<exists>u' form'. send_hops cr out pol hs conf (hop # hops) u form n = send_hops cr out pol hs conf hops u' form' n2
     \<and> is_ok (declared u' hs) \<and> (scheme u = ''https'' \<longrightarrow> scheme u' = ''https'') \<and> (form' = form \<or> form' = None)"
proof -
  from assms obtain response where r2: "r2 = Ok response" by (cases r2) simp_all
  note step = assms(1,2) [unfolded r2]
  have redirected: "300 \<le> rs_status response" "rs_status response < 400"
    using assms(3) step by (auto split: if_splits)
  obtain location where
    loc: "Option.bind (get_header ''location'' (rs_headers response)) (header_to_str out) = Some location"
    using assms(3) step redirected
    by (cases "Option.bind (get_header ''location'' (rs_headers response)) (header_to_str out)") simp_all
  obtain u' where u': "follow_redirect cr u location hop pol = Ok u'"
    using assms(3) step redirected loc by (cases "follow_redirect cr u location hop pol") simp_all
  have d: "declared u' hs = Ok ()"
    using assms(3) step redirected loc u' by (cases "declared u' hs") simp_all
  define form' where "form' = (if 301 \<le> rs_status response \<and> rs_status response \<le> 303 then None else form)"
  have "send_hops cr out pol hs conf (hop # hops) u form n = send_hops cr out pol hs conf hops u' form' n2"
    using step redirected loc u' d by (simp add: Let_def form'_def)
  moreover have "is_ok (declared u' hs)" and "form' = form \<or> form' = None" by (simp_all add: d form'_def)
  ultimately show ?thesis using follow_redirect_OkD [OF u'] by blast
qed

lemma send_hops_sent:
  assumes "is_ok (declared u hs)"
  shows "\<exists>new. sent_by pol hs (length hops) conf n (snd (send_hops cr out pol hs conf hops u form n)) new \<and>
    (\<forall>q \<in> set new. (scheme u = ''https'' \<longrightarrow> scheme (rq_url q) = ''https'') \<and> (rq_form q = form \<or> rq_form q = None))"
    (is "\<exists>new. ?goal hops u form n new")
  using assms
proof (induction hops arbitrary: u form n)
  case Nil
  then show ?case by (intro exI [of _ "[]"]) (simp add: sent_by_def)
next
  case (Cons hop hops)
  obtain r n1 where c: "client cr out pol u n = (r, n1)" by (cases "client cr out pol u n")
  then have n1: "sent n1 = sent n" "handler_inputs n1 = handler_inputs n" using client_net [of cr out pol u n] by simp_all
  show ?case
  proof (cases r)
    case (Err e)
    with c n1 show ?thesis by (intro exI [of _ "[]"]) (simp add: sent_by_Nil)
  next
    case (Ok ap)
    obtain addresses port where ap: "ap = (addresses, port)" by (cases ap)
    define rq where "rq = hop_request u addresses port form conf"
    obtain r2 n2 where t: "do_transmit out rq n1 = (r2, n2)" by (cases "do_transmit out rq n1")
    have n2: "sent n2 = sent n @ [rq]" "handler_inputs n2 = handler_inputs n"
      using do_transmit_net [of out rq n1] t n1 by simp_all
    have ok: "request_ok pol hs rq"
      using client_OkD [of cr out pol u n addresses port n1] c Ok ap Cons.prems
      by (simp add: request_ok_def rq_def hop_request_def)
    have hd: "set (rq_headers rq) \<subseteq>
      {(''content-type'', ''application/x-www-form-urlencoded''), (''accept-encoding'', ''identity'')} \<union> set conf"
      by (auto simp: rq_def hop_request_def split: option.splits)
    have rq: "rq_url rq = u" "rq_form rq = form" by (simp_all add: rq_def hop_request_def)
    show ?thesis
    proof (cases "snd (send_hops cr out pol hs conf (hop # hops) u form n) = n2")
      case True
      have "sent_by pol hs (length (hop # hops)) conf n n2 [rq]"
        using n2 ok hd by (simp add: sent_by_def)
      with True rq show ?thesis by (intro exI [of _ "[rq]"]) simp
    next
      case False
      from send_hops_next [OF c [unfolded Ok ap] t [unfolded rq_def] this] obtain u' form' where
        next_hop: "send_hops cr out pol hs conf (hop # hops) u form n = send_hops cr out pol hs conf hops u' form' n2"
        and u': "is_ok (declared u' hs)" "scheme u = ''https'' \<Longrightarrow> scheme u' = ''https''" "form' = form \<or> form' = None"
        by metis
      from Cons.IH [OF u'(1), of n2 form'] obtain new where new: "?goal hops u' form' n2 new" by blast
      then have "sent_by pol hs (Suc (length hops)) conf n (snd (send_hops cr out pol hs conf hops u' form' n2)) (rq # new)"
        using u'(2,3) rq by (intro sent_by_Cons [OF n2 ok hd]) (auto simp: follows_def)
      with next_hop new u'(2,3) rq show ?thesis by (intro exI [of _ "rq # new"]) auto
    qed
  qed
qed

lemma send_within_sent:
  "\<exists>new. sent_by pol hs (length hops) conf n (snd (send_within cr out pol hops u hs form conf n)) new"
proof (cases "declared u hs")
  case (Ok _)
  with send_hops_sent [of u hs pol hops conf n cr out form] show ?thesis by (auto simp: send_within_def)
next
  case (Err _)
  then show ?thesis by (intro exI [of _ "[]"]) (simp add: send_within_def sent_by_Nil)
qed

text \<open>
  C17. A transfer stays where it may go. Whatever the servers answer and whatever names resolve to,
  a transfer sends at most six requests. Each goes to a URL that passes the URL policy and whose
  host is declared, over a connection pinned to addresses that are all public; a redirect never
  leaves HTTPS once it is used, and the form of a POST is either repeated unchanged or dropped for
  the rest of the transfer.
\<close>

theorem transfer_is_confined:
  "\<exists>new. sent (snd (send cr out pol u hs form conf n)) = sent n @ new \<and> length new \<le> 6 \<and>
     list_all (request_ok pol hs) new \<and> sorted_wrt follows new"
  using send_within_sent [of pol hs "[0 ..< 6]" conf n cr out u form]
  by (auto simp: sent_by_def send_def)

subsection \<open>Bounds of an operation\<close>

definition clean_headers :: "(string \<times> string) list \<Rightarrow> bool" where
  "clean_headers hs \<longleftrightarrow> list_all (\<lambda>h. fst h \<notin> set refused_headers) hs"

lemma clean_headers_Nil [simp]: "clean_headers []"
  by (simp add: clean_headers_def)

definition unprivileged :: "http_request \<Rightarrow> bool" where
  "unprivileged rq \<longleftrightarrow> clean_headers (rq_headers rq)"

definition confined :: "address_policy \<Rightarrow> string list \<Rightarrow> nat \<Rightarrow> 'w net \<Rightarrow> 'w net \<Rightarrow> bool" where
  "confined pol hs bound n n' \<longleftrightarrow>
     (\<exists>new. sent n' = sent n @ new \<and> length new \<le> bound \<and>
        list_all (\<lambda>rq. request_ok pol (Only hs) rq \<and> unprivileged rq) new)"

lemma confined_same: "sent n' = sent n \<Longrightarrow> confined pol hs b n n'"
  unfolding confined_def by (intro exI [of _ "[]"]) simp

lemma confined_trans:
  assumes "confined pol hs a n n1" and "confined pol hs b n1 n2" and "a + b \<le> c"
  shows "confined pol hs c n n2"
proof -
  obtain new1 new2 where "sent n1 = sent n @ new1" "sent n2 = sent n1 @ new2"
    "length new1 \<le> a" "length new2 \<le> b"
    "list_all (\<lambda>rq. request_ok pol (Only hs) rq \<and> unprivileged rq) (new1 @ new2)"
    using assms(1,2) by (auto simp: confined_def)
  with assms(3) show ?thesis unfolding confined_def by (intro exI [of _ "new1 @ new2"]) simp
qed

lemma confined_mono: "confined pol hs a n n' \<Longrightarrow> a \<le> b \<Longrightarrow> confined pol hs b n n'"
  using order_trans by (auto simp: confined_def)

lemma fetch_text_confined:
  assumes "clean_headers (tr_headers request)"
  shows "confined pol hs 6 n (snd (fetch_text cr out pol request hs n))
    \<and> handler_inputs (snd (fetch_text cr out pol request hs n)) = handler_inputs n"
proof -
  define work where "work hops = send_within cr out pol hops (tr_url request) (Only hs) (tr_form request)
      (tr_headers request) n" for hops
  have base: "confined pol hs 6 n (snd (work hops)) \<and> handler_inputs (snd (work hops)) = handler_inputs n"
    if "length hops \<le> 6" for hops
  proof -
    obtain new where new: "sent_by pol (Only hs) (length hops) (tr_headers request) n (snd (work hops)) new"
      using send_within_sent unfolding work_def by blast
    have "unprivileged rq" if "rq \<in> set new" for rq
    proof -
      from new that have "set (rq_headers rq) \<subseteq> {(''content-type'', ''application/x-www-form-urlencoded''),
          (''accept-encoding'', ''identity'')} \<union> set (tr_headers request)" by (simp add: sent_by_def list_all_iff)
      with assms show ?thesis
        by (fastforce simp: unprivileged_def clean_headers_def list_all_iff refused_headers_def)
    qed
    with new that show ?thesis unfolding confined_def sent_by_def
      by (intro conjI exI [of _ new]) (auto simp: list_all_iff)
  qed
  have "\<exists>hops. length hops \<le> 6 \<and> snd (fetch_text cr out pol request hs n) = snd (work hops)"
  proof (cases "Option.bind (tr_timeout request) (\<lambda>limit. deadline out limit (world n))")
    case None
    have "snd (fetch_text cr out pol request hs n) = snd (work [0 ..< 6])"
      by (simp add: fetch_text_def None work_def Let_def split: prod.splits result.splits)
    then show ?thesis by (intro exI [of _ "[0 ..< 6]"]) simp
  next
    case (Some k)
    then show ?thesis by (intro exI [of _ "take k [0 ..< 6]"]) (simp add: fetch_text_def work_def Let_def)
  qed
  with base show ?thesis by metis
qed

lemma admit_headers_refused:
  "admit_headers out method hs = Ok hs' \<Longrightarrow> clean_headers hs'"
  by (induction out "method" hs arbitrary: hs' rule: admit_headers.induct)
    (auto simp: clean_headers_def Let_def split: if_splits result.splits)

lemma admit_request_OkD:
  "admit_request cr out request hs = Ok a \<Longrightarrow> clean_headers (ad_headers a)"
  unfolding admit_request_def
  by (auto simp: Let_def split: if_splits result.splits option.splits dest!: admit_headers_refused)

lemma admit_all_OkD:
  "admit_all cr out rs hs = Ok as \<Longrightarrow>
   length as = length rs \<and> list_all (\<lambda>a. clean_headers (ad_headers a)) as"
  by (induction rs arbitrary: as) (auto split: result.splits dest: admit_request_OkD)

lemma fetch_all_confined:
  "list_all (\<lambda>a. clean_headers (ad_headers a)) as \<Longrightarrow>
   confined pol hs (6 * length as) n (snd (fetch_all cr out pol as hs rs n)) \<and>
   handler_inputs (snd (fetch_all cr out pol as hs rs n)) = handler_inputs n"
proof (induction as arbitrary: rs n)
  case Nil
  then show ?case by (simp add: confined_same)
next
  case (Cons a as)
  obtain r n1 where f: "fetch_text cr out pol (to_text_request a) hs n = (r, n1)"
    by (cases "fetch_text cr out pol (to_text_request a) hs n")
  from Cons.prems have one: "confined pol hs 6 n n1" "handler_inputs n1 = handler_inputs n"
    using fetch_text_confined [of "to_text_request a" pol hs n cr out] f by (simp_all add: to_text_request_def)
  show ?case
  proof (cases r)
    case (Err e)
    with f one show ?thesis by (simp add: confined_mono [OF one(1)])
  next
    case (Ok t)
    from Cons.IH Cons.prems have "confined pol hs (6 * length as) n1
        (snd (fetch_all cr out pol as hs (rs @ [to_plugin_response t]) n1))" by simp
    from confined_trans [OF one(1) this, of "6 * length (a # as)"] Cons f Ok one show ?thesis by simp
  qed
qed

lemma call_handler_net:
  "sent (snd (call_handler out operation input n)) = sent n \<and>
   handler_inputs (snd (call_handler out operation input n)) = handler_inputs n @ [input]"
  by (simp add: call_handler_def Let_def split: prod.splits)

definition called :: "nat \<Rightarrow> 'w net \<Rightarrow> 'w net \<Rightarrow> bool" where
  "called bound n n' \<longleftrightarrow>
     (\<exists>inputs. handler_inputs n' = handler_inputs n @ inputs \<and> length inputs \<le> bound \<and>
        list_all (\<lambda>i. length i \<le> max_input_bytes) inputs)"

lemma called_same: "handler_inputs n' = handler_inputs n \<Longrightarrow> called b n n'"
  unfolding called_def by (intro exI [of _ "[]"]) simp

lemma called_Cons:
  assumes "handler_inputs n1 = handler_inputs n @ [input]" and "length input \<le> max_input_bytes" and "called b n1 n2"
  shows "called (Suc b) n n2"
proof -
  obtain inputs where "handler_inputs n2 = handler_inputs n1 @ inputs" "length inputs \<le> b"
    "list_all (\<lambda>i. length i \<le> max_input_bytes) inputs" using assms(3) by (auto simp: called_def)
  with assms(1,2) show ?thesis unfolding called_def by (intro exI [of _ "input # inputs"]) simp
qed

lemma called_trans:
  assumes "called a n n1" and "called b n1 n2"
  shows "called (a + b) n n2"
proof -
  obtain i1 i2 where "handler_inputs n1 = handler_inputs n @ i1" "handler_inputs n2 = handler_inputs n1 @ i2"
    "length i1 \<le> a" "length i2 \<le> b" "list_all (\<lambda>i. length i \<le> max_input_bytes) (i1 @ i2)"
    using assms by (auto simp: called_def)
  then show ?thesis unfolding called_def by (intro exI [of _ "i1 @ i2"]) simp
qed

text \<open>How the state changes in one round: nothing, the call of the plugin, or the call and the fetches of a turn.\<close>

lemma one_turn_net:
  assumes "one_turn cr out pol hs operation encode decode call rs n = (r, n')"
  obtains "n' = n" and "isl r"
  | input where "length input \<le> max_input_bytes" and "n' = snd (call_handler out operation input n)" and "isl r"
  | input requests admitted where "length input \<le> max_input_bytes" and "call \<noteq> max_calls"
      and "length requests \<le> max_requests_per_turn" and "admit_all cr out requests hs = Ok admitted"
      and "n' = snd (fetch_all cr out pol admitted hs rs (snd (call_handler out operation input n)))"
proof (cases "\<exists>input. encode rs = Ok input \<and> length input \<le> max_input_bytes")
  case False
  then show thesis using assms that(1) by (auto simp: one_turn_def split: result.splits)
next
  case True
  then obtain input where input: "encode rs = Ok input" "length input \<le> max_input_bytes" by blast
  obtain h n1 where h: "call_handler out operation input n = (h, n1)" by (cases "call_handler out operation input n")
  show thesis
  proof (cases "\<exists>output requests admitted. h = Ok output \<and> decode output = Ok (Requests requests) \<and>
      call \<noteq> max_calls \<and> requests \<noteq> [] \<and> length requests \<le> max_requests_per_turn \<and>
      admit_all cr out requests hs = Ok admitted")
    case False
    with assms input h have "n' = n1 \<and> isl r"
      by (auto simp: one_turn_def not_less split: result.splits turn.splits if_splits)
    with that(2) [OF input(2)] h show thesis by simp
  next
    case True
    then obtain answer requests admitted where t: "h = Ok answer" "decode answer = Ok (Requests requests)"
      "call \<noteq> max_calls" "requests \<noteq> []" "length requests \<le> max_requests_per_turn"
      "admit_all cr out requests hs = Ok admitted" by blast
    with assms input h have "n' = snd (fetch_all cr out pol admitted hs rs n1)"
      by (auto simp: one_turn_def split: result.splits prod.splits)
    with that(3) [OF input(2) t(3) t(5,6)] h show thesis by simp
  qed
qed

lemma one_turn_bounded:
  assumes "one_turn cr out pol hs operation encode decode call rs n = (r, n')"
  shows "called 1 n n' \<and> confined pol hs (if call = max_calls then 0 else 48) n n' \<and> (call = max_calls \<longrightarrow> isl r)"
proof (rule one_turn_net [OF assms])
  assume "n' = n" and "isl r"
  then show ?thesis by (simp add: called_same confined_same)
next
  fix input
  assume i: "length input \<le> max_input_bytes" and n': "n' = snd (call_handler out operation input n)" and "isl r"
  then show ?thesis
    using called_Cons [OF _ i called_same [OF refl], of n' n 0] call_handler_net [of out operation input n]
    by (simp add: confined_same)
next
  fix input requests admitted
  let ?n1 = "snd (call_handler out operation input n)"
  assume i: "length input \<le> max_input_bytes" and c: "call \<noteq> max_calls"
    and len: "length requests \<le> max_requests_per_turn" and adm: "admit_all cr out requests hs = Ok admitted"
    and n': "n' = snd (fetch_all cr out pol admitted hs rs ?n1)"
  have f: "confined pol hs (6 * length admitted) ?n1 n'" "handler_inputs n' = handler_inputs ?n1"
    unfolding n' using fetch_all_confined [of admitted pol hs ?n1 cr out rs] admit_all_OkD [OF adm] by simp_all
  have "6 * length admitted \<le> 48" using admit_all_OkD [OF adm] len by (simp add: max_requests_per_turn_def)
  then have "confined pol hs 48 n n'"
    using confined_trans [OF confined_same f(1), of n 0 48] call_handler_net [of out operation input n] by simp
  moreover have "called 1 n n'"
    using called_Cons [OF _ i called_same [OF refl], of n' n 0] f(2) call_handler_net [of out operation input n] by simp
  ultimately show ?thesis using c by simp
qed

lemma run_calls_bounded:
  assumes "calls \<noteq> []" and "last calls = max_calls" and "distinct calls"
  shows "case run_calls cr out pol hs operation encode decode calls rs n of (r, n') \<Rightarrow>
     r \<noteq> None \<and> confined pol hs (48 * (length calls - 1)) n n' \<and> called (length calls) n n'"
  using assms
proof (induction calls arbitrary: rs n)
  case (Cons call calls)
  obtain r n1 where t: "one_turn cr out pol hs operation encode decode call rs n = (r, n1)"
    by (cases "one_turn cr out pol hs operation encode decode call rs n")
  from one_turn_bounded [OF t] have c: "called 1 n n1" and f: "confined pol hs (if call = max_calls then 0 else 48) n n1"
    and last: "call = max_calls \<Longrightarrow> isl r" by blast+
  have only: "call = max_calls \<longleftrightarrow> calls = []" using Cons.prems by (metis distinct.simps(2) last.simps last_in_set)
  show ?case
  proof (cases r)
    case (Inl e)
    have "called (length (call # calls)) n n1" using called_trans [OF c called_same [OF refl, of "length calls"]] by simp
    moreover have "confined pol hs (48 * (length (call # calls) - 1)) n n1"
      using confined_mono [OF f] only by (cases calls) simp_all
    ultimately show ?thesis using t Inl by simp
  next
    case (Inr rs')
    with last have "call \<noteq> max_calls" by auto
    with only Cons.prems have calls: "calls \<noteq> []" "last calls = max_calls" "distinct calls" by auto
    obtain res n2 where run: "run_calls cr out pol hs operation encode decode calls rs' n1 = (res, n2)"
      by (cases "run_calls cr out pol hs operation encode decode calls rs' n1")
    with Cons.IH [OF calls, of n1 rs'] have rest: "res \<noteq> None" "confined pol hs (48 * (length calls - 1)) n1 n2"
      "called (length calls) n1 n2" by simp_all
    have "48 + 48 * (length calls - 1) \<le> 48 * (length (call # calls) - 1)"
      using calls(1) by (cases calls) simp_all
    with confined_trans [OF _ rest(2)] f \<open>call \<noteq> max_calls\<close>
    have "confined pol hs (48 * (length (call # calls) - 1)) n n2" by auto
    then show ?thesis using t Inr run rest(1) called_trans [OF c rest(3)] by simp
  qed
qed simp

text \<open>
  C18. An operation of a provider ends and is bounded, whatever the plugin and the servers do: it
  returns a result or an error and never falls out of its loop, it calls the plugin at most four
  times, each time with at most 4 MiB of input, and it sends at most 144 requests, every one of
  them to a declared host at public addresses and without a cookie, credentials or another host
  name in its headers.
\<close>

theorem provider_operation_bounded:
  "case run_turns cr out pol hs operation encode decode n of (r, n') \<Rightarrow>
     r \<noteq> None \<and>
     (\<exists>inputs. handler_inputs n' = handler_inputs n @ inputs \<and> length inputs \<le> 4 \<and>
        list_all (\<lambda>i. length i \<le> max_input_bytes) inputs) \<and>
     (\<exists>new. sent n' = sent n @ new \<and> length new \<le> 144 \<and>
        list_all (\<lambda>rq. request_ok pol (Only hs) rq \<and> unprivileged rq) new)"
proof -
  have calls: "[1 ..< max_calls + 1] \<noteq> []" "last [1 ..< max_calls + 1] = max_calls"
    "48 * (length [1 ..< max_calls + 1] - 1) = 144" "length [1 ..< max_calls + 1] = 4" by (simp_all add: max_calls_def)
  have "case run_turns cr out pol hs operation encode decode n of (r, n') \<Rightarrow>
     r \<noteq> None \<and> confined pol hs 144 n n' \<and> called 4 n n'"
    unfolding run_turns_def calls(3,4) [symmetric] by (rule run_calls_bounded [OF calls(1,2) distinct_upt])
  then show ?thesis by (simp add: confined_def called_def split: prod.splits)
qed

subsection \<open>Results and queries\<close>

lemma safe_url_OkD:
  assumes "safe_url cr value = Ok ()"
  obtains u where "url_parse cr value = Some u" "scheme u \<in> {''http'', ''https''}" "username u = ''''"
    "password u = None" "url_host u \<noteq> None"
  using assms by (auto simp: safe_url_def split: option.splits if_splits)

lemma admit_result_OkD:
  "fst (admit_result chk r) = Some (Ok t) \<Longrightarrow> chk t = Ok () \<and> fst r = Some (Ok t)"
  by (auto simp: admit_result_def split: prod.splits option.splits result.splits)

definition admitted_download :: "url_crate \<Rightarrow> provider_context \<Rightarrow> final_download \<Rightarrow> bool" where
  "admitted_download cr cx d \<longleftrightarrow>
     fd_provider_id d = px_provider_id cx \<and>
     (\<exists>u h. url_parse cr (fd_url d) = Some u \<and> scheme u \<in> {''http'', ''https''} \<and> username u = '''' \<and>
        password u = None \<and> url_host u = Some (Domain h) \<and> h \<in> set (px_hosts cx)) \<and>
     (case fd_filename d of None \<Rightarrow> True
      | Some f \<Rightarrow> f \<notin> {'''', ''.'', ''..''} \<and> set f \<inter> {CHR ''/'', CHR 0x5C, CHR 0x00} = {} \<and> \<not> has_control f) \<and>
     (case download_form cr d of None \<Rightarrow> fd_body d = None | Some b \<Rightarrow> chars_count b \<le> 8192)"

lemma declared_OkD: "declared u (Only hs) = Ok () \<Longrightarrow> \<exists>h. url_host u = Some (Domain h) \<and> h \<in> set hs"
  by (auto split: option.splits url_host.splits if_splits)

lemma final_admitted:
  assumes "admit_resolution cr (Final d) (px_provider_id cx) = Ok ()"
    and "declared_download cr (px_hosts cx) (Final d) = Ok ()"
  shows "admitted_download cr cx d"
proof -
  from assms(1) have parts: "fd_provider_id d = px_provider_id cx" "safe_url cr (fd_url d) = Ok ()"
      "check_optional (fd_filename d) (\<lambda>v. check (safe_file_name v \<and> \<not> has_control v) ''download file name is unsafe'') = Ok ()"
      "form_check cr (fd_method d) (fd_body d) = Ok ()"
    by (simp_all add: check_provider_def)
  obtain u where u: "url_parse cr (fd_url d) = Some u" "scheme u \<in> {''http'', ''https''}" "username u = ''''"
    "password u = None" using safe_url_OkD [OF parts(2)] by blast
  from assms(2) u(1) have "declared u (Only (px_hosts cx)) = Ok ()"
    by (simp add: declared_download_def del: declared.simps split: result.splits)
  from declared_OkD [OF this] u have url: "\<exists>u h. url_parse cr (fd_url d) = Some u \<and> scheme u \<in> {''http'', ''https''} \<and>
      username u = '''' \<and> password u = None \<and> url_host u = Some (Domain h) \<and> h \<in> set (px_hosts cx)" by blast
  have "case fd_filename d of None \<Rightarrow> True
      | Some f \<Rightarrow> f \<notin> {'''', ''.'', ''..''} \<and> set f \<inter> {CHR ''/'', CHR 0x5C, CHR 0x00} = {} \<and> \<not> has_control f"
    using parts(3) by (auto simp: check_optional_Ok safe_file_name_def list_ex_iff split: option.splits)
  moreover have "case download_form cr d of None \<Rightarrow> fd_body d = None | Some b \<Rightarrow> chars_count b \<le> 8192"
    using parts(4)
    by (auto simp: form_check_def admit_form_def download_form_def encode_form_def check_optional_def safe_text_def
        safe_text_chars_def check_def split: option.splits result.splits if_splits)
  ultimately show ?thesis using parts(1) url unfolding admitted_download_def by blast
qed

text \<open>
  What a provider operation returns is admitted. Every claim of a search names the provider that
  was asked, has an id of 1 to 2048 characters and a web address without credentials. A final
  download names the provider that was asked, lies on one of its declared hosts under a web address
  without credentials, its file name, if it has one, is a single path component without control
  characters, and it has a form of bounded size exactly when it is a POST.
\<close>

theorem provider_results_admitted:
  "(case fst (provider_search cr out pol co encode cx query n) of
      Some (Ok claims) \<Rightarrow> list_all (\<lambda>c. pc_provider_id c = px_provider_id cx \<and>
         chars_count (pc_id c) \<in> {1 .. 2048} \<and>
         (\<exists>u. url_parse cr (pc_url c) = Some u \<and> scheme u \<in> {''http'', ''https''} \<and> username u = '''' \<and> password u = None))
        claims
    | _ \<Rightarrow> True) \<and>
   (case fst (resolve_download cr out pol co' encode' cx candidate file n) of
      Some (Ok (Final d)) \<Rightarrow> admitted_download cr cx d
    | _ \<Rightarrow> True)"
proof
  have claim: "pc_provider_id c = px_provider_id cx \<and> chars_count (pc_id c) \<in> {1 .. 2048} \<and>
      (\<exists>u. url_parse cr (pc_url c) = Some u \<and> scheme u \<in> {''http'', ''https''} \<and> username u = '''' \<and> password u = None)"
    if "admit_claim cr c (px_provider_id cx) = Ok ()" for c
  proof -
    from that have "safe_url cr (pc_url c) = Ok ()" by (simp add: admit_claim_def)
    from safe_url_OkD [OF this] have "\<exists>u. url_parse cr (pc_url c) = Some u \<and> scheme u \<in> {''http'', ''https''} \<and>
        username u = '''' \<and> password u = None" by blast
    with that show ?thesis
      by (auto simp: admit_claim_def check_provider_def claim_id_def claim_id_chars_def)
  qed
  show "case fst (provider_search cr out pol co encode cx query n) of
      Some (Ok claims) \<Rightarrow> list_all (\<lambda>c. pc_provider_id c = px_provider_id cx \<and>
         chars_count (pc_id c) \<in> {1 .. 2048} \<and>
         (\<exists>u. url_parse cr (pc_url c) = Some u \<and> scheme u \<in> {''http'', ''https''} \<and> username u = '''' \<and> password u = None))
        claims
    | _ \<Rightarrow> True"
    using claim by (auto simp: provider_search_def list_all_iff split: option.splits result.splits dest!: admit_result_OkD)
  show "case fst (resolve_download cr out pol co' encode' cx candidate file n) of
      Some (Ok (Final d)) \<Rightarrow> admitted_download cr cx d
    | _ \<Rightarrow> True"
    unfolding resolve_download_def
    by (auto split: option.splits result.splits download_resolution.splits dest!: admit_result_OkD
        intro!: final_admitted simp del: admit_resolution.simps)
qed

lemma merge_pairs_spec:
  "snd (merge_pairs q done old) = done \<union> {k \<in> set (bt_keys old). bt_get q k \<noteq> None}"
  "filter (\<lambda>p. fst p = k) (fst (merge_pairs q done old)) =
     (case bt_get q k of
        None \<Rightarrow> filter (\<lambda>p. fst p = k) old
      | Some v \<Rightarrow> if k \<notin> done \<and> k \<in> set (bt_keys old) then [(k, query_text v)] else [])"
  "filter (\<lambda>p. bt_get q (fst p) = None) (fst (merge_pairs q done old)) = filter (\<lambda>p. bt_get q (fst p) = None) old"
  by (induction q "done" old rule: merge_pairs.induct) (auto split: option.splits prod.splits)

lemma filter_key_distinct:
  "bt_wf q \<Longrightarrow> filter (\<lambda>p. fst p = k) q = (case bt_get q k of None \<Rightarrow> [] | Some v \<Rightarrow> [(k, v)])"
proof (induction q)
  case (Cons p q)
  obtain k' v where p: "p = (k', v)" by (cases p)
  from Cons.prems have wf: "bt_wf q" and "bt_get q k' = None" by (auto simp: p bt_wf_Cons bt_get_None_iff)
  with Cons.IH [OF wf] show ?case by (auto simp: p bt_get_def)
qed simp

lemma filter_added:
  "filter (\<lambda>p. fst p = k) (map (\<lambda>(k, v). (k, f v)) (filter (\<lambda>(k, _). k \<notin> d) q)) =
     (if k \<in> d then [] else map (\<lambda>(k, v). (k, f v)) (filter (\<lambda>p. fst p = k) q))"
  by (induction q) auto

text \<open>
  The query of a request. A parameter that the plugin sets occurs once, with the value the
  plugin gave, in place of all earlier ones of that name; every other parameter of the URL stays
  as it was, in its order.
\<close>

theorem query_parameters_set:
  assumes "bt_wf q"
  shows "filter (\<lambda>p. fst p = k) (set_query q old) =
      (case bt_get q k of None \<Rightarrow> filter (\<lambda>p. fst p = k) old | Some v \<Rightarrow> [(k, query_text v)]) \<and>
    filter (\<lambda>p. bt_get q (fst p) = None) (set_query q old) = filter (\<lambda>p. bt_get q (fst p) = None) old"
proof
  define d where "d = snd (merge_pairs q {} old)"
  define added where "added = map (\<lambda>(k, v). (k, query_text v)) (filter (\<lambda>(k, _). k \<notin> d) q)"
  have split: "set_query q old = fst (merge_pairs q {} old) @ added"
    by (simp add: set_query_def added_def d_def Let_def split: prod.splits)
  have "filter (\<lambda>p. fst p = k) added =
      (if k \<in> d then [] else map (\<lambda>(k, v). (k, query_text v)) (filter (\<lambda>p. fst p = k) q))"
    unfolding added_def by (rule filter_added)
  then have add: "filter (\<lambda>p. fst p = k) added =
      (case bt_get q k of None \<Rightarrow> [] | Some v \<Rightarrow> if k \<in> d then [] else [(k, query_text v)])"
    unfolding filter_key_distinct [OF assms] by (auto split: option.splits)
  have d: "k \<in> d \<longleftrightarrow> k \<in> set (bt_keys old) \<and> bt_get q k \<noteq> None" by (simp add: d_def merge_pairs_spec)
  show "filter (\<lambda>p. fst p = k) (set_query q old) =
      (case bt_get q k of None \<Rightarrow> filter (\<lambda>p. fst p = k) old | Some v \<Rightarrow> [(k, query_text v)])"
    unfolding split filter_append merge_pairs_spec(2) add d by (auto split: option.splits)
  have "filter (\<lambda>p. bt_get q (fst p) = None) added = []"
    by (force simp: added_def filter_empty_conv bt_get_None_iff bt_keys_def image_iff)
  then show "filter (\<lambda>p. bt_get q (fst p) = None) (set_query q old) = filter (\<lambda>p. bt_get q (fst p) = None) old"
    by (simp add: split merge_pairs_spec(3))
qed

text \<open>An instance: a plugin sets the page of a query that has it twice.\<close>

theorem query_parameters_set_witness:
  "filter (\<lambda>p. fst p = ''page'') (set_query [(''page'', QNumber ''2'')]
     [(''page'', ''1''), (''q'', ''x''), (''page'', ''0'')]) = [(''page'', ''2'')]"
proof -
  have "bt_wf [(''page'', QNumber ''2'')]" by (simp add: bt_wf_Cons)
  from query_parameters_set [OF this, of "''page''"] show ?thesis by (simp add: bt_get_def)
qed

end
