(* ===== verification/Acquisition_Download.thy ===== *)
theory Acquisition_Download
  imports Acquisition_Turns Host_Files
begin

text \<open>
  Files that are downloaded, \<open>services/korrid/src/acquisition/download.rs\<close> (\<open>fetch\<close>, \<open>attempt\<close>,
  \<open>fetch_game\<close>) and the free-space floor of \<open>space.rs\<close>.

  The disk is outside the sources: its operations are the parameter \<open>disk_ops\<close> over a state \<open>'d\<close>
  of its own, separate from the world of the network. The predicate \<open>disk_laws\<close> says what the
  properties need of it: what a file holds after it was opened, appended to, synced or renamed. The state of
  a running SHA-256 is the bytes that went into it, and \<open>sha\<close> is the digest in hexadecimal. The
  chunks of a response arrive interleaved with the ticks of a timer, each with the time at which
  the loop looks at the clock; the transfer rate, a floating point number in the source, is a pair
  of bytes and nanoseconds, and the comparison with 1024 bytes per second is a parameter.
\<close>

subsection \<open>Disk, clock and digest\<close>

record 'd disk_ops =
  dk_file :: "'d \<Rightarrow> string \<Rightarrow> string option"
  dk_exists :: "string \<Rightarrow> 'd \<Rightarrow> bool"
  dk_read :: "string \<Rightarrow> 'd \<Rightarrow> (string, acq_failure) result"
  dk_open :: "string \<Rightarrow> bool \<Rightarrow> 'd \<Rightarrow> (unit, acq_failure) result \<times> 'd"
  dk_create_new :: "string \<Rightarrow> 'd \<Rightarrow> (unit, acq_failure) result \<times> 'd"
  dk_append :: "string \<Rightarrow> string \<Rightarrow> 'd \<Rightarrow> (unit, acq_failure) result \<times> 'd"
  dk_sync :: "string \<Rightarrow> 'd \<Rightarrow> (unit, acq_failure) result \<times> 'd"
  dk_rename :: "string \<Rightarrow> string \<Rightarrow> 'd \<Rightarrow> (unit, acq_failure) result \<times> 'd"
  dk_remove :: "string \<Rightarrow> 'd \<Rightarrow> (unit, acq_failure) result \<times> 'd"

datatype body_event = Arrived "(string, transport_error) result" | Tick

record 'w timing =
  events :: "http_response \<Rightarrow> 'w \<Rightarrow> nat \<times> (body_event \<times> nat) list"
  too_slow :: "nat \<Rightarrow> nat \<Rightarrow> bool"
  stall_window :: nat

definition disk_laws :: "'d disk_ops \<Rightarrow> bool" where
  "disk_laws dk \<longleftrightarrow>
     (\<forall>p d b. dk_read dk p d = Ok b \<longrightarrow> dk_file dk d p = Some b) \<and>
     (\<forall>p trunc d d'. dk_open dk p trunc d = (Ok (), d') \<longrightarrow>
        dk_file dk d' p = Some (if trunc then [] else case dk_file dk d p of None \<Rightarrow> [] | Some b \<Rightarrow> b)) \<and>
     (\<forall>p d d'. dk_create_new dk p d = (Ok (), d') \<longrightarrow> dk_file dk d' p = Some []) \<and>
     (\<forall>p c d d' b. dk_append dk p c d = (Ok (), d') \<longrightarrow> dk_file dk d p = Some b \<longrightarrow> dk_file dk d' p = Some (b @ c)) \<and>
     (\<forall>p d d'. dk_sync dk p d = (Ok (), d') \<longrightarrow> dk_file dk d' p = dk_file dk d p) \<and>
     (\<forall>p q d d'. dk_rename dk p q d = (Ok (), d') \<longrightarrow> dk_file dk d' q = dk_file dk d p) \<and>
     (\<forall>p d d'. dk_remove dk p d = (Ok (), d') \<longrightarrow> dk_file dk d' p = None)"

lemma disk_lawsD:
  assumes "disk_laws dk"
  shows read_file: "dk_read dk p d = Ok b \<Longrightarrow> dk_file dk d p = Some b"
    and open_file: "dk_open dk p trunc d = (Ok (), d') \<Longrightarrow>
      dk_file dk d' p = Some (if trunc then [] else case dk_file dk d p of None \<Rightarrow> [] | Some b \<Rightarrow> b)"
    and create_file: "dk_create_new dk p d = (Ok (), d') \<Longrightarrow> dk_file dk d' p = Some []"
    and append_file: "dk_append dk p c d = (Ok (), d') \<Longrightarrow> dk_file dk d p = Some b \<Longrightarrow> dk_file dk d' p = Some (b @ c)"
    and sync_file: "dk_sync dk p d = (Ok (), d') \<Longrightarrow> dk_file dk d' p = dk_file dk d p"
    and rename_file: "dk_rename dk p q d = (Ok (), d') \<Longrightarrow> dk_file dk d' q = dk_file dk d p"
    and remove_file: "dk_remove dk p d = (Ok (), d') \<Longrightarrow> dk_file dk d' p = None"
  using assms unfolding disk_laws_def by simp_all

subsection \<open>Progress\<close>

record transfer_progress =
  pg_done :: nat
  pg_total :: "nat option"
  pg_rate :: "(nat \<times> nat) option"

record ('w, 'd) download_state =
  ds_net :: "'w net"
  ds_disk :: 'd
  ds_progress :: "transfer_progress list"

definition report :: "transfer_progress \<Rightarrow> ('w, 'd) download_state \<Rightarrow> ('w, 'd) download_state" where
  "report g s = s\<lparr>ds_progress := ds_progress s @ [g]\<rparr>"

definition on_disk :: "('d \<Rightarrow> 'a \<times> 'd) \<Rightarrow> ('w, 'd) download_state \<Rightarrow> 'a \<times> ('w, 'd) download_state" where
  "on_disk f s = (let (r, d) = f (ds_disk s) in (r, s\<lparr>ds_disk := d\<rparr>))"

text \<open>Samples older than five seconds are dropped from the front, but one is kept.\<close>

fun drop_samples :: "nat \<Rightarrow> (nat \<times> nat) list \<Rightarrow> (nat \<times> nat) list" where
  "drop_samples now (a # b # xs) = (if 5000000000 < now - fst a then drop_samples now (b # xs) else a # b # xs)"
| "drop_samples now xs = xs"

record meter =
  mt_window_start :: nat
  mt_window_bytes :: nat
  mt_samples :: "(nat \<times> nat) list"

text \<open>The end of every round of a transfer loop: the stall check, the samples and the report.\<close>

definition meter_round ::
  "'w timing \<Rightarrow> nat \<Rightarrow> nat \<Rightarrow> nat option \<Rightarrow> meter \<Rightarrow> ('w, 'd) download_state \<Rightarrow>
   (meter, acq_failure) result \<times> ('w, 'd) download_state" where
  "meter_round tm now n whole m s =
     (let due = (stall_window tm \<le> now - mt_window_start m) in
      if due \<and> too_slow tm (n - mt_window_bytes m) (now - mt_window_start m) then (Err Stalled, s)
      else
        let samples = drop_samples now (mt_samples m @ [(now, n)]);
            m' = \<lparr>mt_window_start = (if due then now else mt_window_start m),
                  mt_window_bytes = (if due then n else mt_window_bytes m), mt_samples = samples\<rparr>;
            elapsed = now - fst (hd samples)
        in (Ok m', report \<lparr>pg_done = n, pg_total = whole,
              pg_rate = (if 0 < elapsed then Some (n - snd (hd samples), elapsed) else None)\<rparr> s))"

subsection \<open>Pinned artifacts\<close>

definition content_range :: "string \<Rightarrow> nat \<Rightarrow> (nat option, acq_failure) result" where
  "content_range value offset =
     (let split = (\<lambda>c s. if c \<in> set s then Some (takeWhile (\<lambda>x. x \<noteq> c) s, tl (dropWhile (\<lambda>x. x \<noteq> c) s)) else None);
          u64 = parse_unsigned (2 ^ 64 - 1)
      in case Option.bind (strip_prefix ''bytes '' value) (split (CHR ''/'')) of
           None \<Rightarrow> Err Network
         | Some (span, whole) \<Rightarrow>
             (case split (CHR ''-'') span of
                None \<Rightarrow> Err Network
              | Some (lo, hi) \<Rightarrow>
                  (case (u64 lo, u64 hi) of
                     (Some a, Some b) \<Rightarrow>
                       (case (if whole = ''*'' then Some None else map_option Some (u64 whole)) of
                          None \<Rightarrow> Err Network
                        | Some t \<Rightarrow>
                            if a \<noteq> offset \<or> b < a \<or> (case t of None \<Rightarrow> False | Some n \<Rightarrow> n \<le> b) then Err Network else Ok t)
                   | _ \<Rightarrow> Err Network)))"

record pinned_file =
  pf_url :: string
  pf_sha256 :: string
  pf_bytes :: "nat option"

definition ranged_response ::
  "url_crate \<Rightarrow> 'w outside \<Rightarrow> address_policy \<Rightarrow> string \<Rightarrow> nat \<Rightarrow> 'w net \<Rightarrow> (http_response, acq_failure) result \<times> 'w net" where
  "ranged_response cr out pol value offset n =
     (case url_parse cr value of
        None \<Rightarrow> (Err UnsafeUrl, n)
      | Some u \<Rightarrow>
          (case send cr out pol u Any None
                  (if 0 < offset then [(''range'', ''bytes='' @ decimal offset @ ''-'')] else []) n of
             (Err e, n1) \<Rightarrow> (Err e, n1)
           | (Ok (_, r), n1) \<Rightarrow> (Ok r, n1)))"

text \<open>The bytes of a response, appended to the part file and to the hash.\<close>

fun receive_part ::
  "'d disk_ops \<Rightarrow> 'w timing \<Rightarrow> string \<Rightarrow> nat option \<Rightarrow> (body_event \<times> nat) list \<Rightarrow> string \<Rightarrow> nat \<Rightarrow> meter \<Rightarrow>
   ('w, 'd) download_state \<Rightarrow> (string, acq_failure) result \<times> ('w, 'd) download_state" where
  "receive_part dk tm part whole [] hash n m s = (Ok hash, s)"
| "receive_part dk tm part whole ((ev, now) # evs) hash n m s =
     (case ev of
        Arrived (Err e) \<Rightarrow> (Err (transfer e), s)
      | Tick \<Rightarrow>
          (case meter_round tm now n whole m s of
             (Err e, s1) \<Rightarrow> (Err e, s1)
           | (Ok m', s1) \<Rightarrow> receive_part dk tm part whole evs hash n m' s1)
      | Arrived (Ok chunk) \<Rightarrow>
          (case on_disk (dk_append dk part chunk) s of
             (Err e, s1) \<Rightarrow> (Err e, s1)
           | (Ok _, s1) \<Rightarrow>
               (case meter_round tm now (n + length chunk) whole m s1 of
                  (Err e, s2) \<Rightarrow> (Err e, s2)
                | (Ok m', s2) \<Rightarrow> receive_part dk tm part whole evs (hash @ chunk) (n + length chunk) m' s2)))"

text \<open>Leading repetitions of a prefix that is not empty.\<close>

function trim_start_matches :: "string \<Rightarrow> string \<Rightarrow> string" where
  "trim_start_matches pre s =
     (if pre = [] then s
      else case strip_prefix pre s of None \<Rightarrow> s | Some rest \<Rightarrow> trim_start_matches pre rest)"
  by pat_completeness auto
termination
  by (relation "measure (\<lambda>(_, s). length s)") (auto simp: strip_prefix_Some)

declare trim_start_matches.simps [simp del]

definition save_part ::
  "(string \<Rightarrow> string) \<Rightarrow> 'd disk_ops \<Rightarrow> 'w timing \<Rightarrow> string \<Rightarrow> string \<Rightarrow> http_response \<Rightarrow> nat option \<Rightarrow> string \<Rightarrow>
   ('w, 'd) download_state \<Rightarrow> (unit, acq_failure) result \<times> ('w, 'd) download_state" where
  "save_part sha dk tm part expected r whole hash s =
     (case on_disk (dk_open dk part (hash = [])) s of
        (Err e, s1) \<Rightarrow> (Err e, s1)
      | (Ok _, s1) \<Rightarrow>
          let n = length hash;
              (start, evs) = events tm r (world (ds_net s1));
              m = \<lparr>mt_window_start = start, mt_window_bytes = n, mt_samples = [(start, n)]\<rparr>;
              s2 = report \<lparr>pg_done = n, pg_total = whole, pg_rate = None\<rparr> s1
          in case receive_part dk tm part whole evs hash n m s2 of
               (Err e, s3) \<Rightarrow> (Err e, s3)
             | (Ok hash', s3) \<Rightarrow>
                 (case on_disk (dk_sync dk part) s3 of
                    (Err e, s4) \<Rightarrow> (Err e, s4)
                  | (Ok _, s4) \<Rightarrow>
                      if sha hash' \<noteq> expected then
                        (case on_disk (dk_remove dk part) s4 of
                           (Err e, s5) \<Rightarrow> (Err e, s5)
                         | (Ok _, s5) \<Rightarrow> (Err Hash, s5))
                      else (Ok (), s4)))"

definition resume_total ::
  "'w outside \<Rightarrow> http_response \<Rightarrow> string \<Rightarrow> (nat option \<times> string, acq_failure) result" where
  "resume_total out r hash =
     (if rs_status r = 206 then
        (case Option.bind (get_header ''content-range'' (rs_headers r)) (header_to_str out) of
           None \<Rightarrow> Err Network
         | Some value \<Rightarrow>
             (case content_range value (length hash) of Err e \<Rightarrow> Err e | Ok whole \<Rightarrow> Ok (whole, hash)))
      else if rs_status r = 200 then Ok (rs_content_length r, [])
      else Err Network)"

definition attempt ::
  "url_crate \<Rightarrow> 'w outside \<Rightarrow> address_policy \<Rightarrow> (string \<Rightarrow> string) \<Rightarrow> 'd disk_ops \<Rightarrow> 'w timing \<Rightarrow> pinned_file \<Rightarrow> string \<Rightarrow>
   ('w, 'd) download_state \<Rightarrow> (unit, acq_failure) result \<times> ('w, 'd) download_state" where
  "attempt cr out pol sha dk tm f part s =
     (case (if dk_exists dk part (ds_disk s) then dk_read dk part (ds_disk s) else Ok []) of
        Err e \<Rightarrow> (Err e, s)
      | Ok hash \<Rightarrow>
          let expected = trim_start_matches ''sha256:'' (pf_sha256 f) in
          if 0 < length hash \<and> sha hash = expected then (Ok (), s)
          else case ranged_response cr out pol (pf_url f) (length hash) (ds_net s) of
              (Err e, n1) \<Rightarrow> (Err e, s\<lparr>ds_net := n1\<rparr>)
            | (Ok r, n1) \<Rightarrow>
                let s1 = s\<lparr>ds_net := n1\<rparr> in
                if rs_status r = 416 then
                  (if dk_exists dk part (ds_disk s1) then
                     (case on_disk (dk_remove dk part) s1 of
                        (Err e, s2) \<Rightarrow> (Err e, s2)
                      | (Ok _, s2) \<Rightarrow> (Err Network, s2))
                   else (Err Network, s1))
                else case resume_total out r hash of
                    Err e \<Rightarrow> (Err e, s1)
                  | Ok (whole, hash') \<Rightarrow> save_part sha dk tm part expected r whole hash' s1)"

fun attempts ::
  "url_crate \<Rightarrow> 'w outside \<Rightarrow> address_policy \<Rightarrow> (string \<Rightarrow> string) \<Rightarrow> 'd disk_ops \<Rightarrow> 'w timing \<Rightarrow> pinned_file \<Rightarrow> string \<Rightarrow>
   string \<Rightarrow> nat list \<Rightarrow> acq_failure \<Rightarrow> ('w, 'd) download_state \<Rightarrow> (string, acq_failure) result \<times> ('w, 'd) download_state" where
  "attempts cr out pol sha dk tm f part verified [] prev s = (Err prev, s)"
| "attempts cr out pol sha dk tm f part verified (a # as) prev s =
     (case attempt cr out pol sha dk tm f part s of
        (Ok _, s1) \<Rightarrow>
          (case on_disk (dk_rename dk part verified) s1 of
             (Err e, s2) \<Rightarrow> (Err e, s2)
           | (Ok _, s2) \<Rightarrow> (Ok verified, s2))
      | (Err e, s1) \<Rightarrow>
          if e \<in> {UnsafeUrl, UnsafePath, Storage, NoSpace, Redirect} then (Err e, s1)
          else attempts cr out pol sha dk tm f part verified as e s1)"

definition fetch ::
  "url_crate \<Rightarrow> 'w outside \<Rightarrow> address_policy \<Rightarrow> (string \<Rightarrow> string) \<Rightarrow> 'd disk_ops \<Rightarrow> 'w timing \<Rightarrow> pinned_file \<Rightarrow> string \<Rightarrow>
   ('w, 'd) download_state \<Rightarrow> (string, acq_failure) result \<times> ('w, 'd) download_state" where
  "fetch cr out pol sha dk tm f dir s =
     (case strip_prefix ''sha256:'' (pf_sha256 f) of
        None \<Rightarrow> (Err Hash, s)
      | Some hex \<Rightarrow>
          let verified = path_join dir hex;
              part = path_join dir (hex @ ''.part'');
              retry = attempts cr out pol sha dk tm f part verified [0 ..< 6] Network
          in if \<not> dk_exists dk verified (ds_disk s) then retry s
             else case dk_read dk verified (ds_disk s) of
                 Err e \<Rightarrow> (Err e, s)
               | Ok b \<Rightarrow>
                   if sha b = hex
                   then (Ok verified, report \<lparr>pg_done = length b, pg_total = Some (length b), pg_rate = None\<rparr> s)
                   else case on_disk (dk_remove dk verified) s of
                       (Err e, s1) \<Rightarrow> (Err e, s1)
                     | (Ok _, s1) \<Rightarrow> retry s1)"

subsection \<open>The floor\<close>

text \<open>
  Sizes are \<open>u64\<close>. \<open>saturating_sub\<close> is subtraction on natural numbers, the product in \<open>u128\<close> cannot
  overflow, and the quotient fits, as the size does. Counting written bytes adds at most the room
  that was checked before.
\<close>

record space =
  sp_available :: nat
  sp_size :: nat
  sp_block :: nat

type_synonym 'd probe = "'d \<Rightarrow> (space, acq_failure) result"

record floor =
  fl_start :: nat
  fl_written :: nat

definition floor_percent :: nat where
  "floor_percent = 5"

definition floor_of :: "space \<Rightarrow> nat" where
  "floor_of sp = (sp_size sp * floor_percent + 99) div 100"

definition floor_new :: "'d probe \<Rightarrow> 'd \<Rightarrow> (floor, acq_failure) result" where
  "floor_new probe d =
     (case probe d of Err e \<Rightarrow> Err e | Ok sp \<Rightarrow> Ok \<lparr>fl_start = sp_available sp, fl_written = 0\<rparr>)"

definition floor_measure :: "'d probe \<Rightarrow> floor \<Rightarrow> 'd \<Rightarrow> (nat \<times> nat \<times> nat, acq_failure) result" where
  "floor_measure probe fl d =
     (case probe d of
        Err e \<Rightarrow> Err e
      | Ok sp \<Rightarrow> Ok (min (sp_available sp) (fl_start fl - fl_written fl), floor_of sp, sp_block sp))"

definition floor_room :: "'d probe \<Rightarrow> floor \<Rightarrow> 'd \<Rightarrow> (nat, acq_failure) result" where
  "floor_room probe fl d =
     (case floor_measure probe fl d of Err e \<Rightarrow> Err e | Ok (available, fl', _) \<Rightarrow> Ok (available - fl'))"

definition floor_reserve :: "'d probe \<Rightarrow> nat \<Rightarrow> floor \<Rightarrow> 'd \<Rightarrow> (unit, acq_failure) result \<times> floor" where
  "floor_reserve probe n fl d =
     (case floor_room probe fl d of
        Err e \<Rightarrow> (Err e, fl)
      | Ok room \<Rightarrow> if room < n then (Err NoSpace, fl) else (Ok (), fl\<lparr>fl_written := fl_written fl + n\<rparr>))"

definition floor_reserve_entry :: "'d probe \<Rightarrow> floor \<Rightarrow> 'd \<Rightarrow> (unit, acq_failure) result \<times> floor" where
  "floor_reserve_entry probe fl d =
     (case floor_measure probe fl d of
        Err e \<Rightarrow> (Err e, fl)
      | Ok (_, _, block) \<Rightarrow> floor_reserve probe block fl d)"

definition floor_check :: "'d probe \<Rightarrow> 'd \<Rightarrow> (unit, acq_failure) result" where
  "floor_check probe d =
     (case probe d of
        Err e \<Rightarrow> Err e
      | Ok sp \<Rightarrow> if sp_available sp < floor_of sp then Err NoSpace else Ok ())"

subsection \<open>Games\<close>

definition trim_start :: "string \<Rightarrow> string" where
  "trim_start s = (trim_start_once ^^ length s) s"

definition html_lead :: "string \<Rightarrow> bool" where
  "html_lead lead =
     (let s = to_ascii_lowercase (trim_start (trim_start_matches [CHR 0xEF, CHR 0xBB, CHR 0xBF] (from_utf8_lossy lead)))
      in case strip_prefix ''<'' s of
           None \<Rightarrow> False
         | Some rest \<Rightarrow>
             (case strip_prefix ''!doctype'' rest of
                Some after \<Rightarrow> space_before after \<noteq> None
              | None \<Rightarrow>
                  list_ex (\<lambda>tag. case strip_prefix tag rest of
                       None \<Rightarrow> False
                     | Some after \<Rightarrow> space_before after \<noteq> None \<or> starts_with ''>'' after)
                    [''html'', ''head'', ''body'', ''script'']))"

record game_request =
  gr_url :: string
  gr_form :: "string option"

record downloaded_game =
  dg_path :: string
  dg_bytes :: nat
  dg_lead :: string

definition staging_prefix :: string where
  "staging_prefix = ''.acquire-''"

text \<open>The loop of a game download. \<open>probe\<close> reads the space of the file system that holds the directory.\<close>

fun receive_game ::
  "'d disk_ops \<Rightarrow> 'd probe \<Rightarrow> 'w timing \<Rightarrow> string \<Rightarrow> nat option \<Rightarrow> (body_event \<times> nat) list \<Rightarrow> floor \<Rightarrow> string \<Rightarrow> nat \<Rightarrow> meter \<Rightarrow>
   ('w, 'd) download_state \<Rightarrow> (string \<times> nat, acq_failure) result \<times> floor \<times> ('w, 'd) download_state" where
  "receive_game dk probe tm path whole [] fl lead n m s = (Ok (lead, n), fl, s)"
| "receive_game dk probe tm path whole ((ev, now) # evs) fl lead n m s =
     (case ev of
        Arrived (Err e) \<Rightarrow> (Err (transfer e), fl, s)
      | Tick \<Rightarrow>
          (case meter_round tm now n whole m s of
             (Err e, s1) \<Rightarrow> (Err e, fl, s1)
           | (Ok m', s1) \<Rightarrow> receive_game dk probe tm path whole evs fl lead n m' s1)
      | Arrived (Ok chunk) \<Rightarrow>
          (case floor_reserve probe (length chunk) fl (ds_disk s) of
             (Err e, fl1) \<Rightarrow> (Err e, fl1, s)
           | (Ok _, fl1) \<Rightarrow>
               let lead' = (if length lead < 512 then lead @ take (512 - length lead) chunk else lead) in
               if length lead < 512 \<and> length lead' = 512 \<and> html_lead lead' then (Err WebPage, fl1, s)
               else case on_disk (dk_append dk path chunk) s of
                   (Err e, s1) \<Rightarrow> (Err e, fl1, s1)
                 | (Ok _, s1) \<Rightarrow>
                     (case meter_round tm now (n + length chunk) whole m s1 of
                        (Err e, s2) \<Rightarrow> (Err e, fl1, s2)
                      | (Ok m', s2) \<Rightarrow> receive_game dk probe tm path whole evs fl1 lead' (n + length chunk) m' s2)))"

text \<open>From the creation of the staging file on, every error drops it.\<close>

definition stage_game ::
  "'d disk_ops \<Rightarrow> 'd probe \<Rightarrow> 'w timing \<Rightarrow> string \<Rightarrow> nat option \<Rightarrow> http_response \<Rightarrow> floor \<Rightarrow>
   ('w, 'd) download_state \<Rightarrow> (downloaded_game, acq_failure) result \<times> ('w, 'd) download_state" where
  "stage_game dk probe tm path whole r fl s =
     (let (start, evs) = events tm r (world (ds_net s));
          m = \<lparr>mt_window_start = start, mt_window_bytes = 0, mt_samples = [(start, 0)]\<rparr>;
          s1 = report \<lparr>pg_done = 0, pg_total = whole, pg_rate = None\<rparr> s
      in case receive_game dk probe tm path whole evs fl [] 0 m s1 of
           (Err e, _, s2) \<Rightarrow> (Err e, s2)
         | (Ok (lead, n), _, s2) \<Rightarrow>
             if n = 0 then (Err Empty, s2)
             else if html_lead lead then (Err WebPage, s2)
             else case on_disk (dk_sync dk path) s2 of
                 (Err e, s3) \<Rightarrow> (Err e, s3)
               | (Ok _, s3) \<Rightarrow> (Ok \<lparr>dg_path = path, dg_bytes = n, dg_lead = lead\<rparr>, s3))"

definition drop_staged :: "'d disk_ops \<Rightarrow> string \<Rightarrow> ('w, 'd) download_state \<Rightarrow> ('w, 'd) download_state" where
  "drop_staged dk path s = snd (on_disk (dk_remove dk path) s)"

text \<open>The checks of the response before a file is created, and the floor of the transfer.\<close>

definition admit_game :: "'w outside \<Rightarrow> 'd probe \<Rightarrow> http_response \<Rightarrow> 'd \<Rightarrow> (floor, acq_failure) result" where
  "admit_game out probe r d =
     (let content_type = to_ascii_lowercase
            (case Option.bind (get_header ''content-type'' (rs_headers r)) (header_to_str out) of None \<Rightarrow> [] | Some v \<Rightarrow> v)
      in if \<not> (200 \<le> rs_status r \<and> rs_status r < 300) \<or> rs_status r = 206 then Err Network
         else if starts_with ''text/html'' content_type \<or> starts_with ''application/xhtml'' content_type then Err WebPage
         else case floor_new probe d of
             Err e \<Rightarrow> Err e
           | Ok fl \<Rightarrow>
               (case rs_content_length r of
                  None \<Rightarrow> Ok fl
                | Some whole \<Rightarrow>
                    (case floor_room probe fl d of
                       Err e \<Rightarrow> Err e
                     | Ok room \<Rightarrow> if room < whole then Err NoSpace else Ok fl)))"

definition save_game ::
  "'d disk_ops \<Rightarrow> 'd probe \<Rightarrow> 'w timing \<Rightarrow> string \<Rightarrow> http_response \<Rightarrow> floor \<Rightarrow>
   ('w, 'd) download_state \<Rightarrow> (downloaded_game, acq_failure) result \<times> ('w, 'd) download_state" where
  "save_game dk probe tm path r fl s =
     (case on_disk (dk_create_new dk path) s of
        (Err e, s1) \<Rightarrow> (Err e, drop_staged dk path s1)
      | (Ok _, s1) \<Rightarrow>
          (case stage_game dk probe tm path (rs_content_length r) r fl s1 of
             (Err e, s2) \<Rightarrow> (Err e, drop_staged dk path s2)
           | (Ok g, s2) \<Rightarrow> (Ok g, s2)))"

definition fetch_game ::
  "url_crate \<Rightarrow> 'w outside \<Rightarrow> address_policy \<Rightarrow> 'd disk_ops \<Rightarrow> 'd probe \<Rightarrow> 'w timing \<Rightarrow> string \<Rightarrow> game_request \<Rightarrow>
   string list \<Rightarrow> string \<Rightarrow> ('w, 'd) download_state \<Rightarrow> (downloaded_game, acq_failure) result \<times> ('w, 'd) download_state" where
  "fetch_game cr out pol dk probe tm random request hs dir s =
     (case url_parse cr (gr_url request) of
        None \<Rightarrow> (Err UnsafeUrl, s)
      | Some u \<Rightarrow>
          (case send cr out pol u (Only hs) (gr_form request) [] (ds_net s) of
             (Err e, n1) \<Rightarrow> (Err e, s\<lparr>ds_net := n1\<rparr>)
           | (Ok (_, r), n1) \<Rightarrow>
               (case admit_game out probe r (ds_disk s) of
                  Err e \<Rightarrow> (Err e, s\<lparr>ds_net := n1\<rparr>)
                | Ok fl \<Rightarrow> save_game dk probe tm (path_join dir (staging_prefix @ random)) r fl (s\<lparr>ds_net := n1\<rparr>))))"

subsection \<open>What ends up on the disk\<close>

lemma meter_round_disk: "ds_disk (snd (meter_round tm now n whole m s)) = ds_disk s"
  by (simp add: meter_round_def report_def Let_def)

lemma on_disk_OkD: "on_disk f s = (r, s') \<Longrightarrow> f (ds_disk s) = (r, ds_disk s')"
  by (auto simp: on_disk_def Let_def split: prod.splits)

lemma trim_start_matches_pinned:
  assumes "list_all is_lower_hex hex"
  shows "trim_start_matches ''sha256:'' (''sha256:'' @ hex) = hex"
proof -
  have "strip_prefix ''sha256:'' hex = None"
  proof (cases "strip_prefix ''sha256:'' hex")
    case (Some rest)
    then have "hex = ''sha256:'' @ rest" by (simp add: strip_prefix_Some)
    with assms show ?thesis by (simp add: is_lower_hex_def is_ascii_digit_def less_eq_char_def)
  qed simp
  then show ?thesis
    by (subst trim_start_matches.simps) (simp add: strip_prefix_def trim_start_matches.simps [of _ hex])
qed

lemma receive_part_file:
  assumes laws: "disk_laws dk"
  shows "receive_part dk tm part whole evs hash n m s = (Ok hash', s') \<Longrightarrow> dk_file dk (ds_disk s) part = Some hash \<Longrightarrow>
   dk_file dk (ds_disk s') part = Some hash'"
proof (induction evs arbitrary: hash n m s)
  case (Cons e evs)
  obtain ev now where e: "e = (ev, now)" by (cases e)
  consider "ev = Tick" | err where "ev = Arrived (Err err)" | chunk where "ev = Arrived (Ok chunk)"
    by (metis body_event.exhaust result.exhaust)
  then show ?case
  proof cases
    case 1
    with Cons.prems(1) e obtain m' s1 where r: "meter_round tm now n whole m s = (Ok m', s1)"
      "receive_part dk tm part whole evs hash n m' s1 = (Ok hash', s')"
      by (auto split: prod.splits result.splits)
    with Cons.prems(2) meter_round_disk [of tm now n whole m s] show ?thesis by (auto intro: Cons.IH)
  next
    case 2
    with Cons.prems(1) e show ?thesis by simp
  next
    case (3 chunk)
    with Cons.prems(1) e obtain s1 m' s2 where r: "on_disk (dk_append dk part chunk) s = (Ok (), s1)"
      "meter_round tm now (n + length chunk) whole m s1 = (Ok m', s2)"
      "receive_part dk tm part whole evs (hash @ chunk) (n + length chunk) m' s2 = (Ok hash', s')"
      by (auto split: prod.splits result.splits)
    from append_file [OF laws on_disk_OkD [OF r(1)] Cons.prems(2)] meter_round_disk [of tm now "n + length chunk" whole m s1] r(2)
    have "dk_file dk (ds_disk s2) part = Some (hash @ chunk)" by simp
    with r(3) show ?thesis by (rule Cons.IH)
  qed
qed simp

lemma save_part_file:
  assumes laws: "disk_laws dk" and "save_part sha dk tm part expected r whole hash s = (Ok (), s')"
    and "hash = [] \<or> dk_file dk (ds_disk s) part = Some hash"
  shows "\<exists>b. dk_file dk (ds_disk s') part = Some b \<and> sha b = expected"
proof -
  from assms(2) obtain s1 start evs hash' s3 where
    o: "on_disk (dk_open dk part (hash = [])) s = (Ok (), s1)"
    and r: "receive_part dk tm part whole evs hash (length hash)
        \<lparr>mt_window_start = start, mt_window_bytes = length hash, mt_samples = [(start, length hash)]\<rparr>
        (report \<lparr>pg_done = length hash, pg_total = whole, pg_rate = None\<rparr> s1) = (Ok hash', s3)"
    and y: "on_disk (dk_sync dk part) s3 = (Ok (), s')" and h: "sha hash' = expected"
    unfolding save_part_def by (auto simp: Let_def split: prod.splits result.splits if_splits)
  have "dk_file dk (ds_disk s1) part = Some hash"
    using open_file [OF laws on_disk_OkD [OF o]] assms(3) by auto
  then have "dk_file dk (ds_disk s3) part = Some hash'"
    using receive_part_file [OF laws r] by (simp add: report_def)
  with sync_file [OF laws on_disk_OkD [OF y]] h show ?thesis by simp
qed

lemma attempt_file:
  assumes laws: "disk_laws dk" and "attempt cr out pol sha dk tm f part s = (Ok (), s')"
  shows "\<exists>b. dk_file dk (ds_disk s') part = Some b \<and> sha b = trim_start_matches ''sha256:'' (pf_sha256 f)"
proof -
  from assms(2) obtain hash where
    read: "(if dk_exists dk part (ds_disk s) then dk_read dk part (ds_disk s) else Ok []) = Ok hash"
    by (auto simp: attempt_def split: result.splits if_splits)
  have kept: "hash = [] \<or> dk_file dk (ds_disk s) part = Some hash"
    using read by (auto split: if_splits intro: read_file [OF laws])
  show ?thesis
  proof (cases "0 < length hash \<and> sha hash = trim_start_matches ''sha256:'' (pf_sha256 f)")
    case True
    with assms(2) read kept show ?thesis by (auto simp: attempt_def)
  next
    case False
    obtain res n1 where net: "ranged_response cr out pol (pf_url f) (length hash) (ds_net s) = (res, n1)"
      by (cases "ranged_response cr out pol (pf_url f) (length hash) (ds_net s)")
    from assms(2) read False net obtain r where r: "res = Ok r" "rs_status r \<noteq> 416"
      by (cases res) (auto simp: attempt_def Let_def split: if_splits prod.splits result.splits)
    with assms(2) read False net obtain whole hash' where t: "resume_total out r hash = Ok (whole, hash')"
      by (cases "resume_total out r hash") (auto simp: attempt_def Let_def)
    have "hash' = [] \<or> dk_file dk (ds_disk (s\<lparr>ds_net := n1\<rparr>)) part = Some hash'"
      using t kept by (auto simp: resume_total_def split: if_splits option.splits result.splits)
    moreover have "save_part sha dk tm part (trim_start_matches ''sha256:'' (pf_sha256 f)) r whole hash'
        (s\<lparr>ds_net := n1\<rparr>) = (Ok (), s')"
      using assms(2) read False net r t by (auto simp: attempt_def Let_def)
    ultimately show ?thesis by (blast intro: save_part_file [OF laws])
  qed
qed

lemma attempts_file:
  assumes laws: "disk_laws dk"
  shows "attempts cr out pol sha dk tm f part verified as prev s = (Ok path, s') \<Longrightarrow>
   path = verified \<and>
   (\<exists>b. dk_file dk (ds_disk s') verified = Some b \<and> sha b = trim_start_matches ''sha256:'' (pf_sha256 f))"
proof (induction as arbitrary: prev s)
  case (Cons a as)
  obtain r s1 where at: "attempt cr out pol sha dk tm f part s = (r, s1)" by (cases "attempt cr out pol sha dk tm f part s")
  show ?case
  proof (cases r)
    case (Ok u)
    with Cons.prems at have ren: "on_disk (dk_rename dk part verified) s1 = (Ok (), s')" and path: "path = verified"
      by (auto split: prod.splits result.splits)
    have "attempt cr out pol sha dk tm f part s = (Ok (), s1)" using at Ok by simp
    from attempt_file [OF laws this] obtain b where
      "dk_file dk (ds_disk s1) part = Some b" "sha b = trim_start_matches ''sha256:'' (pf_sha256 f)" by auto
    with rename_file [OF laws on_disk_OkD [OF ren]] path show ?thesis by auto
  next
    case (Err e)
    with Cons.prems at have "attempts cr out pol sha dk tm f part verified as e s1 = (Ok path, s')"
      by (auto split: if_splits)
    then show ?thesis by (rule Cons.IH)
  qed
qed simp

lemma fetch_file:
  assumes laws: "disk_laws dk" and "pf_sha256 f = ''sha256:'' @ hex" and "list_all is_lower_hex hex"
    and "fetch cr out pol sha dk tm f dir s = (Ok path, s')"
  shows "path = path_join dir hex \<and> (\<exists>b. dk_file dk (ds_disk s') path = Some b \<and> sha b = hex)"
proof -
  let ?retry = "attempts cr out pol sha dk tm f (path_join dir (hex @ ''.part'')) (path_join dir hex) [0 ..< 6] Network"
  have retry: ?thesis if "?retry s0 = (Ok path, s')" for s0
    using attempts_file [OF laws that] trim_start_matches_pinned [OF assms(3)] assms(2) by auto
  have pre: "strip_prefix ''sha256:'' (pf_sha256 f) = Some hex" using assms(2) by (simp add: strip_prefix_Some)
  show ?thesis
  proof (cases "dk_exists dk (path_join dir hex) (ds_disk s)")
    case False
    with assms(4) pre have "?retry s = (Ok path, s')" by (simp add: fetch_def Let_def)
    then show ?thesis by (rule retry)
  next
    case True
    with assms(4) pre obtain b where b: "dk_read dk (path_join dir hex) (ds_disk s) = Ok b"
      by (auto simp: fetch_def Let_def split: result.splits)
    show ?thesis
    proof (cases "sha b = hex")
      case True
      with \<open>dk_exists dk (path_join dir hex) (ds_disk s)\<close> assms(4) pre b read_file [OF laws b] show ?thesis
        by (auto simp: fetch_def Let_def report_def)
    next
      case False
      with True assms(4) pre b obtain s1 where "?retry s1 = (Ok path, s')"
        by (auto simp: fetch_def Let_def split: prod.splits result.splits)
      then show ?thesis by (rule retry)
    qed
  qed
qed

text \<open>
  C19. A pinned file is verified. When a download of a pinned artifact succeeds, the file that is
  returned lies in the directory under its digest and its contents have this digest, whether it
  was there before, was completed from an interrupted download, or was fetched anew, and however
  often the transfer failed in between.
\<close>

theorem fetched_file_verified:
  assumes "disk_laws dk" and "pf_sha256 f = ''sha256:'' @ hex" and "list_all is_lower_hex hex"
    and "fetch cr out pol sha dk tm f dir s = (Ok path, s')"
  shows "path = path_join dir hex \<and> (\<exists>b. dk_file dk (ds_disk s') path = Some b \<and> sha b = hex)"
  by (rule fetch_file [OF assms])

text \<open>A disk whose operations always succeed, and a network that has one answer.\<close>

definition memory_disk :: "(string, string) btree disk_ops" where
  "memory_disk = \<lparr>dk_file = bt_get,
     dk_exists = (\<lambda>p d. bt_get d p \<noteq> None),
     dk_read = (\<lambda>p d. case bt_get d p of None \<Rightarrow> Err Storage | Some b \<Rightarrow> Ok b),
     dk_open = (\<lambda>p trunc d. (Ok (), bt_insert p (if trunc then [] else case bt_get d p of None \<Rightarrow> [] | Some b \<Rightarrow> b) d)),
     dk_create_new = (\<lambda>p d. if bt_get d p = None then (Ok (), bt_insert p [] d) else (Err Storage, d)),
     dk_append = (\<lambda>p c d. case bt_get d p of None \<Rightarrow> (Err Storage, d) | Some b \<Rightarrow> (Ok (), bt_insert p (b @ c) d)),
     dk_sync = (\<lambda>p d. (Ok (), d)),
     dk_rename = (\<lambda>p q d. case bt_get d p of None \<Rightarrow> (Err Storage, d) | Some b \<Rightarrow> (Ok (), bt_insert q b (bt_remove p d))),
     dk_remove = (\<lambda>p d. (Ok (), bt_remove p d))\<rparr>"

lemma memory_disk_laws: "disk_laws memory_disk"
  unfolding disk_laws_def memory_disk_def by (simp split: option.splits)

definition demo_outside :: "unit outside" where
  "demo_outside = \<lparr>parse_ip = (\<lambda>_. None), lookup_host = (\<lambda>_ _ w. (Some [V4 (Octets 8 8 8 8)], w)),
     client_builds = (\<lambda>_. True),
     transmit = (\<lambda>_ w. (Ok \<lparr>rs_status = 200, rs_headers = [], rs_content_length = None, rs_chunks = [Ok ''abc'']\<rparr>, w)),
     deadline = (\<lambda>_ _. None), header_to_str = Some, header_name_ok = (\<lambda>_. True), header_value_ok = (\<lambda>_. True),
     call_plugin = (\<lambda>_ _ w. (None, w))\<rparr>"

definition demo_timing :: "unit timing" where
  "demo_timing = \<lparr>events = (\<lambda>r _. (0, map (\<lambda>c. (Arrived c, 1)) (rs_chunks r))), too_slow = (\<lambda>_ _. False), stall_window = 60\<rparr>"

definition demo_probe :: "(string, string) btree probe" where
  "demo_probe d = Ok \<lparr>sp_available = 500, sp_size = 1000, sp_block = 1\<rparr>"

definition demo_download :: "(unit, (string, string) btree) download_state" where
  "demo_download = \<lparr>ds_net = \<lparr>world = (), sent = [], handler_inputs = []\<rparr>, ds_disk = [], ds_progress = []\<rparr>"

definition demo_pinned :: pinned_file where
  "demo_pinned = \<lparr>pf_url = ''u'', pf_sha256 = ''sha256:abc'', pf_bytes = None\<rparr>"

text \<open>Witness of C19: with the digest that maps a text to itself, the file that holds its own name is fetched.\<close>

theorem fetched_file_verified_witness:
  "case fetch demo_crate demo_outside Public (\<lambda>x. x) memory_disk demo_timing demo_pinned ''d'' demo_download of
     (r, s) \<Rightarrow> r = Ok ''d/abc'' \<and> dk_file memory_disk (ds_disk s) ''d/abc'' = Some ''abc''"
proof -
  let ?run = "fetch demo_crate demo_outside Public (\<lambda>x. x) memory_disk demo_timing demo_pinned ''d'' demo_download"
  have "fst ?run = Ok ''d/abc''"
    by (simp add: demo_crate_def demo_url_def demo_outside_def demo_timing_def demo_pinned_def demo_download_def
        memory_disk_def fetch_def attempt_def save_part_def resume_total_def ranged_response_def send_def send_within_def
        client_def validate_def eq_ignore_ascii_case_def to_ascii_lowercase_def byte_in_def do_transmit_def hop_request_def
        strip_prefix_def trim_start_matches.simps path_join_def is_absolute_def trim_brackets_def on_disk_def
        meter_round_def report_def bt_remove_def bt_get_def less_char_def Let_def upt_conv_Cons)
  then have run: "?run = (Ok ''d/abc'', snd ?run)" by (metis prod.collapse)
  have "pf_sha256 demo_pinned = ''sha256:'' @ ''abc''" and "list_all is_lower_hex ''abc''" by code_simp+
  from fetched_file_verified [OF memory_disk_laws this run]
  have "dk_file memory_disk (ds_disk (snd ?run)) ''d/abc'' = Some ''abc''" by auto
  then show ?thesis by (subst run) simp
qed

subsection \<open>Games and the floor\<close>

lemma floor_reserve_OkD:
  assumes "floor_reserve probe n fl d = (Ok (), fl')"
  obtains sp where "probe d = Ok sp" "n \<le> min (sp_available sp) (fl_start fl - fl_written fl) - floor_of sp"
    "fl' = fl\<lparr>fl_written := fl_written fl + n\<rparr>"
  using assms
  by (auto simp: floor_reserve_def floor_room_def floor_measure_def split: result.splits if_splits prod.splits)

text \<open>
  What the loop of a game download keeps: the bytes so far are those of the file, the lead is its
  beginning, and the bytes are counted against the space of the start.
\<close>

definition game_inv ::
  "'d disk_ops \<Rightarrow> nat \<Rightarrow> string \<Rightarrow> floor \<Rightarrow> string \<Rightarrow> nat \<Rightarrow> ('w, 'd) download_state \<Rightarrow> bool" where
  "game_inv dk keep path fl lead n s \<longleftrightarrow>
     (\<exists>b. dk_file dk (ds_disk s) path = Some b \<and> n = length b \<and> lead = take 512 b) \<and>
     fl_written fl = n \<and> (n = 0 \<or> n + keep \<le> fl_start fl)"

lemma game_inv_chunk:
  assumes "disk_laws dk" and "\<And>d sp. probe d = Ok sp \<Longrightarrow> keep \<le> floor_of sp"
    and "game_inv dk keep path fl lead n s" and "floor_reserve probe (length chunk) fl (ds_disk s) = (Ok (), fl')"
    and "on_disk (dk_append dk path chunk) s = (Ok (), s')"
  shows "game_inv dk keep path fl' (if length lead < 512 then lead @ take (512 - length lead) chunk else lead)
    (n + length chunk) s' \<and> fl_start fl' = fl_start fl"
proof -
  from assms(3) obtain b where b: "dk_file dk (ds_disk s) path = Some b" "n = length b" "lead = take 512 b"
    by (auto simp: game_inv_def)
  from floor_reserve_OkD [OF assms(4)] obtain sp where sp: "probe (ds_disk s) = Ok sp"
    "length chunk \<le> min (sp_available sp) (fl_start fl - fl_written fl) - floor_of sp"
    "fl' = fl\<lparr>fl_written := fl_written fl + length chunk\<rparr>" by blast
  have "dk_file dk (ds_disk s') path = Some (b @ chunk)"
    by (rule append_file [OF assms(1) on_disk_OkD [OF assms(5)] b(1)])
  moreover have "(if length lead < 512 then lead @ take (512 - length lead) chunk else lead) = take 512 (b @ chunk)"
    unfolding b(3) by auto
  moreover have "n + length chunk = 0 \<or> n + length chunk + keep \<le> fl_start fl"
  proof (cases "chunk = []")
    case False
    then have "0 < length chunk" by simp
    with sp(2) have "length chunk + floor_of sp \<le> fl_start fl - fl_written fl" by linarith
    with assms(2) [OF sp(1)] assms(3) \<open>0 < length chunk\<close> show ?thesis unfolding game_inv_def by linarith
  qed (use assms(3) in \<open>simp add: game_inv_def\<close>)
  ultimately show ?thesis using assms(3) b(2) sp(3) by (auto simp: game_inv_def)
qed

lemma game_inv_disk: "ds_disk s' = ds_disk s \<Longrightarrow> game_inv dk keep path fl lead n s' = game_inv dk keep path fl lead n s"
  by (simp add: game_inv_def)

lemma receive_game_chunk:
  assumes "receive_game dk probe tm path whole ((Arrived (Ok chunk), now) # evs) fl lead n m s = (Ok r, fl', s')"
  obtains fl1 s1 m' s2 where "floor_reserve probe (length chunk) fl (ds_disk s) = (Ok (), fl1)"
    "on_disk (dk_append dk path chunk) s = (Ok (), s1)" "meter_round tm now (n + length chunk) whole m s1 = (Ok m', s2)"
    "receive_game dk probe tm path whole evs fl1 (if length lead < 512 then lead @ take (512 - length lead) chunk else lead)
       (n + length chunk) m' s2 = (Ok r, fl', s')"
proof -
  define lead' where "lead' = (if length lead < 512 then lead @ take (512 - length lead) chunk else lead)"
  note step = assms [unfolded receive_game.simps Let_def body_event.case result.case, folded lead'_def]
  obtain a fl1 where a: "floor_reserve probe (length chunk) fl (ds_disk s) = (a, fl1)"
    by (cases "floor_reserve probe (length chunk) fl (ds_disk s)")
  obtain b s1 where b: "on_disk (dk_append dk path chunk) s = (b, s1)" by (cases "on_disk (dk_append dk path chunk) s")
  obtain c s2 where c: "meter_round tm now (n + length chunk) whole m s1 = (c, s2)"
    by (cases "meter_round tm now (n + length chunk) whole m s1")
  have ok: "a = Ok ()" using step a by (cases a) simp_all
  have "\<not> (length lead < 512 \<and> length lead' = 512 \<and> html_lead lead')" using step a ok by auto
  note step' = step [unfolded if_not_P [OF this]]
  have ok': "b = Ok ()" using step' a b ok by (cases b) simp_all
  obtain m' where ok'': "c = Ok m'" using step' a b c ok ok' by (cases c) simp_all
  have "receive_game dk probe tm path whole evs fl1 lead' (n + length chunk) m' s2 = (Ok r, fl', s')"
    using step' a b c ok ok' ok'' by simp
  with a b c ok ok' ok'' that show thesis unfolding lead'_def by blast
qed

lemma receive_game_inv:
  assumes "disk_laws dk" and "\<And>d sp. probe d = Ok sp \<Longrightarrow> keep \<le> floor_of sp"
  shows "receive_game dk probe tm path whole evs fl lead n m s = (Ok (lead', n'), fl', s') \<Longrightarrow>
    game_inv dk keep path fl lead n s \<Longrightarrow> game_inv dk keep path fl' lead' n' s' \<and> fl_start fl' = fl_start fl"
proof (induction evs arbitrary: fl lead n m s)
  case (Cons e evs)
  obtain ev now where e: "e = (ev, now)" by (cases e)
  consider "ev = Tick" | err where "ev = Arrived (Err err)" | chunk where "ev = Arrived (Ok chunk)"
    by (metis body_event.exhaust result.exhaust)
  then show ?case
  proof cases
    case 1
    with Cons.prems(1) e obtain m' s1 where r: "meter_round tm now n whole m s = (Ok m', s1)"
      "receive_game dk probe tm path whole evs fl lead n m' s1 = (Ok (lead', n'), fl', s')"
      by (auto split: prod.splits result.splits)
    have "ds_disk s1 = ds_disk s" using meter_round_disk [of tm now n whole m s] r(1) by simp
    from Cons.IH [OF r(2)] Cons.prems(2) game_inv_disk [OF this] show ?thesis by simp
  next
    case 2
    with Cons.prems(1) e show ?thesis by simp
  next
    case (3 chunk)
    let ?lead = "if length lead < 512 then lead @ take (512 - length lead) chunk else lead"
    from receive_game_chunk [OF Cons.prems(1) [unfolded e 3]] obtain fl1 s1 m' s2 where
      r: "floor_reserve probe (length chunk) fl (ds_disk s) = (Ok (), fl1)"
      "on_disk (dk_append dk path chunk) s = (Ok (), s1)" "meter_round tm now (n + length chunk) whole m s1 = (Ok m', s2)"
      "receive_game dk probe tm path whole evs fl1 ?lead (n + length chunk) m' s2 = (Ok (lead', n'), fl', s')" .
    from game_inv_chunk [OF assms Cons.prems(2) r(1,2)]
    have inv: "game_inv dk keep path fl1 ?lead (n + length chunk) s1" and start: "fl_start fl1 = fl_start fl" by simp_all
    have "ds_disk s2 = ds_disk s1" using meter_round_disk [of tm now "n + length chunk" whole m s1] r(3) by simp
    from Cons.IH [OF r(4)] inv start game_inv_disk [OF this] show ?thesis by simp
  qed
qed simp

lemma stage_game_OkD:
  assumes laws: "disk_laws dk" and keep: "\<And>d sp. probe d = Ok sp \<Longrightarrow> keep \<le> floor_of sp"
    and new: "dk_file dk (ds_disk s) path = Some []" "fl_written fl = 0"
    and ok: "stage_game dk probe tm path whole r fl s = (Ok g, s')"
  shows "dg_path g = path \<and> (\<exists>b. dk_file dk (ds_disk s') path = Some b \<and> dg_bytes g = length b \<and> b \<noteq> [] \<and>
    dg_lead g = take 512 b \<and> \<not> html_lead (take 512 b) \<and> length b + keep \<le> fl_start fl)"
proof -
  obtain start evs where ev: "events tm r (world (ds_net s)) = (start, evs)" by (cases "events tm r (world (ds_net s))")
  let ?s1 = "report \<lparr>pg_done = 0, pg_total = whole, pg_rate = None\<rparr> s"
  let ?m = "\<lparr>mt_window_start = start, mt_window_bytes = 0, mt_samples = [(start, 0)]\<rparr>"
  obtain res fl2 s2 where rg: "receive_game dk probe tm path whole evs fl [] 0 ?m ?s1 = (res, fl2, s2)"
    by (cases "receive_game dk probe tm path whole evs fl [] 0 ?m ?s1")
  obtain lead n where res: "res = Ok (lead, n)" using ok ev rg by (cases res) (auto simp: stage_game_def Let_def)
  note step = ok [unfolded stage_game_def ev Let_def, simplified, unfolded rg res, simplified]
  have n: "n \<noteq> 0" and html: "\<not> html_lead lead" using step by (auto split: if_splits)
  obtain s3 where sy: "on_disk (dk_sync dk path) s2 = (Ok (), s3)"
    and g: "g = \<lparr>dg_path = path, dg_bytes = n, dg_lead = lead\<rparr>" "s' = s3"
    using step n html by (auto split: prod.splits result.splits)
  have "game_inv dk keep path fl [] 0 ?s1" using new by (simp add: game_inv_def report_def)
  from receive_game_inv [OF laws keep rg [unfolded res] this]
  have "game_inv dk keep path fl2 lead n s2" and "fl_start fl2 = fl_start fl" by simp_all
  moreover have "dk_file dk (ds_disk s') path = dk_file dk (ds_disk s2) path"
    using sync_file [OF laws on_disk_OkD [OF sy]] g by simp
  ultimately show ?thesis using n html by (auto simp: game_inv_def g(1))
qed

lemma fetch_game_cases:
  obtains e s' where "fetch_game cr out pol dk probe tm random request hs dir s = (Err e, s')" "ds_disk s' = ds_disk s"
  | r fl s1 where "fetch_game cr out pol dk probe tm random request hs dir s =
        save_game dk probe tm (path_join dir (staging_prefix @ random)) r fl s1"
      "ds_disk s1 = ds_disk s" "floor_new probe (ds_disk s) = Ok fl"
proof (cases "url_parse cr (gr_url request)")
  case None
  then show thesis by (intro that(1)) (simp_all add: fetch_game_def)
next
  case (Some u)
  obtain a n1 where a: "send cr out pol u (Only hs) (gr_form request) [] (ds_net s) = (a, n1)"
    by (cases "send cr out pol u (Only hs) (gr_form request) [] (ds_net s)")
  show thesis
  proof (cases a)
    case (Err e)
    with Some a show thesis by (intro that(1) [of e "s\<lparr>ds_net := n1\<rparr>"]) (simp_all add: fetch_game_def)
  next
    case (Ok ur)
    obtain u' r where ur: "ur = (u', r)" by (cases ur)
    show thesis
    proof (cases "admit_game out probe r (ds_disk s)")
      case (Err e)
      with Some a Ok ur show thesis by (intro that(1) [of e "s\<lparr>ds_net := n1\<rparr>"]) (simp_all add: fetch_game_def)
    next
      case adm: (Ok fl)
      then have "floor_new probe (ds_disk s) = Ok fl"
        by (auto simp: admit_game_def Let_def split: if_splits result.splits option.splits)
      with Some a Ok ur adm show thesis
        by (intro that(2) [of r fl "s\<lparr>ds_net := n1\<rparr>"]) (simp_all add: fetch_game_def)
    qed
  qed
qed

lemma drop_staged_file:
  assumes "disk_laws dk" and "is_ok (fst (dk_remove dk path (ds_disk s)))"
  shows "dk_file dk (ds_disk (drop_staged dk path s)) path = None"
proof -
  obtain r d where rd: "dk_remove dk path (ds_disk s) = (r, d)" by (cases "dk_remove dk path (ds_disk s)")
  with assms(2) have "r = Ok ()" by (cases r) simp_all
  with rd remove_file [OF assms(1), of path "ds_disk s" d] show ?thesis by (simp add: drop_staged_def on_disk_def)
qed

lemma save_game_result:
  assumes laws: "disk_laws dk" and keep: "\<And>d sp. probe d = Ok sp \<Longrightarrow> keep \<le> floor_of sp"
    and new: "fl_written fl = 0" and removes: "\<And>d. is_ok (fst (dk_remove dk path d))"
  shows "case save_game dk probe tm path r fl s of
      (Err e, s') \<Rightarrow> dk_file dk (ds_disk s') path = None
    | (Ok g, s') \<Rightarrow> dg_path g = path \<and> (\<exists>b. dk_file dk (ds_disk s') path = Some b \<and> dg_bytes g = length b \<and> b \<noteq> [] \<and>
        dg_lead g = take 512 b \<and> \<not> html_lead (take 512 b) \<and> length b + keep \<le> fl_start fl)"
proof -
  obtain a s1 where a: "on_disk (dk_create_new dk path) s = (a, s1)" by (cases "on_disk (dk_create_new dk path) s")
  obtain b s2 where b: "stage_game dk probe tm path (rs_content_length r) r fl s1 = (b, s2)"
    by (cases "stage_game dk probe tm path (rs_content_length r) r fl s1")
  show ?thesis
  proof (cases a)
    case (Err e)
    with a show ?thesis by (simp add: save_game_def drop_staged_file [OF laws removes])
  next
    case ok: (Ok u)
    show ?thesis
    proof (cases b)
      case (Err e)
      with a b ok show ?thesis by (simp add: save_game_def drop_staged_file [OF laws removes])
    next
      case (Ok g)
      have "on_disk (dk_create_new dk path) s = (Ok (), s1)" using a ok by simp
      from create_file [OF laws on_disk_OkD [OF this]]
      have "dk_file dk (ds_disk s1) path = Some []" .
      from stage_game_OkD [OF laws keep this new b [unfolded Ok]] a b ok Ok show ?thesis by (simp add: save_game_def)
    qed
  qed
qed



end
