(* ===== verification/Save_Record.thy ===== *)
theory Save_Record
  imports Ordered_Map Host_Files "HOL-Library.Multiset" "HOL-Library.Product_Lexorder"
begin

text \<open>
  Records of the save history, \<open>services/korrid/src/saves/record.rs\<close> and \<open>types.rs\<close>. A record is
  immutable and is named by the hash of its canonical bytes: parents, locations and files in
  order, as JSON with sorted keys. The time parser, the printer of JSON and the SHA-256 digest are
  outside the sources and are the fields of \<open>save_codec\<close>.

  The main facts: the canonical bytes do not depend on the order in which a record lists its
  parents, locations and files, and, for a printer that is injective, on nothing less than its content.
\<close>

subsection \<open>Types\<close>

datatype save_error = SaveStorage string | SaveInvalid string | SaveMissing | SaveSplit | SaveInUse | SavePanic string

text \<open>\<open>SavePanic\<close> stands for a failed \<open>expect\<close>; no operation returns it.\<close>

datatype save_kind = Save | Savestate | Screenshot

primrec save_kind_rank :: "save_kind \<Rightarrow> nat" where
  "save_kind_rank Save = 0"
| "save_kind_rank Savestate = 1"
| "save_kind_rank Screenshot = 2"

lemma save_kind_rank_inject: "save_kind_rank a = save_kind_rank b \<Longrightarrow> a = b"
  by (cases a; cases b) simp_all

instantiation save_kind :: linorder
begin

definition less_eq_save_kind :: "save_kind \<Rightarrow> save_kind \<Rightarrow> bool" where
  "less_eq_save_kind a b \<longleftrightarrow> save_kind_rank a \<le> save_kind_rank b"

definition less_save_kind :: "save_kind \<Rightarrow> save_kind \<Rightarrow> bool" where
  "less_save_kind a b \<longleftrightarrow> save_kind_rank a < save_kind_rank b"

instance
  by intro_classes (auto simp: less_eq_save_kind_def less_save_kind_def intro: save_kind_rank_inject)

end

record save_location =
  sl_key :: string
  sl_kind :: save_kind
  sl_path :: string

record save_file =
  sf_path :: string
  sf_sha256 :: string
  sf_bytes :: nat

record snapshot_location =
  lo_key :: string
  lo_kind :: save_kind
  lo_files :: "save_file list"

record snapshot_record =
  sr_parents :: "string list"
  sr_game_id :: string
  sr_release_id :: "string option"
  sr_runner_id :: string
  sr_device :: string
  sr_ended_at :: string
  sr_duration_seconds :: nat
  sr_interrupted :: bool
  sr_locations :: "snapshot_location list"

subsection \<open>JSON\<close>

datatype json = JNull | JBool bool | JNumber nat | JString string | JArray "json list" | JObject "(string \<times> json) list"

text \<open>\<open>serde_json::to_value\<close> of a record, in the order of its fields.\<close>

primrec kind_json :: "save_kind \<Rightarrow> json" where
  "kind_json Save = JString ''save''"
| "kind_json Savestate = JString ''savestate''"
| "kind_json Screenshot = JString ''screenshot''"

definition file_json :: "save_file \<Rightarrow> json" where
  "file_json f = JObject [(''path'', JString (sf_path f)), (''sha256'', JString (sf_sha256 f)), (''bytes'', JNumber (sf_bytes f))]"

definition location_json :: "snapshot_location \<Rightarrow> json" where
  "location_json l =
     JObject [(''key'', JString (lo_key l)), (''kind'', kind_json (lo_kind l)), (''files'', JArray (map file_json (lo_files l)))]"

definition record_json :: "snapshot_record \<Rightarrow> json" where
  "record_json r =
     JObject ([(''parents'', JArray (map JString (sr_parents r))), (''gameId'', JString (sr_game_id r))] @
       (case sr_release_id r of None \<Rightarrow> [] | Some i \<Rightarrow> [(''releaseId'', JString i)]) @
       [(''runnerId'', JString (sr_runner_id r)), (''device'', JString (sr_device r)), (''endedAt'', JString (sr_ended_at r)),
        (''durationSeconds'', JNumber (sr_duration_seconds r)), (''interrupted'', JBool (sr_interrupted r)),
        (''locations'', JArray (map location_json (sr_locations r)))])"

definition collect_pairs :: "(string \<times> 'v) list \<Rightarrow> (string, 'v) btree" where
  "collect_pairs kvs = fold (\<lambda>(k, v). bt_insert k v) kvs []"

primrec json_sorted :: "json \<Rightarrow> json" where
  "json_sorted JNull = JNull"
| "json_sorted (JBool b) = JBool b"
| "json_sorted (JNumber n) = JNumber n"
| "json_sorted (JString s) = JString s"
| "json_sorted (JArray xs) = JArray (map json_sorted xs)"
| "json_sorted (JObject kvs) = JObject (collect_pairs (map (map_prod id json_sorted) kvs))"

subsection \<open>Canonical records\<close>

text \<open>
  \<open>utc_millis\<close> parses an RFC 3339 time and prints it in UTC with milliseconds; it is \<open>None\<close> for a
  text that is no such time. \<open>print_json\<close> is \<open>serde_json::to_vec\<close>, \<open>sha256_hex\<close> the digest in
  lower-case hexadecimal.
\<close>

record save_codec =
  utc_millis :: "string \<Rightarrow> string option"
  print_json :: "json \<Rightarrow> (string, string) result"
  sha256_hex :: "string \<Rightarrow> string"

definition save_hash :: "save_codec \<Rightarrow> string \<Rightarrow> string" where
  "save_hash c b = ''sha256:'' @ sha256_hex c b"

definition hash_hex :: "string \<Rightarrow> (string, save_error) result" where
  "hash_hex v =
     (case strip_prefix ''sha256:'' v of
        None \<Rightarrow> Err (SaveInvalid ''hash prefix'')
      | Some hex \<Rightarrow> if length hex \<noteq> 64 \<or> \<not> list_all is_lower_hex hex then Err (SaveInvalid ''hash'') else Ok hex)"

text \<open>All components of the path are \<open>Component::Normal\<close>: no root, no leading dot, no parent.\<close>

definition relative_file :: "string \<Rightarrow> (unit, save_error) result" where
  "relative_file p =
     (if p = [] \<or> CHR 0x00 \<in> set p \<or> fst (path_components p) \<or>
         list_ex (\<lambda>n. n = ''.'' \<or> n = ''..'') (snd (path_components p))
      then Err (SaveInvalid ''file path must be relative without traversal'') else Ok ())"

definition upper_hex :: "nat \<Rightarrow> char" where
  "upper_hex n = (if n < 10 then char_of (48 + n) else char_of (55 + n))"

definition uri_unreserved :: "char \<Rightarrow> bool" where
  "uri_unreserved c \<longleftrightarrow>
     (CHR ''A'' \<le> c \<and> c \<le> CHR ''Z'') \<or> (CHR ''a'' \<le> c \<and> c \<le> CHR ''z'') \<or> is_ascii_digit c \<or>
     c \<in> set ''-_.!~*'' \<or> c \<in> {CHR 0x27, CHR ''('', CHR '')''}"

definition encode_uri_component :: "string \<Rightarrow> string" where
  "encode_uri_component v =
     concat (map (\<lambda>c. if uri_unreserved c then [c]
       else [CHR ''%'', upper_hex (of_char c div 16), upper_hex (of_char c mod 16)]) v)"

definition account_root :: "string \<Rightarrow> string \<Rightarrow> (string, string) result" where
  "account_root root person =
     (if length person \<noteq> 64 \<or> \<not> list_all is_lower_hex person then Err ''device owner public key is invalid''
      else Ok (path_join (path_join root ''users'') (encode_uri_component person)))"

fun first_error :: "('a \<Rightarrow> ('b, 'e) result) \<Rightarrow> 'a list \<Rightarrow> ('b list, 'e) result" where
  "first_error f [] = Ok []"
| "first_error f (x # xs) =
     (case f x of Err e \<Rightarrow> Err e
      | Ok y \<Rightarrow> (case first_error f xs of Err e \<Rightarrow> Err e | Ok ys \<Rightarrow> Ok (y # ys)))"

fun check_files :: "string set \<Rightarrow> save_file list \<Rightarrow> (unit, save_error) result" where
  "check_files seen [] = Ok ()"
| "check_files seen (f # fs) =
     (case relative_file (sf_path f) of
        Err e \<Rightarrow> Err e
      | Ok _ \<Rightarrow>
          (case hash_hex (sf_sha256 f) of
             Err e \<Rightarrow> Err e
           | Ok _ \<Rightarrow>
               if sf_path f \<in> seen then Err (SaveInvalid ''duplicate location file'')
               else check_files (insert (sf_path f) seen) fs))"

definition sort_files :: "snapshot_location \<Rightarrow> snapshot_location" where
  "sort_files l = l\<lparr>lo_files := sort_key sf_path (lo_files l)\<rparr>"

fun check_locations :: "string set \<Rightarrow> snapshot_location list \<Rightarrow> (snapshot_location list, save_error) result" where
  "check_locations seen [] = Ok []"
| "check_locations seen (l # ls) =
     (if lo_key l = [] \<or> lo_key l \<in> seen then Err (SaveInvalid ''location key must be nonempty and unique'')
      else case check_files {} (lo_files (sort_files l)) of
          Err e \<Rightarrow> Err e
        | Ok _ \<Rightarrow>
            (case check_locations (insert (lo_key l) seen) ls of Err e \<Rightarrow> Err e | Ok ls' \<Rightarrow> Ok (sort_files l # ls')))"

definition canonical_form :: "save_codec \<Rightarrow> snapshot_record \<Rightarrow> (snapshot_record, save_error) result" where
  "canonical_form c r =
     (if sr_game_id r = [] \<or> sr_runner_id r = [] then Err (SaveInvalid ''game or runner identity'')
      else case account_root ''/'' (sr_device r) of
          Err m \<Rightarrow> Err (SaveInvalid m)
        | Ok _ \<Rightarrow>
            (case utc_millis c (sr_ended_at r) of
               None \<Rightarrow> Err (SaveInvalid ''snapshot end time'')
             | Some t \<Rightarrow>
                 if t \<noteq> sr_ended_at r then Err (SaveInvalid ''end time must be canonical UTC milliseconds'')
                 else case first_error hash_hex (sr_parents r) of
                     Err e \<Rightarrow> Err e
                   | Ok _ \<Rightarrow>
                       (case check_locations {} (sort_key lo_key (sr_locations r)) of
                          Err e \<Rightarrow> Err e
                        | Ok ls \<Rightarrow> Ok (r\<lparr>sr_parents := remdups_adj (sort (sr_parents r)), sr_locations := ls\<rparr>))))"

definition canonical_record :: "save_codec \<Rightarrow> snapshot_record \<Rightarrow> (string, save_error) result" where
  "canonical_record c r =
     (case canonical_form c r of
        Err e \<Rightarrow> Err e
      | Ok r' \<Rightarrow> (case print_json c (json_sorted (record_json r')) of Err m \<Rightarrow> Err (SaveInvalid m) | Ok b \<Rightarrow> Ok b))"

definition snapshot_id :: "save_codec \<Rightarrow> snapshot_record \<Rightarrow> (string, save_error) result" where
  "snapshot_id c r = (case canonical_record c r of Err e \<Rightarrow> Err e | Ok b \<Rightarrow> Ok (save_hash c b))"

subsection \<open>Order does not matter\<close>

lemma try_Ok [simp]: "(case r of Ok a \<Rightarrow> f a | Err e \<Rightarrow> Err (g e)) = Ok b \<longleftrightarrow> (\<exists>a. r = Ok a \<and> f a = Ok b)"
  by (cases r) simp_all

lemma check_files_Ok:
  "check_files seen fs = Ok u \<longleftrightarrow>
     distinct (map sf_path fs) \<and> set (map sf_path fs) \<inter> seen = {} \<and>
     (\<forall>f \<in> set fs. is_ok (relative_file (sf_path f)) \<and> is_ok (hash_hex (sf_sha256 f)))"
  by (induction seen fs rule: check_files.induct) (auto simp: is_ok_iff)

definition good_location :: "snapshot_location \<Rightarrow> bool" where
  "good_location l \<longleftrightarrow> lo_key l \<noteq> [] \<and> distinct (map sf_path (lo_files l)) \<and>
     (\<forall>f \<in> set (lo_files l). is_ok (relative_file (sf_path f)) \<and> is_ok (hash_hex (sf_sha256 f)))"

lemma distinct_sort_key [simp]: "distinct (map f (sort_key g xs)) \<longleftrightarrow> distinct (map f xs)"
  by (metis mset_map mset_sort mset_eq_imp_distinct_iff)

lemma sort_files_sel [simp]:
  "lo_key (sort_files l) = lo_key l" "lo_kind (sort_files l) = lo_kind l"
  "lo_files (sort_files l) = sort_key sf_path (lo_files l)"
  by (simp_all add: sort_files_def)

lemma check_locations_Ok:
  "check_locations seen ls = Ok ls' \<longleftrightarrow>
     ls' = map sort_files ls \<and> distinct (map lo_key ls) \<and> set (map lo_key ls) \<inter> seen = {} \<and> list_all good_location ls"
  by (induction seen ls arbitrary: ls' rule: check_locations.induct)
    (auto simp: check_files_Ok good_location_def)

lemma first_error_Ok: "first_error f xs = Ok ys \<longleftrightarrow> list_all2 (\<lambda>x y. f x = Ok y) xs ys"
  by (induction xs arbitrary: ys) (auto simp: list_all2_Cons1)

lemma first_error_is_ok: "is_ok (first_error f xs) \<longleftrightarrow> (\<forall>x \<in> set xs. is_ok (f x))"
  by (induction xs) (auto simp: is_ok_iff)

definition good_record :: "save_codec \<Rightarrow> snapshot_record \<Rightarrow> bool" where
  "good_record c r \<longleftrightarrow>
     sr_game_id r \<noteq> [] \<and> sr_runner_id r \<noteq> [] \<and> is_ok (account_root ''/'' (sr_device r)) \<and>
     utc_millis c (sr_ended_at r) = Some (sr_ended_at r) \<and> (\<forall>p \<in> set (sr_parents r). is_ok (hash_hex p)) \<and>
     distinct (map lo_key (sr_locations r)) \<and> list_all good_location (sr_locations r)"

definition arranged :: "snapshot_record \<Rightarrow> snapshot_record" where
  "arranged r = r\<lparr>sr_parents := remdups_adj (sort (sr_parents r)),
                  sr_locations := map sort_files (sort_key lo_key (sr_locations r))\<rparr>"

lemma canonical_form_Ok: "canonical_form c r = Ok q \<longleftrightarrow> good_record c r \<and> q = arranged r"
proof -
  have p: "(\<forall>p \<in> set (sr_parents r). is_ok (hash_hex p)) \<longleftrightarrow> (\<exists>ps. first_error hash_hex (sr_parents r) = Ok ps)"
    using first_error_is_ok [of hash_hex "sr_parents r"] by (simp add: is_ok_iff [of "first_error _ _"])
  have l: "list_all good_location (sort_key lo_key (sr_locations r)) \<longleftrightarrow> list_all good_location (sr_locations r)"
    by (simp add: list_all_iff)
  show ?thesis
    unfolding canonical_form_def good_record_def arranged_def p is_ok_iff [of "account_root _ _"]
    by (auto simp: check_locations_Ok l split: option.splits)
qed

lemma distinct_remdups_adj_sorted: "sorted xs \<Longrightarrow> distinct (remdups_adj xs)"
  by (induction xs rule: remdups_adj.induct) auto

lemma sorted_set_unique:
  assumes "set xs = set (ys :: 'a::linorder list)"
  shows "remdups_adj (sort xs) = remdups_adj (sort ys)"
  by (rule sorted_distinct_set_unique) (simp_all add: distinct_remdups_adj_sorted assms)

text \<open>
  The content of a record: its fields with the set of parents and the multisets of locations and
  files, without their order.
\<close>

definition location_content :: "snapshot_location \<Rightarrow> string \<times> save_kind \<times> save_file multiset" where
  "location_content l = (lo_key l, lo_kind l, mset (lo_files l))"

definition same_content :: "snapshot_record \<Rightarrow> snapshot_record \<Rightarrow> bool" where
  "same_content r r' \<longleftrightarrow>
     set (sr_parents r) = set (sr_parents r') \<and>
     r\<lparr>sr_parents := [], sr_locations := []\<rparr> = r'\<lparr>sr_parents := [], sr_locations := []\<rparr> \<and>
     mset (map location_content (sr_locations r)) = mset (map location_content (sr_locations r'))"

lemma location_content_sort_files [simp]: "location_content (sort_files l) = location_content l"
  by (simp add: location_content_def)

lemma sort_files_content:
  assumes "location_content l = location_content l'" and "distinct (map sf_path (lo_files l))"
  shows "sort_files l = sort_files l'"
proof -
  have "sort_key sf_path (lo_files l) = sort_key sf_path (lo_files l')"
    by (rule sort_key_inj_key_eq) (use assms in \<open>simp_all add: location_content_def distinct_map\<close>)
  then show ?thesis using assms(1) by (simp add: sort_files_def location_content_def)
qed

lemma good_location_content:
  assumes "location_content l = location_content l'" and "good_location l"
  shows "good_location l'"
proof -
  have files: "mset (lo_files l) = mset (lo_files l')" using assms(1) by (simp add: location_content_def)
  then have "mset (map sf_path (lo_files l)) = mset (map sf_path (lo_files l'))" by simp
  then have "distinct (map sf_path (lo_files l'))"
    using assms(2) unfolding good_location_def by (metis mset_eq_imp_distinct_iff)
  then show ?thesis
    using assms mset_eq_setD [OF files] by (simp add: good_location_def location_content_def)
qed

lemma locations_content_cases:
  assumes "mset (map location_content ls) = mset (map location_content ls')" and "l \<in> set ls"
  obtains l' where "l' \<in> set ls'" and "location_content l' = location_content l"
proof -
  have "location_content l \<in> set (map location_content ls')"
    using assms(2) mset_eq_setD [OF assms(1)] by (metis image_eqI set_map)
  then show ?thesis using that by auto
qed

lemma keys_of_content: "map lo_key ls = map fst (map location_content ls)"
  by (simp add: location_content_def)

lemma same_content_locations:
  assumes same: "mset (map location_content ls) = mset (map location_content ls')"
    and good: "distinct (map lo_key ls)" "list_all good_location ls"
  shows "distinct (map lo_key ls')" and "list_all good_location ls'"
    and "map sort_files (sort_key lo_key ls) = map sort_files (sort_key lo_key ls')"
proof -
  have "mset (map lo_key ls) = mset (map lo_key ls')"
    unfolding keys_of_content mset_map [of fst] by (simp only: same)
  then show keys: "distinct (map lo_key ls')" using good(1) by (metis mset_eq_imp_distinct_iff)
  show all: "list_all good_location ls'"
    unfolding list_all_iff using good(2) same
    by (metis good_location_content list_all_iff locations_content_cases)
  have sub: "sort_files ` set as \<subseteq> sort_files ` set bs"
    if "mset (map location_content as) = mset (map location_content bs)" "list_all good_location as" for as bs
  proof
    fix x assume "x \<in> sort_files ` set as"
    then obtain l where l: "x = sort_files l" "l \<in> set as" by blast
    from locations_content_cases [OF that(1) l(2)]
    obtain l' where l': "l' \<in> set bs" "location_content l' = location_content l" .
    have "sort_files l = sort_files l'"
      using that(2) l(2) l'(2) by (intro sort_files_content) (auto simp: list_all_iff good_location_def)
    with l l' show "x \<in> sort_files ` set bs" by simp
  qed
  have d: "distinct (map sort_files as)" if "distinct (map lo_key as)" for as
    using that by (auto simp: distinct_map inj_on_def dest: arg_cong [where f = lo_key])
  have m: "mset (map sort_files ls) = mset (map sort_files ls')"
    using sub [OF same good(2)] sub [OF same [symmetric] all] d [OF good(1)] d [OF keys]
    by (subst set_eq_iff_mset_eq_distinct [symmetric]) auto
  have s: "map sort_files (sort_key lo_key as) = sort_key lo_key (map sort_files as)" if "distinct (map lo_key as)" for as
    using that by (intro sort_key_inj_key_eq [symmetric]) (auto simp: distinct_map inj_on_def comp_def)
  show "map sort_files (sort_key lo_key ls) = map sort_files (sort_key lo_key ls')"
    unfolding s [OF good(1)] s [OF keys]
  proof (rule sort_key_inj_key_eq)
    show "mset (map sort_files ls) = mset (sort_key lo_key (map sort_files ls'))" by (simp only: m mset_sort)
    show "inj_on lo_key (set (map sort_files ls))" using good(1) by (auto simp: distinct_map inj_on_def)
  qed simp
qed

lemma arranged_same_content:
  assumes "good_record c r"
  shows "arranged r = arranged r' \<longleftrightarrow> same_content r r'"
proof
  assume a: "arranged r = arranged r'"
  have p: "set (sr_parents (arranged q)) = set (sr_parents q)" for q by (simp add: arranged_def)
  have l: "mset (map location_content (sr_locations (arranged q))) = mset (map location_content (sr_locations q))" for q
  proof -
    have "map location_content (sr_locations (arranged q)) = map location_content (sort_key lo_key (sr_locations q))"
      by (simp add: arranged_def)
    then show ?thesis by (simp only: mset_map mset_sort)
  qed
  have "(arranged q)\<lparr>sr_parents := [], sr_locations := []\<rparr> = q\<lparr>sr_parents := [], sr_locations := []\<rparr>" for q
    by (simp add: arranged_def)
  from this [of r] this [of r'] have "r\<lparr>sr_parents := [], sr_locations := []\<rparr> = r'\<lparr>sr_parents := [], sr_locations := []\<rparr>"
    by (simp add: a)
  then show "same_content r r'"
    unfolding same_content_def p [of r, symmetric] p [of r', symmetric] l [of r, symmetric] l [of r', symmetric]
    by (simp add: a)
next
  assume same: "same_content r r'"
  have "map sort_files (sort_key lo_key (sr_locations r)) = map sort_files (sort_key lo_key (sr_locations r'))"
    using same assms by (intro same_content_locations(3)) (simp_all add: same_content_def good_record_def)
  moreover have "remdups_adj (sort (sr_parents r)) = remdups_adj (sort (sr_parents r'))"
    using same by (intro sorted_set_unique) (simp add: same_content_def)
  ultimately show "arranged r = arranged r'"
    using same by (cases r; cases r') (simp add: arranged_def same_content_def)
qed

lemma same_content_good:
  assumes "same_content r r'" and "good_record c r"
  shows "good_record c r'"
proof -
  have "sr_game_id r = sr_game_id r'" "sr_runner_id r = sr_runner_id r'" "sr_device r = sr_device r'"
    "sr_ended_at r = sr_ended_at r'"
    using assms(1) by (cases r; cases r'; simp add: same_content_def)+
  moreover have "mset (map location_content (sr_locations r)) = mset (map location_content (sr_locations r'))"
    "distinct (map lo_key (sr_locations r))" "list_all good_location (sr_locations r)"
    using assms by (simp_all add: same_content_def good_record_def)
  note same_content_locations(1, 2) [OF this]
  ultimately show ?thesis
    using assms by (simp add: good_record_def same_content_def)
qed

lemma arranged_content: "same_content r (arranged r)"
proof -
  have "map location_content (sr_locations (arranged r)) = map location_content (sort_key lo_key (sr_locations r))"
    by (simp add: arranged_def)
  then have "mset (map location_content (sr_locations (arranged r))) = mset (map location_content (sr_locations r))"
    by (simp only: mset_map mset_sort)
  then show ?thesis by (simp add: same_content_def arranged_def)
qed

lemma relative_file_inside:
  "is_ok (relative_file p) \<Longrightarrow> \<not> fst (path_components p) \<and> ''..'' \<notin> set (snd (path_components p))"
  by (auto simp: relative_file_def is_ok_iff list_ex_iff split: if_splits)

text \<open>
  C21. Validating a record gives a well-formed record of the same content: parents, location keys
  and the paths of each location are strictly ascending, so that none occurs twice, every path
  stays inside its location, and validating the result again gives it back.
\<close>

theorem canonical_form_well_formed:
  assumes "canonical_form c r = Ok q"
  shows "good_record c q \<and> same_content r q \<and> canonical_form c q = Ok q \<and>
    sorted_wrt (<) (sr_parents q) \<and> sorted_wrt (<) (map lo_key (sr_locations q)) \<and>
    (\<forall>l \<in> set (sr_locations q). sorted_wrt (<) (map sf_path (lo_files l)) \<and>
       (\<forall>f \<in> set (lo_files l). \<not> fst (path_components (sf_path f)) \<and> ''..'' \<notin> set (snd (path_components (sf_path f)))))"
proof -
  from assms have good: "good_record c r" and q: "q = arranged r" by (simp_all add: canonical_form_Ok)
  have same: "same_content r q" unfolding q by (rule arranged_content)
  have gq: "good_record c q" by (rule same_content_good [OF same good])
  have "arranged q = q" using arranged_same_content [OF good, of q] same q by simp
  then have "canonical_form c q = Ok q" using gq by (simp add: canonical_form_Ok)
  moreover have "sorted_wrt (<) (sr_parents q)"
    by (simp add: q arranged_def strict_sorted_iff distinct_remdups_adj_sorted)
  moreover have "distinct (map lo_key (sr_locations q))" using gq by (simp add: good_record_def)
  then have "sorted_wrt (<) (map lo_key (sr_locations q))" by (simp add: q arranged_def strict_sorted_iff comp_def)
  moreover have "sorted_wrt (<) (map sf_path (lo_files l))" if "l \<in> set (sr_locations q)" for l
    using that gq by (auto simp: q arranged_def strict_sorted_iff good_record_def good_location_def list_all_iff)
  moreover have "\<not> fst (path_components (sf_path f)) \<and> ''..'' \<notin> set (snd (path_components (sf_path f)))"
    if "l \<in> set (sr_locations q)" "f \<in> set (lo_files l)" for l f
    using that gq by (intro relative_file_inside) (auto simp: good_record_def good_location_def list_all_iff)
  ultimately show ?thesis using same gq by simp
qed

subsection \<open>JSON tells records apart\<close>

lemma kind_json_inject [simp]: "json_sorted (kind_json a) = json_sorted (kind_json b) \<longleftrightarrow> a = b"
  by (cases a; cases b) simp_all

lemma file_json_inject [simp]: "json_sorted (file_json f) = json_sorted (file_json g) \<longleftrightarrow> f = g"
  by (cases f; cases g) (auto simp: file_json_def collect_pairs_def)

lemma map_json_inject:
  assumes "\<And>x y. json_sorted (f x) = json_sorted (f y) \<longleftrightarrow> x = y"
  shows "map (json_sorted \<circ> f) xs = map (json_sorted \<circ> f) ys \<longleftrightarrow> xs = ys"
  by (rule inj_map_eq_map) (simp add: inj_on_def assms)

lemma location_json_inject [simp]: "json_sorted (location_json l) = json_sorted (location_json m) \<longleftrightarrow> l = m"
  by (cases l; cases m) (auto simp: location_json_def collect_pairs_def map_json_inject)

lemma record_json_inject: "json_sorted (record_json r) = json_sorted (record_json q) \<longleftrightarrow> r = q"
  by (cases r; cases q; cases "sr_release_id r"; cases "sr_release_id q")
    (auto simp: record_json_def collect_pairs_def map_json_inject)

lemma canonical_record_Ok:
  "canonical_record c r = Ok b \<longleftrightarrow> good_record c r \<and> print_json c (json_sorted (record_json (arranged r))) = Ok b"
  by (auto simp: canonical_record_def canonical_form_Ok)

lemma canonical_record_content:
  assumes "good_record c r" and "same_content r r'"
  shows "canonical_record c r' = canonical_record c r"
proof -
  have q: "canonical_form c q = Ok (arranged q)" if "good_record c q" for q using that by (simp add: canonical_form_Ok)
  have "arranged r' = arranged r" using arranged_same_content [OF assms(1), of r'] assms(2) by simp
  then show ?thesis
    by (simp add: canonical_record_def q [OF assms(1)] q [OF same_content_good [OF assms(2) assms(1)]])
qed

text \<open>
  C22. The bytes that name a record are those of its content: another record has the same canonical
  bytes exactly when it has the same fields, the same set of parents and the same locations with
  the same files, whatever the order in which it lists them. Devices that assemble a snapshot in
  different orders agree on its id, and an id never stands for two contents (up to the digest).
  The printer of JSON is assumed to tell values apart.
\<close>

theorem record_identity_exact:
  assumes "canonical_record c r = Ok b"
    and "\<And>v w. print_json c v = Ok b \<Longrightarrow> print_json c w = Ok b \<Longrightarrow> v = w"
  shows "canonical_record c r' = Ok b \<longleftrightarrow> same_content r r'"
proof -
  have good: "good_record c r" and b: "print_json c (json_sorted (record_json (arranged r))) = Ok b"
    using assms(1) by (simp_all add: canonical_record_Ok)
  show ?thesis
  proof
    assume "canonical_record c r' = Ok b"
    then have "print_json c (json_sorted (record_json (arranged r'))) = Ok b" by (simp add: canonical_record_Ok)
    from assms(2) [OF b this] show "same_content r r'"
      by (simp add: record_json_inject arranged_same_content [OF good])
  next
    assume "same_content r r'"
    from canonical_record_content [OF good this] assms(1) show "canonical_record c r' = Ok b" by simp
  qed
qed

text \<open>A snapshot with two parents and two files, and a printer that knows only its value.\<close>

definition demo_file :: "string \<Rightarrow> char \<Rightarrow> save_file" where
  "demo_file p x = \<lparr>sf_path = p, sf_sha256 = ''sha256:'' @ replicate 64 x, sf_bytes = 1\<rparr>"

definition demo_snapshot :: "string list \<Rightarrow> save_file list \<Rightarrow> snapshot_record" where
  "demo_snapshot ps fs =
     \<lparr>sr_parents = ps, sr_game_id = ''g'', sr_release_id = None, sr_runner_id = ''r'', sr_device = replicate 64 CHR ''d'',
      sr_ended_at = ''t'', sr_duration_seconds = 1, sr_interrupted = False,
      sr_locations = [\<lparr>lo_key = ''k'', lo_kind = Save, lo_files = fs\<rparr>]\<rparr>"

definition demo_codec :: "json \<Rightarrow> save_codec" where
  "demo_codec j = \<lparr>utc_millis = Some, print_json = (\<lambda>v. if v = j then Ok ''x'' else Err ''unknown''), sha256_hex = id\<rparr>"

text \<open>Witness of C22: the two files listed in both orders.\<close>

theorem record_identity_exact_witness:
  "let fs = [demo_file ''a'' CHR ''1'', demo_file ''b'' CHR ''2''];
       r = demo_snapshot [] fs; r' = demo_snapshot [] (rev fs);
       c = demo_codec (json_sorted (record_json (arranged r)))
   in canonical_record c r = Ok ''x'' \<and> canonical_record c r' = Ok ''x'' \<and> r \<noteq> r'"
proof -
  let ?fs = "[demo_file ''a'' CHR ''1'', demo_file ''b'' CHR ''2'']"
  let ?r = "demo_snapshot [] ?fs"
  let ?c = "demo_codec (json_sorted (record_json (arranged ?r)))"
  have good: "good_record ?c ?r"
    unfolding good_record_def demo_codec_def by code_simp
  have b: "canonical_record ?c ?r = Ok ''x''" using good by (simp add: canonical_record_Ok demo_codec_def)
  have "same_content ?r (demo_snapshot [] (rev ?fs))"
    by (simp add: same_content_def demo_snapshot_def location_content_def)
  moreover have "?r \<noteq> demo_snapshot [] (rev ?fs)" by (simp add: demo_snapshot_def demo_file_def)
  moreover have "v = w" if "print_json ?c v = Ok ''x''" "print_json ?c w = Ok ''x''" for v w
    using that by (simp add: demo_codec_def split: if_splits)
  ultimately show ?thesis
    using record_identity_exact [OF b, of "demo_snapshot [] (rev ?fs)"] b by (simp add: Let_def)
qed

text \<open>Witness of C21: two parents, one of them given twice, and two files, all out of order.\<close>

theorem canonical_form_well_formed_witness:
  "let a = ''sha256:'' @ replicate 64 CHR ''1''; b = ''sha256:'' @ replicate 64 CHR ''2'';
       r = demo_snapshot [b, a, b] [demo_file ''b'' CHR ''2'', demo_file ''a'' CHR ''1'']
   in \<exists>q. canonical_form (demo_codec (JObject [])) r = Ok q \<and> sr_parents q = [a, b] \<and> canonical_form (demo_codec (JObject [])) q = Ok q"
proof -
  let ?a = "''sha256:'' @ replicate 64 CHR ''1''" and ?b = "''sha256:'' @ replicate 64 CHR ''2''"
  let ?r = "demo_snapshot [?b, ?a, ?b] [demo_file ''b'' CHR ''2'', demo_file ''a'' CHR ''1'']"
  have "good_record (demo_codec (JObject [])) ?r" by code_simp
  then have q: "canonical_form (demo_codec (JObject [])) ?r = Ok (arranged ?r)" by (simp add: canonical_form_Ok)
  have "sr_parents (arranged ?r) = [?a, ?b]" by code_simp
  with q canonical_form_well_formed [OF q] show ?thesis unfolding Let_def by blast
qed

end
