(* ===== verification/Save_History.thy ===== *)
theory Save_History
  imports Save_Record
begin

text \<open>
  Joining the heads of a save history, \<open>services/korrid/src/saves/history.rs\<close>. Heads with the same
  progress (everything but screenshots) join without a question, and the join holds the union of
  their screenshots; two screenshots with one name get different names. Heads with different
  progress are a split, which only a person may resolve.

  Shown here: a join never loses progress or a screenshot, it exists exactly when the progress
  agrees, and it does not depend on the order of the heads, so that devices that join the same
  heads make the same record. The search for a free name ends.
\<close>

subsection \<open>Progress\<close>

definition location_files :: "snapshot_location \<Rightarrow> (string \<times> save_kind \<times> string \<times> string) list" where
  "location_files l = map (\<lambda>f. (lo_key l, lo_kind l, sf_path f, sf_sha256 f)) (lo_files l)"

definition save_progress :: "snapshot_record \<Rightarrow> (string \<times> save_kind \<times> string \<times> string) list" where
  "save_progress r = sort (concat (map location_files (filter (\<lambda>l. lo_kind l \<noteq> Screenshot) (sr_locations r))))"

subsection \<open>Names\<close>

text \<open>
  \<open>std::path\<close> on relative paths, from the end: slashes and \<open>/.\<close> at the end are not part of a path,
  the last name is its file name unless it is \<open>.\<close> or \<open>..\<close>, and what is before it is the parent.
\<close>

function trim_tail :: "string \<Rightarrow> string" where
  "trim_tail [] = []"
| "trim_tail (c # cs) =
     (if c = CHR ''/'' then trim_tail cs
      else if c = CHR ''.'' \<and> take 1 cs = ''/'' then trim_tail (drop 1 cs)
      else c # cs)"
  by pat_completeness auto
termination by (relation "measure length") auto

definition file_name :: "string \<Rightarrow> string option" where
  "file_name p =
     (let n = rev (takeWhile (\<lambda>c. c \<noteq> CHR ''/'') (trim_tail (rev p)))
      in if n = [] \<or> n = ''.'' \<or> n = ''..'' then None else Some n)"

definition path_parent :: "string \<Rightarrow> string" where
  "path_parent p = rev (trim_tail (dropWhile (\<lambda>c. c \<noteq> CHR ''/'') (trim_tail (rev p))))"

text \<open>A file name is split at its last dot, unless that is its first character.\<close>

definition stem_extension :: "string \<Rightarrow> string \<times> string option" where
  "stem_extension n =
     (let after = rev (takeWhile (\<lambda>c. c \<noteq> CHR ''.'') (rev n));
          before = rev (drop 1 (dropWhile (\<lambda>c. c \<noteq> CHR ''.'') (rev n)))
      in if CHR ''.'' \<notin> set n \<or> before = [] then (n, None) else (before, Some after))"

text \<open>The hash was validated with the record, so that it has its prefix.\<close>

definition collision_name :: "string \<Rightarrow> string \<Rightarrow> string" where
  "collision_name p sha =
     (let (stem, extension) = (case file_name p of None \<Rightarrow> ([], None) | Some n \<Rightarrow> stem_extension n);
          hex = (case strip_prefix ''sha256:'' sha of None \<Rightarrow> [] | Some h \<Rightarrow> h);
          dotted = (case extension of None \<Rightarrow> [] | Some e \<Rightarrow> ''.'' @ e)
      in path_join (if file_name p = None then p else path_parent p) (stem @ ''~'' @ hex @ dotted))"

subsection \<open>Screenshots\<close>

text \<open>By location key, path and hash.\<close>

type_synonym shots = "(string, (string, (string, save_file) btree) btree) btree"

definition bt_entry :: "('k, ('j, 'v) btree) btree \<Rightarrow> 'k \<Rightarrow> ('j, 'v) btree" where
  "bt_entry m k = (case bt_get m k of None \<Rightarrow> [] | Some v \<Rightarrow> v)"

definition add_shot :: "string \<times> save_file \<Rightarrow> shots \<Rightarrow> shots" where
  "add_shot x m =
     (let (k, f) = x; ps = bt_entry m k; hs = bt_entry ps (sf_path f)
      in bt_insert k (bt_insert (sf_path f) (bt_insert (sf_sha256 f) f hs) ps) m)"

definition shot_files :: "snapshot_record \<Rightarrow> (string \<times> save_file) list" where
  "shot_files r = concat (map (\<lambda>l. map (Pair (lo_key l)) (lo_files l)) (filter (\<lambda>l. lo_kind l = Screenshot) (sr_locations r)))"

definition collect_shots :: "snapshot_record list \<Rightarrow> shots" where
  "collect_shots heads = fold add_shot (concat (map shot_files heads)) []"

text \<open>
  The loop that looks for a free name has as many rounds as there are files, and one more. Every
  round makes the file name longer, so that this is enough; \<open>free_name_is_free\<close> below.
\<close>

definition taken :: "(string, save_file) btree \<Rightarrow> string \<Rightarrow> string \<Rightarrow> bool" where
  "taken files name sha \<longleftrightarrow> (case bt_get files name of None \<Rightarrow> False | Some old \<Rightarrow> sf_sha256 old \<noteq> sha)"

fun free_name :: "nat \<Rightarrow> (string, save_file) btree \<Rightarrow> string \<Rightarrow> string \<Rightarrow> string" where
  "free_name 0 files name sha = name"
| "free_name (Suc n) files name sha =
     (if taken files name sha then free_name n files (collision_name name sha) sha else name)"

definition place_shot :: "string \<Rightarrow> nat \<Rightarrow> save_file \<Rightarrow> (string, save_file) btree \<Rightarrow> (string, save_file) btree" where
  "place_shot p i f files =
     (let first = (if i = 0 then p else collision_name p (sf_sha256 f));
          name = free_name (Suc (length files)) files first (sf_sha256 f)
      in bt_insert name (f\<lparr>sf_path := name\<rparr>) files)"

fun place_hashes :: "string \<Rightarrow> nat \<Rightarrow> (string, save_file) btree \<Rightarrow> (string, save_file) btree \<Rightarrow> (string, save_file) btree" where
  "place_hashes p i [] files = files"
| "place_hashes p i ((_, f) # hs) files = place_hashes p (Suc i) hs (place_shot p i f files)"

definition place_paths :: "(string, (string, save_file) btree) btree \<Rightarrow> (string, save_file) btree" where
  "place_paths ps = fold (\<lambda>(p, hs). place_hashes p 0 hs) ps []"

definition shot_locations :: "shots \<Rightarrow> snapshot_location list" where
  "shot_locations m = map (\<lambda>(k, ps). \<lparr>lo_key = k, lo_kind = Screenshot, lo_files = bt_values (place_paths ps)\<rparr>) m"

subsection \<open>Joining\<close>

definition automatic_join :: "save_codec \<Rightarrow> snapshot_record list \<Rightarrow> (snapshot_record option, save_error) result" where
  "automatic_join c heads =
     (case heads of
        [] \<Rightarrow> Ok None
      | r # _ \<Rightarrow>
          if list_ex (\<lambda>h. save_progress h \<noteq> save_progress r) heads then Ok None
          else case first_error (snapshot_id c) heads of
              Err e \<Rightarrow> Err e
            | Ok ids \<Rightarrow>
                let ordered = sort_key fst (zip ids heads);
                    base = snd (hd ordered)
                in Ok (Some (base\<lparr>sr_parents := map fst ordered, sr_interrupted := False,
                     sr_locations := filter (\<lambda>l. lo_kind l \<noteq> Screenshot) (sr_locations base) @ shot_locations (collect_shots heads)\<rparr>)))"

definition with_screenshot_union ::
  "save_codec \<Rightarrow> snapshot_record \<Rightarrow> snapshot_record list \<Rightarrow> (snapshot_record, save_error) result" where
  "with_screenshot_union c r others =
     (let kept = filter (\<lambda>l. lo_kind l \<noteq> Screenshot) (sr_locations r);
          sources = map (\<lambda>s. s\<lparr>sr_locations := filter (\<lambda>l. lo_kind l = Screenshot) (sr_locations s) @ kept\<rparr>) (others @ [r])
      in case automatic_join c sources of
           Err e \<Rightarrow> Err e
         | Ok None \<Rightarrow> Err (SavePanic ''progress was made identical'')
         | Ok (Some j) \<Rightarrow> Ok (r\<lparr>sr_locations := sr_locations j\<rparr>))"

subsection \<open>The search for a name ends\<close>

lemma stem_extension_length:
  "stem_extension n = (stem, extension) \<Longrightarrow>
   stem @ (case extension of None \<Rightarrow> [] | Some e \<Rightarrow> ''.'' @ e) = n"
proof -
  assume s: "stem_extension n = (stem, extension)"
  have "n = rev (drop 1 (dropWhile (\<lambda>c. c \<noteq> CHR ''.'') (rev n))) @ ''.'' @ rev (takeWhile (\<lambda>c. c \<noteq> CHR ''.'') (rev n))"
    if "CHR ''.'' \<in> set n"
  proof -
    have "dropWhile (\<lambda>c. c \<noteq> CHR ''.'') (rev n) \<noteq> []" using that by (simp add: dropWhile_eq_Nil_conv)
    moreover from hd_dropWhile [OF this] have "hd (dropWhile (\<lambda>c. c \<noteq> CHR ''.'') (rev n)) = CHR ''.''" by simp
    ultimately have "rev n = takeWhile (\<lambda>c. c \<noteq> CHR ''.'') (rev n) @ CHR ''.'' # drop 1 (dropWhile (\<lambda>c. c \<noteq> CHR ''.'') (rev n))"
      by (metis drop_0 drop_Suc list.collapse One_nat_def takeWhile_dropWhile_id)
    then show ?thesis by (metis append.assoc append_Cons append_Nil rev.simps(2) rev_append rev_rev_ident)
  qed
  with s show ?thesis by (auto simp: stem_extension_def Let_def split: if_splits)
qed

lemma trim_tail_name:
  assumes "n \<noteq> []" and "n \<noteq> ''.''" and "CHR ''/'' \<notin> set n"
  shows "trim_tail (rev n @ rest) = rev n @ rest"
proof -
  obtain a as where n: "rev n = a # as" using assms(1) by (cases "rev n") auto
  have "a \<noteq> CHR ''/''" "CHR ''/'' \<notin> set as" using assms(3) n by (metis list.set_intros set_rev)+
  moreover have "as \<noteq> []" if "a = CHR ''.''" using that n assms(2) by auto
  ultimately show ?thesis by (cases as) (auto simp: n)
qed

lemma file_name_join:
  assumes "n \<noteq> []" "n \<noteq> ''.''" "n \<noteq> ''..''" "CHR ''/'' \<notin> set n"
  shows "file_name (path_join p n) = Some n"
proof -
  have "hd n \<noteq> CHR ''/''" using assms(1,4) by (metis hd_in_set)
  then have "\<not> is_absolute n" using assms(1) by (cases n) (simp_all add: is_absolute_def)
  then have "\<exists>q. path_join p n = q @ n \<and> (q = [] \<or> last q = CHR ''/'')"
    by (auto simp: path_join_def)
  then obtain q where q: "path_join p n = q @ n" "q = [] \<or> last q = CHR ''/''" by blast
  have t: "takeWhile (\<lambda>c. c \<noteq> CHR ''/'') (rev n @ rev q) = rev n"
  proof (cases q rule: rev_cases)
    case Nil
    then show ?thesis using assms(4) by (simp add: takeWhile_eq_all_conv) metis
  next
    case (snoc q' x)
    then have "x = CHR ''/''" using q(2) by simp
    then show ?thesis using assms(4) snoc by (subst takeWhile_append2) auto
  qed
  show ?thesis
    using assms by (simp add: file_name_def q(1) trim_tail_name t)
qed

definition name_length :: "string \<Rightarrow> nat" where
  "name_length p = (case file_name p of None \<Rightarrow> 0 | Some n \<Rightarrow> length n)"

lemma collision_name_longer:
  assumes "is_ok (hash_hex sha)"
  shows "name_length p < name_length (collision_name p sha)"
proof -
  obtain hex where hex: "strip_prefix ''sha256:'' sha = Some hex" "list_all is_lower_hex hex"
    using assms by (auto simp: hash_hex_def split: option.splits if_splits)
  have "CHR ''/'' \<notin> set hex"
    using hex(2) by (auto simp: list_all_iff is_lower_hex_def is_ascii_digit_def less_eq_char_def)
  then have joined: "file_name (path_join q (stem @ ''~'' @ hex @ tail)) = Some (stem @ ''~'' @ hex @ tail)"
    if "CHR ''/'' \<notin> set (stem @ tail)" for q stem tail
  proof (intro file_name_join)
    have "m \<noteq> [] \<and> m \<noteq> ''.'' \<and> m \<noteq> ''..''" if "CHR ''~'' \<in> set m" for m using that by auto
    from this [of "stem @ ''~'' @ hex @ tail"]
    show "stem @ ''~'' @ hex @ tail \<noteq> []" "stem @ ''~'' @ hex @ tail \<noteq> ''.''" "stem @ ''~'' @ hex @ tail \<noteq> ''..''" by simp_all
  qed (use that in auto)
  show ?thesis
  proof (cases "file_name p")
    case None
    then show ?thesis using joined [of "[]" "[]" p] hex(1) by (simp add: collision_name_def name_length_def)
  next
    case (Some n)
    obtain stem ext where s: "stem_extension n = (stem, ext)" by (cases "stem_extension n")
    let ?dotted = "case ext of None \<Rightarrow> [] | Some e \<Rightarrow> ''.'' @ e"
    have n: "n = stem @ ?dotted" using stem_extension_length [OF s] by simp
    have "CHR ''/'' \<notin> set n"
      using Some by (auto simp: file_name_def Let_def split: if_splits dest: set_takeWhileD)
    with n have "CHR ''/'' \<notin> set (stem @ ?dotted)" by simp
    from joined [OF this, of "path_parent p"] Some s hex(1) arg_cong [OF n, of length]
    show ?thesis by (simp add: collision_name_def name_length_def)
  qed
qed

definition longer_names :: "(string, save_file) btree \<Rightarrow> nat \<Rightarrow> string set" where
  "longer_names files n = {k \<in> set (bt_keys files). n \<le> name_length k}"

lemma free_name_aux:
  assumes "is_ok (hash_hex sha)" and "card (longer_names files (name_length name)) < k"
  shows "\<not> taken files (free_name k files name sha) sha"
  using assms(2)
proof (induction k arbitrary: name)
  case (Suc k)
  show ?case
  proof (cases "taken files name sha")
    case True
    then have "name \<in> set (bt_keys files)" by (auto simp: taken_def split: option.splits intro: bt_get_keys)
    then have in_now: "name \<in> longer_names files (name_length name)" by (auto simp: longer_names_def)
    let ?next = "collision_name name sha"
    have "longer_names files (name_length ?next) \<subseteq> longer_names files (name_length name) - {name}"
      using collision_name_longer [OF assms(1), of name] by (auto simp: longer_names_def)
    moreover have "finite (longer_names files (name_length name))" by (simp add: longer_names_def)
    ultimately have "card (longer_names files (name_length ?next)) < card (longer_names files (name_length name))"
      using in_now by (meson card_Diff1_less card_mono finite_Diff le_less_trans)
    with Suc.prems have "card (longer_names files (name_length ?next)) < k" by simp
    from Suc.IH [OF this] True show ?thesis by simp
  qed simp
qed simp

lemma free_name_is_free:
  assumes "is_ok (hash_hex sha)"
  shows "\<not> taken files (free_name (Suc (length files)) files name sha) sha"
proof -
  have "card (longer_names files (name_length name)) \<le> card (set (bt_keys files))"
    by (rule card_mono) (auto simp: longer_names_def)
  also have "\<dots> \<le> length files" using card_length [of "bt_keys files"] by (simp add: bt_keys_def)
  finally have "card (longer_names files (name_length name)) < Suc (length files)" by simp
  from free_name_aux [OF assms this] show ?thesis .
qed

subsection \<open>No screenshot is lost\<close>

definition file_hashes :: "(string, save_file) btree \<Rightarrow> string set" where
  "file_hashes files = {s. \<exists>n f. bt_get files n = Some f \<and> sf_sha256 f = s}"

lemma file_hashes_insert:
  assumes "\<not> taken files name (sf_sha256 g)"
  shows "file_hashes (bt_insert name g files) = insert (sf_sha256 g) (file_hashes files)"
proof
  show "file_hashes (bt_insert name g files) \<subseteq> insert (sf_sha256 g) (file_hashes files)"
    by (auto simp: file_hashes_def split: if_splits)
  have "sf_sha256 f \<in> file_hashes (bt_insert name g files)" if f: "bt_get files n = Some f" for n f
  proof (cases "n = name")
    case True
    then have "sf_sha256 f = sf_sha256 g" using assms f by (simp add: taken_def)
    then show ?thesis by (auto simp: file_hashes_def intro!: exI [of _ name])
  next
    case False
    then show ?thesis using f by (auto simp: file_hashes_def intro!: exI [of _ n])
  qed
  moreover have "sf_sha256 g \<in> file_hashes (bt_insert name g files)"
    by (auto simp: file_hashes_def intro!: exI [of _ name])
  ultimately show "insert (sf_sha256 g) (file_hashes files) \<subseteq> file_hashes (bt_insert name g files)"
    by (auto simp: file_hashes_def [of files])
qed

lemma file_hashes_place_shot:
  assumes "is_ok (hash_hex (sf_sha256 f))"
  shows "file_hashes (place_shot p i f files) = insert (sf_sha256 f) (file_hashes files)"
  using file_hashes_insert [of files _ "f\<lparr>sf_path := _\<rparr>"] free_name_is_free [OF assms]
  by (simp add: place_shot_def Let_def del: free_name.simps)

lemma file_hashes_place_hashes:
  "\<forall>x \<in> set hs. is_ok (hash_hex (sf_sha256 (snd x))) \<Longrightarrow>
   file_hashes (place_hashes p i hs files) = (\<lambda>x. sf_sha256 (snd x)) ` set hs \<union> file_hashes files"
  by (induction p i hs files rule: place_hashes.induct) (auto simp: file_hashes_place_shot)

lemma file_hashes_place_paths:
  assumes "\<And>p hs x. (p, hs) \<in> set ps \<Longrightarrow> x \<in> set hs \<Longrightarrow> is_ok (hash_hex (sf_sha256 (snd x)))"
  shows "file_hashes (place_paths ps) = {sf_sha256 f | f p hs s. (p, hs) \<in> set ps \<and> (s, f) \<in> set hs}"
proof -
  have "file_hashes (fold (\<lambda>(p, hs). place_hashes p 0 hs) ps files) =
      {sf_sha256 f | f p hs s. (p, hs) \<in> set ps \<and> (s, f) \<in> set hs} \<union> file_hashes files" for files
    using assms
  proof (induction ps arbitrary: files)
    case (Cons x ps)
    obtain p hs where x: "x = (p, hs)" by (cases x)
    have "file_hashes (place_hashes p 0 hs files) = (\<lambda>x. sf_sha256 (snd x)) ` set hs \<union> file_hashes files"
      using Cons.prems x by (intro file_hashes_place_hashes) auto
    moreover have "(\<lambda>x. sf_sha256 (snd x)) ` set hs = {sf_sha256 f | f s. (s, f) \<in> set hs}" by force
    moreover have "file_hashes (fold (\<lambda>(p, hs). place_hashes p 0 hs) ps (place_hashes p 0 hs files)) =
        {sf_sha256 f | f p hs s. (p, hs) \<in> set ps \<and> (s, f) \<in> set hs} \<union> file_hashes (place_hashes p 0 hs files)"
      using Cons.prems by (intro Cons.IH) auto
    ultimately show ?case by (auto simp: x)
  qed simp
  then show ?thesis by (simp add: place_paths_def file_hashes_def)
qed

lemma place_shot_wf [simp]: "bt_wf files \<Longrightarrow> bt_wf (place_shot p i f files)"
  by (simp add: place_shot_def Let_def del: free_name.simps)

lemma place_hashes_wf [simp]: "bt_wf files \<Longrightarrow> bt_wf (place_hashes p i hs files)"
  by (induction p i hs files rule: place_hashes.induct) auto

lemma place_paths_wf [simp]: "bt_wf (place_paths ps)"
proof -
  have "bt_wf files \<Longrightarrow> bt_wf (fold (\<lambda>(p, hs). place_hashes p 0 hs) ps files)" for files
    by (induction ps arbitrary: files) (auto split: prod.splits)
  then show ?thesis by (simp add: place_paths_def)
qed

definition shot_look :: "shots \<Rightarrow> string \<Rightarrow> string \<Rightarrow> string \<Rightarrow> save_file option" where
  "shot_look m k p s = bt_get (bt_entry (bt_entry m k) p) s"

lemma bt_entry_Nil [simp]: "bt_entry [] k = []"
  by (simp add: bt_entry_def)

lemma shot_look_Nil [simp]: "shot_look [] k p s = None"
  by (simp add: shot_look_def)

lemma bt_entry_insert [simp]: "bt_entry (bt_insert k v m) k' = (if k' = k then v else bt_entry m k')"
  by (simp add: bt_entry_def)

lemma shot_look_add [simp]:
  "shot_look (add_shot (k, f) m) k' p s = (if k' = k \<and> p = sf_path f \<and> s = sf_sha256 f then Some f else shot_look m k' p s)"
  by (simp add: shot_look_def add_shot_def Let_def)

lemma shot_look_fold:
  "shot_look (fold add_shot xs m) k p s \<noteq> None \<longleftrightarrow>
     shot_look m k p s \<noteq> None \<or> (\<exists>f. (k, f) \<in> set xs \<and> sf_path f = p \<and> sf_sha256 f = s)"
proof (induction xs arbitrary: m)
  case (Cons x xs)
  then show ?case by (cases x) (auto split: if_splits)
qed simp

definition wf_shots :: "shots \<Rightarrow> bool" where
  "wf_shots m \<longleftrightarrow>
     bt_wf m \<and> (\<forall>k. bt_wf (bt_entry m k) \<and> (\<forall>p. bt_wf (bt_entry (bt_entry m k) p))) \<and>
     (\<forall>k p s f. shot_look m k p s = Some f \<longrightarrow> sf_sha256 f = s \<and> is_ok (hash_hex s))"

lemma wf_shots_add:
  assumes "wf_shots m" and "is_ok (hash_hex (sf_sha256 f))"
  shows "wf_shots (add_shot (k, f) m)"
  unfolding wf_shots_def
proof (intro conjI allI)
  show "bt_wf (add_shot (k, f) m)" using assms by (simp add: wf_shots_def add_shot_def Let_def)
  show "bt_wf (bt_entry (add_shot (k, f) m) k')" for k' using assms by (simp add: wf_shots_def add_shot_def Let_def)
  show "bt_wf (bt_entry (bt_entry (add_shot (k, f) m) k') p)" for k' p
    using assms by (simp add: wf_shots_def add_shot_def Let_def)
  show "shot_look (add_shot (k, f) m) k' p s = Some g \<longrightarrow> sf_sha256 g = s \<and> is_ok (hash_hex s)" for k' p s g
    using assms by (auto simp: wf_shots_def)
qed

lemma wf_shots_fold:
  "wf_shots m \<Longrightarrow> \<forall>x \<in> set xs. is_ok (hash_hex (sf_sha256 (snd x))) \<Longrightarrow> wf_shots (fold add_shot xs m)"
proof (induction xs arbitrary: m)
  case (Cons x xs)
  then show ?case by (cases x) (simp add: wf_shots_add)
qed simp

lemma wf_shots_Nil: "wf_shots []"
  by (simp add: wf_shots_def)

text \<open>The screenshots in a list of locations: under which key which content.\<close>

definition shot_content :: "snapshot_location list \<Rightarrow> (string \<times> string) set" where
  "shot_content ls = {(lo_key l, sf_sha256 f) | l f. l \<in> set ls \<and> lo_kind l = Screenshot \<and> f \<in> set (lo_files l)}"

lemma shot_content_iff:
  "(k, s) \<in> shot_content ls \<longleftrightarrow>
     (\<exists>l \<in> set ls. lo_key l = k \<and> lo_kind l = Screenshot \<and> (\<exists>f \<in> set (lo_files l). sf_sha256 f = s))"
  by (auto simp: shot_content_def)

lemma shot_content_files:
  "(k, s) \<in> shot_content (sr_locations r) \<longleftrightarrow> (\<exists>f. (k, f) \<in> set (shot_files r) \<and> sf_sha256 f = s)"
  by (auto simp: shot_content_def shot_files_def)

lemma shot_content_append [simp]: "shot_content (ls @ ms) = shot_content ls \<union> shot_content ms"
  by (auto simp: shot_content_def)

lemma shot_content_filter [simp]:
  "shot_content (filter (\<lambda>l. lo_kind l \<noteq> Screenshot) ls) = {}"
  "shot_content (filter (\<lambda>l. lo_kind l = Screenshot) ls) = shot_content ls"
  by (auto simp: shot_content_def)

lemma shot_content_locations:
  assumes wf: "wf_shots m"
  shows "shot_content (shot_locations m) = {(k, s). \<exists>p. shot_look m k p s \<noteq> None}"
proof -
  have step: "s \<in> file_hashes (place_paths ps) \<longleftrightarrow> (\<exists>p. shot_look m k p s \<noteq> None)"
    if k: "bt_get m k = Some ps" for k ps s
  proof -
    have e: "bt_entry m k = ps" using k by (simp add: bt_entry_def)
    have entries: "bt_wf (bt_entry m k)" "bt_wf (bt_entry (bt_entry m k) p)" for p using wf by (simp_all add: wf_shots_def)
    have w: "bt_wf ps" using entries(1) by (simp add: e)
    have w2: "bt_wf hs" if "bt_get ps p = Some hs" for p hs
      using entries(2) [of p] that by (simp add: e bt_entry_def [of ps])
    have look: "shot_look m k p s = (case bt_get ps p of None \<Rightarrow> None | Some hs \<Rightarrow> bt_get hs s)" for p s
      by (simp add: shot_look_def e bt_entry_def [of ps] split: option.splits)
    have f: "sf_sha256 f = s' \<and> is_ok (hash_hex s')" if "bt_get ps p = Some hs" "bt_get hs s' = Some f" for p hs s' f
      using wf look [of p s'] that by (simp add: wf_shots_def)
    have "file_hashes (place_paths ps) = {sf_sha256 f | f p hs s. (p, hs) \<in> set ps \<and> (s, f) \<in> set hs}"
    proof (rule file_hashes_place_paths)
      fix p hs x
      assume "(p, hs) \<in> set ps" "x \<in> set hs"
      then show "is_ok (hash_hex (sf_sha256 (snd x)))"
        using f [of p hs "fst x" "snd x"] w w2 [of p hs] by (simp add: bt_get_iff)
    qed
    also have "\<dots> = {s. \<exists>p hs. bt_get ps p = Some hs \<and> bt_get hs s \<noteq> None}"
      using f w w2 by (auto simp: bt_get_iff) (metis bt_get_iff)+
    finally have "s \<in> file_hashes (place_paths ps) \<longleftrightarrow> (\<exists>p hs. bt_get ps p = Some hs \<and> bt_get hs s \<noteq> None)" by simp
    also have "\<dots> \<longleftrightarrow> (\<exists>p. shot_look m k p s \<noteq> None)"
      by (intro ex_cong1) (auto simp: look split: option.splits)
    finally show ?thesis .
  qed
  have "(k, s) \<in> shot_content (shot_locations m) \<longleftrightarrow> (\<exists>p. shot_look m k p s \<noteq> None)" for k s
  proof -
    have "(k, s) \<in> shot_content (shot_locations m) \<longleftrightarrow>
        (\<exists>ps. (k, ps) \<in> set m \<and> (\<exists>f \<in> set (bt_values (place_paths ps)). sf_sha256 f = s))"
      by (auto simp: shot_content_iff shot_locations_def Bex_def split: prod.splits)
    also have "\<dots> \<longleftrightarrow> (\<exists>ps. bt_get m k = Some ps \<and> s \<in> file_hashes (place_paths ps))"
      using wf by (auto simp: wf_shots_def bt_get_iff file_hashes_def bt_values_ex)
    also have "\<dots> \<longleftrightarrow> (\<exists>p. shot_look m k p s \<noteq> None)"
      using step by (auto simp: shot_look_def bt_entry_def split: option.splits)
    finally show ?thesis .
  qed
  then show ?thesis by auto
qed

subsection \<open>What a join holds\<close>

lemma snapshot_id_good: "snapshot_id c r = Ok i \<Longrightarrow> good_record c r"
  by (auto simp: snapshot_id_def canonical_record_Ok)

lemma good_shot_hashes: "good_record c r \<Longrightarrow> x \<in> set (shot_files r) \<Longrightarrow> is_ok (hash_hex (sf_sha256 (snd x)))"
  by (auto simp: good_record_def list_all_iff good_location_def shot_files_def)

lemma collect_shots_content:
  assumes "\<And>h. h \<in> set heads \<Longrightarrow> good_record c h"
  shows "shot_content (shot_locations (collect_shots heads)) = (\<Union>h \<in> set heads. shot_content (sr_locations h))"
proof -
  have "\<forall>x \<in> set (concat (map shot_files heads)). is_ok (hash_hex (sf_sha256 (snd x)))"
    using good_shot_hashes [OF assms] by fastforce
  then have "wf_shots (collect_shots heads)" unfolding collect_shots_def by (rule wf_shots_fold [OF wf_shots_Nil])
  note shot_content_locations [OF this]
  moreover have "(\<exists>p. shot_look (collect_shots heads) k p s \<noteq> None) \<longleftrightarrow>
      (\<exists>h \<in> set heads. (k, s) \<in> shot_content (sr_locations h))" for k s
    unfolding collect_shots_def shot_look_fold shot_content_files by auto
  ultimately show ?thesis by auto
qed

lemma save_progress_locations:
  assumes "filter (\<lambda>l. lo_kind l \<noteq> Screenshot) (sr_locations r) = filter (\<lambda>l. lo_kind l \<noteq> Screenshot) (sr_locations q)"
  shows "save_progress r = save_progress q"
  using assms by (simp add: save_progress_def)

lemma shot_locations_kind: "filter (\<lambda>l. lo_kind l \<noteq> Screenshot) (shot_locations m) = []"
  by (auto simp: shot_locations_def filter_empty_conv)

lemma ordered_heads:
  assumes "list_all2 (\<lambda>h i. snapshot_id c h = Ok i) heads ids"
  shows "set (sort_key fst (zip ids heads)) = {(i, h). h \<in> set heads \<and> snapshot_id c h = Ok i}"
proof -
  have "set (zip ids heads) = {(i, h). h \<in> set heads \<and> snapshot_id c h = Ok i}"
    using assms by (induction rule: list_all2_induct) auto
  then show ?thesis by (simp only: set_sort)
qed

definition joined_record :: "string list \<Rightarrow> snapshot_record list \<Rightarrow> snapshot_record" where
  "joined_record ids heads =
     (let ordered = sort_key fst (zip ids heads); base = snd (hd ordered)
      in base\<lparr>sr_parents := map fst ordered, sr_interrupted := False,
           sr_locations := filter (\<lambda>l. lo_kind l \<noteq> Screenshot) (sr_locations base) @ shot_locations (collect_shots heads)\<rparr>)"

lemma automatic_join_eq:
  "automatic_join c heads =
     (if card (save_progress ` set heads) \<noteq> 1 then Ok None
      else case first_error (snapshot_id c) heads of Err e \<Rightarrow> Err e | Ok ids \<Rightarrow> Ok (Some (joined_record ids heads)))"
proof (cases heads)
  case (Cons r rest)
  have "card (save_progress ` set heads) \<noteq> 1" if "list_ex (\<lambda>h. save_progress h \<noteq> save_progress r) heads"
    using that Cons by (auto simp: list_ex_iff card_1_singleton_iff)
  moreover have "save_progress ` set heads = {save_progress r}" if "\<not> list_ex (\<lambda>h. save_progress h \<noteq> save_progress r) heads"
    using that Cons by (auto simp: list_ex_iff)
  ultimately have "card (save_progress ` set heads) \<noteq> 1 \<longleftrightarrow> list_ex (\<lambda>h. save_progress h \<noteq> save_progress r) heads"
    by fastforce
  then show ?thesis unfolding automatic_join_def joined_record_def Let_def by (simp add: Cons del: first_error.simps)
qed (simp add: automatic_join_def)

lemma joined_record_spec:
  assumes all2: "list_all2 (\<lambda>h i. snapshot_id c h = Ok i) heads ids" and "heads \<noteq> []"
  shows "save_progress (joined_record ids heads) \<in> save_progress ` set heads"
    and "set (sr_parents (joined_record ids heads)) = {i. \<exists>h \<in> set heads. snapshot_id c h = Ok i}"
    and "shot_content (sr_locations (joined_record ids heads)) = (\<Union>h \<in> set heads. shot_content (sr_locations h))"
proof -
  let ?ordered = "sort_key fst (zip ids heads)"
  note ordered = ordered_heads [OF all2]
  have "length ids = length heads" using all2 by (simp add: list_all2_lengthD)
  then have "zip ids heads \<noteq> []" using assms(2) by (cases ids; cases heads) auto
  then have "?ordered \<noteq> []" by (metis mset_sort mset_zero_iff)
  then have "hd ?ordered \<in> set ?ordered" by (rule hd_in_set)
  then have "snd (hd ?ordered) \<in> set heads" unfolding ordered by auto
  moreover have "save_progress (joined_record ids heads) = save_progress (snd (hd ?ordered))"
    by (rule save_progress_locations) (simp add: joined_record_def Let_def shot_locations_kind)
  ultimately show "save_progress (joined_record ids heads) \<in> save_progress ` set heads" by simp
  have "set (sr_parents (joined_record ids heads)) = fst ` set ?ordered" by (simp add: joined_record_def Let_def)
  also have "\<dots> = {i. \<exists>h \<in> set heads. snapshot_id c h = Ok i}" unfolding ordered by force
  finally show "set (sr_parents (joined_record ids heads)) = {i. \<exists>h \<in> set heads. snapshot_id c h = Ok i}" .
  have "good_record c h" if "h \<in> set heads" for h
    using that all2 snapshot_id_good by (fastforce simp: list_all2_conv_all_nth in_set_conv_nth)
  then show "shot_content (sr_locations (joined_record ids heads)) = (\<Union>h \<in> set heads. shot_content (sr_locations h))"
    using collect_shots_content [of heads c] by (simp add: joined_record_def Let_def)
qed

lemma first_error_Err: "first_error f xs = Err e \<Longrightarrow> \<exists>x \<in> set xs. f x = Err e"
  by (induction xs) (auto split: result.splits)

lemma automatic_join_spec:
  "case automatic_join c heads of
     Ok (Some j) \<Rightarrow>
       save_progress ` set heads = {save_progress j} \<and>
       set (sr_parents j) = {i. \<exists>h \<in> set heads. snapshot_id c h = Ok i} \<and>
       shot_content (sr_locations j) = (\<Union>h \<in> set heads. shot_content (sr_locations h))
   | Ok None \<Rightarrow> card (save_progress ` set heads) \<noteq> 1
   | Err e \<Rightarrow> card (save_progress ` set heads) = 1 \<and> (\<exists>h \<in> set heads. snapshot_id c h = Err e)"
proof (cases "card (save_progress ` set heads) = 1")
  case one: True
  then have "heads \<noteq> []" by auto
  obtain p where p: "save_progress ` set heads = {p}" using one by (auto simp: card_1_singleton_iff)
  show ?thesis
  proof (cases "first_error (snapshot_id c) heads")
    case (Ok ids)
    then have "list_all2 (\<lambda>h i. snapshot_id c h = Ok i) heads ids" by (simp add: first_error_Ok)
    from joined_record_spec [OF this \<open>heads \<noteq> []\<close>] p show ?thesis by (simp add: automatic_join_eq one Ok)
  next
    case (Err e)
    from first_error_Err [OF Err] show ?thesis by (simp add: automatic_join_eq one Err)
  qed
qed (simp add: automatic_join_eq)

text \<open>
  C23. A join keeps everything. Heads that join agree in their progress; the join has this
  progress, names exactly the heads as its parents and holds exactly the screenshots of all heads.
  There is no join exactly when there are no heads or their progress differs, and the only errors
  are those of heads that are no valid records.
\<close>

theorem join_keeps_everything:
  "case automatic_join c heads of
     Ok (Some j) \<Rightarrow>
       save_progress ` set heads = {save_progress j} \<and>
       set (sr_parents j) = {i. \<exists>h \<in> set heads. snapshot_id c h = Ok i} \<and>
       shot_content (sr_locations j) = (\<Union>h \<in> set heads. shot_content (sr_locations h))
   | Ok None \<Rightarrow> card (save_progress ` set heads) \<noteq> 1
   | Err e \<Rightarrow> card (save_progress ` set heads) = 1 \<and> (\<exists>h \<in> set heads. snapshot_id c h = Err e)"
  by (rule automatic_join_spec)

subsection \<open>The order of the heads\<close>

lemma bt_insert_commute: "k \<noteq> k' \<Longrightarrow> bt_insert k v (bt_insert k' v' m) = bt_insert k' v' (bt_insert k v m)"
  by (induction m) auto

lemma bt_insert_same [simp]: "bt_insert k v (bt_insert k v' m) = bt_insert k v m"
  by (induction m) auto

lemma add_shot_commute:
  assumes "fst x = fst y \<Longrightarrow> sf_path (snd x) = sf_path (snd y) \<Longrightarrow> sf_sha256 (snd x) = sf_sha256 (snd y) \<Longrightarrow> snd x = snd y"
  shows "add_shot x (add_shot y m) = add_shot y (add_shot x m)"
proof -
  obtain k f l g where xy: "x = (k, f)" "y = (l, g)" by (cases x; cases y)
  consider "k \<noteq> l" | "k = l" "sf_path f \<noteq> sf_path g" | "k = l" "sf_path f = sf_path g" "sf_sha256 f \<noteq> sf_sha256 g" | "k = l" "f = g"
    using assms xy by auto
  then show ?thesis
    by cases (simp_all add: xy add_shot_def Let_def bt_insert_commute [of l k] bt_insert_commute [of "sf_path g" "sf_path f"]
        bt_insert_commute [of "sf_sha256 g" "sf_sha256 f"])
qed

text \<open>Content addressing: one hash, one size.\<close>

definition sizes_agree :: "snapshot_record list \<Rightarrow> bool" where
  "sizes_agree heads \<longleftrightarrow>
     (\<forall>x \<in> set (concat (map shot_files heads)). \<forall>y \<in> set (concat (map shot_files heads)).
        sf_sha256 (snd x) = sf_sha256 (snd y) \<longrightarrow> sf_bytes (snd x) = sf_bytes (snd y))"

lemma collect_shots_order:
  assumes "mset heads = mset heads'" and "sizes_agree heads"
  shows "collect_shots heads = collect_shots heads'"
proof -
  have "mset (concat (map shot_files heads)) = mset (concat (map shot_files heads'))"
    unfolding mset_concat using assms(1) by (metis mset_map sum_mset_sum_list)
  moreover have "add_shot x \<circ> add_shot y = add_shot y \<circ> add_shot x"
    if "x \<in> set (concat (map shot_files heads))" "y \<in> set (concat (map shot_files heads))" for x y
  proof
    fix m
    have "sf_sha256 (snd x) = sf_sha256 (snd y) \<Longrightarrow> sf_bytes (snd x) = sf_bytes (snd y)"
      using assms(2) that unfolding sizes_agree_def by blast
    then show "(add_shot x \<circ> add_shot y) m = (add_shot y \<circ> add_shot x) m"
      by (simp add: add_shot_commute save_file.equality)
  qed
  ultimately have "fold add_shot (concat (map shot_files heads)) = fold add_shot (concat (map shot_files heads'))"
    by (intro fold_multiset_equiv)
  then show ?thesis by (simp add: collect_shots_def)
qed

lemma first_error_all_ok:
  assumes "\<And>x. x \<in> set xs \<Longrightarrow> is_ok (f x)"
  shows "first_error f xs = Ok (map (\<lambda>x. ok_value (f x)) xs)"
  using assms
proof (induction xs)
  case (Cons x xs)
  from Cons.prems have "f x = Ok (ok_value (f x))" by (intro ok_value_eq) simp
  with Cons show ?case by simp
qed simp

lemma joined_record_order:
  assumes "mset heads = mset heads'" and "\<And>h. h \<in> set heads \<Longrightarrow> is_ok (snapshot_id c h)"
    and "inj_on (snapshot_id c) (set heads)" and "sizes_agree heads"
  shows "joined_record (map (\<lambda>h. ok_value (snapshot_id c h)) heads) heads =
    joined_record (map (\<lambda>h. ok_value (snapshot_id c h)) heads') heads'"
proof -
  let ?i = "\<lambda>h. ok_value (snapshot_id c h)"
  have z: "zip (map ?i hs) hs = map (\<lambda>h. (?i h, h)) hs" for hs by (induction hs) simp_all
  have inj: "inj_on ?i (set heads)"
    by (rule inj_onI) (metis assms(2,3) inj_onD ok_value_eq)
  have "mset (map (\<lambda>h. (?i h, h)) heads) = mset (sort_key fst (map (\<lambda>h. (?i h, h)) heads'))"
    using assms(1) by simp
  moreover have "inj_on fst (set (map (\<lambda>h. (?i h, h)) heads))" using inj by (auto simp: inj_on_def)
  ultimately have "sort_key fst (zip (map ?i heads) heads) = sort_key fst (zip (map ?i heads') heads')"
    unfolding z by (rule sort_key_inj_key_eq) simp
  then show ?thesis by (simp add: joined_record_def collect_shots_order [OF assms(1,4)])
qed

text \<open>
  Devices agree on a join: for valid heads with different ids, whose files with one hash have
  one size, the result does not depend on the order in which the heads were found. A join that two
  devices make of the same heads is one record with one id, not a new split.
\<close>

theorem join_order_irrelevant:
  assumes "mset heads = mset heads'" and "\<And>h. h \<in> set heads \<Longrightarrow> is_ok (snapshot_id c h)"
    and "inj_on (snapshot_id c) (set heads)" and "sizes_agree heads"
  shows "automatic_join c heads = automatic_join c heads'"
proof -
  have set: "set heads' = set heads" using mset_eq_setD [OF assms(1)] by simp
  have "first_error (snapshot_id c) hs = Ok (map (\<lambda>h. ok_value (snapshot_id c h)) hs)" if "set hs = set heads" for hs
    using assms(2) that by (intro first_error_all_ok) simp
  from this [of heads] this [OF set] show ?thesis
    by (simp add: automatic_join_eq set joined_record_order [OF assms])
qed

text \<open>
  Two heads with one screenshot name for different pictures. Their printer prints the device, so
  that their ids differ.
\<close>

definition shot_codec :: save_codec where
  "shot_codec = \<lparr>utc_millis = Some,
     print_json = (\<lambda>v. case v of JObject kvs \<Rightarrow> (case bt_get kvs ''device'' of Some (JString d) \<Rightarrow> Ok d | _ \<Rightarrow> Err ''device'') | _ \<Rightarrow> Err ''object''),
     sha256_hex = id\<rparr>"

definition shot_head :: "char \<Rightarrow> snapshot_record" where
  "shot_head x =
     \<lparr>sr_parents = [], sr_game_id = ''g'', sr_release_id = None, sr_runner_id = ''r'', sr_device = replicate 64 x,
      sr_ended_at = ''t'', sr_duration_seconds = 1, sr_interrupted = False,
      sr_locations = [\<lparr>lo_key = ''k'', lo_kind = Screenshot, lo_files = [demo_file ''a.png'' x]\<rparr>]\<rparr>"

text \<open>An instance: both orders, and the two pictures in the join.\<close>

theorem join_order_irrelevant_witness:
  "automatic_join shot_codec [shot_head CHR ''1'', shot_head CHR ''2''] =
     automatic_join shot_codec [shot_head CHR ''2'', shot_head CHR ''1''] \<and>
   (case automatic_join shot_codec [shot_head CHR ''1'', shot_head CHR ''2''] of
      Ok (Some j) \<Rightarrow> map (map sf_path \<circ> lo_files) (sr_locations j) = [[''a.png'', ''a~'' @ replicate 64 CHR ''2'' @ ''.png'']]
    | _ \<Rightarrow> False)"
proof
  have i: "snapshot_id shot_codec (shot_head CHR ''1'') = Ok (''sha256:'' @ replicate 64 CHR ''1'')"
    "snapshot_id shot_codec (shot_head CHR ''2'') = Ok (''sha256:'' @ replicate 64 CHR ''2'')"
    by code_simp+
  have "sizes_agree [shot_head CHR ''1'', shot_head CHR ''2'']"
    by (simp add: sizes_agree_def shot_files_def shot_head_def demo_file_def)
  with i show "automatic_join shot_codec [shot_head CHR ''1'', shot_head CHR ''2''] =
     automatic_join shot_codec [shot_head CHR ''2'', shot_head CHR ''1'']"
    by (intro join_order_irrelevant) (auto simp: inj_on_def numeral_eq_Suc)
  show "case automatic_join shot_codec [shot_head CHR ''1'', shot_head CHR ''2''] of
      Ok (Some j) \<Rightarrow> map (map sf_path \<circ> lo_files) (sr_locations j) = [[''a.png'', ''a~'' @ replicate 64 CHR ''2'' @ ''.png'']]
    | _ \<Rightarrow> False"
    by code_simp
qed

subsection \<open>The union of screenshots\<close>

lemma with_screenshot_union_keeps:
  assumes "with_screenshot_union c r others = Ok q"
  shows "q\<lparr>sr_locations := []\<rparr> = r\<lparr>sr_locations := []\<rparr>"
    and "save_progress q = save_progress r"
    and "shot_content (sr_locations q) = (\<Union>h \<in> set (r # others). shot_content (sr_locations h))"
proof -
  define kept where "kept = filter (\<lambda>l. lo_kind l \<noteq> Screenshot) (sr_locations r)"
  define sources where "sources = map (\<lambda>s. s\<lparr>sr_locations := filter (\<lambda>l. lo_kind l = Screenshot) (sr_locations s) @ kept\<rparr>) (others @ [r])"
  obtain j where j: "automatic_join c sources = Ok (Some j)" and q: "q = r\<lparr>sr_locations := sr_locations j\<rparr>"
    using assms unfolding with_screenshot_union_def Let_def kept_def [symmetric] sources_def [symmetric]
    by (auto split: option.splits)
  have same: "save_progress s = save_progress r" if "s \<in> set sources" for s
    by (rule save_progress_locations) (use that in \<open>auto simp: sources_def kept_def\<close>)
  note join = automatic_join_spec [where c = c and heads = sources, unfolded j, simplified]
  show "q\<lparr>sr_locations := []\<rparr> = r\<lparr>sr_locations := []\<rparr>" by (simp add: q)
  have "r\<lparr>sr_locations := filter (\<lambda>l. lo_kind l = Screenshot) (sr_locations r) @ kept\<rparr> \<in> set sources" by (simp add: sources_def)
  from imageI [OF this, of save_progress] same [OF this] join have "save_progress j = save_progress r" by simp
  moreover have "save_progress q = save_progress j" by (rule save_progress_locations) (simp add: q)
  ultimately show "save_progress q = save_progress r" by simp
  show "shot_content (sr_locations q) = (\<Union>h \<in> set (r # others). shot_content (sr_locations h))"
    using join by (auto simp: q sources_def kept_def)
qed

lemma hash_hex_error: "hash_hex v \<noteq> Err (SavePanic m)"
  by (simp add: hash_hex_def split: option.splits)

lemma check_files_error: "check_files seen fs \<noteq> Err (SavePanic m)"
  by (induction seen fs rule: check_files.induct) (auto simp: relative_file_def hash_hex_error split: result.splits)

lemma check_locations_error: "check_locations seen ls \<noteq> Err (SavePanic m)"
  by (induction seen ls rule: check_locations.induct) (auto simp: check_files_error split: result.splits)

lemma snapshot_id_error: "snapshot_id c r \<noteq> Err (SavePanic m)"
proof -
  have "first_error hash_hex (sr_parents r) \<noteq> Err (SavePanic m)"
    using first_error_Err [of hash_hex "sr_parents r"] by (auto simp: hash_hex_error)
  then show ?thesis
    by (auto simp: snapshot_id_def canonical_record_def canonical_form_def check_locations_error
        split: result.splits option.splits if_splits)
qed

lemma with_screenshot_union_no_panic: "with_screenshot_union c r others \<noteq> Err (SavePanic m)"
proof -
  define kept where "kept = filter (\<lambda>l. lo_kind l \<noteq> Screenshot) (sr_locations r)"
  define sources where "sources = map (\<lambda>s. s\<lparr>sr_locations := filter (\<lambda>l. lo_kind l = Screenshot) (sr_locations s) @ kept\<rparr>) (others @ [r])"
  have "save_progress s = save_progress r" if "s \<in> set sources" for s
    by (rule save_progress_locations) (use that in \<open>auto simp: sources_def kept_def\<close>)
  moreover have "set sources \<noteq> {}" by (simp add: sources_def)
  ultimately have "save_progress ` set sources = {save_progress r}" by (metis image_cong image_constant_conv)
  then have "card (save_progress ` set sources) = 1" by simp
  then show ?thesis
    unfolding with_screenshot_union_def Let_def kept_def [symmetric] sources_def [symmetric] automatic_join_eq
    by (auto split: result.splits dest!: first_error_Err simp: snapshot_id_error)
qed

end
