(* ===== verification/Save_Ancestry.thy ===== *)
theory Save_Ancestry
  imports Save_History
begin

text \<open>
  Decisions over the records of one game, the parts of \<open>services/korrid/src/saves/store.rs\<close> that do
  no I/O: which records are heads, whether heads join, which local record is newest, and which
  records may lose their content. Ancestry decides; clocks are never read.

  The walk over ancestors is compared with the transitive closure of the parent relation, and the
  selection for pruning with a list of reasons to keep a record.
\<close>

subsection \<open>Heads\<close>

definition head_ids :: "save_codec \<Rightarrow> snapshot_record list \<Rightarrow> (string list, save_error) result" where
  "head_ids c rs =
     (case first_error (snapshot_id c) rs of
        Err e \<Rightarrow> Err e
      | Ok ids \<Rightarrow> Ok (sort (filter (\<lambda>i. i \<notin> set (concat (map sr_parents rs))) ids)))"

text \<open>The id of a record that was validated when it was read.\<close>

definition valid_id :: "save_codec \<Rightarrow> snapshot_record \<Rightarrow> string" where
  "valid_id c r = ok_value (snapshot_id c r)"

datatype history_decision = HistoryUnchanged | HistorySplit | HistoryJoin "snapshot_record list" snapshot_record

definition history_decision_of :: "save_codec \<Rightarrow> snapshot_record list \<Rightarrow> (history_decision, save_error) result" where
  "history_decision_of c rs =
     (case head_ids c rs of
        Err e \<Rightarrow> Err e
      | Ok ids \<Rightarrow>
          if length ids \<le> 1 then Ok HistoryUnchanged
          else
            let heads = filter (\<lambda>r. valid_id c r \<in> set ids) rs
            in case automatic_join c heads of
                 Err e \<Rightarrow> Err e
               | Ok None \<Rightarrow> Ok HistorySplit
               | Ok (Some j) \<Rightarrow> Ok (HistoryJoin heads j))"

subsection \<open>Ancestors\<close>

type_synonym history = "(string, snapshot_record) btree"

definition by_id :: "save_codec \<Rightarrow> snapshot_record list \<Rightarrow> history" where
  "by_id c rs = collect_pairs (map (\<lambda>r. (valid_id c r, r)) rs)"

text \<open>
  The walk of \<open>ancestor\<close>, with the top of the stack first. An id that was seen, or that no record
  has, adds nothing.
\<close>

function ancestor_walk :: "string \<Rightarrow> history \<Rightarrow> string set \<Rightarrow> string list \<Rightarrow> bool" where
  "ancestor_walk candidate m seen [] = False"
| "ancestor_walk candidate m seen (i # pending) =
     (if i \<in> seen then ancestor_walk candidate m seen pending
      else case bt_get m i of
          None \<Rightarrow> ancestor_walk candidate m (insert i seen) pending
        | Some r \<Rightarrow>
            if candidate \<in> set (sr_parents r) then True
            else ancestor_walk candidate m (insert i seen) (rev (sr_parents r) @ pending))"
  by pat_completeness auto
termination
proof (relation "measures [\<lambda>(_, m, seen, _). card (set (bt_keys m) - seen), \<lambda>(_, _, _, pending). length pending]", goal_cases)
  case (3 candidate m seen i pending)
  have "card (set (bt_keys m) - insert i seen) \<le> card (set (bt_keys m) - seen)" by (rule card_mono) auto
  then show ?case by auto
next
  case (4 candidate m seen i pending r)
  then have "i \<in> set (bt_keys m) - seen" by (auto intro: bt_get_keys)
  then have "card (set (bt_keys m) - insert i seen) < card (set (bt_keys m) - seen)" by (intro psubset_card_mono) auto
  then show ?case by simp
qed auto

definition ancestor :: "string \<Rightarrow> string \<Rightarrow> history \<Rightarrow> bool" where
  "ancestor candidate descendant m = ancestor_walk candidate m {} [descendant]"

definition newest_local :: "history \<Rightarrow> string list \<Rightarrow> string list" where
  "newest_local m local = filter (\<lambda>i. \<not> list_ex (\<lambda>other. other \<noteq> i \<and> ancestor i other m) local) local"

definition parent_of :: "history \<Rightarrow> (string \<times> string) set" where
  "parent_of m = {(p, d). \<exists>r. bt_get m d = Some r \<and> p \<in> set (sr_parents r)}"

lemma trancl_closed_none:
  assumes "(x, d) \<in> R\<^sup>+" and "d \<in> S" and "\<And>p d. (p, d) \<in> R \<Longrightarrow> d \<in> S \<Longrightarrow> p \<in> S \<and> p \<noteq> x"
  shows False
  using assms(1,2)
proof (induction rule: trancl_induct)
  case (base d)
  then show ?case using assms(3) by blast
next
  case (step y d)
  then show ?case using assms(3) by blast
qed

lemma ancestor_walk_exact:
  assumes "\<And>d p. d \<in> seen \<Longrightarrow> (p, d) \<in> parent_of m \<Longrightarrow> p \<in> seen \<union> set pending \<and> p \<noteq> candidate"
  shows "ancestor_walk candidate m seen pending \<longleftrightarrow> (\<exists>d \<in> set pending \<union> seen. (candidate, d) \<in> (parent_of m)\<^sup>+)"
  using assms
proof (induction candidate m seen pending rule: ancestor_walk.induct)
  case (1 candidate m seen)
  have "False" if "d \<in> seen" "(candidate, d) \<in> (parent_of m)\<^sup>+" for d
    by (rule trancl_closed_none [OF that(2) that(1)]) (use 1 in auto)
  then show ?case by auto
next
  case (2 candidate m seen i pending)
  show ?case
  proof (cases "i \<in> seen")
    case True
    with 2 show ?thesis by (auto simp: insert_absorb)
  next
    case unseen: False
    show ?thesis
    proof (cases "bt_get m i")
      case None
      then have "(p, i) \<notin> parent_of m" for p by (simp add: parent_of_def)
      with 2 unseen None show ?thesis by auto
    next
      case (Some r)
      then have parents: "(p, i) \<in> parent_of m \<longleftrightarrow> p \<in> set (sr_parents r)" for p by (simp add: parent_of_def)
      show ?thesis
      proof (cases "candidate \<in> set (sr_parents r)")
        case True
        then have "(candidate, i) \<in> (parent_of m)\<^sup>+" using parents by blast
        then show ?thesis using unseen Some True by simp
      next
        case False
        have "ancestor_walk candidate m (insert i seen) (rev (sr_parents r) @ pending) \<longleftrightarrow>
            (\<exists>d \<in> set (rev (sr_parents r) @ pending) \<union> insert i seen. (candidate, d) \<in> (parent_of m)\<^sup>+)"
          using 2(3) [OF unseen Some False] 2(4) parents False by auto
        also have "\<dots> \<longleftrightarrow> (\<exists>d \<in> set (i # pending) \<union> seen. (candidate, d) \<in> (parent_of m)\<^sup>+)"
          using parents by (auto intro: trancl_into_trancl)
        finally show ?thesis using unseen Some False by simp
      qed
    qed
  qed
qed

text \<open>
  C24. The walk over ancestors ends and finds exactly the ancestors: \<open>ancestor\<close> answers yes exactly
  when a chain of parents, each named by a record of the history, leads from the descendant to
  the candidate, also when records are missing or the parents form a cycle.
\<close>

theorem ancestor_exact: "ancestor candidate descendant m \<longleftrightarrow> (candidate, descendant) \<in> (parent_of m)\<^sup>+"
  using ancestor_walk_exact [of "{}" m "[descendant]" candidate] by (simp add: ancestor_def)

subsection \<open>Heads and decisions\<close>

lemma head_ids_Ok:
  assumes "head_ids c rs = Ok hs"
  shows "sorted hs" and "\<And>r. r \<in> set rs \<Longrightarrow> snapshot_id c r = Ok (valid_id c r)"
    and "set hs = {valid_id c r | r. r \<in> set rs \<and> (\<forall>q \<in> set rs. valid_id c r \<notin> set (sr_parents q))}"
proof -
  obtain ids where ids: "list_all2 (\<lambda>r i. snapshot_id c r = Ok i) rs ids"
    and hs: "hs = sort (filter (\<lambda>i. i \<notin> set (concat (map sr_parents rs))) ids)"
    using assms by (auto simp: head_ids_def first_error_Ok)
  show "sorted hs" by (simp add: hs)
  show valid: "\<And>r. r \<in> set rs \<Longrightarrow> snapshot_id c r = Ok (valid_id c r)"
    using ids unfolding valid_id_def by (induction rule: list_all2_induct) auto
  have "ids = map (valid_id c) rs"
    using ids by (induction rule: list_all2_induct) (auto simp: valid_id_def)
  then show "set hs = {valid_id c r | r. r \<in> set rs \<and> (\<forall>q \<in> set rs. valid_id c r \<notin> set (sr_parents q))}"
    by (auto simp: hs)
qed

lemma head_ids_valid:
  assumes "\<And>r. r \<in> set rs \<Longrightarrow> snapshot_id c r = Ok (valid_id c r)"
  shows "head_ids c rs = Ok (sort (filter (\<lambda>i. i \<notin> set (concat (map sr_parents rs))) (map (valid_id c) rs)))"
proof -
  have "first_error (snapshot_id c) rs = Ok (map (valid_id c) rs)"
    unfolding valid_id_def by (rule first_error_all_ok) (use assms in \<open>simp add: is_ok_iff\<close>)
  then show ?thesis by (simp add: head_ids_def)
qed

text \<open>A record that names every head leaves itself as the only head.\<close>

lemma head_ids_closed:
  assumes heads: "head_ids c rs = Ok hs" and new: "snapshot_id c n = Ok i" "set hs \<subseteq> set (sr_parents n)"
    and fresh: "\<And>q. q \<in> set (n # rs) \<Longrightarrow> i \<notin> set (sr_parents q)" "i \<notin> valid_id c ` set rs"
  shows "head_ids c (rs @ [n]) = Ok [i]"
proof -
  have i: "valid_id c n = i" using new by (simp add: valid_id_def)
  have old: "valid_id c r \<in> set (concat (map sr_parents (rs @ [n])))" if "r \<in> set rs" for r
    using that head_ids_Ok(3) [OF heads] new(2) by (auto 4 3)
  have "filter (\<lambda>j. j \<notin> set (concat (map sr_parents (rs @ [n])))) (map (valid_id c) (rs @ [n])) = [i]"
    using old fresh by (auto simp: filter_empty_conv i)
  moreover have "snapshot_id c r = Ok (valid_id c r)" if "r \<in> set (rs @ [n])" for r
    using that head_ids_Ok(2) [OF heads] new(1) i by auto
  ultimately show ?thesis using head_ids_valid [of "rs @ [n]" c] by simp
qed

lemma history_decision_cases:
  assumes "history_decision_of c rs = Ok d"
  obtains hs where "head_ids c rs = Ok hs"
    and "case d of HistoryUnchanged \<Rightarrow> length hs \<le> 1
      | HistorySplit \<Rightarrow> 1 < length hs \<and> automatic_join c (filter (\<lambda>r. valid_id c r \<in> set hs) rs) = Ok None
      | HistoryJoin heads j \<Rightarrow> 1 < length hs \<and> heads = filter (\<lambda>r. valid_id c r \<in> set hs) rs \<and> automatic_join c heads = Ok (Some j)"
  using assms by (auto simp: history_decision_of_def Let_def not_le split: if_splits option.splits)

lemma head_records:
  assumes "head_ids c rs = Ok hs"
  shows "valid_id c ` set (filter (\<lambda>r. valid_id c r \<in> set hs) rs) = set hs"
  using head_ids_Ok(3) [OF assms] by auto

lemma two_values:
  assumes "A \<noteq> {}" and "card (f ` A) \<noteq> 1"
  shows "\<exists>a \<in> A. \<exists>b \<in> A. f a \<noteq> f b"
proof (rule ccontr)
  assume equal: "\<not> ?thesis"
  obtain a where "a \<in> A" using assms(1) by blast
  then have "f ` A = {f a}" using equal by blast
  with assms(2) show False by simp
qed

text \<open>
  The decision about a history is sound. With at most one head nothing changes. A split means
  that two heads differ in their progress. A join is a record that names all heads as its parents,
  has the progress of every head, and once it is in the history is its only head (its id, a
  digest, is not the id or a parent of another record).
\<close>

theorem history_decision_sound:
  assumes "history_decision_of c rs = Ok d"
  shows "\<exists>hs. head_ids c rs = Ok hs \<and>
    (case d of
       HistoryUnchanged \<Rightarrow> length hs \<le> 1
     | HistorySplit \<Rightarrow> \<exists>a \<in> set rs. \<exists>b \<in> set rs. {valid_id c a, valid_id c b} \<subseteq> set hs \<and> save_progress a \<noteq> save_progress b
     | HistoryJoin heads j \<Rightarrow>
         set (sr_parents j) = set hs \<and> save_progress ` set heads = {save_progress j} \<and>
         (\<forall>i. snapshot_id c j = Ok i \<longrightarrow> i \<notin> valid_id c ` set rs \<longrightarrow> (\<forall>q \<in> set (j # rs). i \<notin> set (sr_parents q)) \<longrightarrow>
           head_ids c (rs @ [j]) = Ok [i]))"
proof -
  obtain hs where hs: "head_ids c rs = Ok hs"
    and d: "case d of HistoryUnchanged \<Rightarrow> length hs \<le> 1
      | HistorySplit \<Rightarrow> 1 < length hs \<and> automatic_join c (filter (\<lambda>r. valid_id c r \<in> set hs) rs) = Ok None
      | HistoryJoin heads j \<Rightarrow> 1 < length hs \<and> heads = filter (\<lambda>r. valid_id c r \<in> set hs) rs \<and> automatic_join c heads = Ok (Some j)"
    using history_decision_cases [OF assms] .
  let ?heads = "filter (\<lambda>r. valid_id c r \<in> set hs) rs"
  note join = automatic_join_spec [where c = c and heads = ?heads]
  show ?thesis
  proof (cases d)
    case HistoryUnchanged
    then show ?thesis using d hs by simp
  next
    case HistorySplit
    then have none: "automatic_join c ?heads = Ok None" "set hs \<noteq> {}" using d by auto
    then have card: "card (save_progress ` set ?heads) \<noteq> 1" using join by simp
    have "set ?heads \<noteq> {}" using none(2) head_records [OF hs] by (metis image_empty)
    from two_values [OF this card] show ?thesis using HistorySplit hs by auto
  next
    case (HistoryJoin heads j)
    then have j: "heads = ?heads" "automatic_join c ?heads = Ok (Some j)" using d by auto
    have "{i. \<exists>h \<in> set ?heads. snapshot_id c h = Ok i} = valid_id c ` set ?heads"
      using head_ids_Ok(2) [OF hs] by auto
    then have "set (sr_parents j) = set hs" "save_progress ` set heads = {save_progress j}"
      using join j head_records [OF hs] by simp_all
    moreover from this(1) have "head_ids c (rs @ [j]) = Ok [i]"
      if "snapshot_id c j = Ok i" "i \<notin> valid_id c ` set rs" "\<forall>q \<in> set (j # rs). i \<notin> set (sr_parents q)" for i
      using that by (intro head_ids_closed [OF hs]) auto
    ultimately show ?thesis using HistoryJoin hs by simp
  qed
qed

text \<open>An instance: two heads that differ in a screenshot join.\<close>

theorem history_decision_sound_witness:
  "\<exists>hs heads j. history_decision_of shot_codec [shot_head CHR ''1'', shot_head CHR ''2''] = Ok (HistoryJoin heads j) \<and>
     head_ids shot_codec [shot_head CHR ''1'', shot_head CHR ''2''] = Ok hs \<and> set (sr_parents j) = set hs"
proof -
  have "case history_decision_of shot_codec [shot_head CHR ''1'', shot_head CHR ''2''] of
      Ok (HistoryJoin _ _) \<Rightarrow> True | _ \<Rightarrow> False"
    by code_simp
  then obtain heads j where d: "history_decision_of shot_codec [shot_head CHR ''1'', shot_head CHR ''2''] = Ok (HistoryJoin heads j)"
    by (auto split: result.splits history_decision.splits)
  from history_decision_sound [OF d] d show ?thesis by auto
qed

subsection \<open>Pruning\<close>

text \<open>
  The distance of every record from the nearest head, in breadth-first order. An id is visited
  again only at a smaller distance.
\<close>

definition distance_sum :: "string list \<Rightarrow> (string, nat) btree \<Rightarrow> nat" where
  "distance_sum ks dist = (\<Sum>k \<in> set ks. case bt_get dist k of None \<Rightarrow> 0 | Some d \<Rightarrow> d)"

lemma distance_sum_less:
  assumes "k \<in> set ks" and "bt_get dist k = Some d" and "n < d"
  shows "distance_sum ks (bt_insert k n dist) < distance_sum ks dist"
  unfolding distance_sum_def using assms by (intro sum_strict_mono_ex1) (auto split: option.splits)

function distance_walk :: "(string, string list) btree \<Rightarrow> (string \<times> nat) list \<Rightarrow> (string, nat) btree \<Rightarrow> (string, nat) btree" where
  "distance_walk parents [] dist = dist"
| "distance_walk parents ((i, depth) # pending) dist =
     (if (case bt_get dist i of None \<Rightarrow> False | Some known \<Rightarrow> known \<le> depth) then distance_walk parents pending dist
      else distance_walk parents (pending @ (case bt_get parents i of None \<Rightarrow> [] | Some ps \<Rightarrow> map (\<lambda>p. (p, depth + 1)) ps))
             (bt_insert i depth dist))"
  by pat_completeness auto
termination
proof (relation "measures [\<lambda>(parents, _, dist). card (set (bt_keys parents) - set (bt_keys dist)),
    \<lambda>(parents, _, dist). distance_sum (bt_keys parents) dist, \<lambda>(_, pending, _). length pending]", goal_cases)
  case (3 parents i depth pending dist)
  let ?dist = "bt_insert i depth dist"
  have keys: "set (bt_keys ?dist) = insert i (set (bt_keys dist))" by (rule bt_keys_insert)
  show ?case
  proof (cases "bt_get parents i")
    case None
    then have out: "i \<notin> set (bt_keys parents)" by (simp add: bt_get_None_iff)
    then have "distance_sum (bt_keys parents) ?dist = distance_sum (bt_keys parents) dist"
      unfolding distance_sum_def by (intro sum.cong) auto
    then show ?thesis using None out by (simp add: keys)
  next
    case (Some ps)
    then have inp: "i \<in> set (bt_keys parents)" by (rule bt_get_keys)
    show ?thesis
    proof (cases "bt_get dist i")
      case None
      then have "card (set (bt_keys parents) - insert i (set (bt_keys dist))) < card (set (bt_keys parents) - set (bt_keys dist))"
        using inp by (intro psubset_card_mono) (auto simp: bt_get_None_iff)
      then show ?thesis by (simp add: keys)
    next
      case (Some d)
      then have "insert i (set (bt_keys dist)) = set (bt_keys dist)" by (auto intro: bt_get_keys)
      moreover have "distance_sum (bt_keys parents) ?dist < distance_sum (bt_keys parents) dist"
        using 3 Some by (intro distance_sum_less [OF inp Some]) simp
      ultimately show ?thesis by (simp add: keys)
    qed
  qed
qed auto

definition prune_limit :: nat where
  "prune_limit = 10"

definition retention_order :: "save_codec \<Rightarrow> string list \<Rightarrow> snapshot_record list \<Rightarrow> snapshot_record list" where
  "retention_order c heads rs =
     (let parents = collect_pairs (map (\<lambda>r. (valid_id c r, sr_parents r)) rs);
          dist = distance_walk parents (map (\<lambda>i. (i, 0)) (remdups_adj (sort heads))) []
      in sort_key (\<lambda>r. (case bt_get dist (valid_id c r) of None \<Rightarrow> 2 ^ 64 - 1 | Some d \<Rightarrow> d, valid_id c r)) rs)"

text \<open>Sides of a merge that were not picked: parents whose progress differs from that of the merge.\<close>

definition unpicked :: "save_codec \<Rightarrow> snapshot_record list \<Rightarrow> string list" where
  "unpicked c rs =
     concat (map (\<lambda>merge. filter (\<lambda>p. list_ex (\<lambda>r. snapshot_id c r = Ok p \<and> save_progress r \<noteq> save_progress merge) rs) (sr_parents merge))
       (filter (\<lambda>r. 1 < length (sr_parents r)) rs))"

definition protected_ids :: "save_codec \<Rightarrow> string list \<Rightarrow> snapshot_record list \<Rightarrow> string set" where
  "protected_ids c heads ordered =
     set heads \<union> set (map (valid_id c) (take prune_limit ordered)) \<union> set (unpicked c ordered)"

type_synonym confirmations = "(string, string list) btree"

definition confirmed_by_other :: "confirmations \<Rightarrow> string \<Rightarrow> string \<Rightarrow> bool" where
  "confirmed_by_other m local i =
     (case bt_get m i of None \<Rightarrow> False | Some devices \<Rightarrow> list_ex (\<lambda>d. d \<noteq> local) devices)"

definition prunable_records :: "save_codec \<Rightarrow> confirmations \<Rightarrow> string \<Rightarrow> string list \<Rightarrow> snapshot_record list \<Rightarrow> snapshot_record list" where
  "prunable_records c m local heads ordered =
     filter (\<lambda>r. valid_id c r \<notin> protected_ids c heads ordered \<and> confirmed_by_other m local (valid_id c r)) ordered"

definition record_hashes :: "snapshot_record \<Rightarrow> string list" where
  "record_hashes r = concat (map (\<lambda>l. map sf_sha256 (lo_files l)) (sr_locations r))"

text \<open>\<open>everything\<close> is every record of every person, with the name of the person's directory.\<close>

definition prune_candidates ::
  "save_codec \<Rightarrow> string \<Rightarrow> string \<Rightarrow> snapshot_record list \<Rightarrow> (string \<times> snapshot_record) list \<Rightarrow> string list" where
  "prune_candidates c person game prunable everything =
     filter (\<lambda>h. \<not> list_ex (\<lambda>(name, r).
          \<not> (name = person \<and> sr_game_id r = game \<and> valid_id c r \<in> valid_id c ` set prunable) \<and> h \<in> set (record_hashes r)) everything)
       (remdups_adj (sort (concat (map record_hashes prunable))))"

end
