(* ===== verification/Save_Store.thy ===== *)
theory Save_Store
  imports Save_Ancestry Utf8 "HOL-Library.Code_Target_Nat"
begin

text \<open>
  The store of save records and objects, \<open>services/korrid/src/saves/store.rs\<close>. A record lies in
  the directory of its person and game under the name of its id, an object under the name of its
  hash in a directory that all people share. The disk is outside the sources: its operations are
  the parameter \<open>save_disk\<close> over a state \<open>'d\<close>, and the JSON decoders are fields of \<open>save_env\<close>. The two
  process-wide memos of the source are part of the state. Operations run under one lock, so that a
  step of the model is a whole operation.

  Capturing and materializing the working files of a game, which walk directories that a game may
  write, are not modelled.
\<close>

subsection \<open>Disk and environment\<close>

datatype file_kind = KDirectory | KRegular | KSymlink | KOther

type_synonym stamp = "nat \<times> nat \<times> nat \<times> int \<times> int"

text \<open>\<open>me_private\<close>: the mode has no bits for group and others.\<close>

record file_meta =
  me_kind :: file_kind
  me_private :: bool
  me_len :: nat
  me_stamp :: stamp

text \<open>
  \<open>sd_file\<close> is what a path holds and is only used to state laws. \<open>sd_open\<close> opens without following a
  link and gives the metadata of the open file and what reading it gives; \<open>sd_mkdir\<close> says whether it
  made the directory or found one; \<open>sd_temp\<close> is a fresh random name beside a path.
\<close>

record 'd save_disk =
  sd_file :: "'d \<Rightarrow> string \<Rightarrow> string option"
  sd_meta :: "string \<Rightarrow> 'd \<Rightarrow> (file_meta, io_error) result"
  sd_exists :: "string \<Rightarrow> 'd \<Rightarrow> bool"
  sd_open :: "string \<Rightarrow> 'd \<Rightarrow> (file_meta \<times> (string, io_error) result, io_error) result"
  sd_entries :: "string \<Rightarrow> 'd \<Rightarrow> ((string, io_error) result list, io_error) result"
  sd_temp :: "string \<Rightarrow> 'd \<Rightarrow> string"
  sd_mkdir :: "string \<Rightarrow> 'd \<Rightarrow> (bool, io_error) result \<times> 'd"
  sd_create_new :: "string \<Rightarrow> 'd \<Rightarrow> (unit, io_error) result \<times> 'd"
  sd_append :: "string \<Rightarrow> string \<Rightarrow> 'd \<Rightarrow> (unit, io_error) result \<times> 'd"
  sd_sync :: "string \<Rightarrow> 'd \<Rightarrow> (unit, io_error) result \<times> 'd"
  sd_sync_parent :: "string \<Rightarrow> 'd \<Rightarrow> (unit, io_error) result \<times> 'd"
  sd_rename :: "string \<Rightarrow> string \<Rightarrow> 'd \<Rightarrow> (unit, io_error) result \<times> 'd"
  sd_remove :: "string \<Rightarrow> 'd \<Rightarrow> (unit, io_error) result \<times> 'd"

record 'd save_env =
  ev_root :: string
  ev_disk :: "'d save_disk"
  ev_codec :: save_codec
  ev_parse_record :: "string \<Rightarrow> (snapshot_record, string) result"
  ev_parse_confirmations :: "string \<Rightarrow> (confirmations, string) result"
  ev_print_confirmations :: "confirmations \<Rightarrow> (string, string) result"

record 'd save_state =
  sv_disk :: 'd
  sv_validated :: "(string, stamp \<times> snapshot_record) btree"
  sv_verified :: "(string, stamp) btree"

type_synonym ('d, 'a) save_step = "'d save_state \<Rightarrow> ('a, save_error) result \<times> 'd save_state"

definition save_io :: "io_error \<Rightarrow> save_error" where
  "save_io e = SaveStorage (io_text e)"

definition on_store :: "('d \<Rightarrow> ('a, io_error) result \<times> 'd) \<Rightarrow> ('d, 'a) save_step" where
  "on_store f s = (let (r, d) = f (sv_disk s) in (map_err save_io r, s\<lparr>sv_disk := d\<rparr>))"

definition to_str :: "string \<Rightarrow> string option" where
  "to_str n = (if utf8_valid n then Some n else None)"

subsection \<open>Files\<close>

definition max_record :: nat where
  "max_record = 8 * 1024 * 1024"

definition store_key :: "string \<Rightarrow> (string, save_error) result" where
  "store_key v =
     (let encoded = encode_uri_component v
      in if encoded = [] \<or> encoded = ''.'' \<or> encoded = ''..'' \<or> 255 < length encoded then Err (SaveInvalid ''history path identity'')
         else Ok encoded)"

definition check_directory :: "'d save_env \<Rightarrow> string \<Rightarrow> 'd \<Rightarrow> (bool, save_error) result" where
  "check_directory ev p d =
     (case sd_meta (ev_disk ev) p d of
        Err e \<Rightarrow> Err (save_io e)
      | Ok m \<Rightarrow> if me_kind m \<noteq> KDirectory \<or> \<not> me_private m then Err (SaveInvalid ''save directory is not private'') else Ok True)"

definition save_directory :: "'d save_env \<Rightarrow> string \<Rightarrow> bool \<Rightarrow> ('d, bool) save_step" where
  "save_directory ev p create s =
     (case sd_meta (ev_disk ev) p (sv_disk s) of
        Err (NotFound _) \<Rightarrow>
          if \<not> create then (Ok False, s)
          else and_then (on_store (sd_mkdir (ev_disk ev) p) s) (\<lambda>_ s1.
               and_then (on_store (sd_sync_parent (ev_disk ev) p) s1) (\<lambda>_ s2. (check_directory ev p (sv_disk s2), s2)))
      | Err (OtherIo m) \<Rightarrow> (Err (SaveStorage m), s)
      | Ok _ \<Rightarrow> (check_directory ev p (sv_disk s), s))"

definition save_regular :: "'d save_env \<Rightarrow> string \<Rightarrow> 'd \<Rightarrow> (file_meta \<times> (string, io_error) result, save_error) result" where
  "save_regular ev p d =
     (case sd_open (ev_disk ev) p d of
        Err (NotFound _) \<Rightarrow> Err SaveMissing
      | Err (OtherIo m) \<Rightarrow> Err (SaveStorage m)
      | Ok (m, body) \<Rightarrow>
          if me_kind m \<noteq> KRegular \<or> \<not> me_private m then Err (SaveInvalid ''save object is not a private regular file'')
          else Ok (m, body))"

definition save_read_json :: "'d save_env \<Rightarrow> (string \<Rightarrow> ('a, string) result) \<Rightarrow> string \<Rightarrow> 'd \<Rightarrow> ('a, save_error) result" where
  "save_read_json ev parse p d =
     (case save_regular ev p d of
        Err e \<Rightarrow> Err e
      | Ok (m, body) \<Rightarrow>
          if max_record < me_len m then Err (SaveInvalid ''oversized record'')
          else case body of
              Err e \<Rightarrow> Err (save_io e)
            | Ok b \<Rightarrow> if max_record < length b then Err (SaveInvalid ''oversized record'') else map_err SaveInvalid (parse b))"

text \<open>The input of \<open>publish\<close> as the buffers that reading it gives.\<close>

fun write_chunks :: "'d save_env \<Rightarrow> string \<Rightarrow> (string, io_error) result list \<Rightarrow> string \<Rightarrow> ('d, string) save_step" where
  "write_chunks ev temp [] hash s = (Ok hash, s)"
| "write_chunks ev temp (Err e # cs) hash s = (Err (save_io e), s)"
| "write_chunks ev temp (Ok b # cs) hash s =
     and_then (on_store (sd_append (ev_disk ev) temp b) s) (\<lambda>_ s1. write_chunks ev temp cs (hash @ b) s1)"

definition write_temp :: "'d save_env \<Rightarrow> string \<Rightarrow> string \<Rightarrow> (string, io_error) result list \<Rightarrow> string option \<Rightarrow> ('d, unit) save_step" where
  "write_temp ev p temp input expected s =
     and_then (on_store (sd_create_new (ev_disk ev) temp) s) (\<lambda>_ s1.
     and_then (write_chunks ev temp input [] s1) (\<lambda>b s2.
     and_then (case expected of
          None \<Rightarrow> (Ok (), s2)
        | Some h \<Rightarrow>
            (case hash_hex h of
               Err e \<Rightarrow> (Err e, s2)
             | Ok hex \<Rightarrow> if sha256_hex (ev_codec ev) b \<noteq> hex then (Err (SaveInvalid ''object hash mismatch''), s2) else (Ok (), s2))) (\<lambda>_ s3.
     and_then (on_store (sd_sync (ev_disk ev) temp) s3) (\<lambda>_ s4.
     and_then (on_store (sd_rename (ev_disk ev) temp p) s4) (\<lambda>_ s5.
     on_store (sd_sync_parent (ev_disk ev) p) s5)))))"

definition publish :: "'d save_env \<Rightarrow> string \<Rightarrow> (string, io_error) result list \<Rightarrow> string option \<Rightarrow> ('d, unit) save_step" where
  "publish ev p input expected s =
     (if (case sd_meta (ev_disk ev) p (sv_disk s) of Err _ \<Rightarrow> False | Ok m \<Rightarrow> me_kind m \<noteq> KRegular \<or> \<not> me_private m)
      then (Err (SaveInvalid ''unsafe save destination''), s)
      else
        let temp = sd_temp (ev_disk ev) p (sv_disk s)
        in case write_temp ev p temp input expected s of
             (Ok _, s1) \<Rightarrow> (Ok (), s1)
           | (Err e, s1) \<Rightarrow> (Err e, snd (on_store (sd_remove (ev_disk ev) temp) s1)))"

subsection \<open>Records\<close>

definition record_file :: "'d save_env \<Rightarrow> string \<Rightarrow> string \<Rightarrow> string \<Rightarrow> ('d, snapshot_record) save_step" where
  "record_file ev dir p i s =
     (let stamp = (case sd_meta (ev_disk ev) p (sv_disk s) of
            Ok m \<Rightarrow> if me_kind m = KRegular then Some (me_stamp m) else None
          | Err _ \<Rightarrow> None)
      in case (case (stamp, bt_get (sv_validated s) p) of
            (Some t, Some (known, r)) \<Rightarrow> if known = t then Some r else None
          | _ \<Rightarrow> None) of
           Some r \<Rightarrow> (Ok r, s)
         | None \<Rightarrow>
             (case save_read_json ev (ev_parse_record ev) p (sv_disk s) of
                Err e \<Rightarrow> (Err e, s)
              | Ok r \<Rightarrow>
                  (case snapshot_id (ev_codec ev) r of
                     Err e \<Rightarrow> (Err e, s)
                   | Ok j \<Rightarrow>
                       if j \<noteq> i \<or> Some (encode_uri_component (sr_game_id r)) \<noteq> Option.bind (file_name dir) to_str
                       then (Err (SaveInvalid ''record identity mismatch''), s)
                       else (Ok r, (case stamp of
                              None \<Rightarrow> s
                            | Some t \<Rightarrow> s\<lparr>sv_validated := bt_insert p (t, r) (sv_validated s)\<rparr>)))))"

fun read_entries :: "'d save_env \<Rightarrow> string \<Rightarrow> (string, io_error) result list \<Rightarrow> ('d, (string \<times> snapshot_record) list) save_step" where
  "read_entries ev dir [] s = (Ok [], s)"
| "read_entries ev dir (Err e # es) s = (Err (save_io e), s)"
| "read_entries ev dir (Ok raw # es) s =
     (case to_str raw of
        None \<Rightarrow> (Err (SaveInvalid ''record filename''), s)
      | Some name \<Rightarrow>
          if name = ''confirmations.json'' \<or> name = ''in-use.json'' \<or> (starts_with ''.save-'' name \<and> ends_with ''.tmp'' name)
          then read_entries ev dir es s
          else case strip_suffix ''.json'' name of
              None \<Rightarrow> (Err (SaveInvalid ''record filename''), s)
            | Some hex \<Rightarrow>
                let i = ''sha256:'' @ hex
                in case hash_hex i of
                     Err e \<Rightarrow> (Err e, s)
                   | Ok _ \<Rightarrow>
                       and_then (record_file ev dir (path_join dir raw) i s) (\<lambda>r s1.
                       and_then (read_entries ev dir es s1) (\<lambda>rs s2. (Ok ((i, r) # rs), s2))))"

definition records_with_ids_at :: "'d save_env \<Rightarrow> string \<Rightarrow> ('d, (string \<times> snapshot_record) list) save_step" where
  "records_with_ids_at ev dir s =
     (case sd_entries (ev_disk ev) dir (sv_disk s) of
        Err e \<Rightarrow> (Err (save_io e), s)
      | Ok es \<Rightarrow> and_then (read_entries ev dir es s) (\<lambda>rs s1. (Ok (sort_key fst rs), s1)))"

definition save_person :: "'d save_env \<Rightarrow> string \<Rightarrow> bool \<Rightarrow> ('d, string option) save_step" where
  "save_person ev person create s =
     (case account_root ''/'' person of
        Err m \<Rightarrow> (Err (SaveInvalid m), s)
      | Ok _ \<Rightarrow>
          and_then (save_directory ev (ev_root ev) create s) (\<lambda>there s1.
            if \<not> there then (Ok None, s1)
            else
              let p = path_join (ev_root ev) (encode_uri_component person)
              in and_then (save_directory ev p create s1) (\<lambda>there s2. (Ok (if there then Some p else None), s2))))"

definition save_game_dir :: "'d save_env \<Rightarrow> string \<Rightarrow> string \<Rightarrow> bool \<Rightarrow> ('d, string option) save_step" where
  "save_game_dir ev person game create s =
     (case store_key game of
        Err e \<Rightarrow> (Err e, s)
      | Ok g \<Rightarrow>
          and_then (save_person ev person create s) (\<lambda>parent s1.
            case parent of
              None \<Rightarrow> (Ok None, s1)
            | Some q \<Rightarrow>
                let p = path_join q g
                in and_then (save_directory ev p create s1) (\<lambda>there s2. (Ok (if there then Some p else None), s2))))"

definition record_by_id :: "'d save_env \<Rightarrow> string \<Rightarrow> string \<Rightarrow> string \<Rightarrow> ('d, snapshot_record option) save_step" where
  "record_by_id ev person game i s =
     and_then (save_game_dir ev person game False s) (\<lambda>dir s1.
       case dir of
         None \<Rightarrow> (Ok None, s1)
       | Some d \<Rightarrow>
           (case hash_hex i of
              Err e \<Rightarrow> (Err e, s1)
            | Ok hex \<Rightarrow>
                let p = path_join d (hex @ ''.json'')
                in case sd_meta (ev_disk ev) p (sv_disk s1) of
                     Err (NotFound _) \<Rightarrow> (Ok None, s1)
                   | Err (OtherIo m) \<Rightarrow> (Err (SaveStorage m), s1)
                   | Ok _ \<Rightarrow> and_then (record_file ev d p i s1) (\<lambda>r s2. (Ok (Some r), s2))))"

definition read_records :: "'d save_env \<Rightarrow> string \<Rightarrow> string \<Rightarrow> ('d, snapshot_record list) save_step" where
  "read_records ev person game s =
     and_then (save_game_dir ev person game False s) (\<lambda>dir s1.
       case dir of
         None \<Rightarrow> (Ok [], s1)
       | Some d \<Rightarrow> and_then (records_with_ids_at ev d s1) (\<lambda>rs s2. (Ok (map snd rs), s2)))"

fun read_games :: "'d save_env \<Rightarrow> string \<Rightarrow> (string, io_error) result list \<Rightarrow> ('d, (string \<times> snapshot_record) list list) save_step" where
  "read_games ev p [] s = (Ok [], s)"
| "read_games ev p (Err e # es) s = (Err (save_io e), s)"
| "read_games ev p (Ok raw # es) s =
     and_then (save_directory ev (path_join p raw) False s) (\<lambda>_ s1.
     and_then (records_with_ids_at ev (path_join p raw) s1) (\<lambda>rs s2.
     and_then (read_games ev p es s2) (\<lambda>rest s3. (Ok (rs # rest), s3))))"

definition all_records_with_ids :: "'d save_env \<Rightarrow> string \<Rightarrow> ('d, (string \<times> snapshot_record) list list) save_step" where
  "all_records_with_ids ev person s =
     and_then (save_person ev person False s) (\<lambda>dir s1.
       case dir of
         None \<Rightarrow> (Ok [], s1)
       | Some p \<Rightarrow>
           (case sd_entries (ev_disk ev) p (sv_disk s1) of
              Err e \<Rightarrow> (Err (save_io e), s1)
            | Ok es \<Rightarrow> read_games ev p es s1))"

text \<open>Reading a slice gives buffers of at most 64 KiB.\<close>

function slice_chunks :: "string \<Rightarrow> (string, io_error) result list" where
  "slice_chunks b = (if b = [] then [] else Ok (take 65536 b) # slice_chunks (drop 65536 b))"
  by pat_completeness auto
termination by (relation "measure length") auto

declare slice_chunks.simps [simp del]

definition write_record :: "'d save_env \<Rightarrow> string \<Rightarrow> snapshot_record \<Rightarrow> ('d, string) save_step" where
  "write_record ev person r s =
     (case canonical_record (ev_codec ev) r of
        Err e \<Rightarrow> (Err e, s)
      | Ok b \<Rightarrow>
          if max_record < length b then (Err (SaveInvalid ''oversized record''), s)
          else
            let i = save_hash (ev_codec ev) b
            in and_then (save_game_dir ev person (sr_game_id r) True s) (\<lambda>dir s1.
                 case (dir, hash_hex i) of
                   (None, _) \<Rightarrow> (Err (SavePanic ''unwrap''), s1)
                 | (Some _, Err e) \<Rightarrow> (Err e, s1)
                 | (Some d, Ok hex) \<Rightarrow>
                     and_then (publish ev (path_join d (hex @ ''.json'')) (slice_chunks b) None s1) (\<lambda>_ s2. (Ok i, s2))))"

subsection \<open>Objects\<close>

definition objects_dir :: "'d save_env \<Rightarrow> string" where
  "objects_dir ev = path_join (ev_root ev) ''objects''"

definition object_path :: "'d save_env \<Rightarrow> string \<Rightarrow> bool \<Rightarrow> ('d, string) save_step" where
  "object_path ev h create s =
     (case hash_hex h of
        Err e \<Rightarrow> (Err e, s)
      | Ok hex \<Rightarrow>
          and_then (save_directory ev (ev_root ev) create s) (\<lambda>there s1.
            if \<not> there then (Err SaveMissing, s1)
            else and_then (save_directory ev (objects_dir ev) create s1) (\<lambda>there s2.
              if \<not> there then (Err SaveMissing, s2) else (Ok (path_join (objects_dir ev) hex), s2))))"

text \<open>The length of the verified object; the source returns the open file.\<close>

definition verified_object :: "'d save_env \<Rightarrow> string \<Rightarrow> ('d, nat) save_step" where
  "verified_object ev h s =
     and_then (object_path ev h False s) (\<lambda>p s1.
       case save_regular ev p (sv_disk s1) of
         Err e \<Rightarrow> (Err e, s1)
       | Ok (m, body) \<Rightarrow>
           if bt_get (sv_verified s1) p = Some (me_stamp m) then (Ok (me_len m), s1)
           else case body of
               Err e \<Rightarrow> (Err (save_io e), s1)
             | Ok b \<Rightarrow>
                 (case hash_hex h of
                    Err e \<Rightarrow> (Err e, s1)
                  | Ok hex \<Rightarrow>
                      if sha256_hex (ev_codec ev) b \<noteq> hex then (Err (SaveInvalid ''stored object hash mismatch''), s1)
                      else (Ok (me_len m), s1\<lparr>sv_verified := bt_insert p (me_stamp m) (sv_verified s1)\<rparr>)))"

fun files_complete :: "'d save_env \<Rightarrow> save_file list \<Rightarrow> ('d, bool) save_step" where
  "files_complete ev [] s = (Ok True, s)"
| "files_complete ev (f # fs) s =
     (case verified_object ev (sf_sha256 f) s of
        (Ok n, s1) \<Rightarrow> if n = sf_bytes f then files_complete ev fs s1 else (Err (SaveInvalid ''object size mismatch''), s1)
      | (Err e, s1) \<Rightarrow> if e = SaveMissing then (Ok False, s1) else (Err e, s1))"

definition record_complete :: "'d save_env \<Rightarrow> snapshot_record \<Rightarrow> ('d, bool) save_step" where
  "record_complete ev r s = files_complete ev (concat (map lo_files (sr_locations r))) s"

definition progress_complete :: "'d save_env \<Rightarrow> snapshot_record \<Rightarrow> ('d, bool) save_step" where
  "progress_complete ev r s =
     record_complete ev (r\<lparr>sr_locations := filter (\<lambda>l. lo_kind l \<noteq> Screenshot) (sr_locations r)\<rparr>) s"

definition authorize_object :: "'d save_env \<Rightarrow> string \<Rightarrow> string \<Rightarrow> ('d, unit) save_step" where
  "authorize_object ev person h s =
     (case hash_hex h of
        Err e \<Rightarrow> (Err e, s)
      | Ok _ \<Rightarrow>
          and_then (all_records_with_ids ev person s) (\<lambda>games s1.
            if list_ex (\<lambda>x. h \<in> set (record_hashes (snd x))) (concat games) then (Ok (), s1) else (Err SaveMissing, s1)))"

definition save_object :: "'d save_env \<Rightarrow> string \<Rightarrow> string \<Rightarrow> ('d, nat) save_step" where
  "save_object ev person h s = and_then (authorize_object ev person h s) (\<lambda>_ s1. verified_object ev h s1)"

definition put_object :: "'d save_env \<Rightarrow> string \<Rightarrow> string \<Rightarrow> (string, io_error) result list \<Rightarrow> ('d, unit) save_step" where
  "put_object ev person h input s =
     and_then (authorize_object ev person h s) (\<lambda>_ s1.
     and_then (object_path ev h True s1) (\<lambda>p s2. publish ev p input (Some h) s2))"

definition save_complete :: "'d save_env \<Rightarrow> string \<Rightarrow> string \<Rightarrow> string \<Rightarrow> ('d, bool) save_step" where
  "save_complete ev person game i s =
     (case hash_hex i of
        Err e \<Rightarrow> (Err e, s)
      | Ok _ \<Rightarrow>
          and_then (record_by_id ev person game i s) (\<lambda>r s1.
            case r of None \<Rightarrow> (Err SaveMissing, s1) | Some r \<Rightarrow> record_complete ev r s1))"

subsection \<open>Continuing a history\<close>

datatype save_mark = Synced | MarkSplit | NotChecked | NotSynced | SyncedBySteam

definition reconciliation_status :: "'d save_env \<Rightarrow> string \<Rightarrow> string \<Rightarrow> ('d, save_mark) save_step" where
  "reconciliation_status ev person game s =
     and_then (read_records ev person game s) (\<lambda>rs s1.
       case history_decision_of (ev_codec ev) rs of
         Err e \<Rightarrow> (Err e, s1)
       | Ok HistorySplit \<Rightarrow> (Ok MarkSplit, s1)
       | Ok _ \<Rightarrow> (Ok NotChecked, s1))"

fun all_complete :: "'d save_env \<Rightarrow> snapshot_record list \<Rightarrow> ('d, bool) save_step" where
  "all_complete ev [] s = (Ok True, s)"
| "all_complete ev (h # hs) s =
     and_then (record_complete ev h s) (\<lambda>yes s1. if yes then all_complete ev hs s1 else (Ok False, s1))"

definition reconcile :: "'d save_env \<Rightarrow> string \<Rightarrow> string \<Rightarrow> ('d, save_mark) save_step" where
  "reconcile ev person game s =
     and_then (read_records ev person game s) (\<lambda>rs s1.
       case history_decision_of (ev_codec ev) rs of
         Err e \<Rightarrow> (Err e, s1)
       | Ok HistoryUnchanged \<Rightarrow> (Ok NotChecked, s1)
       | Ok HistorySplit \<Rightarrow> (Ok MarkSplit, s1)
       | Ok (HistoryJoin heads j) \<Rightarrow>
           and_then (all_complete ev heads s1) (\<lambda>yes s2.
             if \<not> yes then (Ok NotChecked, s2)
             else and_then (write_record ev person j s2) (\<lambda>_ s3. (Ok NotChecked, s3))))"

fun first_complete :: "'d save_env \<Rightarrow> snapshot_record list \<Rightarrow> string list \<Rightarrow> ('d, string option) save_step" where
  "first_complete ev rs [] s = (Ok None, s)"
| "first_complete ev rs (i # ids) s =
     (case find (\<lambda>r. snapshot_id (ev_codec ev) r = Ok i) rs of
        None \<Rightarrow> first_complete ev rs ids s
      | Some r \<Rightarrow>
          and_then (progress_complete ev r s) (\<lambda>yes s1. if yes then (Ok (Some i), s1) else first_complete ev rs ids s1))"

fun local_complete :: "'d save_env \<Rightarrow> string \<Rightarrow> history \<Rightarrow> ('d, string list) save_step" where
  "local_complete ev device [] s = (Ok [], s)"
| "local_complete ev device ((i, r) # m) s =
     (if sr_device r = device then
        and_then (record_complete ev r s) (\<lambda>yes s1.
        and_then (local_complete ev device m s1) (\<lambda>ids s2. (Ok (if yes then i # ids else ids), s2)))
      else local_complete ev device m s)"

definition launch_base :: "'d save_env \<Rightarrow> string \<Rightarrow> string \<Rightarrow> string \<Rightarrow> ('d, string option) save_step" where
  "launch_base ev person game device s =
     and_then (read_records ev person game s) (\<lambda>rs s1.
       case head_ids (ev_codec ev) rs of
         Err e \<Rightarrow> (Err e, s1)
       | Ok heads \<Rightarrow>
           let current = filter (\<lambda>r. valid_id (ev_codec ev) r \<in> set heads) rs
           in case (if 1 < length current
                    then (case automatic_join (ev_codec ev) current of Err e \<Rightarrow> Err e | Ok j \<Rightarrow> Ok (j = None)) else Ok False) of
                Err e \<Rightarrow> (Err e, s1)
              | Ok True \<Rightarrow> (Err SaveSplit, s1)
              | Ok False \<Rightarrow>
                  and_then (first_complete ev rs heads s1) (\<lambda>found s2.
                    case found of
                      Some i \<Rightarrow> (Ok (Some i), s2)
                    | None \<Rightarrow>
                        let m = by_id (ev_codec ev) rs
                        in and_then (local_complete ev device m s2) (\<lambda>ids s3.
                             case newest_local m ids of
                               [] \<Rightarrow> (Ok None, s3)
                             | [i] \<Rightarrow> (Ok (Some i), s3)
                             | _ \<Rightarrow> (Err SaveSplit, s3))))"

definition pick :: "'d save_env \<Rightarrow> string \<Rightarrow> snapshot_record list \<Rightarrow> string list \<Rightarrow> string \<Rightarrow> string \<Rightarrow> string \<Rightarrow> ('d, string) save_step" where
  "pick ev person rs parents i device ended_at s =
     (case find (\<lambda>r. snapshot_id (ev_codec ev) r = Ok i) rs of
        None \<Rightarrow> (Err SaveMissing, s)
      | Some picked \<Rightarrow>
          and_then (record_complete ev picked s) (\<lambda>yes s1.
            if \<not> yes then (Err SaveMissing, s1)
            else
              let sides = filter (\<lambda>r. valid_id (ev_codec ev) r \<in> set parents) rs
              in case with_screenshot_union (ev_codec ev) picked sides of
                   Err e \<Rightarrow> (Err e, s1)
                 | Ok u \<Rightarrow>
                     write_record ev person
                       (u\<lparr>sr_parents := parents, sr_device := device, sr_ended_at := ended_at,
                          sr_duration_seconds := 0, sr_interrupted := False\<rparr>) s1))"

definition choose_side :: "'d save_env \<Rightarrow> string \<Rightarrow> string \<Rightarrow> string \<Rightarrow> string \<Rightarrow> string \<Rightarrow> ('d, string) save_step" where
  "choose_side ev person game i device ended_at s =
     and_then (read_records ev person game s) (\<lambda>rs s1.
       case head_ids (ev_codec ev) rs of
         Err e \<Rightarrow> (Err e, s1)
       | Ok heads \<Rightarrow>
           if length heads < 2 \<or> i \<notin> set heads then (Err (SaveInvalid ''choice no longer names an open split side''), s1)
           else pick ev person rs heads i device ended_at s1)"

definition restore_snapshot :: "'d save_env \<Rightarrow> string \<Rightarrow> string \<Rightarrow> string \<Rightarrow> string \<Rightarrow> string \<Rightarrow> ('d, string) save_step" where
  "restore_snapshot ev person game i device ended_at s =
     and_then (read_records ev person game s) (\<lambda>rs s1.
       case head_ids (ev_codec ev) rs of
         Err e \<Rightarrow> (Err e, s1)
       | Ok heads \<Rightarrow> pick ev person rs heads i device ended_at s1)"

subsection \<open>Confirmations\<close>

definition read_confirmations :: "'d save_env \<Rightarrow> string \<Rightarrow> 'd \<Rightarrow> (confirmations, save_error) result" where
  "read_confirmations ev dir d =
     (case save_read_json ev (ev_parse_confirmations ev) (path_join dir ''confirmations.json'') d of
        Ok m \<Rightarrow> Ok m
      | Err e \<Rightarrow> if e = SaveMissing then Ok [] else Err e)"

definition confirmed_snapshots :: "'d save_env \<Rightarrow> string \<Rightarrow> string \<Rightarrow> string \<Rightarrow> ('d, string list) save_step" where
  "confirmed_snapshots ev person game device s =
     and_then (save_game_dir ev person game False s) (\<lambda>dir s1.
       case dir of
         None \<Rightarrow> (Ok [], s1)
       | Some d \<Rightarrow>
           (case read_confirmations ev d (sv_disk s1) of
              Err e \<Rightarrow> (Err e, s1)
            | Ok m \<Rightarrow> (Ok (map fst (filter (\<lambda>(_, devices). device \<in> set devices) m)), s1)))"

text \<open>A set of devices is a sorted list, as \<open>BTreeSet\<close> iterates.\<close>

definition save_confirm :: "'d save_env \<Rightarrow> string \<Rightarrow> string \<Rightarrow> string \<Rightarrow> string \<Rightarrow> ('d, unit) save_step" where
  "save_confirm ev person game i device s =
     (case hash_hex i of
        Err e \<Rightarrow> (Err e, s)
      | Ok _ \<Rightarrow>
          (case account_root ''/'' device of
             Err m \<Rightarrow> (Err (SaveInvalid m), s)
           | Ok _ \<Rightarrow>
               and_then (read_records ev person game s) (\<lambda>rs s1.
                 if \<not> list_ex (\<lambda>r. snapshot_id (ev_codec ev) r = Ok i) rs then (Err SaveMissing, s1)
                 else and_then (save_game_dir ev person game False s1) (\<lambda>dir s2.
                   case dir of
                     None \<Rightarrow> (Err SaveMissing, s2)
                   | Some d \<Rightarrow>
                       (case read_confirmations ev d (sv_disk s2) of
                          Err e \<Rightarrow> (Err e, s2)
                        | Ok m \<Rightarrow>
                            let devices = (case bt_get m i of None \<Rightarrow> [] | Some ds \<Rightarrow> ds)
                            in if device \<in> set devices then (Ok (), s2)
                               else case ev_print_confirmations ev (bt_insert i (sort (device # devices)) m) of
                                   Err e \<Rightarrow> (Err (SaveInvalid e), s2)
                                 | Ok b \<Rightarrow> publish ev (path_join d ''confirmations.json'') (slice_chunks b) None s2)))))"

fun heads_complete :: "'d save_env \<Rightarrow> string list \<Rightarrow> snapshot_record list \<Rightarrow> ('d, bool) save_step" where
  "heads_complete ev heads [] s = (Ok True, s)"
| "heads_complete ev heads (r # rs) s =
     (if valid_id (ev_codec ev) r \<in> set heads then
        and_then (record_complete ev r s) (\<lambda>yes s1. if yes then heads_complete ev heads rs s1 else (Ok False, s1))
      else heads_complete ev heads rs s)"

definition confirmed_elsewhere :: "'d save_env \<Rightarrow> string \<Rightarrow> string \<Rightarrow> string \<Rightarrow> ('d, bool) save_step" where
  "confirmed_elsewhere ev person game local s =
     and_then (save_game_dir ev person game False s) (\<lambda>dir s1.
       case dir of
         None \<Rightarrow> (Ok False, s1)
       | Some d \<Rightarrow>
           and_then (read_records ev person game s1) (\<lambda>rs s2.
             case head_ids (ev_codec ev) rs of
               Err e \<Rightarrow> (Err e, s2)
             | Ok heads \<Rightarrow>
                 (case read_confirmations ev d (sv_disk s2) of
                    Err e \<Rightarrow> (Err e, s2)
                  | Ok m \<Rightarrow>
                      and_then (read_records ev person game s2) (\<lambda>rs s3.
                      and_then (heads_complete ev heads rs s3) (\<lambda>yes s4.
                        if \<not> yes then (Ok False, s4)
                        else (Ok (heads \<noteq> [] \<and> list_all (\<lambda>i. confirmed_by_other m local i) heads), s4))))))"

subsection \<open>Heads of all games\<close>

record game_save_heads =
  gh_game_id :: string
  gh_heads :: "string list"

definition heads_of_game :: "(string \<times> snapshot_record) list \<Rightarrow> game_save_heads list" where
  "heads_of_game rs =
     (case rs of
        [] \<Rightarrow> []
      | (_, r) # _ \<Rightarrow>
          [\<lparr>gh_game_id = sr_game_id r,
            gh_heads = sort (filter (\<lambda>i. i \<notin> set (concat (map (sr_parents \<circ> snd) rs))) (map fst rs))\<rparr>])"

definition save_heads :: "'d save_env \<Rightarrow> string \<Rightarrow> ('d, game_save_heads list) save_step" where
  "save_heads ev person s =
     and_then (all_records_with_ids ev person s) (\<lambda>games s1.
       (Ok (sort_key gh_game_id (concat (map heads_of_game games))), s1))"

subsection \<open>Removing objects\<close>

fun read_people :: "'d save_env \<Rightarrow> (string, io_error) result list \<Rightarrow> ('d, (string \<times> snapshot_record) list) save_step" where
  "read_people ev [] s = (Ok [], s)"
| "read_people ev (Err e # es) s = (Err (save_io e), s)"
| "read_people ev (Ok raw # es) s =
     (case to_str raw of
        None \<Rightarrow> (Err (SaveInvalid ''person directory''), s)
      | Some name \<Rightarrow>
          if name = ''objects'' then read_people ev es s
          else and_then (all_records_with_ids ev name s) (\<lambda>games s1.
               and_then (read_people ev es s1) (\<lambda>rest s2. (Ok (map (\<lambda>x. (name, snd x)) (concat games) @ rest), s2))))"

text \<open>Everything that \<open>prune\<close> reads and decides before it removes a file: the hashes to remove, or
  \<open>None\<close> for a history that is too short.\<close>

definition prune_plan :: "'d save_env \<Rightarrow> string \<Rightarrow> string \<Rightarrow> string \<Rightarrow> ('d, string list option) save_step" where
  "prune_plan ev person game local s =
     and_then (read_records ev person game s) (\<lambda>rs s1.
       if length rs \<le> prune_limit then (Ok None, s1)
       else and_then (save_game_dir ev person game False s1) (\<lambda>dir s2.
         case dir of
           None \<Rightarrow> (Err SaveMissing, s2)
         | Some d \<Rightarrow>
             (case read_confirmations ev d (sv_disk s2) of
                Err e \<Rightarrow> (Err e, s2)
              | Ok m \<Rightarrow>
                  (case head_ids (ev_codec ev) rs of
                     Err e \<Rightarrow> (Err e, s2)
                   | Ok heads \<Rightarrow>
                       let prunable = prunable_records (ev_codec ev) m local heads (retention_order (ev_codec ev) heads rs)
                       in case sd_entries (ev_disk ev) (ev_root ev) (sv_disk s2) of
                            Err e \<Rightarrow> (Err (save_io e), s2)
                          | Ok es \<Rightarrow>
                              and_then (read_people ev es s2) (\<lambda>everything s3.
                                (Ok (Some (prune_candidates (ev_codec ev) person game prunable everything)), s3))))))"

fun remove_objects :: "'d save_env \<Rightarrow> string list \<Rightarrow> ('d, unit) save_step" where
  "remove_objects ev [] s = (Ok (), s)"
| "remove_objects ev (h # hs) s =
     and_then (object_path ev h False s) (\<lambda>p s1.
       case save_regular ev p (sv_disk s1) of
         Ok _ \<Rightarrow> and_then (on_store (sd_remove (ev_disk ev) p) s1) (\<lambda>_ s2. remove_objects ev hs s2)
       | Err e \<Rightarrow> if e = SaveMissing then remove_objects ev hs s1 else (Err e, s1))"

definition prune :: "'d save_env \<Rightarrow> string \<Rightarrow> string \<Rightarrow> string \<Rightarrow> ('d, unit) save_step" where
  "prune ev person game local s =
     and_then (prune_plan ev person game local s) (\<lambda>plan s1.
       case plan of
         None \<Rightarrow> (Ok (), s1)
       | Some hs \<Rightarrow>
           and_then (remove_objects ev hs s1) (\<lambda>_ s2.
             if sd_exists (ev_disk ev) (objects_dir ev) (sv_disk s2) then on_store (sd_sync (ev_disk ev) (objects_dir ev)) s2
             else (Ok (), s2)))"

subsection \<open>Reading changes no file\<close>

named_theorems reads_only

lemma and_then_disk:
  "sv_disk (snd x) = d \<Longrightarrow> (\<And>a t. sv_disk t = d \<Longrightarrow> sv_disk (snd (f a t)) = d) \<Longrightarrow> sv_disk (snd (and_then x f)) = d"
  by (rule and_then_keeps [where P = "\<lambda>t. sv_disk t = d"])

lemma save_directory_disk [reads_only]: "sv_disk (snd (save_directory ev p False s)) = sv_disk s"
  by (simp add: save_directory_def split: result.splits io_error.splits)

lemma record_file_disk [reads_only]: "sv_disk (snd (record_file ev dir p i s)) = sv_disk s"
  by (simp add: record_file_def Let_def split: result.splits option.splits prod.splits)

lemma read_entries_disk [reads_only]: "sv_disk (snd (read_entries ev dir es s)) = sv_disk s"
proof (induction ev dir es s rule: read_entries.induct)
  case (3 ev dir raw es s)
  then show ?case
    by (auto simp: Let_def reads_only split: option.splits result.splits intro!: and_then_disk)
qed simp_all

lemma records_with_ids_at_disk [reads_only]: "sv_disk (snd (records_with_ids_at ev dir s)) = sv_disk s"
  by (auto simp: records_with_ids_at_def reads_only split: result.splits intro!: and_then_disk)

lemma save_person_disk [reads_only]: "sv_disk (snd (save_person ev person False s)) = sv_disk s"
  by (auto simp: save_person_def Let_def reads_only split: result.splits intro!: and_then_disk)

lemma save_game_dir_disk [reads_only]: "sv_disk (snd (save_game_dir ev person game False s)) = sv_disk s"
  by (auto simp: save_game_dir_def Let_def reads_only split: result.splits option.splits intro!: and_then_disk)

lemma read_records_disk [reads_only]: "sv_disk (snd (read_records ev person game s)) = sv_disk s"
  by (auto simp: read_records_def reads_only split: option.splits intro!: and_then_disk)

lemma read_games_disk [reads_only]: "sv_disk (snd (read_games ev p es s)) = sv_disk s"
  by (induction ev p es s rule: read_games.induct) (auto simp: reads_only intro!: and_then_disk)

lemma all_records_with_ids_disk [reads_only]: "sv_disk (snd (all_records_with_ids ev person s)) = sv_disk s"
  by (auto simp: all_records_with_ids_def reads_only split: option.splits result.splits intro!: and_then_disk)

lemma object_path_disk [reads_only]: "sv_disk (snd (object_path ev h False s)) = sv_disk s"
  by (auto simp: object_path_def reads_only split: result.splits intro!: and_then_disk)

lemma verified_object_disk [reads_only]: "sv_disk (snd (verified_object ev h s)) = sv_disk s"
  by (auto simp: verified_object_def reads_only split: result.splits prod.splits intro!: and_then_disk)

lemma files_complete_disk [reads_only]: "sv_disk (snd (files_complete ev fs s)) = sv_disk s"
proof (induction ev fs s rule: files_complete.induct)
  case (2 ev f fs s)
  have "sv_disk (snd (verified_object ev (sf_sha256 f) s)) = sv_disk s" by (rule verified_object_disk)
  with 2 show ?case by (cases "verified_object ev (sf_sha256 f) s") (auto split: result.splits)
qed simp

lemma record_complete_disk [reads_only]:
  "sv_disk (snd (record_complete ev r s)) = sv_disk s" "sv_disk (snd (progress_complete ev r s)) = sv_disk s"
  by (simp_all add: record_complete_def progress_complete_def reads_only)

lemma first_complete_disk [reads_only]: "sv_disk (snd (first_complete ev rs ids s)) = sv_disk s"
  by (induction ev rs ids s rule: first_complete.induct) (auto simp: reads_only split: option.splits intro!: and_then_disk)

lemma local_complete_disk [reads_only]: "sv_disk (snd (local_complete ev device m s)) = sv_disk s"
  by (induction ev device m s rule: local_complete.induct) (auto simp: reads_only intro!: and_then_disk)

lemma read_people_disk [reads_only]: "sv_disk (snd (read_people ev es s)) = sv_disk s"
  by (induction ev es s rule: read_people.induct) (auto simp: reads_only split: option.splits intro!: and_then_disk)

lemma prune_plan_disk [reads_only]: "sv_disk (snd (prune_plan ev person game local s)) = sv_disk s"
  by (auto simp: prune_plan_def Let_def reads_only split: option.splits result.splits intro!: and_then_disk)

subsection \<open>What a launch continues\<close>

text \<open>A file is stored when its object is verified on this disk and has its size.\<close>

definition stored :: "'d save_env \<Rightarrow> 'd \<Rightarrow> save_file \<Rightarrow> bool" where
  "stored ev d f \<longleftrightarrow> (\<exists>t t'. sv_disk t = d \<and> verified_object ev (sf_sha256 f) t = (Ok (sf_bytes f), t'))"

definition progress_files :: "snapshot_record \<Rightarrow> save_file list" where
  "progress_files r = concat (map lo_files (filter (\<lambda>l. lo_kind l \<noteq> Screenshot) (sr_locations r)))"

lemma files_complete_stored: "files_complete ev fs s = (Ok True, s') \<Longrightarrow> f \<in> set fs \<Longrightarrow> stored ev (sv_disk s) f"
proof (induction ev fs s arbitrary: s' rule: files_complete.induct)
  case (2 ev g fs s)
  obtain r s1 where v: "verified_object ev (sf_sha256 g) s = (r, s1)" by (cases "verified_object ev (sf_sha256 g) s")
  with 2(2) have r: "r = Ok (sf_bytes g)" and rest: "files_complete ev fs s1 = (Ok True, s')"
    by (auto split: result.splits if_splits)
  have "sv_disk s1 = sv_disk s" using verified_object_disk [of ev "sf_sha256 g" s] v by simp
  moreover have "stored ev (sv_disk s) g" using v r unfolding stored_def by blast
  ultimately show ?case using 2(1) [OF v [unfolded r, symmetric] refl _ rest] 2(3) by auto
qed simp

lemma record_complete_stored:
  assumes "record_complete ev r s = (Ok True, s')" and "f \<in> set (progress_files r)"
  shows "stored ev (sv_disk s) f"
  using assms by (intro files_complete_stored [of _ "concat (map lo_files (sr_locations r))"]) (auto simp: record_complete_def progress_files_def)

lemma progress_complete_stored:
  "progress_complete ev r s = (Ok True, s') \<Longrightarrow> f \<in> set (progress_files r) \<Longrightarrow> stored ev (sv_disk s) f"
  unfolding progress_complete_def by (erule record_complete_stored) (simp add: progress_files_def)

lemma first_complete_Some:
  "first_complete ev rs ids s = (Ok (Some i), s') \<Longrightarrow>
   i \<in> set ids \<and> (\<exists>r \<in> set rs. snapshot_id (ev_codec ev) r = Ok i \<and> (\<forall>f \<in> set (progress_files r). stored ev (sv_disk s) f))"
proof (induction ev rs ids s arbitrary: s' rule: first_complete.induct)
  case (2 ev rs j ids s)
  show ?case
  proof (cases "find (\<lambda>r. snapshot_id (ev_codec ev) r = Ok j) rs")
    case None
    with 2(1) [OF None] 2(3) show ?thesis by simp
  next
    case (Some r)
    then have r: "r \<in> set rs" "snapshot_id (ev_codec ev) r = Ok j" by (auto simp: find_Some_iff)
    obtain yes s1 where p: "progress_complete ev r s = (Ok yes, s1)"
      and rest: "(if yes then (Ok (Some j), s1) else first_complete ev rs ids s1) = (Ok (Some i), s')"
      using 2(3) Some by (auto dest: and_then_OkD)
    have d: "sv_disk s1 = sv_disk s" using record_complete_disk(2) [of ev r s] p by simp
    show ?thesis
    proof (cases yes)
      case True
      with rest p r show ?thesis using progress_complete_stored [of ev r s s1] by auto
    next
      case False
      with 2(2) [OF Some, of yes s1 s'] rest d show ?thesis by auto
    qed
  qed
qed simp

lemma local_complete_ids:
  "local_complete ev device m s = (Ok ids, s') \<Longrightarrow> i \<in> set ids \<Longrightarrow>
   \<exists>r. (i, r) \<in> set m \<and> (\<forall>f \<in> set (progress_files r). stored ev (sv_disk s) f)"
proof (induction ev device m s arbitrary: ids s' rule: local_complete.induct)
  case (2 ev device j r m s)
  show ?case
  proof (cases "sr_device r = device")
    case True
    then obtain yes s1 js where p: "record_complete ev r s = (Ok yes, s1)"
      and rest: "local_complete ev device m s1 = (Ok js, s')" and ids: "ids = (if yes then j # js else js)"
      using 2(3) by (auto dest!: and_then_OkD)
    have d: "sv_disk s1 = sv_disk s" using record_complete_disk(1) [of ev r s] p by simp
    show ?thesis
    proof (cases "yes \<and> i = j")
      case True
      then show ?thesis using record_complete_stored [of ev r s s1] p by auto
    next
      case False
      then have "i \<in> set js" using ids 2(4) by (auto split: if_splits)
      from 2(1) [OF True rest this] d show ?thesis by auto
    qed
  next
    case False
    with 2(2) [OF False] 2(3,4) show ?thesis by auto
  qed
qed simp

lemma collect_pairs_in: "(k, v) \<in> set (collect_pairs kvs) \<Longrightarrow> (k, v) \<in> set kvs"
proof -
  have ins: "set (bt_insert k v m) \<subseteq> insert (k, v) (set m)" for k v and m :: "(string, 'a) btree"
    by (induction m) (auto split: if_splits)
  have "set (fold (\<lambda>(k, v). bt_insert k v) kvs m) \<subseteq> set kvs \<union> set m" for m :: "(string, 'a) btree"
  proof (induction kvs arbitrary: m)
    case (Cons x kvs)
    show ?case using Cons [of "bt_insert (fst x) (snd x) m"] ins [of "fst x" "snd x" m] by (cases x) auto
  qed simp
  then show "(k, v) \<in> set (collect_pairs kvs) \<Longrightarrow> (k, v) \<in> set kvs" unfolding collect_pairs_def by force
qed

lemma launch_base_cases:
  assumes "launch_base ev person game device s = (Ok (Some i), s')"
  obtains rs s1 heads found s2 where "read_records ev person game s = (Ok rs, s1)"
    and "head_ids (ev_codec ev) rs = Ok heads"
    and "(if 1 < length (filter (\<lambda>r. valid_id (ev_codec ev) r \<in> set heads) rs)
         then (case automatic_join (ev_codec ev) (filter (\<lambda>r. valid_id (ev_codec ev) r \<in> set heads) rs) of Err e \<Rightarrow> Err e | Ok j \<Rightarrow> Ok (j = None))
         else Ok False) = Ok False"
    and "first_complete ev rs heads s1 = (Ok found, s2)"
    and "(case found of Some i \<Rightarrow> (Ok (Some i), s2)
        | None \<Rightarrow> and_then (local_complete ev device (by_id (ev_codec ev) rs) s2) (\<lambda>ids s3.
            case newest_local (by_id (ev_codec ev) rs) ids of
              [] \<Rightarrow> (Ok None, s3) | [i] \<Rightarrow> (Ok (Some i), s3) | _ \<Rightarrow> (Err SaveSplit, s3))) = (Ok (Some i), s')"
proof -
  let ?c = "ev_codec ev"
  obtain rs s1 where rs: "read_records ev person game s = (Ok rs, s1)"
    using assms unfolding launch_base_def by (auto dest: and_then_OkD)
  obtain heads where heads: "head_ids ?c rs = Ok heads"
    using assms rs unfolding launch_base_def by (cases "head_ids ?c rs") simp_all
  let ?current = "filter (\<lambda>r. valid_id ?c r \<in> set heads) rs"
  let ?split = "if 1 < length ?current then (case automatic_join ?c ?current of Err e \<Rightarrow> Err e | Ok j \<Rightarrow> Ok (j = None)) else Ok False"
  have split: "?split = Ok False"
    using assms unfolding launch_base_def rs and_then_simps heads result.simps Let_def
    by (cases ?split; cases "ok_value ?split") (simp_all only: result.simps bool.simps ok_value.simps prod.inject, simp_all)
  obtain found s2 where found: "first_complete ev rs heads s1 = (Ok found, s2)"
    and rest: "(case found of Some i \<Rightarrow> (Ok (Some i), s2)
        | None \<Rightarrow> and_then (local_complete ev device (by_id ?c rs) s2) (\<lambda>ids s3.
            case newest_local (by_id ?c rs) ids of [] \<Rightarrow> (Ok None, s3) | [i] \<Rightarrow> (Ok (Some i), s3) | _ \<Rightarrow> (Err SaveSplit, s3)))
      = (Ok (Some i), s')"
    using assms unfolding launch_base_def rs and_then_simps heads result.simps Let_def split bool.simps
    by (auto dest: and_then_OkD)
  show thesis using that [OF rs heads split found rest] .
qed


subsection \<open>A disk in memory\<close>

text \<open>Files by path; a path that is a proper prefix of a file is a directory.\<close>

definition memory_meta :: "string \<Rightarrow> (string, string) btree \<Rightarrow> (file_meta, io_error) result" where
  "memory_meta p d =
     (case bt_get d p of
        Some b \<Rightarrow> Ok \<lparr>me_kind = KRegular, me_private = True, me_len = length b, me_stamp = (0, 0, length b, 0, 0)\<rparr>
      | None \<Rightarrow>
          if list_ex (\<lambda>(q, _). starts_with (p @ ''/'') q) d
          then Ok \<lparr>me_kind = KDirectory, me_private = True, me_len = 0, me_stamp = (0, 0, 0, 0, 0)\<rparr>
          else Err (NotFound ''absent''))"

definition memory_entries :: "string \<Rightarrow> (string, string) btree \<Rightarrow> string list" where
  "memory_entries p d =
     remdups (map (\<lambda>q. takeWhile (\<lambda>x. x \<noteq> CHR ''/'') (drop (length p + 1) q))
       (filter (starts_with (p @ ''/'')) (map fst d)))"

definition memory_store :: "(string, string) btree save_disk" where
  "memory_store =
     \<lparr>sd_file = bt_get, sd_meta = memory_meta, sd_exists = (\<lambda>p d. is_ok (memory_meta p d)),
      sd_open = (\<lambda>p d. case memory_meta p d of Err e \<Rightarrow> Err e
        | Ok m \<Rightarrow> Ok (m, case bt_get d p of None \<Rightarrow> Err (OtherIo ''directory'') | Some b \<Rightarrow> Ok b)),
      sd_entries = (\<lambda>p d. Ok (map Ok (memory_entries p d))), sd_temp = (\<lambda>p d. p @ ''.tmp''),
      sd_mkdir = (\<lambda>p d. (Ok True, d)), sd_create_new = (\<lambda>p d. (Ok (), bt_insert p [] d)),
      sd_append = (\<lambda>p b d. (Ok (), bt_insert p ((case bt_get d p of None \<Rightarrow> [] | Some a \<Rightarrow> a) @ b) d)),
      sd_sync = (\<lambda>p d. (Ok (), d)), sd_sync_parent = (\<lambda>p d. (Ok (), d)),
      sd_rename = (\<lambda>p q d. (Ok (), case bt_get d p of None \<Rightarrow> d | Some b \<Rightarrow> bt_remove p (bt_insert q b d))),
      sd_remove = (\<lambda>p d. (Ok (), bt_remove p d))\<rparr>"

definition demo_head :: snapshot_record where
  "demo_head = (shot_head CHR ''1'')\<lparr>sr_locations :=
     [\<lparr>lo_key = ''k'', lo_kind = Save, lo_files = [\<lparr>sf_path = ''a'', sf_sha256 = ''sha256:'' @ replicate 64 CHR ''a'', sf_bytes = 64\<rparr>]\<rparr>]\<rparr>"

definition demo_person :: string where
  "demo_person = replicate 64 CHR ''d''"

definition demo_env :: "(string, string) btree save_env" where
  "demo_env = \<lparr>ev_root = ''/s'', ev_disk = memory_store, ev_codec = shot_codec, ev_parse_record = (\<lambda>_. Ok demo_head),
     ev_parse_confirmations = (\<lambda>_. Ok []), ev_print_confirmations = (\<lambda>_. Err ''unused'')\<rparr>"

definition demo_store :: "(string, string) btree save_state" where
  "demo_store =
     \<lparr>sv_disk = [(''/s/'' @ demo_person @ ''/g/'' @ replicate 64 CHR ''1'' @ ''.json'', ''r''),
                 (''/s/objects/'' @ replicate 64 CHR ''a'', replicate 64 CHR ''a'')],
      sv_validated = [], sv_verified = []\<rparr>"


subsection \<open>Choosing and restoring\<close>

lemma write_record_Ok: "write_record ev person r s = (Ok i, s') \<Longrightarrow> snapshot_id (ev_codec ev) r = Ok i"
  by (auto simp: write_record_def snapshot_id_def Let_def dest!: and_then_OkD split: result.splits if_splits option.splits)

lemma pick_spec:
  assumes "pick ev person rs parents i device ended_at s = (Ok j, s')"
  shows "\<exists>r n. r \<in> set rs \<and> snapshot_id (ev_codec ev) r = Ok i \<and> snapshot_id (ev_codec ev) n = Ok j \<and>
    sr_parents n = parents \<and> sr_device n = device \<and> save_progress n = save_progress r \<and>
    shot_content (sr_locations n) =
      shot_content (sr_locations r) \<union> (\<Union>q \<in> {q \<in> set rs. valid_id (ev_codec ev) q \<in> set parents}. shot_content (sr_locations q))"
proof -
  let ?c = "ev_codec ev"
  obtain r where "find (\<lambda>r. snapshot_id ?c r = Ok i) rs = Some r"
    using assms by (auto simp: pick_def split: option.splits)
  then have r: "r \<in> set rs" "snapshot_id ?c r = Ok i" and find: "find (\<lambda>r. snapshot_id ?c r = Ok i) rs = Some r"
    by (auto simp: find_Some_iff)
  obtain u s1 where u: "with_screenshot_union ?c r (filter (\<lambda>q. valid_id ?c q \<in> set parents) rs) = Ok u"
    and w: "write_record ev person (u\<lparr>sr_parents := parents, sr_device := device, sr_ended_at := ended_at,
        sr_duration_seconds := 0, sr_interrupted := False\<rparr>) s1 = (Ok j, s')"
    using assms find by (auto simp: pick_def Let_def dest!: and_then_OkD split: if_splits result.splits)
  let ?n = "u\<lparr>sr_parents := parents, sr_device := device, sr_ended_at := ended_at, sr_duration_seconds := 0, sr_interrupted := False\<rparr>"
  have "save_progress ?n = save_progress u" by (rule save_progress_locations) simp
  with with_screenshot_union_keeps [OF u] r write_record_Ok [OF w] show ?thesis
    by (intro exI [of _ r] exI [of _ ?n]) auto
qed



end
