(* ===== verification/Save_Retention.thy ===== *)
theory Save_Retention
  imports Save_Store
begin

text \<open>
  What pruning removes, \<open>prune\<close> of \<open>services/korrid/src/saves/store.rs\<close>: only objects that no record
  of anyone needs. The disk is assumed to remove and sync as \<open>removal_laws\<close> say. The example is a
  chain of eleven snapshots, of which the oldest loses its content.
\<close>

subsection \<open>What pruning removes\<close>

text \<open>Removing a file changes this file only, and syncing changes none.\<close>

definition removal_laws :: "'d save_disk \<Rightarrow> bool" where
  "removal_laws dk \<longleftrightarrow>
     (\<forall>p q d. q \<noteq> p \<longrightarrow> sd_file dk (snd (sd_remove dk p d)) q = sd_file dk d q) \<and>
     (\<forall>p q d. sd_file dk (snd (sd_sync dk p d)) q = sd_file dk d q)"

definition object_file :: "'d save_env \<Rightarrow> string \<Rightarrow> string" where
  "object_file ev h = path_join (objects_dir ev) (drop 7 h)"

lemma hash_hex_Ok: "hash_hex h = Ok hex \<Longrightarrow> h = ''sha256:'' @ hex \<and> list_all is_lower_hex hex \<and> length hex = 64"
  by (auto simp: hash_hex_def strip_prefix_Some split: option.splits if_splits)

lemma object_path_Ok: "object_path ev h create s = (Ok p, s') \<Longrightarrow> p = object_file ev h"
  by (auto simp: object_path_def object_file_def dest!: and_then_OkD hash_hex_Ok split: result.splits if_splits)

lemma on_store_disk: "sv_disk (snd (on_store f s)) = snd (f (sv_disk s))"
  by (simp add: on_store_def split: prod.splits)

lemma remove_objects_frame:
  assumes "removal_laws (ev_disk ev)" and "q \<notin> object_file ev ` set hs"
  shows "sd_file (ev_disk ev) (sv_disk (snd (remove_objects ev hs s))) q = sd_file (ev_disk ev) (sv_disk s) q"
  using assms(2)
proof (induction hs arbitrary: s)
  case (Cons h hs)
  note same = and_then_keeps [where P = "\<lambda>t. sd_file (ev_disk ev) (sv_disk t) q = sd_file (ev_disk ev) (sv_disk s) q"]
  obtain r s1 where p: "object_path ev h False s = (r, s1)" by (cases "object_path ev h False s")
  have d: "sv_disk s1 = sv_disk s" using object_path_disk [of ev h s] p by simp
  show ?case
  proof (cases r)
    case (Ok path)
    then have "path = object_file ev h" using p object_path_Ok by blast
    then have ne: "q \<noteq> path" using Cons.prems by simp
    have rm: "sd_file (ev_disk ev) (sv_disk (snd (and_then (on_store (sd_remove (ev_disk ev) path) s1) (\<lambda>_ s2. remove_objects ev hs s2)))) q =
        sd_file (ev_disk ev) (sv_disk s) q"
      using assms(1) ne Cons d by (intro same) (simp_all add: on_store_disk removal_laws_def)
    then show ?thesis using p Ok d Cons by (auto split: result.splits prod.splits)
  qed (simp add: p d)
qed simp

lemma removal_only:
  assumes "removal_laws (ev_disk ev)"
    and "sd_file (ev_disk ev) (sv_disk (snd (prune ev person game local s))) q \<noteq> sd_file (ev_disk ev) (sv_disk s) q"
  obtains hs s1 where "prune_plan ev person game local s = (Ok (Some hs), s1)" and "q \<in> object_file ev ` set hs"
proof -
  obtain r s1 where p: "prune_plan ev person game local s = (r, s1)" by (cases "prune_plan ev person game local s")
  have d: "sv_disk s1 = sv_disk s" using prune_plan_disk [of ev person game local s] p by simp
  have "\<exists>hs. r = Ok (Some hs) \<and> q \<in> object_file ev ` set hs"
  proof (rule ccontr)
    assume no: "\<not> ?thesis"
    have "sd_file (ev_disk ev) (sv_disk (snd (prune ev person game local s))) q = sd_file (ev_disk ev) (sv_disk s) q"
    proof (cases r)
      case (Ok plan)
      show ?thesis
      proof (cases plan)
        case (Some hs)
        have sync: "sd_file (ev_disk ev) (sv_disk (snd (on_store (sd_sync (ev_disk ev) (objects_dir ev)) t))) q =
            sd_file (ev_disk ev) (sv_disk t) q" for t
          using assms(1) by (simp add: on_store_disk removal_laws_def)
        have "q \<notin> object_file ev ` set hs" using no Ok Some by simp
        from remove_objects_frame [OF assms(1) this, of s1] show ?thesis
          unfolding prune_def p Ok and_then_simps Some option.simps
          by (intro and_then_keeps [where P = "\<lambda>t. sd_file (ev_disk ev) (sv_disk t) q = sd_file (ev_disk ev) (sv_disk s) q"])
            (simp_all add: d sync)
      qed (simp add: prune_def p Ok d)
    qed (simp add: prune_def p d)
    with assms(2) show False by simp
  qed
  then show thesis using that p by blast
qed

lemma object_file_inject:
  assumes "hash_hex h = Ok hex" and "hash_hex h' = Ok hex'" and "object_file ev h = object_file ev h'"
  shows "h = h'"
proof -
  have "\<not> is_absolute x" if "list_all is_lower_hex x" for x
    using that by (cases x) (auto simp: is_absolute_def is_lower_hex_def is_ascii_digit_def less_eq_char_def)
  then have "path_join (objects_dir ev) hex = path_join (objects_dir ev) hex' \<Longrightarrow> hex = hex'"
    using hash_hex_Ok [OF assms(1)] hash_hex_Ok [OF assms(2)] by (auto simp: path_join_def split: if_splits)
  then show ?thesis
    using hash_hex_Ok [OF assms(1)] hash_hex_Ok [OF assms(2)] assms(3) by (auto simp: object_file_def)
qed

lemma record_hashes_valid: "snapshot_id c r = Ok i \<Longrightarrow> h \<in> set (record_hashes r) \<Longrightarrow> is_ok (hash_hex h)"
  by (auto dest!: snapshot_id_good simp: good_record_def list_all_iff good_location_def record_hashes_def)

text \<open>\<open>everything\<close> is every record on the disk, with the person it belongs to.\<close>

definition all_saved :: "'d save_env \<Rightarrow> 'd \<Rightarrow> (string \<times> snapshot_record) list \<Rightarrow> bool" where
  "all_saved ev d everything \<longleftrightarrow>
     (\<exists>es t t'. sv_disk t = d \<and> sd_entries (ev_disk ev) (ev_root ev) d = Ok es \<and> read_people ev es t = (Ok everything, t'))"

definition may_prune :: "save_codec \<Rightarrow> confirmations \<Rightarrow> string \<Rightarrow> string list \<Rightarrow> snapshot_record list \<Rightarrow> string \<Rightarrow> bool" where
  "may_prune c m local heads rs i \<longleftrightarrow>
     i \<in> valid_id c ` set rs \<and> i \<notin> set heads \<and> i \<notin> valid_id c ` set (take 10 (retention_order c heads rs)) \<and>
     (\<forall>merge \<in> set rs. 1 < length (sr_parents merge) \<and> i \<in> set (sr_parents merge) \<longrightarrow>
        (\<forall>r \<in> set rs. snapshot_id c r = Ok i \<longrightarrow> save_progress r = save_progress merge)) \<and>
     confirmed_by_other m local i"

lemma retention_order_set [simp]: "set (retention_order c heads rs) = set rs"
  by (simp add: retention_order_def Let_def)

lemma prunable_may_prune:
  assumes "r \<in> set (prunable_records c m local heads (retention_order c heads rs))"
  shows "may_prune c m local heads rs (valid_id c r)"
  using assms unfolding may_prune_def prunable_records_def protected_ids_def unpicked_def prune_limit_def
  by (auto simp: list_ex_iff)

lemma prune_plan_spec:
  assumes "prune_plan ev person game local s = (Ok (Some hs), s')"
  obtains rs heads dir m everything where "fst (read_records ev person game s) = Ok rs" and "head_ids (ev_codec ev) rs = Ok heads"
    and "read_confirmations ev dir (sv_disk s) = Ok m" and "all_saved ev (sv_disk s) everything"
    and "hs = prune_candidates (ev_codec ev) person game
      (prunable_records (ev_codec ev) m local heads (retention_order (ev_codec ev) heads rs)) everything"
proof -
  obtain rs s1 dir s2 where rs: "read_records ev person game s = (Ok rs, s1)"
    and dir: "save_game_dir ev person game False s1 = (Ok (Some dir), s2)"
    using assms by (auto simp: prune_plan_def dest!: and_then_OkD split: if_splits option.splits)
  have d: "sv_disk s2 = sv_disk s"
    using read_records_disk [of ev person game s] rs save_game_dir_disk [of ev person game s1] dir by simp
  obtain m heads es everything where "read_confirmations ev dir (sv_disk s2) = Ok m" "head_ids (ev_codec ev) rs = Ok heads"
    "sd_entries (ev_disk ev) (ev_root ev) (sv_disk s2) = Ok es" "read_people ev es s2 = (Ok everything, s')"
    "hs = prune_candidates (ev_codec ev) person game
      (prunable_records (ev_codec ev) m local heads (retention_order (ev_codec ev) heads rs)) everything"
    using assms rs dir by (auto simp: prune_plan_def Let_def dest!: and_then_OkD split: if_splits result.splits)
  with rs d show thesis by (intro that) (auto simp: all_saved_def)
qed


subsection \<open>An example\<close>

definition chain_tags :: string where
  "chain_tags = ''0123456789a''"

definition chain_id :: "char \<Rightarrow> string" where
  "chain_id x = ''sha256:'' @ replicate 64 x"

definition chain_parents :: "char \<Rightarrow> string list" where
  "chain_parents x = (case takeWhile (\<lambda>y. y \<noteq> x) chain_tags of [] \<Rightarrow> [] | ys \<Rightarrow> [chain_id (last ys)])"

definition chain_record :: "char \<Rightarrow> snapshot_record" where
  "chain_record x = (shot_head x)\<lparr>sr_parents := chain_parents x,
     sr_locations := [\<lparr>lo_key = ''k'', lo_kind = Save, lo_files = [\<lparr>sf_path = ''a'', sf_sha256 = chain_id x, sf_bytes = 1\<rparr>]\<rparr>]\<rparr>"

definition chain_dir :: string where
  "chain_dir = ''/s/'' @ demo_person @ ''/g''"

definition chain_name :: "char \<Rightarrow> string" where
  "chain_name x = replicate 64 x @ ''.json''"

definition chain_object :: string where
  "chain_object = ''/s/objects/'' @ replicate 64 CHR ''0''"

definition chain_meta :: "file_kind \<Rightarrow> file_meta" where
  "chain_meta k = \<lparr>me_kind = k, me_private = True, me_len = 1, me_stamp = (0, 0, 0, 0, 0)\<rparr>"

text \<open>The state of the disk is whether the object of the first snapshot is there.\<close>

definition chain_disk :: "bool save_disk" where
  "chain_disk =
     \<lparr>sd_file = (\<lambda>d p. if d \<and> p = chain_object then Some ''x'' else None),
      sd_meta = (\<lambda>p d. Ok (chain_meta KDirectory)), sd_exists = (\<lambda>p d. True),
      sd_open = (\<lambda>p d. if ends_with ''.json'' p then Ok (chain_meta KRegular, Ok p)
        else if d \<and> p = chain_object then Ok (chain_meta KRegular, Ok ''x'') else Err (NotFound ''absent'')),
      sd_entries = (\<lambda>p d. Ok (if p = ''/s'' then [Ok ''objects'', Ok demo_person]
        else if p = chain_dir then map (Ok \<circ> chain_name) chain_tags else [Ok ''g''])),
      sd_temp = (\<lambda>p d. p @ ''.tmp''), sd_mkdir = (\<lambda>p d. (Ok True, d)), sd_create_new = (\<lambda>p d. (Ok (), d)),
      sd_append = (\<lambda>p b d. (Ok (), d)), sd_sync = (\<lambda>p d. (Ok (), d)), sd_sync_parent = (\<lambda>p d. (Ok (), d)),
      sd_rename = (\<lambda>p q d. (Ok (), d)), sd_remove = (\<lambda>p d. (Ok (), d \<and> p \<noteq> chain_object))\<rparr>"

definition chain_confirmations :: confirmations where
  "chain_confirmations = map (\<lambda>x. (chain_id x, [''other''])) chain_tags"

definition chain_env :: "bool save_env" where
  "chain_env =
     \<lparr>ev_root = ''/s'', ev_disk = chain_disk, ev_codec = shot_codec,
      ev_parse_record = (\<lambda>b. Ok (chain_record (hd (drop 5 (rev b))))),
      ev_parse_confirmations = (\<lambda>_. Ok chain_confirmations), ev_print_confirmations = (\<lambda>_. Err ''unused'')\<rparr>"

definition chain_store :: "bool save_state" where
  "chain_store = \<lparr>sv_disk = True, sv_validated = [], sv_verified = []\<rparr>"

lemma chain_ids: "list_all (\<lambda>x. snapshot_id shot_codec (chain_record x) = Ok (chain_id x)) chain_tags"
  by code_simp

lemma chain_names:
  "list_all (\<lambda>x. to_str (chain_name x) = Some (chain_name x)) chain_tags"
  "list_all (\<lambda>x. chain_name x \<noteq> ''confirmations.json'' \<and> chain_name x \<noteq> ''in-use.json'') chain_tags"
  "list_all (\<lambda>x. \<not> starts_with ''.save-'' (chain_name x)) chain_tags"
  "list_all (\<lambda>x. strip_suffix ''.json'' (chain_name x) = Some (replicate 64 x)) chain_tags"
  "list_all (\<lambda>x. is_ok (hash_hex (chain_id x))) chain_tags"
  by code_simp+

lemma chain_record_paths:
  "list_all (\<lambda>x. hd (drop 5 (rev (path_join chain_dir (chain_name x)))) = x) chain_tags"
  "list_all (\<lambda>x. ends_with ''.json'' (path_join chain_dir (chain_name x))) chain_tags"
  by code_simp+

lemma chain_paths:
  "path_join ''/s'' demo_person = ''/s/'' @ demo_person" "path_join (''/s/'' @ demo_person) ''g'' = chain_dir"
  "encode_uri_component demo_person = demo_person" "encode_uri_component ''g'' = ''g''" "is_ok (account_root ''/'' demo_person)"
  "file_name chain_dir = Some ''g''" "to_str ''g'' = Some ''g''" "to_str ''objects'' = Some ''objects''"
  "to_str demo_person = Some demo_person" "demo_person \<noteq> ''objects''" "chain_dir \<noteq> ''/s''" "''/s/'' @ demo_person \<noteq> chain_dir"
  "''/s/'' @ demo_person \<noteq> ''/s''"
  by code_simp+

lemma chain_orders:
  "sorted (map chain_id chain_tags)"
  "sort (filter (\<lambda>i. i \<notin> set (concat (map chain_parents chain_tags))) (map chain_id chain_tags)) = [chain_id CHR ''a'']"
  "list_all (\<lambda>x. length (chain_parents x) \<le> 1) chain_tags"
  by code_simp+

lemma chain_files:
  "list_all (\<lambda>x. length (path_join chain_dir (chain_name x)) < 1000) chain_tags"
  "length (path_join chain_dir ''confirmations.json'') < 1000" "ends_with ''.json'' (path_join chain_dir ''confirmations.json'')"
  "object_file chain_env (chain_id CHR ''0'') = chain_object" "ends_with ''.json'' chain_object = False"
  "is_ok (hash_hex (chain_id CHR ''0''))"
  by code_simp+

lemma chain_env_simps [simp]:
  "ev_root chain_env = ''/s''" "ev_disk chain_env = chain_disk" "ev_codec chain_env = shot_codec"
  "ev_parse_record chain_env b = Ok (chain_record (hd (drop 5 (rev b))))"
  "ev_parse_confirmations chain_env b = Ok chain_confirmations"
  by (simp_all add: chain_env_def)

lemma chain_disk_simps [simp]:
  "sd_meta chain_disk p d = Ok (chain_meta KDirectory)"
  "sd_open chain_disk p d = (if ends_with ''.json'' p then Ok (chain_meta KRegular, Ok p)
     else if d \<and> p = chain_object then Ok (chain_meta KRegular, Ok ''x'') else Err (NotFound ''absent''))"
  "sd_entries chain_disk p d = Ok (if p = ''/s'' then [Ok ''objects'', Ok demo_person]
     else if p = chain_dir then map (Ok \<circ> chain_name) chain_tags else [Ok ''g''])"
  "sd_remove chain_disk p d = (Ok (), d \<and> p \<noteq> chain_object)" "sd_exists chain_disk p d = True"
  "sd_sync chain_disk p d = (Ok (), d)"
  "sd_file chain_disk d p = (if d \<and> p = chain_object then Some ''x'' else None)"
  by (simp_all add: chain_disk_def)

lemma chain_meta_simps [simp]: "me_kind (chain_meta k) = k" "me_private (chain_meta k)" "me_len (chain_meta k) = 1"
  by (simp_all add: chain_meta_def)

lemma chain_directory [simp]: "save_directory chain_env p c s = (Ok True, s)"
  by (simp add: save_directory_def check_directory_def)

lemma chain_json:
  "ends_with ''.json'' p \<Longrightarrow> length p < 1000 \<Longrightarrow> save_read_json chain_env parse p d = map_err SaveInvalid (parse p)"
  by (simp add: save_read_json_def save_regular_def max_record_def)

lemma chain_record_game [simp]: "sr_game_id (chain_record x) = ''g''" "sr_parents (chain_record x) = chain_parents x"
  by (simp_all add: chain_record_def shot_head_def)

lemma chain_record_file:
  assumes "x \<in> set chain_tags"
  shows "record_file chain_env chain_dir (path_join chain_dir (chain_name x)) (chain_id x) s = (Ok (chain_record x), s)"
proof -
  have "hd (drop 5 (rev (path_join chain_dir (chain_name x)))) = x" "ends_with ''.json'' (path_join chain_dir (chain_name x))"
    "length (path_join chain_dir (chain_name x)) < 1000" "snapshot_id shot_codec (chain_record x) = Ok (chain_id x)"
    using assms chain_record_paths chain_files(1) chain_ids unfolding list_all_iff by blast+
  then show ?thesis by (simp add: record_file_def chain_json chain_paths)
qed

lemma chain_read_entries:
  "set xs \<subseteq> set chain_tags \<Longrightarrow>
   read_entries chain_env chain_dir (map (Ok \<circ> chain_name) xs) s = (Ok (map (\<lambda>x. (chain_id x, chain_record x)) xs), s)"
proof (induction xs)
  case (Cons x xs)
  then have "to_str (chain_name x) = Some (chain_name x)" "chain_name x \<noteq> ''confirmations.json''"
    "chain_name x \<noteq> ''in-use.json''" "\<not> starts_with ''.save-'' (chain_name x)"
    "strip_suffix ''.json'' (chain_name x) = Some (replicate 64 x)" "is_ok (hash_hex (chain_id x))"
    using chain_names unfolding list_all_iff by auto
  moreover have "''sha256:'' @ replicate 64 x = chain_id x" by (simp add: chain_id_def)
  ultimately show ?case using Cons chain_record_file [of x s]
    by (simp only: list.map o_apply read_entries.simps option.simps if_False simp_thms Let_def) (auto simp: is_ok_iff)
qed simp

lemma chain_records_at:
  "records_with_ids_at chain_env chain_dir s = (Ok (map (\<lambda>x. (chain_id x, chain_record x)) chain_tags), s)"
proof -
  have "sort_key fst (map (\<lambda>x. (chain_id x, chain_record x)) chain_tags) = map (\<lambda>x. (chain_id x, chain_record x)) chain_tags"
    by (rule sort_key_id_if_sorted) (use chain_orders(1) in \<open>simp add: o_def\<close>)
  then show ?thesis
    using chain_read_entries [of chain_tags s] by (simp add: records_with_ids_at_def chain_paths)
qed

lemma chain_person: "save_person chain_env demo_person c s = (Ok (Some (''/s/'' @ demo_person)), s)"
  using chain_paths(1,3,5) by (auto simp: save_person_def is_ok_iff Let_def)

lemma chain_game_dir: "save_game_dir chain_env demo_person ''g'' c s = (Ok (Some chain_dir), s)"
  using chain_paths(2,4) by (simp add: save_game_dir_def store_key_def chain_person)

lemma chain_read_records: "read_records chain_env demo_person ''g'' s = (Ok (map chain_record chain_tags), s)"
  by (simp add: read_records_def chain_game_dir chain_records_at o_def)

lemma chain_read_people:
  "read_people chain_env [Ok ''objects'', Ok demo_person] s = (Ok (map (\<lambda>x. (demo_person, chain_record x)) chain_tags), s)"
  using chain_paths
  by (simp add: all_records_with_ids_def chain_person chain_records_at o_def)

lemma chain_confirmations_read: "read_confirmations chain_env chain_dir d = Ok chain_confirmations"
  by (simp add: read_confirmations_def chain_json chain_files)

lemma chain_valid_ids: "x \<in> set chain_tags \<Longrightarrow> valid_id shot_codec (chain_record x) = chain_id x"
  using chain_ids by (auto simp: list_all_iff valid_id_def)

lemma chain_id_eq [simp]: "chain_id x = chain_id y \<longleftrightarrow> x = y"
  by (auto simp: chain_id_def)

lemma chain_hashes [simp]: "record_hashes (chain_record x) = [chain_id x]"
  by (simp add: record_hashes_def chain_record_def)

lemma chain_heads: "head_ids shot_codec (map chain_record chain_tags) = Ok [chain_id CHR ''a'']"
proof -
  have "snapshot_id shot_codec r = Ok (valid_id shot_codec r)" if "r \<in> set (map chain_record chain_tags)" for r
    using that chain_ids by (auto simp: list_all_iff valid_id_def)
  moreover have "map (valid_id shot_codec) (map chain_record chain_tags) = map chain_id chain_tags"
    "map sr_parents (map chain_record chain_tags) = map chain_parents chain_tags"
    by (auto simp: chain_valid_ids)
  ultimately show ?thesis by (simp only: head_ids_valid chain_orders(2))
qed

text \<open>On a chain of single parents the walk counts the steps.\<close>

fun single_parents :: "(string, string list) btree \<Rightarrow> string list \<Rightarrow> bool" where
  "single_parents p [] = True"
| "single_parents p [k] = (bt_get p k = Some [])"
| "single_parents p (k # j # ks) = (bt_get p k = Some [j] \<and> single_parents p (j # ks))"

lemma walk_last: "bt_get p k = Some [] \<Longrightarrow> bt_get d k = None \<Longrightarrow> distance_walk p [(k, n)] d = bt_insert k n d"
  by simp

lemma walk_step:
  "bt_get p k = Some [j] \<Longrightarrow> bt_get d k = None \<Longrightarrow> distance_walk p [(k, n)] d = distance_walk p [(j, Suc n)] (bt_insert k n d)"
  by (subst distance_walk.simps(2)) (simp del: distance_walk.simps)

lemma distance_walk_chain:
  assumes "single_parents p ks" and "distinct ks" and "\<forall>x \<in> set ks. bt_get d x = None" and "ks \<noteq> []"
  shows "(\<forall>i < length ks. bt_get (distance_walk p [(hd ks, n)] d) (ks ! i) = Some (n + i)) \<and>
    (\<forall>x. x \<notin> set ks \<longrightarrow> bt_get (distance_walk p [(hd ks, n)] d) x = bt_get d x)"
  using assms
proof (induction p ks arbitrary: d n rule: single_parents.induct)
  case (2 p k)
  then show ?case by (simp add: walk_last)
next
  case (3 p k j ks)
  let ?e = "bt_insert k n d"
  have step: "distance_walk p [(hd (k # j # ks), n)] d = distance_walk p [(hd (j # ks), Suc n)] ?e"
    using 3(2,4) by (simp add: walk_step del: distance_walk.simps)
  have rest: "(\<forall>i < length (j # ks). bt_get (distance_walk p [(hd (j # ks), Suc n)] ?e) ((j # ks) ! i) = Some (Suc n + i)) \<and>
      (\<forall>x. x \<notin> set (j # ks) \<longrightarrow> bt_get (distance_walk p [(hd (j # ks), Suc n)] ?e) x = bt_get ?e x)"
    using 3(2-4) by (intro 3(1)) auto
  have k: "k \<notin> set (j # ks)" using 3(3) by simp
  show ?case unfolding step
  proof (intro conjI allI impI)
    fix i assume "i < length (k # j # ks)"
    with rest k show "bt_get (distance_walk p [(hd (j # ks), Suc n)] ?e) ((k # j # ks) ! i) = Some (n + i)"
      by (cases i) (simp_all del: distance_walk.simps list.sel)
  next
    fix x assume "x \<notin> set (k # j # ks)"
    with rest show "bt_get (distance_walk p [(hd (j # ks), Suc n)] ?e) x = bt_get d x"
      by (simp del: distance_walk.simps list.sel)
  qed
qed simp

lemma bt_get_fold_insert: "bt_get (fold (\<lambda>(k, v). bt_insert k v) kvs m) k = (case map_of (rev kvs) k of None \<Rightarrow> bt_get m k | Some v \<Rightarrow> Some v)"
  by (induction kvs arbitrary: m) (auto simp: map_add_def split: option.splits)

lemma bt_get_collect_pairs: "bt_get (collect_pairs kvs) k = map_of (rev kvs) k"
  by (simp add: collect_pairs_def bt_get_fold_insert split: option.splits)

lemma map_of_map_inj: "inj f \<Longrightarrow> map_of (map (\<lambda>x. (f x, g x)) xs) (f x) = (if x \<in> set xs then Some (g x) else None)"
  by (induction xs) (auto simp: inj_eq)

lemma chain_parent_map:
  "bt_get (collect_pairs (map (\<lambda>x. (chain_id x, chain_parents x)) chain_tags)) (chain_id x) =
     (if x \<in> set chain_tags then Some (chain_parents x) else None)"
proof -
  have "inj chain_id" by (auto intro: injI)
  from map_of_map_inj [OF this, of chain_parents "rev chain_tags" x] show ?thesis
    by (simp add: bt_get_collect_pairs rev_map)
qed

lemma chain_links:
  "list_all (\<lambda>(x, y). chain_parents x = [chain_id y]) (zip ''a987654321'' ''9876543210'')" "chain_parents CHR ''0'' = []"
  by code_simp+

lemma chain_walk:
  assumes "i < 11"
  shows "bt_get (distance_walk (collect_pairs (map (\<lambda>x. (chain_id x, chain_parents x)) chain_tags)) [(chain_id CHR ''a'', 0)] [])
    (chain_id (rev chain_tags ! i)) = Some i"
proof -
  let ?p = "collect_pairs (map (\<lambda>x. (chain_id x, chain_parents x)) chain_tags)"
  have tags: "rev chain_tags = ''a9876543210''" by (simp add: chain_tags_def)
  then have mem: "\<And>x. x \<in> set ''a9876543210'' \<Longrightarrow> x \<in> set chain_tags" by (metis set_rev)
  have "single_parents ?p (map chain_id ''a9876543210'')"
    using chain_links mem by (simp add: chain_parent_map)
  moreover have "distinct ''a9876543210''" by code_simp
  then have "distinct (map chain_id ''a9876543210'')" by (simp add: distinct_map inj_on_def)
  ultimately have "bt_get (distance_walk ?p [(hd (map chain_id ''a9876543210''), 0)] []) (map chain_id ''a9876543210'' ! i) = Some (0 + i)"
    using distance_walk_chain [of ?p "map chain_id ''a9876543210''" "[]" 0] assms by simp
  moreover have "map chain_id ''a9876543210'' ! i = chain_id (''a9876543210'' ! i)" using assms by (intro nth_map) simp
  moreover have "hd (map chain_id ''a9876543210'') = chain_id CHR ''a''" by simp
  ultimately show ?thesis by (simp only: tags add_0)
qed

lemma chain_retention:
  "retention_order shot_codec [chain_id CHR ''a''] (map chain_record chain_tags) = map chain_record (rev chain_tags)"
proof -
  let ?dist = "distance_walk (collect_pairs (map (\<lambda>x. (chain_id x, chain_parents x)) chain_tags)) [(chain_id CHR ''a'', 0)] []"
  let ?key = "\<lambda>r. (case bt_get ?dist (valid_id shot_codec r) of None \<Rightarrow> 2 ^ 64 - 1 | Some d \<Rightarrow> d, valid_id shot_codec r)"
  have len: "length chain_tags = 11" by (simp add: chain_tags_def)
  have ids: "valid_id shot_codec (chain_record (rev chain_tags ! i)) = chain_id (rev chain_tags ! i)" if "i < 11" for i
    using that nth_mem [of i "rev chain_tags"] by (simp add: chain_valid_ids len)
  have key: "?key (chain_record (rev chain_tags ! i)) = (i, chain_id (rev chain_tags ! i))" if "i < 11" for i
    using chain_walk [OF that] ids [OF that] by (simp del: distance_walk.simps)
  have "sort_key ?key (map chain_record chain_tags) = map chain_record (rev chain_tags)"
  proof (rule sort_key_inj_key_eq)
    show "inj_on ?key (set (map chain_record chain_tags))"
      by (auto simp: inj_on_def chain_valid_ids simp del: distance_walk.simps)
    have "map ?key (map chain_record (rev chain_tags)) = map (\<lambda>i. (i, chain_id (rev chain_tags ! i))) [0..<11]"
    proof (rule nth_equalityI)
      fix i assume "i < length (map ?key (map chain_record (rev chain_tags)))"
      then have i: "i < 11" by (simp add: len)
      have "map ?key (map chain_record (rev chain_tags)) ! i = ?key (map chain_record (rev chain_tags) ! i)"
        by (rule nth_map) (simp add: i len)
      also have "map chain_record (rev chain_tags) ! i = chain_record (rev chain_tags ! i)"
        by (rule nth_map) (simp add: i len)
      also note key [OF i]
      finally show "map ?key (map chain_record (rev chain_tags)) ! i = map (\<lambda>i. (i, chain_id (rev chain_tags ! i))) [0..<11] ! i"
        using i by (simp del: map_map)
    qed (simp add: len)
    moreover have "sorted (map (\<lambda>i. (i, chain_id (rev chain_tags ! i))) [0..<11])"
      by (auto simp: sorted_iff_nth_mono less_eq_prod_def le_less)
    ultimately show "sorted (map ?key (map chain_record (rev chain_tags)))" by (simp only:)
  qed simp
  moreover have "map (\<lambda>r. (valid_id shot_codec r, sr_parents r)) (map chain_record chain_tags) =
      map (\<lambda>x. (chain_id x, chain_parents x)) chain_tags" by (simp add: chain_valid_ids)
  moreover have "map (\<lambda>i. (i, 0 :: nat)) (remdups_adj (sort [chain_id CHR ''a''])) = [(chain_id CHR ''a'', 0)]" by simp
  ultimately show ?thesis by (simp only: retention_order_def Let_def)
qed

lemma chain_prunable:
  "prunable_records shot_codec chain_confirmations ''me'' [chain_id CHR ''a''] (map chain_record (rev chain_tags)) = [chain_record CHR ''0'']"
proof -
  have tags: "rev chain_tags = ''a9876543210''" by (simp add: chain_tags_def)
  then have mem: "\<And>x. x \<in> set ''a9876543210'' \<Longrightarrow> x \<in> set chain_tags" by (metis set_rev)
  have "inj chain_id" by (auto intro: injI)
  from map_of_map_inj [OF this, of "\<lambda>x. [''other'']" chain_tags]
  have conf: "confirmed_by_other chain_confirmations ''me'' (chain_id x)" if "x \<in> set chain_tags" for x
    using that by (simp add: confirmed_by_other_def chain_confirmations_def bt_get_def)
  have "filter (\<lambda>r. 1 < length (sr_parents r)) (map chain_record (rev chain_tags)) = []"
    using chain_orders(3) by (auto simp: filter_empty_conv list_all_iff)
  then have "unpicked shot_codec (map chain_record (rev chain_tags)) = []" by (simp add: unpicked_def)
  moreover have "take prune_limit (map chain_record (rev chain_tags)) = map chain_record ''a987654321''"
    by (simp add: tags prune_limit_def)
  ultimately have "protected_ids shot_codec [chain_id CHR ''a''] (map chain_record (rev chain_tags)) = chain_id ` set ''a987654321''"
    using mem by (auto simp: protected_ids_def chain_valid_ids)
  then show ?thesis using mem conf by (simp add: prunable_records_def tags chain_valid_ids)
qed

lemma chain_removed:
  "prune_candidates shot_codec demo_person ''g'' [chain_record CHR ''0''] (map (\<lambda>x. (demo_person, chain_record x)) chain_tags) =
     [chain_id CHR ''0'']"
proof -
  have "CHR ''0'' \<in> set chain_tags" by (simp add: chain_tags_def)
  then show ?thesis
    by (auto simp: prune_candidates_def list_ex_iff filter_empty_conv chain_valid_ids)
qed

lemma chain_plan:
  "prune_plan chain_env demo_person ''g'' ''me'' s = (Ok (Some [chain_id CHR ''0'']), s)"
proof -
  have "\<not> length (map chain_record chain_tags) \<le> prune_limit" by (simp add: chain_tags_def prune_limit_def)
  then show ?thesis
    by (simp add: prune_plan_def chain_read_records chain_game_dir chain_confirmations_read chain_heads chain_retention
      chain_prunable chain_read_people chain_removed Let_def del: list.map read_people.simps)
qed

lemma chain_pruned: "prune chain_env demo_person ''g'' ''me'' chain_store = (Ok (), chain_store\<lparr>sv_disk := False\<rparr>)"
proof -
  obtain p where p: "object_path chain_env (chain_id CHR ''0'') False chain_store = (Ok p, chain_store)"
    using chain_files(6) by (auto simp: object_path_def is_ok_iff)
  then have "p = chain_object" using object_path_Ok chain_files(4) by metis
  then show ?thesis
    using p chain_files(5) by (simp add: prune_def chain_plan save_regular_def on_store_def chain_store_def)
qed


end
