(* ===== verification/Peer_Policy.thy ===== *)
theory Peer_Policy
  imports Korri_Prelude
begin

text \<open>
  What a caller may ask of \<open>korrid\<close>: the requests of \<open>services/korrid/src/lib.rs\<close> and the callers,
  the policy table and \<open>authorize\<close> of \<open>services/korrid/src/authorization.rs\<close>.

  A request carries the part of its payload that authorization reads; the payloads of the other
  requests do not decide anything here. The main facts: callers are ordered by authority, from
  unknown peers to the local browser, and the holder of a pass reaches exactly what its scopes name.
\<close>

subsection \<open>Requests\<close>

text \<open>\<open>RpcRequest\<close>: \<open>SessionEnd\<close> carries \<open>force\<close>, the certificate requests the host and the certificate.\<close>

datatype (plugins only: extraction) rpc_request =
   DisplayWake | SurfaceDisplays | LaunchSettingsSnapshot | LaunchSettingsSet | LaunchProfileSave
   | LaunchProfileRemove | LaunchProfileSelect | SaveHeads | SaveRecords | SaveInUse | SaveObject
   | SavesStatus | SavesHistory | SavesChoose | SavesRestore | SavesCheck | OnboardingRestart
   | AcquisitionStatus | AcquisitionStart | AcquisitionCancel | AcquisitionDownload
   | AcquisitionRemove | AcquisitionProviders | AcquisitionSearch | AcquisitionDetails
   | AcquisitionAcquire | AcquisitionAcquireStatus | AcquisitionAcquireCancel | OnboardingFinish
   | OnboardingStatus | WifiConnectHidden | WifiConnect | WifiScan | NetworkStatus | GameRoutes
   | SelectedGameLaunch | CatalogSnapshot | MoonlightCertificateAttest
   | MoonlightCertificateProvision string string | MoonlightCertificateRevoke string string
   | SessionPrepare | SessionReserve | SessionStart | SessionCancel | SessionNetplay | ReleaseObject
   | InvitesNetplay | SessionStreamPlay | InvitesList | InvitesStreamPlay | InvitesDismiss
   | SessionStatus | SessionControls | SessionControlInvoke | SessionEnd "bool option"
   | SessionLeave | SessionResume | SourceStatus | PeerList | LocalGamesList | Health
   | LibraryFoldersSnapshot | LibraryFolderAdd | LibraryFolderChange | AttentionList
   | AttentionAssign | AttentionIgnore | LibraryFolderRemove | LibraryFoldersRescan
   | SettingsSnapshot | SettingsUpdate | SteamGridDbCredentialSet | SteamGridDbCredentialClear
   | IdentityStatus | OwnerBindingSnapshot | OwnerBindingStart | IdentityBackupExport
   | IdentityLocalSwitch | IdentityNip46Switch | IdentityRetiredExport | IdentityRetiredDelete
   | PluginPublishers | PluginTrustPublisher | PluginRevokePublisher | PluginArchiveBegin
   | PluginArchiveChunk | PluginArchiveFinish | PluginArchiveInspect | PluginArchiveInstall
   | PluginRepositories | PluginRepositoryAdd | PluginRepositoryRemove | PluginCatalog
   | PluginInspect | PluginInstall | PluginSetEnabled

subsection \<open>Callers\<close>

datatype scope = CatalogRead | StreamLaunch

definition scope_parse :: "string \<Rightarrow> scope option" where
  "scope_parse v =
     (if v = ''catalog.read'' then Some CatalogRead else if v = ''stream.launch'' then Some StreamLaunch else None)"

record person_pass =
  pp_event_id :: string
  pp_event_json :: string
  pp_expires_at :: nat
  pp_scopes :: "scope list"
  pp_person :: string

text \<open>
  The fields of an owner device are its key, its owner statement and the owner that signed it; of a
  pass holder the key, the owner statement and the pass.
\<close>

datatype principal =
    OwnerDevice string string string
  | Household string string person_pass
  | Guest string string person_pass
  | UnknownPeer string

fun principal_device :: "principal \<Rightarrow> string" where
  "principal_device (OwnerDevice device _ _) = device"
| "principal_device (Household device _ _) = device"
| "principal_device (Guest device _ _) = device"
| "principal_device (UnknownPeer device) = device"

fun principal_person :: "principal \<Rightarrow> string option" where
  "principal_person (OwnerDevice _ _ owner) = Some owner"
| "principal_person (Household _ _ pass) = Some (pp_person pass)"
| "principal_person (Guest _ _ pass) = Some (pp_person pass)"
| "principal_person (UnknownPeer _) = None"

fun has_scope :: "principal \<Rightarrow> scope \<Rightarrow> bool" where
  "has_scope (Household _ _ pass) expected \<longleftrightarrow> expected \<in> set (pp_scopes pass)"
| "has_scope (Guest _ _ pass) expected \<longleftrightarrow> expected \<in> set (pp_scopes pass)"
| "has_scope (OwnerDevice _ _ _) expected \<longleftrightarrow> False"
| "has_scope (UnknownPeer _) expected \<longleftrightarrow> False"

text \<open>The error is the code and the message of the source's \<open>RpcFailure\<close>.\<close>

definition require_session_starter :: "string \<Rightarrow> string option \<Rightarrow> (unit, string \<times> string) result" where
  "require_session_starter device starter =
     (if starter = Some device then Ok ()
      else Err (''NotSessionStarter'', ''Only the device that started this session can control it.''))"

datatype authorization_context = LocalBrowser | LocalCli | LocalUnixControl | PeerContext principal | TrustReconciliation

definition starting_device :: "authorization_context \<Rightarrow> string option" where
  "starting_device c = (case c of PeerContext p \<Rightarrow> Some (principal_device p) | _ \<Rightarrow> None)"

definition context_person :: "authorization_context \<Rightarrow> string option \<Rightarrow> string option" where
  "context_person c local_owner =
     (case c of
        LocalBrowser \<Rightarrow> local_owner | LocalCli \<Rightarrow> local_owner | LocalUnixControl \<Rightarrow> local_owner
      | PeerContext p \<Rightarrow> principal_person p
      | TrustReconciliation \<Rightarrow> None)"

subsection \<open>Policy\<close>

datatype peer_policy =
    LocalPortalOnly
  | LocalPortalOrOwnerDevice
  | LocalOnly
  | OwnerDeviceOnly
  | ExplicitScope scope
  | CatalogOrStreamScope

primrec policy_for :: "rpc_request \<Rightarrow> peer_policy" where
  "policy_for DisplayWake = LocalOnly"
| "policy_for SurfaceDisplays = LocalPortalOnly"
| "policy_for LaunchSettingsSnapshot = OwnerDeviceOnly"
| "policy_for LaunchSettingsSet = OwnerDeviceOnly"
| "policy_for LaunchProfileSave = OwnerDeviceOnly"
| "policy_for LaunchProfileRemove = OwnerDeviceOnly"
| "policy_for LaunchProfileSelect = OwnerDeviceOnly"
| "policy_for SaveHeads = OwnerDeviceOnly"
| "policy_for SaveRecords = OwnerDeviceOnly"
| "policy_for SaveInUse = OwnerDeviceOnly"
| "policy_for SaveObject = OwnerDeviceOnly"
| "policy_for SavesStatus = LocalOnly"
| "policy_for SavesHistory = LocalOnly"
| "policy_for SavesChoose = LocalOnly"
| "policy_for SavesRestore = LocalOnly"
| "policy_for SavesCheck = LocalOnly"
| "policy_for OnboardingRestart = LocalPortalOnly"
| "policy_for AcquisitionStatus = LocalPortalOnly"
| "policy_for AcquisitionStart = LocalPortalOnly"
| "policy_for AcquisitionCancel = LocalPortalOnly"
| "policy_for AcquisitionDownload = LocalPortalOnly"
| "policy_for AcquisitionRemove = LocalPortalOnly"
| "policy_for AcquisitionProviders = LocalPortalOnly"
| "policy_for AcquisitionSearch = LocalPortalOnly"
| "policy_for AcquisitionDetails = LocalPortalOnly"
| "policy_for AcquisitionAcquire = LocalPortalOnly"
| "policy_for AcquisitionAcquireStatus = LocalPortalOnly"
| "policy_for AcquisitionAcquireCancel = LocalPortalOnly"
| "policy_for OnboardingFinish = LocalPortalOnly"
| "policy_for OnboardingStatus = LocalPortalOnly"
| "policy_for WifiConnectHidden = LocalPortalOnly"
| "policy_for WifiConnect = LocalPortalOnly"
| "policy_for WifiScan = LocalPortalOnly"
| "policy_for NetworkStatus = LocalPortalOnly"
| "policy_for GameRoutes = OwnerDeviceOnly"
| "policy_for SelectedGameLaunch = OwnerDeviceOnly"
| "policy_for CatalogSnapshot = CatalogOrStreamScope"
| "policy_for MoonlightCertificateAttest = ExplicitScope StreamLaunch"
| "policy_for (MoonlightCertificateProvision host certificate) = ExplicitScope StreamLaunch"
| "policy_for (MoonlightCertificateRevoke host certificate) = OwnerDeviceOnly"
| "policy_for SessionPrepare = ExplicitScope StreamLaunch"
| "policy_for SessionReserve = LocalOnly"
| "policy_for SessionStart = LocalOnly"
| "policy_for SessionCancel = LocalOnly"
| "policy_for SessionNetplay = OwnerDeviceOnly"
| "policy_for ReleaseObject = OwnerDeviceOnly"
| "policy_for InvitesNetplay = LocalOnly"
| "policy_for SessionStreamPlay = OwnerDeviceOnly"
| "policy_for InvitesList = LocalOnly"
| "policy_for InvitesStreamPlay = LocalOnly"
| "policy_for InvitesDismiss = LocalOnly"
| "policy_for SessionStatus = ExplicitScope StreamLaunch"
| "policy_for SessionControls = ExplicitScope StreamLaunch"
| "policy_for SessionControlInvoke = ExplicitScope StreamLaunch"
| "policy_for (SessionEnd force) = (if force = Some True then OwnerDeviceOnly else ExplicitScope StreamLaunch)"
| "policy_for SessionLeave = ExplicitScope StreamLaunch"
| "policy_for SessionResume = ExplicitScope StreamLaunch"
| "policy_for SourceStatus = CatalogOrStreamScope"
| "policy_for PeerList = OwnerDeviceOnly"
| "policy_for LocalGamesList = OwnerDeviceOnly"
| "policy_for Health = OwnerDeviceOnly"
| "policy_for LibraryFoldersSnapshot = OwnerDeviceOnly"
| "policy_for LibraryFolderAdd = OwnerDeviceOnly"
| "policy_for LibraryFolderChange = OwnerDeviceOnly"
| "policy_for AttentionList = OwnerDeviceOnly"
| "policy_for AttentionAssign = OwnerDeviceOnly"
| "policy_for AttentionIgnore = OwnerDeviceOnly"
| "policy_for LibraryFolderRemove = OwnerDeviceOnly"
| "policy_for LibraryFoldersRescan = OwnerDeviceOnly"
| "policy_for SettingsSnapshot = OwnerDeviceOnly"
| "policy_for SettingsUpdate = OwnerDeviceOnly"
| "policy_for SteamGridDbCredentialSet = OwnerDeviceOnly"
| "policy_for SteamGridDbCredentialClear = OwnerDeviceOnly"
| "policy_for IdentityStatus = LocalOnly"
| "policy_for OwnerBindingSnapshot = LocalPortalOnly"
| "policy_for OwnerBindingStart = LocalPortalOnly"
| "policy_for IdentityBackupExport = LocalOnly"
| "policy_for IdentityLocalSwitch = LocalOnly"
| "policy_for IdentityNip46Switch = LocalOnly"
| "policy_for IdentityRetiredExport = LocalOnly"
| "policy_for IdentityRetiredDelete = LocalOnly"
| "policy_for PluginPublishers = LocalPortalOrOwnerDevice"
| "policy_for PluginTrustPublisher = LocalPortalOrOwnerDevice"
| "policy_for PluginRevokePublisher = LocalPortalOrOwnerDevice"
| "policy_for PluginArchiveBegin = LocalPortalOrOwnerDevice"
| "policy_for PluginArchiveChunk = LocalPortalOrOwnerDevice"
| "policy_for PluginArchiveFinish = LocalPortalOrOwnerDevice"
| "policy_for PluginArchiveInspect = LocalPortalOrOwnerDevice"
| "policy_for PluginArchiveInstall = LocalPortalOrOwnerDevice"
| "policy_for PluginRepositories = LocalPortalOrOwnerDevice"
| "policy_for PluginRepositoryAdd = LocalPortalOrOwnerDevice"
| "policy_for PluginRepositoryRemove = LocalPortalOrOwnerDevice"
| "policy_for PluginCatalog = LocalPortalOrOwnerDevice"
| "policy_for PluginInspect = LocalPortalOrOwnerDevice"
| "policy_for PluginInstall = LocalPortalOrOwnerDevice"
| "policy_for PluginSetEnabled = LocalPortalOrOwnerDevice"

datatype authorization_denied = AuthorizationDenied

definition scope_allows :: "principal \<Rightarrow> peer_policy \<Rightarrow> bool" where
  "scope_allows p policy =
     (case policy of
        LocalOnly \<Rightarrow> False | LocalPortalOnly \<Rightarrow> False | LocalPortalOrOwnerDevice \<Rightarrow> False | OwnerDeviceOnly \<Rightarrow> False
      | ExplicitScope s \<Rightarrow> has_scope p s
      | CatalogOrStreamScope \<Rightarrow> has_scope p CatalogRead \<or> has_scope p StreamLaunch)"

definition authorize :: "authorization_context \<Rightarrow> rpc_request \<Rightarrow> (unit, authorization_denied) result" where
  "authorize c request =
     (let policy = policy_for request;
          allowed = (case c of
              LocalBrowser \<Rightarrow> True
            | LocalCli \<Rightarrow> True
            | LocalUnixControl \<Rightarrow> policy \<notin> {LocalPortalOnly, LocalPortalOrOwnerDevice}
            | TrustReconciliation \<Rightarrow> policy \<notin> {LocalOnly, LocalPortalOnly, LocalPortalOrOwnerDevice}
            | PeerContext p \<Rightarrow>
                (case p of
                   OwnerDevice _ _ _ \<Rightarrow> policy \<notin> {LocalOnly, LocalPortalOnly}
                 | Household _ _ _ \<Rightarrow> scope_allows p policy
                 | Guest _ _ _ \<Rightarrow> scope_allows p policy
                 | UnknownPeer _ \<Rightarrow> False))
      in if allowed then Ok () else Err AuthorizationDenied)"

definition is_security_mutation :: "rpc_request \<Rightarrow> bool" where
  "is_security_mutation request \<longleftrightarrow>
     (case request of
        WifiScan \<Rightarrow> True | WifiConnect \<Rightarrow> True | WifiConnectHidden \<Rightarrow> True
        | OnboardingFinish \<Rightarrow> True | OnboardingRestart \<Rightarrow> True | SelectedGameLaunch \<Rightarrow> True
        | SessionEnd _ \<Rightarrow> True | SessionControlInvoke \<Rightarrow> True | SessionLeave \<Rightarrow> True
        | SessionResume \<Rightarrow> True | MoonlightCertificateProvision _ _ \<Rightarrow> True
        | MoonlightCertificateRevoke _ _ \<Rightarrow> True | LibraryFolderAdd \<Rightarrow> True
        | LibraryFolderChange \<Rightarrow> True | AttentionAssign \<Rightarrow> True | AttentionIgnore \<Rightarrow> True
        | LibraryFolderRemove \<Rightarrow> True | LibraryFoldersRescan \<Rightarrow> True | SettingsUpdate \<Rightarrow> True
        | LaunchSettingsSet \<Rightarrow> True | LaunchProfileSave \<Rightarrow> True | LaunchProfileRemove \<Rightarrow> True
        | LaunchProfileSelect \<Rightarrow> True | SteamGridDbCredentialSet \<Rightarrow> True
        | SteamGridDbCredentialClear \<Rightarrow> True | IdentityBackupExport \<Rightarrow> True
        | IdentityLocalSwitch \<Rightarrow> True | IdentityNip46Switch \<Rightarrow> True
        | IdentityRetiredExport \<Rightarrow> True | IdentityRetiredDelete \<Rightarrow> True
        | PluginRepositoryAdd \<Rightarrow> True | PluginRepositoryRemove \<Rightarrow> True
        | PluginInspect \<Rightarrow> True | PluginInstall \<Rightarrow> True | PluginTrustPublisher \<Rightarrow> True
        | PluginRevokePublisher \<Rightarrow> True | PluginArchiveBegin \<Rightarrow> True
        | PluginArchiveChunk \<Rightarrow> True | PluginArchiveFinish \<Rightarrow> True
        | PluginArchiveInspect \<Rightarrow> True | PluginArchiveInstall \<Rightarrow> True
        | PluginSetEnabled \<Rightarrow> True
        | _ \<Rightarrow> False)"

subsection \<open>Who may do what\<close>

fun pass_of :: "principal \<Rightarrow> person_pass option" where
  "pass_of (Household _ _ pass) = Some pass"
| "pass_of (Guest _ _ pass) = Some pass"
| "pass_of (OwnerDevice _ _ _) = None"
| "pass_of (UnknownPeer _) = None"

text \<open>Playing a game that the host offers: what the scope for streams is for.\<close>

definition stream_requests :: "rpc_request set" where
  "stream_requests =
     {MoonlightCertificateAttest, SessionPrepare, SessionStatus, SessionControls, SessionControlInvoke,
      SessionLeave, SessionResume, SessionEnd None, SessionEnd (Some False)} \<union>
     {MoonlightCertificateProvision host certificate | host certificate. True}"

definition catalog_requests :: "rpc_request set" where
  "catalog_requests = {CatalogSnapshot, SourceStatus}"

lemma stream_policy: "policy_for r = ExplicitScope s \<longleftrightarrow> s = StreamLaunch \<and> r \<in> stream_requests"
proof -
  have "x \<noteq> Some True \<longleftrightarrow> x = None \<or> x = Some False" for x :: "bool option" by (cases x) auto
  then show ?thesis by (cases r) (auto simp: stream_requests_def)
qed

lemma catalog_policy: "policy_for r = CatalogOrStreamScope \<longleftrightarrow> r \<in> catalog_requests"
  by (cases r) (auto simp: catalog_requests_def)

lemma authorize_Ok: "authorize c r = Ok () \<longleftrightarrow> is_ok (authorize c r)"
  by (cases "authorize c r") simp_all

lemma authorize_unknown [simp]: "authorize (PeerContext (UnknownPeer d)) r = Err AuthorizationDenied"
  by (simp add: authorize_def)

lemma authorize_pass:
  assumes "pass_of p = Some pass"
  shows "authorize (PeerContext p) r = Ok () \<longleftrightarrow>
    StreamLaunch \<in> set (pp_scopes pass) \<and> r \<in> stream_requests \<union> catalog_requests \<or>
    CatalogRead \<in> set (pp_scopes pass) \<and> r \<in> catalog_requests"
proof -
  have "has_scope p s \<longleftrightarrow> s \<in> set (pp_scopes pass)" for s using assms by (cases p) auto
  moreover have "authorize (PeerContext p) r = Ok () \<longleftrightarrow> scope_allows p (policy_for r)"
    using assms by (cases p) (auto simp: authorize_def)
  moreover have "scope_allows p (policy_for r) \<longleftrightarrow>
      (\<exists>s. policy_for r = ExplicitScope s \<and> has_scope p s) \<or>
      policy_for r = CatalogOrStreamScope \<and> (has_scope p CatalogRead \<or> has_scope p StreamLaunch)"
    by (auto simp: scope_allows_def split: peer_policy.splits)
  ultimately show ?thesis by (auto simp: stream_policy catalog_policy)
qed

text \<open>
  C28. The authority of peers is exact and ordered. The holder of a pass reaches the requests for
  playing with the scope for streams, the catalog with either scope, and nothing else; each of them is
  open to an owner device, and what an owner device may do is open to the local browser and terminal.
\<close>

theorem peer_authority_exact:
  assumes "pass_of p = Some pass"
  shows "(authorize (PeerContext p) r = Ok () \<longleftrightarrow>
      StreamLaunch \<in> set (pp_scopes pass) \<and> r \<in> stream_requests \<union> catalog_requests \<or>
      CatalogRead \<in> set (pp_scopes pass) \<and> r \<in> catalog_requests) \<and>
    {q. authorize (PeerContext p) q = Ok ()} \<subseteq> {q. authorize (PeerContext (OwnerDevice d st owner)) q = Ok ()} \<and>
    {q. authorize (PeerContext (OwnerDevice d st owner)) q = Ok ()} \<subset> {q. authorize LocalBrowser q = Ok ()} \<and>
    {q. authorize LocalBrowser q = Ok ()} = {q. authorize LocalCli q = Ok ()} \<and>
    {q. authorize (PeerContext (UnknownPeer d)) q = Ok ()} = {}"
proof (intro conjI)
  show "{q. authorize (PeerContext p) q = Ok ()} \<subseteq> {q. authorize (PeerContext (OwnerDevice d st owner)) q = Ok ()}"
  proof
    fix q assume "q \<in> {q. authorize (PeerContext p) q = Ok ()}"
    then have "policy_for q \<in> {ExplicitScope StreamLaunch, CatalogOrStreamScope}"
      by (auto simp: authorize_pass [OF assms] stream_policy catalog_policy)
    then show "q \<in> {q. authorize (PeerContext (OwnerDevice d st owner)) q = Ok ()}" by (auto simp: authorize_def)
  qed
  have "DisplayWake \<notin> {q. authorize (PeerContext (OwnerDevice d st owner)) q = Ok ()}" by (simp add: authorize_def)
  moreover have "{q. authorize LocalBrowser q = Ok ()} = UNIV" by (simp add: authorize_def)
  ultimately show "{q. authorize (PeerContext (OwnerDevice d st owner)) q = Ok ()} \<subset> {q. authorize LocalBrowser q = Ok ()}"
    by blast
qed (rule authorize_pass [OF assms], simp_all add: authorize_def)

text \<open>Witness of C28: a guest that may play, but not end the game of others by force.\<close>

definition demo_pass :: person_pass where
  "demo_pass = \<lparr>pp_event_id = ''e'', pp_event_json = ''j'', pp_expires_at = 10, pp_scopes = [StreamLaunch], pp_person = ''p''\<rparr>"

theorem peer_authority_exact_witness:
  "authorize (PeerContext (Guest ''d'' ''s'' demo_pass)) (SessionEnd None) = Ok () \<and>
   authorize (PeerContext (Guest ''d'' ''s'' demo_pass)) (SessionEnd (Some True)) \<noteq> Ok ()"
  using peer_authority_exact [of "Guest ''d'' ''s'' demo_pass" demo_pass "SessionEnd None"]
    peer_authority_exact [of "Guest ''d'' ''s'' demo_pass" demo_pass "SessionEnd (Some True)"]
  by (simp add: demo_pass_def stream_requests_def catalog_requests_def)

end
