(* ===== verification/Peer_Evidence.thy ===== *)
theory Peer_Evidence
  imports Peer_Policy Ordered_Map Rust_Text "HOL-Library.Product_Lexorder" "HOL-Library.Code_Target_Nat"
begin

text \<open>
  The evidence that a peer shows, and the caller it makes of the peer:
  \<open>services/korrid/src/identity.rs\<close> as far as it reads events (\<open>verify_event\<close>, owner statements and
  their memo) and the pure part of \<open>services/korrid/src/authorization.rs\<close> (person passes,
  revocations, \<open>principal_for\<close>). Parsing an event and checking its signature belong to a library and
  are the fields of \<open>nostr\<close>.

  The main facts: a peer is an owner device or a pass holder only on signed, current and unrevoked
  evidence for exactly its key, and the memo of verified statements never changes an answer.
\<close>

subsection \<open>Events\<close>

text \<open>
  An event of the library. Keys and ids are in lower-case hexadecimal, as \<open>to_hex\<close> prints them;
  \<open>VerifiedEvent\<close> has the same fields.
\<close>

record nostr_event =
  ne_id :: string
  ne_author :: string
  ne_created_at :: nat
  ne_kind :: nat
  ne_tags :: "string list list"
  ne_content :: string

record nostr =
  from_json :: "string \<Rightarrow> nostr_event option"
  signature_ok :: "nostr_event \<Rightarrow> bool"

datatype identity_error =
    IdentityStorage
  | IdentityInvalid string
  | InvalidEvent string
  | EncryptionFailed
  | DecryptionFailed
  | NoDeviceKey
  | SignerRefused

definition max_event_bytes :: nat where
  "max_event_bytes = 64 * 1024"

definition max_u64 :: nat where
  "max_u64 = 2 ^ 64 - 1"

definition saturating_add :: "nat \<Rightarrow> nat \<Rightarrow> nat" where
  "saturating_add a b = min (a + b) max_u64"

definition verify_event_bounded :: "nostr \<Rightarrow> string \<Rightarrow> nat \<Rightarrow> (nostr_event, identity_error) result" where
  "verify_event_bounded ns json limit =
     (if limit < length json then Err (InvalidEvent ''event is too large'')
      else case from_json ns json of
          None \<Rightarrow> Err (InvalidEvent ''event JSON is malformed'')
        | Some e \<Rightarrow> if \<not> signature_ok ns e then Err (InvalidEvent ''event signature is invalid'') else Ok e)"

definition verify_event :: "nostr \<Rightarrow> string \<Rightarrow> (nostr_event, identity_error) result" where
  "verify_event ns json = verify_event_bounded ns json max_event_bytes"

definition event_is_newer :: "nat \<Rightarrow> string \<Rightarrow> nat \<Rightarrow> string \<Rightarrow> bool" where
  "event_is_newer created i current current_id \<longleftrightarrow> current < created \<or> (created = current \<and> i < current_id)"

definition validate_hex_32 :: "string \<Rightarrow> bool" where
  "validate_hex_32 v \<longleftrightarrow> length v = 64 \<and> list_all is_lower_hex v"

subsection \<open>Owner statements\<close>

datatype owner_status = StatusOwned | StatusRevoked

definition owner_status_parse :: "string \<Rightarrow> (owner_status, identity_error) result" where
  "owner_status_parse v =
     (if v = ''owned'' then Ok StatusOwned
      else if v = ''revoked'' then Ok StatusRevoked
      else Err (InvalidEvent ''owner status is not supported''))"

record owner_statement =
  os_event_id :: string
  os_owner :: string
  os_device :: string
  os_status :: owner_status
  os_created_at :: nat

definition is_newer_than :: "owner_statement \<Rightarrow> owner_statement \<Rightarrow> bool" where
  "is_newer_than s current \<longleftrightarrow>
     os_owner s = os_owner current \<and> os_device s = os_device current \<and>
     event_is_newer (os_created_at s) (os_event_id s) (os_created_at current) (os_event_id current)"

definition owner_event_kind :: nat where
  "owner_event_kind = 30078"

definition owner_event_prefix :: string where
  "owner_event_prefix = ''org.korri.device-owner:''"

definition parse_owner_statement :: "nostr \<Rightarrow> string \<Rightarrow> string \<Rightarrow> (nostr_event \<times> owner_status, identity_error) result" where
  "parse_owner_statement ns json device =
     (if max_event_bytes < length json then Err (InvalidEvent ''owner statement is too large'')
      else case from_json ns json of
          None \<Rightarrow> Err (InvalidEvent ''owner statement JSON is malformed'')
        | Some e \<Rightarrow>
            if \<not> signature_ok ns e then Err (InvalidEvent ''owner signature is invalid'')
            else if ne_kind e \<noteq> owner_event_kind \<or> ne_content e \<noteq> [] then Err (InvalidEvent ''owner statement has the wrong event shape'')
            else (case ne_tags e of
                [t0, t1, t2] \<Rightarrow>
                  if t0 \<noteq> [''d'', owner_event_prefix @ device] \<or> t1 \<noteq> [''device'', device] \<or> length t2 \<noteq> 2 \<or> t2 ! 0 \<noteq> ''status''
                  then Err (InvalidEvent ''owner statement names a different device'')
                  else (case owner_status_parse (t2 ! 1) of Err m \<Rightarrow> Err m | Ok st \<Rightarrow> Ok (e, st))
              | _ \<Rightarrow> Err (InvalidEvent ''owner statement has unexpected tags'')))"

text \<open>
  The memo of verified statements, keyed by the exact bytes and the device. When it is full it is
  cleared. It is process-wide, so it is threaded through every operation that verifies a statement.
\<close>

type_synonym statement_memo = "(string \<times> string, owner_statement) btree"

definition max_verified_owner_statements :: nat where
  "max_verified_owner_statements = 256"

definition verify_owner_statement ::
  "nostr \<Rightarrow> string \<Rightarrow> string \<Rightarrow> statement_memo \<Rightarrow> (owner_statement, identity_error) result \<times> statement_memo" where
  "verify_owner_statement ns json device memo =
     (case bt_get memo (json, device) of
        Some v \<Rightarrow> (Ok v, memo)
      | None \<Rightarrow>
          (case parse_owner_statement ns json device of
             Err e \<Rightarrow> (Err e, memo)
           | Ok (e, st) \<Rightarrow>
               let v = \<lparr>os_event_id = ne_id e, os_owner = ne_author e, os_device = device, os_status = st,
                        os_created_at = ne_created_at e\<rparr>
               in (Ok v, bt_insert (json, device) v (if max_verified_owner_statements \<le> length memo then [] else memo))))"

definition owner_public_key_from_statement ::
  "nostr \<Rightarrow> string \<Rightarrow> string \<Rightarrow> statement_memo \<Rightarrow> (string, identity_error) result \<times> statement_memo" where
  "owner_public_key_from_statement ns json device memo =
     (case verify_owner_statement ns json device memo of
        (Err e, memo') \<Rightarrow> (Err e, memo')
      | (Ok v, memo') \<Rightarrow>
          (if os_status v \<noteq> StatusOwned then Err (InvalidEvent ''owner statement does not own the device'') else Ok (os_owner v), memo'))"

datatype identity_state =
    Unowned string
  | Owned string string string nat
  | RevokedIdentity string string string nat
  | InvalidIdentity string

subsection \<open>Revocations\<close>

datatype revocation_target = RevokeDevice string | RevokePass string

record revocation =
  rv_event_id :: string
  rv_json :: string
  rv_author :: string
  rv_target :: revocation_target

datatype authorization_error = InvalidEvidence | AuthorizationStorage

definition person_pass_event_kind :: nat where
  "person_pass_event_kind = 30079"

definition deletion_kind :: nat where
  "deletion_kind = 5"

definition revoked_device :: "nostr_event \<Rightarrow> string option" where
  "revoked_device e =
     (if ne_content e \<noteq> [] then None
      else case ne_tags e of
          [t0, t1, t2] \<Rightarrow>
            if length t0 \<noteq> 2 \<or> length t1 \<noteq> 2 \<or> t1 ! 0 \<noteq> ''device'' \<or> t2 \<noteq> [''status'', ''revoked''] then None
            else if t0 \<noteq> [''d'', ''org.korri.device-owner:'' @ t1 ! 1] then None
            else if \<not> validate_hex_32 (t1 ! 1) then None else Some (t1 ! 1)
        | _ \<Rightarrow> None)"

definition deleted_pass :: "nostr_event \<Rightarrow> string option" where
  "deleted_pass e =
     (if ne_content e \<noteq> [] then None
      else case ne_tags e of
          [t0, t1] \<Rightarrow>
            if length t0 \<noteq> 2 \<or> t0 ! 0 \<noteq> ''e'' \<or> t1 \<noteq> [''k'', decimal person_pass_event_kind] then None
            else if \<not> validate_hex_32 (t0 ! 1) then None else Some (t0 ! 1)
        | _ \<Rightarrow> None)"

definition parse_revocation :: "nostr \<Rightarrow> string \<Rightarrow> (revocation, authorization_error) result" where
  "parse_revocation ns json =
     (case verify_event ns json of
        Err _ \<Rightarrow> Err InvalidEvidence
      | Ok e \<Rightarrow>
          (case (if ne_kind e = owner_event_kind then map_option RevokeDevice (revoked_device e)
                 else if ne_kind e = deletion_kind then map_option RevokePass (deleted_pass e) else None) of
             None \<Rightarrow> Err InvalidEvidence
           | Some target \<Rightarrow> Ok \<lparr>rv_event_id = ne_id e, rv_json = json, rv_author = ne_author e, rv_target = target\<rparr>))"

definition is_owner_device_revoked :: "revocation list \<Rightarrow> string \<Rightarrow> string \<Rightarrow> bool" where
  "is_owner_device_revoked rs owner device = list_ex (\<lambda>r. rv_author r = owner \<and> rv_target r = RevokeDevice device) rs"

definition is_person_pass_revoked :: "revocation list \<Rightarrow> string \<Rightarrow> string \<Rightarrow> bool" where
  "is_person_pass_revoked rs owner pass_id = list_ex (\<lambda>r. rv_author r = owner \<and> rv_target r = RevokePass pass_id) rs"

subsection \<open>Person passes\<close>

datatype pass_tier = TierHousehold | TierGuest

definition pass_address_prefix :: string where
  "pass_address_prefix = ''org.korri.person-pass:''"

definition clock_skew_seconds :: nat where
  "clock_skew_seconds = 120"

definition max_person_pass_lifetime_seconds :: nat where
  "max_person_pass_lifetime_seconds = 24 * 60 * 60"

definition tier_parse :: "string \<Rightarrow> pass_tier option" where
  "tier_parse v = (if v = ''household'' then Some TierHousehold else if v = ''guest'' then Some TierGuest else None)"

fun collect_scopes :: "string list list \<Rightarrow> scope list option" where
  "collect_scopes [] = Some []"
| "collect_scopes (t # ts) =
     (case scope_parse (t ! 1) of
        None \<Rightarrow> None
      | Some s \<Rightarrow> map_option (\<lambda>ss. s # ss) (collect_scopes ts))"

text \<open>The tags of a pass: address, device, tier, expiry and scopes, or \<open>None\<close> for another shape.\<close>

definition pass_tags :: "nostr_event \<Rightarrow> string \<Rightarrow> (string \<times> string \<times> string \<times> string list list) option" where
  "pass_tags e device =
     (case ne_tags e of
        t0 # t1 # t2 # t3 # ts \<Rightarrow>
          if ts = [] \<or> length t0 \<noteq> 2 \<or> t0 ! 0 \<noteq> ''d'' \<or> \<not> starts_with pass_address_prefix (t0 ! 1) \<or>
             t1 \<noteq> [''device'', device] \<or> length t2 \<noteq> 2 \<or> t2 ! 0 \<noteq> ''tier'' \<or>
             length t3 \<noteq> 2 \<or> t3 ! 0 \<noteq> ''expires'' \<or> list_ex (\<lambda>t. length t \<noteq> 2 \<or> t ! 0 \<noteq> ''scope'') ts
          then None else Some (t0 ! 1, t2 ! 1, t3 ! 1, ts)
      | _ \<Rightarrow> None)"

definition parse_person_pass ::
  "nostr \<Rightarrow> string \<Rightarrow> string \<Rightarrow> string \<Rightarrow> nat \<Rightarrow> revocation list \<Rightarrow> (pass_tier \<times> person_pass) option" where
  "parse_person_pass ns json owner device now rs =
     (case verify_event ns json of
        Err _ \<Rightarrow> None
      | Ok e \<Rightarrow>
          if ne_kind e \<noteq> person_pass_event_kind \<or> ne_author e \<noteq> owner \<or> ne_content e \<noteq> [] \<or>
             saturating_add now clock_skew_seconds < ne_created_at e \<or> is_person_pass_revoked rs owner (ne_id e)
          then None
          else case pass_tags e device of
              None \<Rightarrow> None
            | Some (d, tier, expires, scope_tags) \<Rightarrow>
                (case strip_prefix pass_address_prefix d of
                   None \<Rightarrow> None
                 | Some address \<Rightarrow>
                     if \<not> validate_hex_32 address then None
                     else (case (tier_parse tier, parse_unsigned max_u64 expires) of
                         (Some t, Some expires_at) \<Rightarrow>
                           if expires_at \<le> now \<or> expires_at \<le> ne_created_at e \<or>
                              max_person_pass_lifetime_seconds < expires_at - ne_created_at e then None
                           else (case collect_scopes scope_tags of
                               None \<Rightarrow> None
                             | Some scopes \<Rightarrow>
                                 if scopes = [] \<or> \<not> distinct scopes then None
                                 else Some (t, \<lparr>pp_event_id = ne_id e, pp_event_json = json, pp_expires_at = expires_at,
                                                pp_scopes = scopes, pp_person = address\<rparr>))
                       | _ \<Rightarrow> None)))"

subsection \<open>The caller\<close>

definition principal_for ::
  "nostr \<Rightarrow> identity_state \<Rightarrow> string \<Rightarrow> string option \<Rightarrow> string option \<Rightarrow> nat \<Rightarrow> revocation list \<Rightarrow>
   statement_memo \<Rightarrow> principal \<times> statement_memo" where
  "principal_for ns local sender statement pass now rs memo =
     (case (local, statement) of
        (Owned _ local_owner _ _, Some json) \<Rightarrow>
          (case verify_owner_statement ns json sender memo of
             (Err _, memo') \<Rightarrow> (UnknownPeer sender, memo')
           | (Ok v, memo') \<Rightarrow>
               (if os_status v \<noteq> StatusOwned \<or> is_owner_device_revoked rs (os_owner v) sender then UnknownPeer sender
                else if os_owner v = local_owner then OwnerDevice sender json (os_owner v)
                else case pass of
                    None \<Rightarrow> UnknownPeer sender
                  | Some pass_json \<Rightarrow>
                      (case parse_person_pass ns pass_json local_owner sender now rs of
                         None \<Rightarrow> UnknownPeer sender
                       | Some (TierHousehold, p) \<Rightarrow> Household sender json p
                       | Some (TierGuest, p) \<Rightarrow> Guest sender json p), memo'))
      | _ \<Rightarrow> (UnknownPeer sender, memo))"

subsection \<open>The memo\<close>

text \<open>What verification gives without the memo.\<close>

definition statement_of :: "nostr \<Rightarrow> string \<Rightarrow> string \<Rightarrow> (owner_statement, identity_error) result" where
  "statement_of ns json device = fst (verify_owner_statement ns json device [])"

definition memo_ok :: "nostr \<Rightarrow> statement_memo \<Rightarrow> bool" where
  "memo_ok ns memo \<longleftrightarrow> (\<forall>json device v. bt_get memo (json, device) = Some v \<longrightarrow> statement_of ns json device = Ok v)"

lemma memo_ok_Nil [simp, intro]: "memo_ok ns []"
  by (simp add: memo_ok_def)

lemma verify_owner_statement_fresh:
  "bt_get memo (json, device) = None \<Longrightarrow> fst (verify_owner_statement ns json device memo) = statement_of ns json device"
  by (auto simp: statement_of_def verify_owner_statement_def Let_def split: result.splits)

lemma verify_owner_statement_memo:
  assumes "memo_ok ns memo"
  shows "fst (verify_owner_statement ns json device memo) = statement_of ns json device"
    and "memo_ok ns (snd (verify_owner_statement ns json device memo))"
proof -
  show eq: "fst (verify_owner_statement ns json device memo) = statement_of ns json device"
  proof (cases "bt_get memo (json, device)")
    case (Some v)
    with assms show ?thesis by (simp add: memo_ok_def verify_owner_statement_def)
  qed (rule verify_owner_statement_fresh)
  show "memo_ok ns (snd (verify_owner_statement ns json device memo))"
  proof (cases "bt_get memo (json, device)")
    case None
    with eq assms show ?thesis
      by (auto simp: memo_ok_def verify_owner_statement_def Let_def simp del: bt_insert.simps split: result.splits if_splits)
  next
    case (Some v)
    with assms show ?thesis by (simp add: verify_owner_statement_def)
  qed
qed

lemma bt_insert_length: "length (bt_insert k v m) \<le> Suc (length m)"
  by (induction m) auto

lemma verify_owner_statement_bound:
  "length memo \<le> max_verified_owner_statements \<Longrightarrow>
   length (snd (verify_owner_statement ns json device memo)) \<le> max_verified_owner_statements"
  using bt_insert_length [of "(json, device)" _ memo] bt_insert_length [of "(json, device)" _ "[]"]
  by (auto simp: verify_owner_statement_def Let_def max_verified_owner_statements_def
    split: option.splits result.splits intro: order_trans [OF bt_insert_length])

lemma principal_for_memo:
  assumes "memo_ok ns memo"
  shows "fst (principal_for ns local sender st pass now rs memo) = fst (principal_for ns local sender st pass now rs [])"
    and "memo_ok ns (snd (principal_for ns local sender st pass now rs memo))"
    and "length memo \<le> max_verified_owner_statements \<Longrightarrow>
      length (snd (principal_for ns local sender st pass now rs memo)) \<le> max_verified_owner_statements"
proof -
  have v: "fst (verify_owner_statement ns j sender memo) = fst (verify_owner_statement ns j sender [])" for j
    using verify_owner_statement_memo(1) [OF assms] by (simp add: statement_of_def)
  show "fst (principal_for ns local sender st pass now rs memo) = fst (principal_for ns local sender st pass now rs [])"
  proof (cases st)
    case (Some j)
    with v [of j] show ?thesis
      by (cases local; cases "verify_owner_statement ns j sender memo"; cases "verify_owner_statement ns j sender []")
        (auto simp: principal_for_def split: result.splits)
  qed (cases local; simp add: principal_for_def)
  show "memo_ok ns (snd (principal_for ns local sender st pass now rs memo))"
    using verify_owner_statement_memo(2) [OF assms, of "the st" sender] assms
    by (auto simp: principal_for_def split: identity_state.splits option.splits prod.splits result.splits)
  show "length memo \<le> max_verified_owner_statements \<Longrightarrow>
      length (snd (principal_for ns local sender st pass now rs memo)) \<le> max_verified_owner_statements"
    using verify_owner_statement_bound [of memo ns "the st" sender]
    by (auto simp: principal_for_def split: identity_state.splits option.splits prod.splits result.splits)
qed

text \<open>A run of requests with one memo, and the callers that it makes of them.\<close>

fun callers ::
  "nostr \<Rightarrow> (identity_state \<times> string \<times> string option \<times> string option \<times> nat \<times> revocation list) list \<Rightarrow>
   statement_memo \<Rightarrow> principal list \<times> statement_memo" where
  "callers ns [] memo = ([], memo)"
| "callers ns ((local, sender, st, pass, now, rs) # xs) memo =
     (let (p, memo1) = principal_for ns local sender st pass now rs memo; (ps, memo2) = callers ns xs memo1 in (p # ps, memo2))"

lemma callers_memo:
  "memo_ok ns memo \<Longrightarrow> fst (callers ns xs memo) = map (\<lambda>(local, sender, st, pass, now, rs). fst (principal_for ns local sender st pass now rs [])) xs"
proof (induction xs arbitrary: memo)
  case (Cons x xs)
  obtain local sender st pass now rs where x: "x = (local, sender, st, pass, now, rs)" by (cases x)
  obtain p memo1 where p: "principal_for ns local sender st pass now rs memo = (p, memo1)" by fastforce
  have "memo_ok ns memo1" using principal_for_memo(2) [OF Cons.prems, of local sender st pass now rs] p by simp
  from Cons.IH [OF this] principal_for_memo(1) [OF Cons.prems, of local sender st pass now rs] p x
  show ?case by (auto split: prod.splits)
qed simp

lemma callers_bound:
  "length memo \<le> max_verified_owner_statements \<Longrightarrow> memo_ok ns memo \<Longrightarrow>
   length (snd (callers ns xs memo)) \<le> max_verified_owner_statements"
proof (induction xs arbitrary: memo)
  case (Cons x xs)
  obtain local sender st pass now rs where x: "x = (local, sender, st, pass, now, rs)" by (cases x)
  obtain p memo1 where p: "principal_for ns local sender st pass now rs memo = (p, memo1)" by fastforce
  have "memo_ok ns memo1" "length memo1 \<le> max_verified_owner_statements"
    using principal_for_memo(2,3) [OF Cons.prems(2), of local sender st pass now rs] Cons.prems(1) p by simp_all
  from Cons.IH [OF this(2,1)] p x show ?case by (auto split: prod.splits)
qed simp

text \<open>
  C30. The memo of verified statements never changes an answer: over any sequence of requests, with
  whatever local identity, clock and revocations each of them meets, the callers are those of
  verifying every statement anew, and the memo never holds more than 256 statements.
\<close>

theorem memo_transparent:
  "fst (callers ns xs []) = map (\<lambda>(local, sender, st, pass, now, rs). fst (principal_for ns local sender st pass now rs [])) xs \<and>
   length (snd (callers ns xs [])) \<le> max_verified_owner_statements"
  using callers_memo [of ns "[]" xs] callers_bound [of "[]" ns xs] by simp

subsection \<open>Evidence\<close>

definition signed :: "nostr \<Rightarrow> string \<Rightarrow> nostr_event \<Rightarrow> bool" where
  "signed ns json e \<longleftrightarrow> from_json ns json = Some e \<and> signature_ok ns e"

definition owns :: "nostr \<Rightarrow> string \<Rightarrow> string \<Rightarrow> string \<Rightarrow> bool" where
  "owns ns json device owner \<longleftrightarrow>
     (\<exists>e. signed ns json e \<and> ne_author e = owner \<and> ne_kind e = owner_event_kind \<and> ne_content e = [] \<and>
        ne_tags e = [[''d'', owner_event_prefix @ device], [''device'', device], [''status'', ''owned'']])"

primrec scope_text :: "scope \<Rightarrow> string" where
  "scope_text CatalogRead = ''catalog.read''"
| "scope_text StreamLaunch = ''stream.launch''"

text \<open>A pass that \<open>owner\<close> signed for \<open>device\<close> and that is in force at \<open>now\<close>.\<close>

definition grants :: "nostr \<Rightarrow> string \<Rightarrow> string \<Rightarrow> nat \<Rightarrow> string \<Rightarrow> person_pass \<Rightarrow> bool" where
  "grants ns owner device now tier p \<longleftrightarrow>
     (\<exists>e expires. signed ns (pp_event_json p) e \<and> ne_id e = pp_event_id p \<and> ne_author e = owner \<and>
        ne_kind e = person_pass_event_kind \<and> ne_content e = [] \<and>
        ne_tags e = [[''d'', pass_address_prefix @ pp_person p], [''device'', device], [''tier'', tier], [''expires'', expires]] @
          map (\<lambda>s. [''scope'', scope_text s]) (pp_scopes p) \<and>
        parse_unsigned max_u64 expires = Some (pp_expires_at p) \<and> now < pp_expires_at p \<and>
        ne_created_at e \<le> now + clock_skew_seconds \<and>
        pp_expires_at p \<le> ne_created_at e + max_person_pass_lifetime_seconds \<and>
        pp_scopes p \<noteq> [] \<and> distinct (pp_scopes p) \<and> validate_hex_32 (pp_person p))"

lemma verify_event_Ok: "verify_event ns json = Ok e \<Longrightarrow> signed ns json e"
  by (auto simp: verify_event_def verify_event_bounded_def signed_def split: if_splits option.splits)

lemma length_2: "length xs = 2 \<Longrightarrow> xs = [xs ! 0, xs ! 1]"
  by (cases xs; cases "tl xs") auto

lemma owns_of_statement:
  assumes "statement_of ns json device = Ok v"
  shows "os_device v = device \<and> (os_status v = StatusOwned \<longrightarrow> owns ns json device (os_owner v))"
proof -
  obtain e st where p: "parse_owner_statement ns json device = Ok (e, st)"
    and v: "os_device v = device" "os_status v = st" "os_owner v = ne_author e"
    using assms by (auto simp: statement_of_def verify_owner_statement_def Let_def split: result.splits)
  from p have e: "signed ns json e" "ne_kind e = owner_event_kind" "ne_content e = []"
    by (auto simp: parse_owner_statement_def signed_def split: if_splits option.splits list.splits result.splits)
  from p obtain t2 where t: "ne_tags e = [[''d'', owner_event_prefix @ device], [''device'', device], t2]" "length t2 = 2"
      "t2 ! 0 = ''status''" "owner_status_parse (t2 ! 1) = Ok st"
    by (auto simp: parse_owner_statement_def split: if_splits option.splits list.splits result.splits)
  then have "st = StatusOwned \<Longrightarrow> t2 = [''status'', ''owned'']"
    using length_2 [of t2] by (auto simp: owner_status_parse_def split: if_splits)
  with e t v show ?thesis by (auto simp: owns_def)
qed

lemma scope_parse_text: "scope_parse v = Some s \<longleftrightarrow> v = scope_text s"
  by (cases s) (auto simp: scope_parse_def)

lemma collect_scopes_Some:
  "collect_scopes ts = Some ss \<Longrightarrow> \<forall>t \<in> set ts. length t = 2 \<and> t ! 0 = ''scope'' \<Longrightarrow>
   ts = map (\<lambda>s. [''scope'', scope_text s]) ss"
proof (induction ts arbitrary: ss)
  case (Cons t ts)
  then obtain s ss' where s: "scope_parse (t ! 1) = Some s" "collect_scopes ts = Some ss'" "ss = s # ss'"
    by (auto split: option.splits)
  have "t = [t ! 0, t ! 1]" using Cons.prems(2) by (intro length_2) simp
  with Cons s show ?case by (auto simp: scope_parse_text)
qed simp

lemma case_four:
  "(case xs of a # b # c # d # ys \<Rightarrow> f a b c d ys | _ \<Rightarrow> None) = Some y \<Longrightarrow>
   \<exists>a b c d ys. xs = a # b # c # d # ys \<and> f a b c d ys = Some y"
  by (auto split: list.splits)

lemma pass_tags_Some:
  assumes "pass_tags e device = Some (d, tier, expires, ts)"
  shows "ne_tags e = [[''d'', d], [''device'', device], [''tier'', tier], [''expires'', expires]] @ ts \<and> ts \<noteq> [] \<and>
    (\<forall>t \<in> set ts. length t = 2 \<and> t ! 0 = ''scope'')"
proof -
  obtain t0 t1 t2 t3 us where tags: "ne_tags e = t0 # t1 # t2 # t3 # us"
    and f: "(if us = [] \<or> length t0 \<noteq> 2 \<or> t0 ! 0 \<noteq> ''d'' \<or> \<not> starts_with pass_address_prefix (t0 ! 1) \<or>
             t1 \<noteq> [''device'', device] \<or> length t2 \<noteq> 2 \<or> t2 ! 0 \<noteq> ''tier'' \<or>
             length t3 \<noteq> 2 \<or> t3 ! 0 \<noteq> ''expires'' \<or> list_ex (\<lambda>t. length t \<noteq> 2 \<or> t ! 0 \<noteq> ''scope'') us
          then None else Some (t0 ! 1, t2 ! 1, t3 ! 1, us)) = Some (d, tier, expires, ts)"
    using case_four [OF assms [unfolded pass_tags_def]] by blast
  then have n: "length t0 = 2" "length t2 = 2" "length t3 = 2" "t0 ! 0 = ''d''" "t1 = [''device'', device]" "t2 ! 0 = ''tier''"
      "t3 ! 0 = ''expires''" "us \<noteq> []" "\<not> list_ex (\<lambda>t. length t \<noteq> 2 \<or> t ! 0 \<noteq> ''scope'') us"
    and r: "(t0 ! 1, t2 ! 1, t3 ! 1, us) = (d, tier, expires, ts)"
    by (simp_all only: if_split_eq1 option.inject option.distinct de_Morgan_disj not_not simp_thms)
  have "t0 = [''d'', d]" "t2 = [''tier'', tier]" "t3 = [''expires'', expires]"
    using length_2 [of t0] length_2 [of t2] length_2 [of t3] n r by simp_all
  with tags n r show ?thesis by (simp add: list_ex_iff)
qed

lemma parse_person_pass_Some:
  assumes "parse_person_pass ns json owner device now rs = Some (t, p)"
  shows "grants ns owner device now (case t of TierHousehold \<Rightarrow> ''household'' | TierGuest \<Rightarrow> ''guest'') p \<and>
    pp_event_json p = json \<and> \<not> is_person_pass_revoked rs owner (pp_event_id p)"
proof -
  obtain e d tier expires ts address expires_at scopes where e: "verify_event ns json = Ok e"
    and shape: "ne_kind e = person_pass_event_kind" "ne_author e = owner" "ne_content e = []"
      "ne_created_at e \<le> saturating_add now clock_skew_seconds" "\<not> is_person_pass_revoked rs owner (ne_id e)"
    and tags: "pass_tags e device = Some (d, tier, expires, ts)"
    and d: "strip_prefix pass_address_prefix d = Some address" "validate_hex_32 address"
    and tier: "tier_parse tier = Some t" and exp: "parse_unsigned max_u64 expires = Some expires_at"
    and time: "now < expires_at" "ne_created_at e < expires_at" "expires_at - ne_created_at e \<le> max_person_pass_lifetime_seconds"
    and sc: "collect_scopes ts = Some scopes" "scopes \<noteq> []" "distinct scopes"
    and p: "p = \<lparr>pp_event_id = ne_id e, pp_event_json = json, pp_expires_at = expires_at, pp_scopes = scopes, pp_person = address\<rparr>"
    using assms unfolding parse_person_pass_def
    by (auto simp: not_less not_le split: result.splits if_splits option.splits prod.splits)
  have "ne_tags e = [[''d'', pass_address_prefix @ address], [''device'', device], [''tier'', tier], [''expires'', expires]] @
      map (\<lambda>s. [''scope'', scope_text s]) scopes"
    using pass_tags_Some [OF tags] collect_scopes_Some [OF sc(1)] d(1) by (simp add: strip_prefix_Some)
  moreover have "tier = (case t of TierHousehold \<Rightarrow> ''household'' | TierGuest \<Rightarrow> ''guest'')"
    using tier by (auto simp: tier_parse_def split: if_splits)
  ultimately show ?thesis
    using verify_event_Ok [OF e] shape exp time sc d(2) unfolding p grants_def saturating_add_def by auto
qed

text \<open>A device of another owner with a pass of the local owner, neither of them revoked.\<close>

definition holds_pass ::
  "nostr \<Rightarrow> identity_state \<Rightarrow> string \<Rightarrow> string \<Rightarrow> string \<Rightarrow> person_pass \<Rightarrow> nat \<Rightarrow> revocation list \<Rightarrow> bool" where
  "holds_pass ns local sender json tier p now rs \<longleftrightarrow>
     (\<exists>k mine i t other. local = Owned k mine i t \<and> other \<noteq> mine \<and>
        owns ns json sender other \<and> \<not> is_owner_device_revoked rs other sender \<and>
        grants ns mine sender now tier p \<and> \<not> is_person_pass_revoked rs mine (pp_event_id p))"

lemma principal_for_cases:
  assumes "memo_ok ns memo" and "fst (principal_for ns local sender st pass now rs memo) = p" and "p \<noteq> UnknownPeer sender"
  obtains k mine i t json v where "local = Owned k mine i t" and "st = Some json" and "statement_of ns json sender = Ok v"
    and "os_status v = StatusOwned" and "\<not> is_owner_device_revoked rs (os_owner v) sender"
    and "os_owner v = mine \<and> p = OwnerDevice sender json mine \<or>
      os_owner v \<noteq> mine \<and> (\<exists>pass_json tier q. pass = Some pass_json \<and>
        parse_person_pass ns pass_json mine sender now rs = Some (tier, q) \<and>
        p = (case tier of TierHousehold \<Rightarrow> Household sender json q | TierGuest \<Rightarrow> Guest sender json q))"
proof -
  obtain k mine i t json where l: "local = Owned k mine i t" "st = Some json"
    using assms(2,3) by (auto simp: principal_for_def split: identity_state.splits option.splits)
  obtain r memo' where v: "verify_owner_statement ns json sender memo = (r, memo')" by fastforce
  have s: "statement_of ns json sender = r" using verify_owner_statement_memo(1) [OF assms(1), of json sender] v by simp
  show thesis
  proof (cases r)
    case (Ok w)
    have "os_status w = StatusOwned" "\<not> is_owner_device_revoked rs (os_owner w) sender"
      using assms(2,3) l v Ok by (auto simp: principal_for_def split: if_splits)
    moreover have "os_owner w = mine \<and> p = OwnerDevice sender json mine \<or>
        os_owner w \<noteq> mine \<and> (\<exists>pass_json tier q. pass = Some pass_json \<and>
          parse_person_pass ns pass_json mine sender now rs = Some (tier, q) \<and>
          p = (case tier of TierHousehold \<Rightarrow> Household sender json q | TierGuest \<Rightarrow> Guest sender json q))"
    proof (cases "os_owner w = mine")
      case False
      then obtain pass_json where pj: "pass = Some pass_json"
        using assms(2,3) l v Ok by (auto simp: principal_for_def split: if_splits option.splits)
      then obtain tier q where "parse_person_pass ns pass_json mine sender now rs = Some (tier, q)"
        using assms(2,3) l v Ok False by (auto simp: principal_for_def split: if_splits option.splits)
      with pj False assms(2,3) l v Ok show ?thesis
        by (cases tier) (auto simp: principal_for_def split: if_splits)
    qed (use assms(2,3) l v Ok in \<open>auto simp: principal_for_def split: if_splits\<close>)
    ultimately show thesis using that l s Ok by blast
  next
    case (Err e)
    with assms(2,3) l v show thesis by (simp add: principal_for_def)
  qed
qed

lemma principal_for_sound:
  assumes "memo_ok ns memo"
  shows "case fst (principal_for ns local sender st pass now rs memo) of
      UnknownPeer d \<Rightarrow> d = sender
    | OwnerDevice d json owner \<Rightarrow> d = sender \<and> st = Some json \<and> (\<exists>k i t. local = Owned k owner i t) \<and>
        owns ns json sender owner \<and> \<not> is_owner_device_revoked rs owner sender
    | Household d json p \<Rightarrow> d = sender \<and> st = Some json \<and> holds_pass ns local sender json ''household'' p now rs
    | Guest d json p \<Rightarrow> d = sender \<and> st = Some json \<and> holds_pass ns local sender json ''guest'' p now rs"
proof (cases "fst (principal_for ns local sender st pass now rs memo) = UnknownPeer sender")
  case False
  show ?thesis
  proof (rule principal_for_cases [OF assms refl False])
    fix k mine i t json v
    assume l: "local = Owned k mine i t" "st = Some json" and v: "statement_of ns json sender = Ok v" "os_status v = StatusOwned"
        "\<not> is_owner_device_revoked rs (os_owner v) sender"
      and p: "os_owner v = mine \<and> fst (principal_for ns local sender st pass now rs memo) = OwnerDevice sender json mine \<or>
        os_owner v \<noteq> mine \<and> (\<exists>pass_json tier q. pass = Some pass_json \<and>
          parse_person_pass ns pass_json mine sender now rs = Some (tier, q) \<and>
          fst (principal_for ns local sender st pass now rs memo) =
            (case tier of TierHousehold \<Rightarrow> Household sender json q | TierGuest \<Rightarrow> Guest sender json q))"
    have owns: "owns ns json sender (os_owner v)" using owns_of_statement [OF v(1)] v(2) by simp
    from p show ?thesis
    proof
      assume "os_owner v = mine \<and> fst (principal_for ns local sender st pass now rs memo) = OwnerDevice sender json mine"
      with l v owns show ?thesis by auto
    next
      assume "os_owner v \<noteq> mine \<and> (\<exists>pass_json tier q. pass = Some pass_json \<and>
          parse_person_pass ns pass_json mine sender now rs = Some (tier, q) \<and>
          fst (principal_for ns local sender st pass now rs memo) =
            (case tier of TierHousehold \<Rightarrow> Household sender json q | TierGuest \<Rightarrow> Guest sender json q))"
      then obtain pass_json tier q where q: "os_owner v \<noteq> mine" "parse_person_pass ns pass_json mine sender now rs = Some (tier, q)"
        "fst (principal_for ns local sender st pass now rs memo) =
            (case tier of TierHousehold \<Rightarrow> Household sender json q | TierGuest \<Rightarrow> Guest sender json q)" by blast
      from parse_person_pass_Some [OF q(2)] q(1,3) l v(3) owns show ?thesis
        by (cases tier) (auto simp: holds_pass_def)
    qed
  qed
qed simp

text \<open>
  C29. A peer counts as more than unknown only on evidence. It is an owner device when the local owner
  signed a statement that it owns exactly this device, and a member of the household or a guest when
  another owner did and the local owner signed a pass of that tier for exactly this device, which is in
  force now, lasts at most a day and names its scopes; and no revocation by their signers is known.
\<close>

theorem principal_evidence:
  assumes "memo_ok ns memo"
  shows "case fst (principal_for ns local sender st pass now rs memo) of
      UnknownPeer d \<Rightarrow> d = sender
    | OwnerDevice d json owner \<Rightarrow> d = sender \<and> st = Some json \<and> (\<exists>k i t. local = Owned k owner i t) \<and>
        owns ns json sender owner \<and> \<not> is_owner_device_revoked rs owner sender
    | Household d json p \<Rightarrow> d = sender \<and> st = Some json \<and> holds_pass ns local sender json ''household'' p now rs
    | Guest d json p \<Rightarrow> d = sender \<and> st = Some json \<and> holds_pass ns local sender json ''guest'' p now rs"
  using assms by (rule principal_for_sound)

subsection \<open>An example\<close>

definition demo_owner :: string where
  "demo_owner = replicate 64 CHR ''a''"

definition demo_friend :: string where
  "demo_friend = replicate 64 CHR ''b''"

definition demo_device :: string where
  "demo_device = replicate 64 CHR ''d''"

definition demo_event :: "char \<Rightarrow> string \<Rightarrow> nat \<Rightarrow> string list list \<Rightarrow> nostr_event" where
  "demo_event x author kind tags =
     \<lparr>ne_id = replicate 64 x, ne_author = author, ne_created_at = 100, ne_kind = kind, ne_tags = tags, ne_content = []\<rparr>"

text \<open>
  The library reads four texts: the statements of the two owners for the device, a pass, and the
  friend's revocation of the device. It accepts every signature.
\<close>

definition demo_statement :: "char \<Rightarrow> string \<Rightarrow> string \<Rightarrow> nostr_event" where
  "demo_statement x owner status = demo_event x owner 30078
     [[''d'', owner_event_prefix @ demo_device], [''device'', demo_device], [''status'', status]]"

definition demo_pass_event :: nostr_event where
  "demo_pass_event = demo_event CHR ''3'' demo_owner 30079
     [[''d'', pass_address_prefix @ demo_friend], [''device'', demo_device], [''tier'', ''guest''], [''expires'', ''900''],
      [''scope'', ''stream.launch'']]"

definition demo_nostr :: nostr where
  "demo_nostr =
     \<lparr>from_json = (\<lambda>j. if j = ''own'' then Some (demo_statement CHR ''1'' demo_owner ''owned'')
        else if j = ''friend'' then Some (demo_statement CHR ''2'' demo_friend ''owned'')
        else if j = ''pass'' then Some demo_pass_event
        else if j = ''revoke'' then Some (demo_statement CHR ''4'' demo_friend ''revoked'') else None),
      signature_ok = (\<lambda>e. True)\<rparr>"

definition demo_local :: identity_state where
  "demo_local = Owned (replicate 64 CHR ''f'') demo_owner (replicate 64 CHR ''0'') 1"

definition demo_guest :: person_pass where
  "demo_guest = \<lparr>pp_event_id = replicate 64 CHR ''3'', pp_event_json = ''pass'', pp_expires_at = 900,
     pp_scopes = [StreamLaunch], pp_person = demo_friend\<rparr>"

lemma demo_callers:
  "fst (principal_for demo_nostr demo_local demo_device (Some ''own'') None 200 [] []) = OwnerDevice demo_device ''own'' demo_owner"
  "fst (principal_for demo_nostr demo_local demo_device (Some ''friend'') (Some ''pass'') 200 [] []) =
     Guest demo_device ''friend'' demo_guest"
  "fst (principal_for demo_nostr demo_local demo_device (Some ''friend'') (Some ''pass'') 900 [] []) = UnknownPeer demo_device"
  by code_simp+

text \<open>Witness of C29: a guest with a pass that expires later.\<close>

theorem principal_evidence_witness:
  "holds_pass demo_nostr demo_local demo_device ''friend'' ''guest'' demo_guest 200 []"
  using principal_evidence [OF memo_ok_Nil [of demo_nostr], where local = demo_local and sender = demo_device and
      st = "Some ''friend''" and pass = "Some ''pass''" and now = 200 and rs = "[]"]
  by (simp add: demo_callers(2))

end
