(* ===== verification/Peer_Authorization.thy ===== *)
theory Peer_Authorization
  imports Peer_Evidence Host_Files Utf8
begin

text \<open>
  The state behind authorization, \<open>services/korrid/src/authorization.rs\<close>: the revocations that are
  known, those still to be written, and the certificates that peers were granted. The file system is
  outside the sources and is the parameter \<open>auth_disk\<close> over a state \<open>'d\<close>. Every operation holds the
  one mutex while it reads or changes the revocations, so that a step of the model is an operation.
  Opening the state offline (\<open>open_offline\<close>), which reads through checked directory handles, is not
  modelled.

  The main facts: a revocation takes effect when it is committed, whatever the disk does, and lasts;
  after a successful commit it is read back at the next start; and the plan for certificates keeps
  exactly those whose holder may still play.
\<close>

subsection \<open>Disk and environment\<close>

record auth_meta =
  am_dir :: bool
  am_file :: bool
  am_symlink :: bool
  am_private :: bool
  am_len :: nat

datatype create_outcome = Created | AlreadyExists | CreateFailed

text \<open>
  \<open>ad_node\<close> is what a path names, its metadata and its bytes, and is only used to state laws. An entry
  of a directory that cannot be read is \<open>None\<close>; \<open>ad_random\<close> is \<open>rand::random\<close> in decimal.
\<close>

record 'd auth_disk =
  ad_node :: "'d \<Rightarrow> string \<Rightarrow> (auth_meta \<times> string) option"
  ad_exists :: "string \<Rightarrow> 'd \<Rightarrow> bool"
  ad_meta :: "string \<Rightarrow> 'd \<Rightarrow> auth_meta option"
  ad_entries :: "string \<Rightarrow> 'd \<Rightarrow> string option list option"
  ad_read :: "string \<Rightarrow> 'd \<Rightarrow> string option"
  ad_random :: "'d \<Rightarrow> string"
  ad_mkdir :: "string \<Rightarrow> 'd \<Rightarrow> bool \<times> 'd"
  ad_create_new :: "string \<Rightarrow> 'd \<Rightarrow> create_outcome \<times> 'd"
  ad_write :: "string \<Rightarrow> string \<Rightarrow> 'd \<Rightarrow> bool \<times> 'd"
  ad_sync :: "string \<Rightarrow> 'd \<Rightarrow> bool \<times> 'd"
  ad_rename :: "string \<Rightarrow> string \<Rightarrow> 'd \<Rightarrow> bool \<times> 'd"
  ad_sync_dir :: "string \<Rightarrow> 'd \<Rightarrow> bool \<times> 'd"
  ad_remove :: "string \<Rightarrow> 'd \<Rightarrow> (unit, io_error) result \<times> 'd"

datatype certificate_authorization =
    CertOwnerDevice string
  | CertPersonPass string string

record certificate_grant =
  cg_host_uuid :: string
  cg_client_certificate :: string
  cg_authorization :: certificate_authorization

record certificate_revocation =
  cr_device :: string
  cr_host_uuid :: string
  cr_client_certificate :: string

text \<open>\<open>ae_sha256\<close> is the digest in hexadecimal; the grants are printed and parsed as JSON.\<close>

record 'd auth_env =
  ae_root :: string
  ae_disk :: "'d auth_disk"
  ae_nostr :: nostr
  ae_sha256 :: "string \<Rightarrow> string"
  ae_print_grant :: "certificate_grant \<Rightarrow> string option"
  ae_parse_grant :: "string \<Rightarrow> certificate_grant option"

record 'd auth_state =
  as_disk :: 'd
  as_revocations :: "revocation list"
  as_pending :: "string set"
  as_memo :: statement_memo

record authorization_attempt =
  at_context :: authorization_context
  at_revocations :: "revocation list"

type_synonym ('d, 'a) auth_step = "'d auth_state \<Rightarrow> ('a, authorization_error) result \<times> 'd auth_state"

definition storage_step :: "bool \<times> 'd \<Rightarrow> (unit, authorization_error) result \<times> 'd" where
  "storage_step x = (if fst x then Ok () else Err AuthorizationStorage, snd x)"

definition on_disk :: "('d \<Rightarrow> ('a, authorization_error) result \<times> 'd) \<Rightarrow> ('d, 'a) auth_step" where
  "on_disk f s = (let (r, d) = f (as_disk s) in (r, s\<lparr>as_disk := d\<rparr>))"

definition revocation_directory :: "'d auth_env \<Rightarrow> string" where
  "revocation_directory ev = path_join (ae_root ev) ''identity/authorization-revocations''"

definition certificate_directory :: "'d auth_env \<Rightarrow> string" where
  "certificate_directory ev = path_join (ae_root ev) ''identity/peer-certificates''"

definition max_grant_bytes :: nat where
  "max_grant_bytes = 128 * 1024"

subsection \<open>Files\<close>

definition read_bounded :: "'d auth_env \<Rightarrow> string \<Rightarrow> nat \<Rightarrow> 'd \<Rightarrow> (string, authorization_error) result" where
  "read_bounded ev p limit d =
     (case ad_read (ae_disk ev) p d of
        None \<Rightarrow> Err AuthorizationStorage
      | Some b \<Rightarrow> if limit < length b then Err AuthorizationStorage else Ok b)"

text \<open>A private regular file of bounded size, as every file of the two directories has to be.\<close>

definition checked_entry :: "'d auth_env \<Rightarrow> string \<Rightarrow> nat \<Rightarrow> 'd \<Rightarrow> bool" where
  "checked_entry ev p limit d \<longleftrightarrow>
     (case ad_meta (ae_disk ev) p d of
        None \<Rightarrow> False
      | Some m \<Rightarrow> am_file m \<and> \<not> am_symlink m \<and> am_private m \<and> am_len m \<le> limit)"

definition prepare_private_directory :: "'d auth_env \<Rightarrow> string \<Rightarrow> 'd \<Rightarrow> (unit, authorization_error) result \<times> 'd" where
  "prepare_private_directory ev p d =
     and_then (if ad_exists (ae_disk ev) p d then (Ok (), d) else storage_step (ad_mkdir (ae_disk ev) p d)) (\<lambda>_ d1.
       (case ad_meta (ae_disk ev) p d1 of
          None \<Rightarrow> Err AuthorizationStorage
        | Some m \<Rightarrow> if \<not> am_dir m \<or> am_symlink m \<or> \<not> am_private m then Err AuthorizationStorage else Ok (), d1))"

fun removable_entries :: "'d auth_env \<Rightarrow> string \<Rightarrow> string option list \<Rightarrow> 'd \<Rightarrow> (string list, authorization_error) result" where
  "removable_entries ev dir [] d = Ok []"
| "removable_entries ev dir (None # es) d = Err AuthorizationStorage"
| "removable_entries ev dir (Some name # es) d =
     (case ad_meta (ae_disk ev) (path_join dir name) d of
        None \<Rightarrow> Err AuthorizationStorage
      | Some m \<Rightarrow>
          if \<not> am_file m \<or> am_symlink m then Err AuthorizationStorage
          else (case removable_entries ev dir es d of Err e \<Rightarrow> Err e | Ok ps \<Rightarrow> Ok (path_join dir name # ps)))"

fun remove_all_files :: "'d auth_env \<Rightarrow> string list \<Rightarrow> 'd \<Rightarrow> (unit, authorization_error) result \<times> 'd" where
  "remove_all_files ev [] d = (Ok (), d)"
| "remove_all_files ev (p # ps) d =
     (case ad_remove (ae_disk ev) p d of
        (Err _, d1) \<Rightarrow> (Err AuthorizationStorage, d1)
      | (Ok _, d1) \<Rightarrow> remove_all_files ev ps d1)"

definition clear_private_directory :: "'d auth_env \<Rightarrow> string \<Rightarrow> 'd \<Rightarrow> (unit, authorization_error) result \<times> 'd" where
  "clear_private_directory ev dir d =
     and_then (prepare_private_directory ev dir d) (\<lambda>_ d1.
       case ad_entries (ae_disk ev) dir d1 of
         None \<Rightarrow> (Err AuthorizationStorage, d1)
       | Some es \<Rightarrow>
           (case removable_entries ev dir es d1 of
              Err e \<Rightarrow> (Err e, d1)
            | Ok ps \<Rightarrow> and_then (remove_all_files ev ps d1) (\<lambda>_ d2. storage_step (ad_sync_dir (ae_disk ev) dir d2))))"

text \<open>The path is given as its parent and its name, neither of which is ever empty.\<close>

definition write_temporary :: "'d auth_env \<Rightarrow> string \<Rightarrow> string \<Rightarrow> string \<Rightarrow> string \<Rightarrow> 'd \<Rightarrow> (unit, authorization_error) result \<times> 'd" where
  "write_temporary ev dir temp path content d =
     and_then (case ad_create_new (ae_disk ev) temp d of (o1, d1) \<Rightarrow> (if o1 = Created then Ok () else Err AuthorizationStorage, d1)) (\<lambda>_ d1.
     and_then (storage_step (ad_write (ae_disk ev) temp content d1)) (\<lambda>_ d2.
     and_then (storage_step (ad_sync (ae_disk ev) temp d2)) (\<lambda>_ d3.
     and_then (storage_step (ad_rename (ae_disk ev) temp path d3)) (\<lambda>_ d4.
     storage_step (ad_sync_dir (ae_disk ev) dir d4)))))"

definition temporary_name :: "'d auth_env \<Rightarrow> string \<Rightarrow> 'd \<Rightarrow> string" where
  "temporary_name ev content d = ''.'' @ ae_sha256 ev content @ ''.'' @ ad_random (ae_disk ev) d @ ''.tmp''"

definition write_private_atomically :: "'d auth_env \<Rightarrow> string \<Rightarrow> string \<Rightarrow> string \<Rightarrow> 'd \<Rightarrow> (unit, authorization_error) result \<times> 'd" where
  "write_private_atomically ev dir name content d =
     (let temp = path_join dir (temporary_name ev content d)
      in case write_temporary ev dir temp (path_join dir name) content d of
           (Ok _, d1) \<Rightarrow> (Ok (), d1)
         | (Err e, d1) \<Rightarrow> (Err e, snd (ad_remove (ae_disk ev) temp d1)))"

subsection \<open>Loading\<close>

definition load_revocation :: "'d auth_env \<Rightarrow> string \<Rightarrow> 'd \<Rightarrow> (revocation, authorization_error) result" where
  "load_revocation ev name d =
     (let p = path_join (revocation_directory ev) name
      in if \<not> checked_entry ev p max_event_bytes d then Err AuthorizationStorage
         else if \<not> utf8_valid name then Err AuthorizationStorage
         else case strip_suffix ''.json'' name of
             None \<Rightarrow> Err AuthorizationStorage
           | Some i \<Rightarrow>
               if \<not> validate_hex_32 i then Err InvalidEvidence
               else case read_bounded ev p max_event_bytes d of
                   Err e \<Rightarrow> Err e
                 | Ok b \<Rightarrow>
                     if \<not> utf8_valid b then Err AuthorizationStorage
                     else case parse_revocation (ae_nostr ev) b of
                         Err e \<Rightarrow> Err e
                       | Ok r \<Rightarrow> if rv_event_id r \<noteq> i then Err AuthorizationStorage else Ok r)"

fun load_entries :: "(string \<Rightarrow> ('a, authorization_error) result) \<Rightarrow> string option list \<Rightarrow> ('a list, authorization_error) result" where
  "load_entries f [] = Ok []"
| "load_entries f (None # es) = Err AuthorizationStorage"
| "load_entries f (Some name # es) =
     (case f name of
        Err e \<Rightarrow> Err e
      | Ok a \<Rightarrow> (case load_entries f es of Err e \<Rightarrow> Err e | Ok as \<Rightarrow> Ok (a # as)))"

definition load_revocations :: "'d auth_env \<Rightarrow> 'd \<Rightarrow> (revocation list, authorization_error) result" where
  "load_revocations ev d =
     (case ad_entries (ae_disk ev) (revocation_directory ev) d of
        None \<Rightarrow> Err AuthorizationStorage
      | Some es \<Rightarrow>
          (case load_entries (\<lambda>name. load_revocation ev name d) es of
             Err e \<Rightarrow> Err e
           | Ok rs \<Rightarrow> Ok (sort_key rv_event_id rs)))"

text \<open>The memo belongs to the process and survives a load.\<close>

definition load_authorization :: "'d auth_env \<Rightarrow> statement_memo \<Rightarrow> 'd \<Rightarrow> ('d auth_state, authorization_error) result \<times> 'd" where
  "load_authorization ev memo d =
     and_then (prepare_private_directory ev (revocation_directory ev) d) (\<lambda>_ d1.
     and_then (prepare_private_directory ev (certificate_directory ev) d1) (\<lambda>_ d2.
       (case load_revocations ev d2 of
          Err e \<Rightarrow> Err e
        | Ok rs \<Rightarrow> Ok \<lparr>as_disk = d2, as_revocations = rs, as_pending = {}, as_memo = memo\<rparr>, d2)))"

definition reset_after_identity_switch :: "'d auth_env \<Rightarrow> ('d, unit) auth_step" where
  "reset_after_identity_switch ev s =
     and_then (on_disk (clear_private_directory ev (revocation_directory ev)) s) (\<lambda>_ s1.
     and_then (on_disk (clear_private_directory ev (certificate_directory ev)) s1) (\<lambda>_ s2.
       (Ok (), s2\<lparr>as_revocations := [], as_pending := {}\<rparr>)))"

subsection \<open>Attempts and revocations\<close>

definition is_device_revoked :: "string \<Rightarrow> string \<Rightarrow> 'd auth_state \<Rightarrow> bool" where
  "is_device_revoked owner device s = is_owner_device_revoked (as_revocations s) owner device"

fun parse_revocations :: "nostr \<Rightarrow> string list \<Rightarrow> (revocation list, authorization_error) result" where
  "parse_revocations ns [] = Ok []"
| "parse_revocations ns (j # js) =
     (case parse_revocation ns j of
        Err e \<Rightarrow> Err e
      | Ok r \<Rightarrow> (case parse_revocations ns js of Err e \<Rightarrow> Err e | Ok rs \<Rightarrow> Ok (r # rs)))"

definition attempt_peer ::
  "'d auth_env \<Rightarrow> identity_state \<Rightarrow> string \<Rightarrow> string option \<Rightarrow> string option \<Rightarrow> string list \<Rightarrow> nat \<Rightarrow>
   ('d, authorization_attempt) auth_step" where
  "attempt_peer ev local sender statement pass events now s =
     (case parse_revocations (ae_nostr ev) events of
        Err e \<Rightarrow> (Err e, s)
      | Ok candidates \<Rightarrow>
          let (p, memo) = principal_for (ae_nostr ev) local sender statement pass now (as_revocations s @ candidates) (as_memo s)
          in (Ok \<lparr>at_context = PeerContext p, at_revocations = candidates\<rparr>, s\<lparr>as_memo := memo\<rparr>))"

definition install_revocation :: "revocation \<Rightarrow> 'd auth_state \<Rightarrow> 'd auth_state" where
  "install_revocation r s =
     (if list_ex (\<lambda>known. rv_event_id known = rv_event_id r) (as_revocations s) then s
      else s\<lparr>as_pending := insert (rv_event_id r) (as_pending s), as_revocations := as_revocations s @ [r]\<rparr>)"

fun persist_revocations :: "'d auth_env \<Rightarrow> revocation list \<Rightarrow> ('d, unit) auth_step" where
  "persist_revocations ev [] s = (Ok (), s)"
| "persist_revocations ev (r # rs) s =
     (if rv_event_id r \<notin> as_pending s then persist_revocations ev rs s
      else and_then (on_disk (write_private_atomically ev (revocation_directory ev) (rv_event_id r @ ''.json'') (rv_json r)) s) (\<lambda>_ s1.
           persist_revocations ev rs (s1\<lparr>as_pending := as_pending s1 - {rv_event_id r}\<rparr>)))"

definition commit_revocations :: "'d auth_env \<Rightarrow> authorization_attempt \<Rightarrow> ('d, unit) auth_step" where
  "commit_revocations ev a s =
     (let s1 = fold install_revocation (at_revocations a) s in persist_revocations ev (as_revocations s1) s1)"

subsection \<open>Certificates\<close>

definition record_certificate :: "'d auth_env \<Rightarrow> principal \<Rightarrow> string \<Rightarrow> string \<Rightarrow> ('d, unit) auth_step" where
  "record_certificate ev p host certificate s =
     (case (case p of
          OwnerDevice device st _ \<Rightarrow> Some (device, CertOwnerDevice st)
        | Household device st pass \<Rightarrow> Some (device, CertPersonPass st (pp_event_json pass))
        | Guest device st pass \<Rightarrow> Some (device, CertPersonPass st (pp_event_json pass))
        | UnknownPeer _ \<Rightarrow> None) of
        None \<Rightarrow> (Err InvalidEvidence, s)
      | Some (device, basis) \<Rightarrow>
          (case ae_print_grant ev \<lparr>cg_host_uuid = host, cg_client_certificate = certificate, cg_authorization = basis\<rparr> of
             None \<Rightarrow> (Err AuthorizationStorage, s)
           | Some b \<Rightarrow> on_disk (write_private_atomically ev (certificate_directory ev) device b) s))"

definition load_grant :: "'d auth_env \<Rightarrow> string \<Rightarrow> 'd \<Rightarrow> (string \<times> certificate_grant, authorization_error) result" where
  "load_grant ev name d =
     (let p = path_join (certificate_directory ev) name
      in if \<not> checked_entry ev p max_grant_bytes d then Err AuthorizationStorage
         else if \<not> utf8_valid name then Err AuthorizationStorage
         else if starts_with ''.'' name then Err AuthorizationStorage
         else if \<not> validate_hex_32 name then Err InvalidEvidence
         else case read_bounded ev p max_grant_bytes d of
             Err e \<Rightarrow> Err e
           | Ok b \<Rightarrow> (case ae_parse_grant ev b of None \<Rightarrow> Err AuthorizationStorage | Some g \<Rightarrow> Ok (name, g)))"

definition certificate_grants :: "'d auth_env \<Rightarrow> 'd \<Rightarrow> ((string \<times> certificate_grant) list, authorization_error) result" where
  "certificate_grants ev d =
     (case ad_entries (ae_disk ev) (certificate_directory ev) d of
        None \<Rightarrow> Err AuthorizationStorage
      | Some es \<Rightarrow>
          (case load_entries (\<lambda>name. load_grant ev name d) es of
             Err e \<Rightarrow> Err e
           | Ok gs \<Rightarrow> Ok (sort_key fst gs)))"

definition stream_client_grants :: "'d auth_env \<Rightarrow> 'd auth_state \<Rightarrow> ((string \<times> string) list, authorization_error) result" where
  "stream_client_grants ev s =
     (case certificate_grants ev (as_disk s) of
        Err e \<Rightarrow> Err e
      | Ok gs \<Rightarrow> Ok (map (\<lambda>(_, g). (cg_host_uuid g, cg_client_certificate g)) gs))"

definition grant_holder ::
  "nostr \<Rightarrow> identity_state \<Rightarrow> nat \<Rightarrow> revocation list \<Rightarrow> string \<Rightarrow> certificate_grant \<Rightarrow> statement_memo \<Rightarrow> principal \<times> statement_memo" where
  "grant_holder ns local now rs device g memo =
     (case cg_authorization g of
        CertOwnerDevice st \<Rightarrow> principal_for ns local device (Some st) None now rs memo
      | CertPersonPass st pass \<Rightarrow> principal_for ns local device (Some st) (Some pass) now rs memo)"

fun plan_certificate_revocations ::
  "nostr \<Rightarrow> identity_state \<Rightarrow> nat \<Rightarrow> revocation list \<Rightarrow> (string \<times> certificate_grant) list \<Rightarrow> statement_memo \<Rightarrow>
   certificate_revocation list \<times> statement_memo" where
  "plan_certificate_revocations ns local now rs [] memo = ([], memo)"
| "plan_certificate_revocations ns local now rs ((device, g) # gs) memo =
     (let (p, memo1) = grant_holder ns local now rs device g memo;
          (plan, memo2) = plan_certificate_revocations ns local now rs gs memo1
      in (if is_ok (authorize (PeerContext p) (MoonlightCertificateProvision (cg_host_uuid g) (cg_client_certificate g))) then plan
          else \<lparr>cr_device = device, cr_host_uuid = cg_host_uuid g, cr_client_certificate = cg_client_certificate g\<rparr> # plan, memo2))"

definition certificate_revocations :: "'d auth_env \<Rightarrow> identity_state \<Rightarrow> nat \<Rightarrow> ('d, certificate_revocation list) auth_step" where
  "certificate_revocations ev local now s =
     (case certificate_grants ev (as_disk s) of
        Err e \<Rightarrow> (Err e, s)
      | Ok gs \<Rightarrow>
          let (plan, memo) = plan_certificate_revocations (ae_nostr ev) local now (as_revocations s) gs (as_memo s)
          in (Ok plan, s\<lparr>as_memo := memo\<rparr>))"

definition complete_certificate_revocation :: "'d auth_env \<Rightarrow> string \<Rightarrow> ('d, unit) auth_step" where
  "complete_certificate_revocation ev device s =
     on_disk (\<lambda>d. case ad_remove (ae_disk ev) (path_join (certificate_directory ev) device) d of
         (Ok _, d1) \<Rightarrow> storage_step (ad_sync_dir (ae_disk ev) (certificate_directory ev) d1)
       | (Err (NotFound _), d1) \<Rightarrow> (Ok (), d1)
       | (Err (OtherIo _), d1) \<Rightarrow> (Err AuthorizationStorage, d1)) s"

definition remove_certificate_grant :: "'d auth_env \<Rightarrow> string \<Rightarrow> ('d, unit) auth_step" where
  "remove_certificate_grant ev device s = complete_certificate_revocation ev device s"

subsection \<open>The offline cut\<close>

text \<open>The evidence of a grant at the time it was issued; \<open>None\<close> when it is malformed.\<close>

definition grant_evidence_ok :: "nostr \<Rightarrow> string \<Rightarrow> certificate_grant \<Rightarrow> statement_memo \<Rightarrow> bool \<times> statement_memo" where
  "grant_evidence_ok ns device g memo =
     (let (st, pass) = (case cg_authorization g of CertOwnerDevice st \<Rightarrow> (st, None) | CertPersonPass st pass \<Rightarrow> (st, Some pass))
      in case verify_owner_statement ns st device memo of
           (Err _, memo1) \<Rightarrow> (False, memo1)
         | (Ok v, memo1) \<Rightarrow>
             (os_status v = StatusOwned \<and>
              (case pass of
                 None \<Rightarrow> True
               | Some pj \<Rightarrow>
                   (case verify_event ns pj of
                      Err _ \<Rightarrow> False
                    | Ok e \<Rightarrow> parse_person_pass ns pj (ne_author e) device (ne_created_at e) [] \<noteq> None)), memo1))"

fun all_evidence_ok :: "nostr \<Rightarrow> (string \<times> certificate_grant) list \<Rightarrow> statement_memo \<Rightarrow> bool \<times> statement_memo" where
  "all_evidence_ok ns [] memo = (True, memo)"
| "all_evidence_ok ns ((device, g) # gs) memo =
     (case grant_evidence_ok ns device g memo of
        (True, memo1) \<Rightarrow> all_evidence_ok ns gs memo1
      | (False, memo1) \<Rightarrow> (False, memo1))"

definition all_stale_certificate_revocations :: "'d auth_env \<Rightarrow> identity_state \<Rightarrow> nat \<Rightarrow> ('d, certificate_revocation list) auth_step" where
  "all_stale_certificate_revocations ev local now s =
     (case certificate_grants ev (as_disk s) of
        Err e \<Rightarrow> (Err e, s)
      | Ok gs \<Rightarrow>
          (case all_evidence_ok (ae_nostr ev) gs (as_memo s) of
             (False, memo) \<Rightarrow> (Err InvalidEvidence, s\<lparr>as_memo := memo\<rparr>)
           | (True, memo) \<Rightarrow>
               let (plan, memo') = plan_certificate_revocations (ae_nostr ev) local now (as_revocations s) gs memo
               in (if length plan \<noteq> length gs then Err InvalidEvidence else Ok plan, s\<lparr>as_memo := memo'\<rparr>)))"

definition confirm_offline_reconciliation :: "'d auth_env \<Rightarrow> ('d, unit) auth_step" where
  "confirm_offline_reconciliation ev s =
     (case certificate_grants ev (as_disk s) of
        Err e \<Rightarrow> (Err e, s)
      | Ok gs \<Rightarrow>
          if gs \<noteq> [] then (Err AuthorizationStorage, s)
          else on_disk (\<lambda>d. storage_step (ad_sync_dir (ae_disk ev) (certificate_directory ev) d)) s)"

end
