(* ===== verification/Peer_Trust.thy ===== *)
theory Peer_Trust
  imports Peer_Authorization
begin

text \<open>
  What the state of \<open>Peer_Authorization\<close> guarantees over time: revocations take effect when they are
  committed and last, a successful commit is read back at the next start, and the plan for
  certificates is exact.
\<close>

subsection \<open>Revocations only grow\<close>

text \<open>The id of an event is a hash of all its fields, so that two signed events with one id are the same.\<close>

definition event_ids_unique :: "nostr \<Rightarrow> bool" where
  "event_ids_unique ns \<longleftrightarrow> (\<forall>j j' e e'. signed ns j e \<and> signed ns j' e' \<and> ne_id e = ne_id e' \<longrightarrow> e = e')"

definition genuine :: "nostr \<Rightarrow> revocation \<Rightarrow> bool" where
  "genuine ns r \<longleftrightarrow> parse_revocation ns (rv_json r) = Ok r"

definition auth_inv :: "'d auth_env \<Rightarrow> 'd auth_state \<Rightarrow> bool" where
  "auth_inv ev s \<longleftrightarrow> memo_ok (ae_nostr ev) (as_memo s) \<and> list_all (genuine (ae_nostr ev)) (as_revocations s)"

lemma parse_revocation_json: "parse_revocation ns json = Ok r \<Longrightarrow> rv_json r = json"
  unfolding parse_revocation_def by (auto split: result.splits option.splits)

lemma parse_revocation_genuine: "parse_revocation ns json = Ok r \<Longrightarrow> genuine ns r"
  by (simp add: genuine_def parse_revocation_json)

lemma genuine_signed:
  assumes "genuine ns r"
  obtains e where "verify_event ns (rv_json r) = Ok e" and "signed ns (rv_json r) e" and "rv_event_id r = ne_id e"
    and "rv_author r = ne_author e"
    and "Some (rv_target r) = (if ne_kind e = owner_event_kind then map_option RevokeDevice (revoked_device e)
                 else if ne_kind e = deletion_kind then map_option RevokePass (deleted_pass e) else None)"
proof -
  obtain e where e: "verify_event ns (rv_json r) = Ok e"
    using assms by (auto simp: genuine_def parse_revocation_def split: result.splits)
  define target where "target = (if ne_kind e = owner_event_kind then map_option RevokeDevice (revoked_device e)
                 else if ne_kind e = deletion_kind then map_option RevokePass (deleted_pass e) else None)"
  have "(case target of None \<Rightarrow> Err InvalidEvidence
      | Some tg \<Rightarrow> Ok \<lparr>rv_event_id = ne_id e, rv_json = rv_json r, rv_author = ne_author e, rv_target = tg\<rparr>) = Ok r"
    using assms e by (simp add: genuine_def parse_revocation_def target_def)
  then obtain tg where "target = Some tg" "r = \<lparr>rv_event_id = ne_id e, rv_json = rv_json r, rv_author = ne_author e, rv_target = tg\<rparr>"
    by (cases target) auto
  then have "rv_event_id r = ne_id e" "rv_author r = ne_author e" "Some (rv_target r) = target"
    by (metis revocation.select_convs)+
  with that e verify_event_Ok [OF e] show thesis unfolding target_def by blast
qed

lemma genuine_same:
  assumes "event_ids_unique ns" and "genuine ns r" and "genuine ns q" and "rv_event_id r = rv_event_id q"
  shows "rv_author r = rv_author q" and "rv_target r = rv_target q"
proof -
  obtain e where e: "signed ns (rv_json r) e" "rv_event_id r = ne_id e" "rv_author r = ne_author e"
    "Some (rv_target r) = (if ne_kind e = owner_event_kind then map_option RevokeDevice (revoked_device e)
                 else if ne_kind e = deletion_kind then map_option RevokePass (deleted_pass e) else None)"
    by (rule genuine_signed [OF assms(2)])
  obtain f where f: "signed ns (rv_json q) f" "rv_event_id q = ne_id f" "rv_author q = ne_author f"
    "Some (rv_target q) = (if ne_kind f = owner_event_kind then map_option RevokeDevice (revoked_device f)
                 else if ne_kind f = deletion_kind then map_option RevokePass (deleted_pass f) else None)"
    by (rule genuine_signed [OF assms(3)])
  from e f assms(1,4) have "e = f" unfolding event_ids_unique_def by metis
  with e(3) f(3) show "rv_author r = rv_author q" by simp
  from \<open>e = f\<close> have "Some (rv_target r) = Some (rv_target q)" by (simp only: e(4) f(4))
  then show "rv_target r = rv_target q" by simp
qed

lemma parse_revocations_genuine: "parse_revocations ns js = Ok rs \<Longrightarrow> list_all (genuine ns) rs"
  by (induction js arbitrary: rs) (auto split: result.splits dest: parse_revocation_genuine)

lemma attempt_Ok:
  assumes "attempt_peer ev local sender st pass events now s = (Ok a, s1)"
  shows "list_all (genuine (ae_nostr ev)) (at_revocations a)"
    and "as_revocations s1 = as_revocations s" and "as_disk s1 = as_disk s" and "as_pending s1 = as_pending s"
    and "at_context a = PeerContext (fst (principal_for (ae_nostr ev) local sender st pass now
      (as_revocations s @ at_revocations a) (as_memo s)))"
    and "as_memo s1 = snd (principal_for (ae_nostr ev) local sender st pass now (as_revocations s @ at_revocations a) (as_memo s))"
  using assms by (auto simp: attempt_peer_def parse_revocations_genuine split: result.splits prod.splits)

lemma attempt_revocations: "as_revocations (snd (attempt_peer ev local sender st pass events now s)) = as_revocations s"
  by (simp add: attempt_peer_def split: result.splits prod.splits)

lemma attempt_inv: "auth_inv ev s \<Longrightarrow> auth_inv ev (snd (attempt_peer ev local sender st pass events now s))"
  by (simp add: attempt_peer_def auth_inv_def case_prod_beta principal_for_memo(2) split: result.splits)

lemma on_disk_frame [simp]:
  "as_revocations (snd (on_disk f s)) = as_revocations s" "as_memo (snd (on_disk f s)) = as_memo s"
  "as_pending (snd (on_disk f s)) = as_pending s"
  by (simp_all add: on_disk_def split: prod.splits)

lemma persist_same:
  "as_revocations (snd (persist_revocations ev rs s)) = as_revocations s \<and> as_memo (snd (persist_revocations ev rs s)) = as_memo s"
proof (induction ev rs s rule: persist_revocations.induct)
  case (2 ev r rs s)
  let ?w = "on_disk (write_private_atomically ev (revocation_directory ev) (rv_event_id r @ ''.json'') (rv_json r)) s"
  have w: "as_revocations (snd ?w) = as_revocations s" "as_memo (snd ?w) = as_memo s" by simp_all
  show ?case
  proof (cases "rv_event_id r \<in> as_pending s")
    case True
    with 2(2) [of "snd ?w"] w show ?thesis by (cases ?w; cases "fst ?w") auto
  qed (use 2(1) in simp)
qed simp

lemma persist_frame [simp]:
  "as_revocations (snd (persist_revocations ev rs s)) = as_revocations s"
  "as_memo (snd (persist_revocations ev rs s)) = as_memo s"
  using persist_same by blast+

lemma install_step:
  "as_memo (install_revocation r s) = as_memo s" "as_disk (install_revocation r s) = as_disk s"
  "set (as_revocations s) \<subseteq> set (as_revocations (install_revocation r s))"
  "set (as_revocations (install_revocation r s)) \<subseteq> insert r (set (as_revocations s))"
  "rv_event_id r \<in> rv_event_id ` set (as_revocations (install_revocation r s))"
  by (auto simp: install_revocation_def list_ex_iff intro: rev_image_eqI)

lemma install_frame:
  "as_memo (fold install_revocation rs s) = as_memo s \<and> as_disk (fold install_revocation rs s) = as_disk s \<and>
   set (as_revocations s) \<subseteq> set (as_revocations (fold install_revocation rs s)) \<and>
   set (as_revocations (fold install_revocation rs s)) \<subseteq> set (as_revocations s) \<union> set rs \<and>
   rv_event_id ` set rs \<subseteq> rv_event_id ` set (as_revocations (fold install_revocation rs s))"
proof (induction rs arbitrary: s)
  case (Cons r rs)
  let ?s = "install_revocation r s" and ?t = "fold install_revocation rs (install_revocation r s)"
  note ih = Cons.IH [of ?s] and st = install_step [where r = r and s = s]
  have sub: "set (as_revocations ?s) \<subseteq> set (as_revocations ?t)" using ih by blast
  have "set (as_revocations s) \<subseteq> set (as_revocations ?t)" using st(3) sub by (rule order_trans)
  moreover have "set (as_revocations ?t) \<subseteq> set (as_revocations s) \<union> set (r # rs)"
    using ih st(4) by (simp only: list.set) blast
  moreover have "rv_event_id r \<in> rv_event_id ` set (as_revocations ?t)" using st(5) sub by blast
  moreover have "rv_event_id ` set rs \<subseteq> rv_event_id ` set (as_revocations ?t)" using ih by blast
  moreover have "as_memo ?t = as_memo s" "as_disk ?t = as_disk s" using ih st(1,2) by simp_all
  ultimately show ?case by simp
qed simp

lemma commit_frame:
  "as_memo (snd (commit_revocations ev a s)) = as_memo s"
  "set (as_revocations s) \<subseteq> set (as_revocations (snd (commit_revocations ev a s)))"
  "set (as_revocations (snd (commit_revocations ev a s))) \<subseteq> set (as_revocations s) \<union> set (at_revocations a)"
  "rv_event_id ` set (at_revocations a) \<subseteq> rv_event_id ` set (as_revocations (snd (commit_revocations ev a s)))"
  using install_frame [where rs = "at_revocations a" and s = s]
  by (simp_all add: commit_revocations_def Let_def)

lemma commit_inv:
  "auth_inv ev s \<Longrightarrow> list_all (genuine (ae_nostr ev)) (at_revocations a) \<Longrightarrow> auth_inv ev (snd (commit_revocations ev a s))"
  using commit_frame(1,3) [of ev a s] by (auto simp: auth_inv_def list_all_iff)

subsection \<open>Runs\<close>

text \<open>
  The operations of a running host, with whatever arguments. \<open>DoCarry\<close> is an attempt whose
  revocations are then committed.
\<close>

datatype auth_op =
    DoAttempt identity_state string "string option" "string option" "string list" nat
  | DoCarry identity_state string "string option" "string option" "string list" nat
  | DoRecord principal string string
  | DoPlan identity_state nat
  | DoComplete string

fun auth_step :: "'d auth_env \<Rightarrow> 'd auth_state \<Rightarrow> auth_op \<Rightarrow> 'd auth_state" where
  "auth_step ev s (DoAttempt local sender st pass events now) = snd (attempt_peer ev local sender st pass events now s)"
| "auth_step ev s (DoCarry local sender st pass events now) =
     (case attempt_peer ev local sender st pass events now s of
        (Err _, s1) \<Rightarrow> s1
      | (Ok a, s1) \<Rightarrow> snd (commit_revocations ev a s1))"
| "auth_step ev s (DoRecord p host certificate) = snd (record_certificate ev p host certificate s)"
| "auth_step ev s (DoPlan local now) = snd (certificate_revocations ev local now s)"
| "auth_step ev s (DoComplete device) = snd (complete_certificate_revocation ev device s)"

lemma plan_memo:
  "memo_ok ns memo \<Longrightarrow> memo_ok ns (snd (plan_certificate_revocations ns local now rs gs memo))"
proof (induction gs arbitrary: memo)
  case (Cons x gs)
  obtain device g where x: "x = (device, g)" by (cases x)
  have "memo_ok ns (snd (grant_holder ns local now rs device g memo))"
    using Cons.prems by (simp add: grant_holder_def principal_for_memo(2) split: certificate_authorization.splits)
  from Cons.IH [OF this] x show ?case by (auto split: prod.splits)
qed simp

lemma auth_step_frame:
  assumes "auth_inv ev s"
  shows "auth_inv ev (auth_step ev s x) \<and> set (as_revocations s) \<subseteq> set (as_revocations (auth_step ev s x))"
proof (cases x)
  case (DoAttempt local sender st pass events now)
  with assms show ?thesis by (simp add: attempt_inv attempt_revocations)
next
  case (DoCarry local sender st pass events now)
  obtain r s1 where a: "attempt_peer ev local sender st pass events now s = (r, s1)" by fastforce
  have s1: "auth_inv ev s1" "as_revocations s1 = as_revocations s"
    using attempt_inv [OF assms, of local sender st pass events now] attempt_revocations [of ev local sender st pass events now s] a
    by simp_all
  show ?thesis
  proof (cases r)
    case (Ok at)
    with s1 commit_inv [OF s1(1) attempt_Ok(1)] commit_frame(2) [of s1 ev at] a DoCarry show ?thesis by simp
  qed (use s1 a DoCarry in simp)
next
  case (DoPlan local now)
  with assms show ?thesis
    by (auto simp: auth_inv_def certificate_revocations_def case_prod_beta Let_def plan_memo split: result.splits)
qed (use assms in \<open>auto simp: auth_inv_def record_certificate_def complete_certificate_revocation_def
  split: option.splits principal.splits\<close>)

interpretation auth: machine "auth_step ev" "auth_inv ev" for ev
  by unfold_locales (simp add: auth_step_frame)

lemma run_grows: "auth_inv ev s \<Longrightarrow> set (as_revocations s) \<subseteq> set (as_revocations (foldl (auth_step ev) s xs))"
  by (rule auth.rel_run [where R = "\<lambda>s t. set (as_revocations s) \<subseteq> set (as_revocations t)"])
    (use auth_step_frame in blast)+

subsection \<open>Revocations last\<close>

lemma revoked_later:
  assumes "auth_inv ev s" and "event_ids_unique (ae_nostr ev)"
    and "attempt_peer ev l0 d0 st0 p0 events n0 s = (Ok a, s1)" and "r \<in> set (at_revocations a)"
  shows "\<exists>q \<in> set (as_revocations (foldl (auth_step ev) (snd (commit_revocations ev a s1)) xs)).
    rv_author q = rv_author r \<and> rv_target q = rv_target r"
    and "auth_inv ev (foldl (auth_step ev) (snd (commit_revocations ev a s1)) xs)"
proof -
  let ?s = "snd (commit_revocations ev a s1)"
  have gen: "list_all (genuine (ae_nostr ev)) (at_revocations a)" using attempt_Ok(1) [OF assms(3)] .
  have "auth_inv ev s1" using attempt_inv [OF assms(1), of l0 d0 st0 p0 events n0] assms(3) by simp
  then have inv: "auth_inv ev ?s" using gen by (rule commit_inv)
  then show "auth_inv ev (foldl (auth_step ev) ?s xs)" by (rule auth.inv_run)
  obtain q where q: "q \<in> set (as_revocations ?s)" "rv_event_id q = rv_event_id r"
    using commit_frame(4) [of a ev s1] assms(4) by force
  have "genuine (ae_nostr ev) q" "genuine (ae_nostr ev) r"
    using inv q(1) gen assms(4) by (auto simp: auth_inv_def list_all_iff)
  from genuine_same [OF assms(2) this q(2)] run_grows [OF inv, of xs] q(1)
  show "\<exists>q \<in> set (as_revocations (foldl (auth_step ev) ?s xs)). rv_author q = rv_author r \<and> rv_target q = rv_target r"
    by blast
qed

lemma revoked_unknown:
  assumes "memo_ok ns memo" and "statement_of ns json device = Ok v" and "is_owner_device_revoked rs (os_owner v) device"
  shows "fst (principal_for ns local device (Some json) pass now rs memo) = UnknownPeer device"
proof (rule ccontr)
  assume "\<not> ?thesis"
  then show False
    by (rule principal_for_cases [OF assms(1) refl]) (use assms(2,3) in simp)
qed


subsection \<open>The plan for certificates\<close>

lemma grant_holder_memo:
  assumes "memo_ok ns memo"
  shows "fst (grant_holder ns local now rs d g memo) = fst (grant_holder ns local now rs d g [])"
    and "memo_ok ns (snd (grant_holder ns local now rs d g memo))"
  using principal_for_memo(1,2) [OF assms] unfolding grant_holder_def by (cases "cg_authorization g"; simp)+

lemma grant_holder_device:
  assumes "fst (grant_holder ns local now rs d g []) = OwnerDevice d' st owner"
  shows "d' = d"
proof -
  obtain s p where "grant_holder ns local now rs d g [] = principal_for ns local d s p now rs []"
    by (cases "cg_authorization g") (simp_all add: grant_holder_def)
  with assms principal_for_sound [OF memo_ok_Nil [of ns], where local = local and sender = d and st = s and pass = p and now = now and rs = rs] show ?thesis by simp
qed

definition grant_revocation :: "string \<times> certificate_grant \<Rightarrow> certificate_revocation" where
  "grant_revocation x = \<lparr>cr_device = fst x, cr_host_uuid = cg_host_uuid (snd x), cr_client_certificate = cg_client_certificate (snd x)\<rparr>"

lemma plan_filter:
  assumes "memo_ok ns memo"
  shows "fst (plan_certificate_revocations ns local now rs gs memo) = map grant_revocation
    (filter (\<lambda>(d, g). authorize (PeerContext (fst (grant_holder ns local now rs d g [])))
         (MoonlightCertificateProvision (cg_host_uuid g) (cg_client_certificate g)) \<noteq> Ok ()) gs)"
  using assms
proof (induction gs arbitrary: memo)
  case (Cons x gs)
  obtain d g where x: "x = (d, g)" by (cases x)
  obtain p memo1 where p: "grant_holder ns local now rs d g memo = (p, memo1)" by fastforce
  have same: "p = fst (grant_holder ns local now rs d g [])" and m1: "memo_ok ns memo1"
    using p grant_holder_memo [OF Cons.prems, of local now rs d g] by simp_all
  show ?case
    using Cons.IH [OF m1] by (simp add: x p authorize_Ok case_prod_beta Let_def grant_revocation_def same)
qed simp

lemma provision_allowed:
  "authorize (PeerContext p) (MoonlightCertificateProvision h c) = Ok () \<longleftrightarrow>
   (\<exists>d st owner. p = OwnerDevice d st owner) \<or> has_scope p StreamLaunch"
  by (cases p) (auto simp: authorize_def scope_allows_def)


subsection \<open>What is stored\<close>

text \<open>
  The laws of a directory, over the plain names in it: the operations that read agree on what is
  there, and the operations that write do what they say when they succeed. The ids of events are
  hashes in hexadecimal, and a text that parses as JSON is UTF-8.
\<close>

definition name_ok :: "string \<Rightarrow> bool" where
  "name_ok n \<longleftrightarrow> n \<notin> {[], ''.'', ''..''} \<and> CHR ''/'' \<notin> set n"

definition node :: "'d auth_disk \<Rightarrow> string \<Rightarrow> 'd \<Rightarrow> string \<Rightarrow> (auth_meta \<times> string) option" where
  "node dk dir d n = (if name_ok n then ad_node dk d (path_join dir n) else None)"

definition private_file :: "nat \<Rightarrow> auth_meta" where
  "private_file n = \<lparr>am_dir = False, am_file = True, am_symlink = False, am_private = True, am_len = n\<rparr>"

definition directory_laws :: "'d auth_disk \<Rightarrow> string \<Rightarrow> bool" where
  "directory_laws dk dir \<longleftrightarrow>
     (\<forall>d. \<exists>names. ad_entries dk dir d = Some (map Some names) \<and> distinct names \<and> set names = {n. node dk dir d n \<noteq> None}) \<and>
     (\<forall>d n. name_ok n \<longrightarrow> ad_meta dk (path_join dir n) d = map_option fst (node dk dir d n)) \<and>
     (\<forall>d n m c. node dk dir d n = Some (m, c) \<and> am_file m \<longrightarrow> ad_read dk (path_join dir n) d = Some c) \<and>
     (\<forall>d d' n. name_ok n \<and> ad_create_new dk (path_join dir n) d = (Created, d') \<longrightarrow>
        node dk dir d n = None \<and> node dk dir d' = (node dk dir d)(n \<mapsto> (private_file 0, []))) \<and>
     (\<forall>d d' n c. node dk dir d n = Some (private_file 0, []) \<and> ad_write dk (path_join dir n) c d = (True, d') \<longrightarrow>
        node dk dir d' = (node dk dir d)(n \<mapsto> (private_file (length c), c))) \<and>
     (\<forall>d p. node dk dir (snd (ad_sync dk p d)) = node dk dir d \<and> node dk dir (snd (ad_sync_dir dk p d)) = node dk dir d) \<and>
     (\<forall>d d' n n'. name_ok n \<and> name_ok n' \<and> n \<noteq> n' \<and> ad_rename dk (path_join dir n) (path_join dir n') d = (True, d') \<longrightarrow>
        node dk dir d' = (node dk dir d)(n := None, n' := node dk dir d n)) \<and>
     (\<forall>d. CHR ''/'' \<notin> set (ad_random dk d))"

definition nostr_laws :: "nostr \<Rightarrow> bool" where
  "nostr_laws ns \<longleftrightarrow> event_ids_unique ns \<and> (\<forall>j e. signed ns j e \<longrightarrow> validate_hex_32 (ne_id e) \<and> utf8_valid j)"

definition storage_laws :: "'d auth_env \<Rightarrow> bool" where
  "storage_laws ev \<longleftrightarrow> directory_laws (ae_disk ev) (revocation_directory ev) \<and> nostr_laws (ae_nostr ev) \<and>
     (\<forall>b. CHR ''/'' \<notin> set (ae_sha256 ev b))"

abbreviation files :: "'d auth_env \<Rightarrow> 'd \<Rightarrow> string \<Rightarrow> (auth_meta \<times> string) option" where
  "files ev \<equiv> node (ae_disk ev) (revocation_directory ev)"

lemma write_stores:
  assumes "storage_laws ev" and "name_ok name" and "hd name \<noteq> CHR ''.''"
    and "write_private_atomically ev (revocation_directory ev) name content d = (Ok (), d')"
  shows "files ev d' = (files ev d)(name \<mapsto> (private_file (length content), content))"
proof -
  let ?dk = "ae_disk ev" and ?dir = "revocation_directory ev" and ?tn = "temporary_name ev content d"
  let ?temp = "path_join ?dir ?tn"
  have laws: "directory_laws ?dk ?dir" using assms(1) by (simp add: storage_laws_def)
  have tn: "name_ok ?tn" "?tn \<noteq> name"
    using assms(1,3) laws by (auto simp: temporary_name_def name_ok_def storage_laws_def directory_laws_def)
  have "write_temporary ev ?dir ?temp (path_join ?dir name) content d = (Ok (), d')"
    using assms(4) by (auto simp: write_private_atomically_def Let_def split: prod.splits result.splits)
  then obtain d1 d2 d3 d4 where c: "ad_create_new ?dk ?temp d = (Created, d1)" and w: "ad_write ?dk ?temp content d1 = (True, d2)"
    and s: "ad_sync ?dk ?temp d2 = (True, d3)" and r: "ad_rename ?dk ?temp (path_join ?dir name) d3 = (True, d4)"
    and y: "ad_sync_dir ?dk ?dir d4 = (True, d')"
    unfolding write_temporary_def storage_step_def
    by (auto split: prod.splits if_splits dest!: and_then_OkD simp: prod_eq_iff)
  have 1: "files ev d ?tn = None" "files ev d1 = (files ev d)(?tn \<mapsto> (private_file 0, []))"
    using laws c tn(1) unfolding directory_laws_def by blast+
  then have 2: "files ev d2 = (files ev d1)(?tn \<mapsto> (private_file (length content), content))"
    using laws w unfolding directory_laws_def by (metis fun_upd_same)
  have 3: "files ev d3 = files ev d2" "files ev d' = files ev d4"
    using laws s y unfolding directory_laws_def by (metis snd_conv)+
  have 4: "files ev d4 = (files ev d3)(?tn := None, name := files ev d3 ?tn)"
    using laws r tn assms(2) unfolding directory_laws_def by blast
  from 1 2 3 4 tn(2) show ?thesis by (auto simp: fun_eq_iff)
qed

text \<open>What loading makes of one file.\<close>

definition load_file :: "nostr \<Rightarrow> string \<Rightarrow> auth_meta \<times> string \<Rightarrow> revocation option" where
  "load_file ns name x =
     (if am_file (fst x) \<and> \<not> am_symlink (fst x) \<and> am_private (fst x) \<and> am_len (fst x) \<le> max_event_bytes \<and> utf8_valid name then
        (case strip_suffix ''.json'' name of
           None \<Rightarrow> None
         | Some i \<Rightarrow>
             if validate_hex_32 i \<and> length (snd x) \<le> max_event_bytes \<and> utf8_valid (snd x) then
               (case parse_revocation ns (snd x) of Err _ \<Rightarrow> None | Ok r \<Rightarrow> if rv_event_id r = i then Some r else None)
             else None)
      else None)"

lemma load_revocation_file:
  assumes "directory_laws (ae_disk ev) (revocation_directory ev)" and "files ev d n = Some x"
  shows "load_revocation ev n d = Ok r \<longleftrightarrow> load_file (ae_nostr ev) n x = Some r"
proof -
  obtain m c where x: "x = (m, c)" by (cases x)
  have ok: "name_ok n" using assms(2) by (auto simp: node_def split: if_splits)
  have meta: "ad_meta (ae_disk ev) (path_join (revocation_directory ev) n) d = Some m"
    using assms ok unfolding directory_laws_def x by (metis fst_conv option.simps(9))
  have "am_file m \<Longrightarrow> ad_read (ae_disk ev) (path_join (revocation_directory ev) n) d = Some c"
    using assms unfolding directory_laws_def x by blast
  with meta show ?thesis
    by (cases "strip_suffix ''.json'' n"; cases "parse_revocation (ae_nostr ev) c")
      (auto simp: load_revocation_def load_file_def checked_entry_def read_bounded_def Let_def x)
qed

lemma load_entries_Ok:
  "load_entries f (map Some names) = Ok rs \<longleftrightarrow> (\<forall>n \<in> set names. is_ok (f n)) \<and> rs = map (ok_value \<circ> f) names"
proof (induction names arbitrary: rs)
  case (Cons n names)
  show ?case
  proof (cases "f n")
    case (Ok a)
    show ?thesis
    proof (cases "load_entries f (map Some names)")
      case (Ok xs)
      with Cons [of xs] \<open>f n = Ok a\<close> show ?thesis by auto
    next
      case (Err e)
      with Cons [of "map (ok_value \<circ> f) names"] \<open>f n = Ok a\<close> show ?thesis by auto
    qed
  qed simp
qed auto

definition stored :: "'d auth_env \<Rightarrow> 'd \<Rightarrow> revocation \<Rightarrow> bool" where
  "stored ev d r \<longleftrightarrow> (\<exists>n x. files ev d n = Some x \<and> load_file (ae_nostr ev) n x = Some r)"

definition loadable :: "'d auth_env \<Rightarrow> 'd \<Rightarrow> bool" where
  "loadable ev d \<longleftrightarrow> (\<forall>n x. files ev d n = Some x \<longrightarrow> load_file (ae_nostr ev) n x \<noteq> None)"

lemma load_revocations_stored:
  assumes "directory_laws (ae_disk ev) (revocation_directory ev)"
  shows "loadable ev d \<longleftrightarrow> is_ok (load_revocations ev d)"
    and "load_revocations ev d = Ok rs \<Longrightarrow> set rs = {r. stored ev d r}"
proof -
  obtain names where e: "ad_entries (ae_disk ev) (revocation_directory ev) d = Some (map Some names)"
    and n: "set names = {n. files ev d n \<noteq> None}"
    using assms [unfolded directory_laws_def, THEN conjunct1, rule_format, of d] by blast
  let ?f = "\<lambda>n. load_revocation ev n d"
  have f: "is_ok (?f n) \<longleftrightarrow> load_file (ae_nostr ev) n x \<noteq> None" if "files ev d n = Some x" for n x
    using load_revocation_file [OF assms that] by (cases "?f n") auto
  have all: "(\<forall>n \<in> set names. is_ok (?f n)) \<longleftrightarrow> loadable ev d"
    using f unfolding n loadable_def by blast
  have load: "load_revocations ev d = Ok qs \<longleftrightarrow>
      (\<forall>n \<in> set names. is_ok (?f n)) \<and> qs = sort_key rv_event_id (map (ok_value \<circ> ?f) names)" for qs
  proof (cases "load_entries ?f (map Some names)")
    case (Ok xs)
    then show ?thesis using load_entries_Ok [of ?f names xs] by (auto simp: load_revocations_def e)
  next
    case (Err x)
    then have "\<not> (\<forall>n \<in> set names. is_ok (?f n))"
      using load_entries_Ok [of ?f names "map (ok_value \<circ> ?f) names"] by simp
    with Err show ?thesis by (simp add: load_revocations_def e)
  qed
  show "loadable ev d \<longleftrightarrow> is_ok (load_revocations ev d)"
    using load all by (cases "load_revocations ev d") auto
  assume "load_revocations ev d = Ok rs"
  then have ok: "\<forall>n \<in> set names. is_ok (?f n)" and rs: "set rs = (ok_value \<circ> ?f) ` set names" by (auto simp: load)
  have "ok_value (?f n) = r \<longleftrightarrow> load_file (ae_nostr ev) n x = Some r" if "files ev d n = Some x" for n x r
  proof -
    have "is_ok (?f n)" using ok that n by blast
    then show ?thesis using load_revocation_file [OF assms that, of r] by (cases "?f n") auto
  qed
  then show "set rs = {r. stored ev d r}" unfolding rs n stored_def by (auto simp: image_iff) metis+
qed


lemma temporary_no_suffix: "strip_suffix ''.json'' (temporary_name ev content d) = None"
proof -
  obtain xs where "temporary_name ev content d = xs @ ''.tmp''" by (simp add: temporary_name_def)
  then show ?thesis by (auto simp: strip_suffix_def ends_with_def)
qed


subsection \<open>Stored revocations come back\<close>

definition durable :: "'d auth_env \<Rightarrow> 'd auth_state \<Rightarrow> bool" where
  "durable ev s \<longleftrightarrow>
     loadable ev (as_disk s) \<and> distinct (map rv_event_id (as_revocations s)) \<and>
     (\<forall>r. stored ev (as_disk s) r \<longrightarrow> r \<in> set (as_revocations s)) \<and>
     (\<forall>r \<in> set (as_revocations s). rv_event_id r \<notin> as_pending s \<longrightarrow> stored ev (as_disk s) r) \<and>
     as_pending s \<subseteq> rv_event_id ` set (as_revocations s)"

lemma utf8_valid_ascii: "list_all (\<lambda>c. of_char c < (128 :: nat)) s \<Longrightarrow> utf8_valid s"
proof (induction s)
  case (Cons c s)
  then show ?case by (subst utf8_valid.simps) (simp add: utf8_unit_def byte_in_def Let_def)
qed (simp add: utf8_valid.simps)

lemma lower_hex_ascii: "is_lower_hex c \<Longrightarrow> of_char c < (128 :: nat) \<and> c \<noteq> CHR ''/'' \<and> c \<noteq> CHR ''.''"
  by (auto simp: is_lower_hex_def is_ascii_digit_def less_eq_char_def)

lemma hex_name:
  assumes "validate_hex_32 i"
  shows "name_ok (i @ ''.json'')" and "hd (i @ ''.json'') \<noteq> CHR ''.''" and "utf8_valid (i @ ''.json'')"
    and "strip_suffix ''.json'' (i @ ''.json'') = Some i"
proof -
  obtain c cs where i: "i = c # cs" using assms by (cases i) (auto simp: validate_hex_32_def)
  have hex: "list_all is_lower_hex i" using assms by (simp add: validate_hex_32_def)
  then have "list_all (\<lambda>c. of_char c < (128 :: nat)) i" by (rule list.pred_mono_strong) (simp add: lower_hex_ascii)
  then show "utf8_valid (i @ ''.json'')" by (intro utf8_valid_ascii) simp
  have "CHR ''/'' \<notin> set i" using hex by (auto simp: list_all_iff dest: lower_hex_ascii)
  then show "name_ok (i @ ''.json'')" by (auto simp: name_ok_def i)
  show "hd (i @ ''.json'') \<noteq> CHR ''.''" using hex lower_hex_ascii [of c] by (simp add: i)
  show "strip_suffix ''.json'' (i @ ''.json'') = Some i" by (simp add: strip_suffix_def ends_with_def)
qed

lemma load_file_written:
  assumes "storage_laws ev" and "genuine (ae_nostr ev) r"
  shows "load_file (ae_nostr ev) (rv_event_id r @ ''.json'') (private_file (length (rv_json r)), rv_json r) = Some r"
proof -
  from assms(2) obtain e where e: "verify_event (ae_nostr ev) (rv_json r) = Ok e" "signed (ae_nostr ev) (rv_json r) e" "rv_event_id r = ne_id e"
    by (rule genuine_signed)
  then have "length (rv_json r) \<le> max_event_bytes"
    by (auto simp: verify_event_def verify_event_bounded_def split: if_splits)
  moreover have "validate_hex_32 (rv_event_id r)" "utf8_valid (rv_json r)"
    using assms(1) e(2,3) by (auto simp: storage_laws_def nostr_laws_def)
  ultimately show ?thesis
    using assms(2) hex_name [of "rv_event_id r"] by (simp add: load_file_def private_file_def genuine_def)
qed

lemma persist_one:
  assumes "storage_laws ev" and "auth_inv ev s" and "durable ev s" and "r \<in> set (as_revocations s)"
    and w: "on_disk (write_private_atomically ev (revocation_directory ev) (rv_event_id r @ ''.json'') (rv_json r)) s = (Ok (), s1)"
  shows "durable ev (s1\<lparr>as_pending := as_pending s1 - {rv_event_id r}\<rparr>)"
proof -
  let ?n = "rv_event_id r @ ''.json''" and ?x = "(private_file (length (rv_json r)), rv_json r)"
  have gen: "genuine (ae_nostr ev) r" using assms(2,4) by (simp add: auth_inv_def list_all_iff)
  obtain e where "signed (ae_nostr ev) (rv_json r) e" "rv_event_id r = ne_id e" by (rule genuine_signed [OF gen])
  then have hex: "validate_hex_32 (rv_event_id r)" using assms(1) by (auto simp: storage_laws_def nostr_laws_def)
  have s1: "as_revocations s1 = as_revocations s" "as_pending s1 = as_pending s"
    using arg_cong [OF w, of snd] by auto
  have "write_private_atomically ev (revocation_directory ev) ?n (rv_json r) (as_disk s) = (Ok (), as_disk s1)"
    using w by (auto simp: on_disk_def split: prod.splits)
  from write_stores [OF assms(1) hex_name(1,2) [OF hex] this]
  have files: "files ev (as_disk s1) = (files ev (as_disk s))(?n \<mapsto> ?x)" .
  note load = load_file_written [OF assms(1) gen]
  have st: "stored ev (as_disk s1) r" using files load by (auto simp: stored_def)
  have old: "stored ev (as_disk s1) q" if "stored ev (as_disk s) q" "rv_event_id q \<noteq> rv_event_id r" for q
  proof -
    from that(1) obtain n x where q: "files ev (as_disk s) n = Some x" "load_file (ae_nostr ev) n x = Some q"
      unfolding stored_def by blast
    have "strip_suffix ''.json'' n = Some (rv_event_id q)"
      using q(2) by (auto simp: load_file_def split: if_splits option.splits result.splits)
    then have "n \<noteq> ?n" using hex_name(4) [OF hex] that(2) by auto
    with q files have "files ev (as_disk s1) n = Some x" by simp
    with q(2) show ?thesis unfolding stored_def by blast
  qed
  have "stored ev (as_disk s) q \<or> q = r" if "stored ev (as_disk s1) q" for q
    using that files load by (auto simp: stored_def split: if_splits)
  then have "q \<in> set (as_revocations s)" if "stored ev (as_disk s1) q" for q
    using that assms(3,4) by (auto simp: durable_def)
  moreover have "loadable ev (as_disk s1)" using assms(3) files load by (auto simp: durable_def loadable_def split: if_splits)
  moreover have "stored ev (as_disk s1) q" if "q \<in> set (as_revocations s)" "rv_event_id q \<notin> as_pending s - {rv_event_id r}" for q
  proof (cases "rv_event_id q = rv_event_id r")
    case True
    then have "q = r" using assms(3,4) that(1) by (auto simp: durable_def distinct_map inj_on_def)
    with st show ?thesis by simp
  next
    case False
    with assms(3) that show ?thesis by (intro old) (auto simp: durable_def)
  qed
  moreover have "distinct (map rv_event_id (as_revocations s))" "as_pending s - {rv_event_id r} \<subseteq> rv_event_id ` set (as_revocations s)"
    using assms(3) by (auto simp: durable_def)
  ultimately show ?thesis by (simp add: durable_def s1)
qed

lemma persist_durable:
  assumes "storage_laws ev" and "auth_inv ev s" and "durable ev s" and "set rs \<subseteq> set (as_revocations s)"
    and "persist_revocations ev rs s = (Ok (), s')"
  shows "durable ev s' \<and> as_pending s' \<subseteq> as_pending s - rv_event_id ` set rs"
  using assms(2-5)
proof (induction rs arbitrary: s)
  case (Cons r rs)
  show ?case
  proof (cases "rv_event_id r \<in> as_pending s")
    case False
    with Cons.IH [OF Cons.prems(1,2)] Cons.prems(3,4) show ?thesis by auto
  next
    case True
    then obtain s1 where w: "on_disk (write_private_atomically ev (revocation_directory ev) (rv_event_id r @ ''.json'') (rv_json r)) s = (Ok (), s1)"
      and p: "persist_revocations ev rs (s1\<lparr>as_pending := as_pending s1 - {rv_event_id r}\<rparr>) = (Ok (), s')"
      using Cons.prems(4) by (auto dest: and_then_OkD)
    let ?t = "s1\<lparr>as_pending := as_pending s1 - {rv_event_id r}\<rparr>"
    have s1: "as_revocations s1 = as_revocations s" "as_memo s1 = as_memo s" "as_pending s1 = as_pending s"
      using arg_cong [OF w, of snd] by auto
    have "durable ev ?t" using persist_one [OF assms(1) Cons.prems(1,2) _ w] Cons.prems(3) by simp
    moreover have "auth_inv ev ?t" using Cons.prems(1) s1 by (simp add: auth_inv_def)
    ultimately show ?thesis using Cons.IH [of ?t] p Cons.prems(3) s1 by auto
  qed
qed simp

lemma install_durable: "durable ev s \<Longrightarrow> durable ev (fold install_revocation rs s)"
proof (induction rs arbitrary: s)
  case (Cons r rs)
  have "durable ev (install_revocation r s)"
    using Cons.prems by (auto simp: durable_def install_revocation_def list_ex_iff)
  from Cons.IH [OF this] show ?case by simp
qed simp

lemma commit_durable:
  assumes "storage_laws ev" and "auth_inv ev s" and "durable ev s" and "list_all (genuine (ae_nostr ev)) (at_revocations a)"
    and "commit_revocations ev a s = (Ok (), s')"
  shows "durable ev s' \<and> as_pending s' = {}"
proof -
  let ?t = "fold install_revocation (at_revocations a) s"
  have "auth_inv ev ?t"
    using install_frame [of "at_revocations a" s] assms(2,4) by (auto simp: auth_inv_def list_all_iff)
  moreover have d: "durable ev ?t" using assms(3) by (rule install_durable)
  ultimately have "durable ev s' \<and> as_pending s' \<subseteq> as_pending ?t - rv_event_id ` set (as_revocations ?t)"
    using persist_durable [OF assms(1), of ?t "as_revocations ?t" s'] assms(5) by (simp add: commit_revocations_def Let_def)
  with d show ?thesis by (auto simp: durable_def)
qed

text \<open>
  C32. A committed revocation survives a restart. When everything that is known and not pending is on
  the disk, and a request is committed with success, nothing is pending any more and reading the
  directory again gives exactly the revocations in memory, those of the request among them.
\<close>

theorem committed_revocations_load:
  assumes "storage_laws ev" and "auth_inv ev s" and "durable ev s"
    and "attempt_peer ev local sender st pass events now s = (Ok a, s1)"
    and "commit_revocations ev a s1 = (Ok (), s2)"
  shows "\<exists>rs. load_revocations ev (as_disk s2) = Ok rs \<and> set rs = set (as_revocations s2) \<and> as_pending s2 = {} \<and>
    rv_event_id ` set (at_revocations a) \<subseteq> rv_event_id ` set rs"
proof -
  note at = attempt_Ok [OF assms(4)]
  have "auth_inv ev s1" using attempt_inv [OF assms(2), of local sender st pass events now] assms(4) by simp
  moreover have "durable ev s1" using assms(3) at(2-4) by (simp add: durable_def)
  ultimately have d: "durable ev s2" "as_pending s2 = {}"
    using commit_durable [OF assms(1) _ _ at(1) assms(5)] by blast+
  have laws: "directory_laws (ae_disk ev) (revocation_directory ev)" using assms(1) by (simp add: storage_laws_def)
  obtain rs where rs: "load_revocations ev (as_disk s2) = Ok rs"
    using load_revocations_stored(1) [OF laws, of "as_disk s2"] d(1) by (auto simp: durable_def is_ok_iff)
  have "set rs = set (as_revocations s2)"
    using load_revocations_stored(2) [OF laws rs] d by (auto simp: durable_def)
  with rs d(2) commit_frame(4) [of a ev s1] assms(5) show ?thesis by auto
qed

subsection \<open>An example\<close>

text \<open>
  A disk that is one directory in memory, a map from names to contents, and one whose writes all
  fail.
\<close>

definition demo_directory :: string where
  "demo_directory = ''/r/identity/authorization-revocations''"

definition name_of :: "string \<Rightarrow> string option" where
  "name_of p = strip_prefix (demo_directory @ ''/'') p"

definition memory_node :: "(string, string) btree \<Rightarrow> string \<Rightarrow> (auth_meta \<times> string) option" where
  "memory_node d p = (case name_of p of None \<Rightarrow> None | Some n \<Rightarrow> map_option (\<lambda>c. (private_file (length c), c)) (bt_get d n))"

definition memory_disk :: "(string, string) btree auth_disk" where
  "memory_disk =
     \<lparr>ad_node = memory_node, ad_exists = (\<lambda>p d. True), ad_meta = (\<lambda>p d. map_option fst (memory_node d p)),
      ad_entries = (\<lambda>dir d. Some (map Some (filter (\<lambda>n. name_ok n \<and> bt_get d n \<noteq> None) (remdups (bt_keys d))))),
      ad_read = (\<lambda>p d. map_option snd (memory_node d p)), ad_random = (\<lambda>d. ''7''), ad_mkdir = (\<lambda>p d. (False, d)),
      ad_create_new = (\<lambda>p d. case name_of p of None \<Rightarrow> (CreateFailed, d)
        | Some n \<Rightarrow> if bt_get d n \<noteq> None then (AlreadyExists, d) else (Created, bt_insert n [] d)),
      ad_write = (\<lambda>p c d. case name_of p of None \<Rightarrow> (False, d) | Some n \<Rightarrow> (True, bt_insert n c d)),
      ad_sync = (\<lambda>p d. (True, d)),
      ad_rename = (\<lambda>p q d. case (name_of p, name_of q) of
          (Some n, Some n') \<Rightarrow> (case bt_get d n of None \<Rightarrow> (False, d) | Some c \<Rightarrow> (True, bt_insert n' c (bt_remove n d)))
        | _ \<Rightarrow> (False, d)),
      ad_sync_dir = (\<lambda>p d. (True, d)), ad_remove = (\<lambda>p d. (Ok (), case name_of p of None \<Rightarrow> d | Some n \<Rightarrow> bt_remove n d))\<rparr>"

definition full_disk :: "(string, string) btree auth_disk" where
  "full_disk = memory_disk\<lparr>ad_create_new := (\<lambda>p d. (CreateFailed, d))\<rparr>"

definition demo_grant :: certificate_grant where
  "demo_grant = \<lparr>cg_host_uuid = ''h'', cg_client_certificate = ''c'', cg_authorization = CertPersonPass ''friend'' ''pass''\<rparr>"

definition demo_auth_env :: "(string, string) btree auth_disk \<Rightarrow> (string, string) btree auth_env" where
  "demo_auth_env dk =
     \<lparr>ae_root = ''/r'', ae_disk = dk, ae_nostr = demo_nostr, ae_sha256 = (\<lambda>b. ''5''), ae_print_grant = (\<lambda>g. None),
      ae_parse_grant = (\<lambda>b. if b = ''g'' then Some demo_grant else None)\<rparr>"

definition demo_auth_state :: "(string, string) btree auth_state" where
  "demo_auth_state = \<lparr>as_disk = [], as_revocations = [], as_pending = {}, as_memo = []\<rparr>"

lemma demo_directory [simp]: "revocation_directory (demo_auth_env dk) = demo_directory"
  by (simp add: revocation_directory_def demo_auth_env_def demo_directory_def path_join_def is_absolute_def)

lemma name_of_join [simp]: "name_ok n \<Longrightarrow> name_of (path_join demo_directory n) = Some n"
  by (cases n) (auto simp: name_of_def demo_directory_def path_join_def is_absolute_def name_ok_def strip_prefix_Some)

lemma memory_node_join:
  "node memory_disk demo_directory d n = (if name_ok n then map_option (\<lambda>c. (private_file (length c), c)) (bt_get d n) else None)"
  by (simp add: node_def memory_disk_def memory_node_def)

lemma memory_reads:
  "ad_meta memory_disk p d = map_option fst (memory_node d p)" "ad_read memory_disk p d = map_option snd (memory_node d p)"
  "ad_sync memory_disk p d = (True, d)" "ad_sync_dir memory_disk p d = (True, d)" "ad_random memory_disk d = ''7''"
  by (simp_all add: memory_disk_def)

lemma memory_laws: "directory_laws memory_disk demo_directory"
proof -
  have entries: "\<exists>names. ad_entries memory_disk demo_directory d = Some (map Some names) \<and> distinct names \<and>
      set names = {n. node memory_disk demo_directory d n \<noteq> None}" for d
    unfolding memory_node_join
    by (rule exI [of _ "filter (\<lambda>n. name_ok n \<and> bt_get d n \<noteq> None) (remdups (bt_keys d))"])
      (auto simp: memory_disk_def dest: bt_get_keys)
  show ?thesis unfolding directory_laws_def
  proof (intro conjI allI entries)
    fix d d' n
    show "name_ok n \<and> ad_create_new memory_disk (path_join demo_directory n) d = (Created, d') \<longrightarrow>
        node memory_disk demo_directory d n = None \<and>
        node memory_disk demo_directory d' = (node memory_disk demo_directory d)(n \<mapsto> (private_file 0, []))"
      unfolding memory_node_join fun_eq_iff by (auto simp: memory_disk_def split: if_splits)
  next
    fix d d' n c
    show "node memory_disk demo_directory d n = Some (private_file 0, []) \<and>
        ad_write memory_disk (path_join demo_directory n) c d = (True, d') \<longrightarrow>
        node memory_disk demo_directory d' = (node memory_disk demo_directory d)(n \<mapsto> (private_file (length c), c))"
      unfolding memory_node_join fun_eq_iff by (auto simp: memory_disk_def split: if_splits)
  next
    fix d d' n n'
    show "name_ok n \<and> name_ok n' \<and> n \<noteq> n' \<and>
        ad_rename memory_disk (path_join demo_directory n) (path_join demo_directory n') d = (True, d') \<longrightarrow>
        node memory_disk demo_directory d' = (node memory_disk demo_directory d)(n := None, n' := node memory_disk demo_directory d n)"
      unfolding memory_node_join fun_eq_iff by (auto simp: memory_disk_def split: if_splits option.splits)
  qed (auto simp: memory_node_join memory_node_def memory_reads split: if_splits)
qed

lemma demo_texts:
  "signed demo_nostr j e \<Longrightarrow>
   (j, e) \<in> {(''own'', demo_statement CHR ''1'' demo_owner ''owned''), (''friend'', demo_statement CHR ''2'' demo_friend ''owned''),
     (''pass'', demo_pass_event), (''revoke'', demo_statement CHR ''4'' demo_friend ''revoked'')}"
  by (auto simp: signed_def demo_nostr_def split: if_splits)

lemma demo_nostr_laws: "nostr_laws demo_nostr"
proof -
  have ids: "ne_id (demo_statement x a b) = replicate 64 x" "ne_id demo_pass_event = replicate 64 CHR ''3''" for x a b
    by (simp_all add: demo_statement_def demo_pass_event_def demo_event_def)
  have "replicate 64 x = replicate 64 y \<longleftrightarrow> x = y" for x y :: char by auto
  then have "event_ids_unique demo_nostr"
    unfolding event_ids_unique_def by (auto dest!: demo_texts simp: ids)
  moreover have "is_lower_hex x \<Longrightarrow> validate_hex_32 (replicate 64 x)" for x
    by (simp add: validate_hex_32_def list_all_iff)
  then have "validate_hex_32 (ne_id e) \<and> utf8_valid j" if "signed demo_nostr j e" for j e
    using demo_texts [OF that] by (auto simp: ids is_lower_hex_def is_ascii_digit_def less_eq_char_def intro!: utf8_valid_ascii)
  ultimately show ?thesis by (simp add: nostr_laws_def)
qed

lemma demo_env_sel [simp]: "ae_nostr (demo_auth_env dk) = demo_nostr" "ae_disk (demo_auth_env dk) = dk"
  by (simp_all add: demo_auth_env_def)

lemma demo_inv: "auth_inv (demo_auth_env dk) demo_auth_state"
  by (simp add: auth_inv_def demo_auth_state_def)

definition demo_revocation :: revocation where
  "demo_revocation = \<lparr>rv_event_id = replicate 64 CHR ''4'', rv_json = ''revoke'', rv_author = demo_friend, rv_target = RevokeDevice demo_device\<rparr>"

definition demo_attempt :: authorization_attempt where
  "demo_attempt = \<lparr>at_context = PeerContext (OwnerDevice demo_device ''own'' demo_owner), at_revocations = [demo_revocation]\<rparr>"

lemma demo_attempt: "fst (attempt_peer (demo_auth_env dk) demo_local demo_device (Some ''own'') None [''revoke''] 200 demo_auth_state) = Ok demo_attempt"
proof -
  have r: "parse_revocations demo_nostr [''revoke''] = Ok [demo_revocation]" by code_simp
  have p: "fst (principal_for demo_nostr demo_local demo_device (Some ''own'') None 200 [demo_revocation] []) =
      OwnerDevice demo_device ''own'' demo_owner" by code_simp
  show ?thesis using p by (simp add: attempt_peer_def r demo_auth_state_def demo_attempt_def case_prod_beta Let_def del: parse_revocations.simps)
qed


text \<open>Witness of C32: the same request on a disk that works.\<close>

theorem committed_revocations_load_witness:
  "\<exists>s1 s2 rs. attempt_peer (demo_auth_env memory_disk) demo_local demo_device (Some ''own'') None [''revoke''] 200 demo_auth_state = (Ok demo_attempt, s1) \<and>
    commit_revocations (demo_auth_env memory_disk) demo_attempt s1 = (Ok (), s2) \<and>
    load_revocations (demo_auth_env memory_disk) (as_disk s2) = Ok rs \<and> set rs = set (as_revocations s2) \<and>
    replicate 64 CHR ''4'' \<in> rv_event_id ` set rs"
proof -
  let ?ev = "demo_auth_env memory_disk"
  obtain s1 where s1: "attempt_peer ?ev demo_local demo_device (Some ''own'') None [''revoke''] 200 demo_auth_state = (Ok demo_attempt, s1)"
    using demo_attempt [of memory_disk] by (metis prod.collapse)
  have laws: "storage_laws ?ev"
    using memory_laws demo_nostr_laws by (simp add: storage_laws_def) (simp add: demo_auth_env_def)
  have dur: "durable ?ev demo_auth_state"
    by (auto simp: durable_def loadable_def stored_def demo_auth_state_def memory_node_join)
  have s: "as_disk s1 = []" "as_revocations s1 = []" "as_pending s1 = {}"
    using attempt_Ok(2-4) [OF s1] by (simp_all add: demo_auth_state_def)
  have "fst (commit_revocations ?ev demo_attempt \<lparr>as_disk = [], as_revocations = [], as_pending = {}, as_memo = []\<rparr>) = Ok ()"
    by code_simp
  then have "fst (commit_revocations ?ev demo_attempt s1) = Ok ()"
    using s by (cases s1) (simp add: commit_revocations_def install_revocation_def demo_attempt_def on_disk_def Let_def and_then_def
      split: prod.splits result.splits)
  then obtain s2 where s2: "commit_revocations ?ev demo_attempt s1 = (Ok (), s2)" by (metis prod.collapse)
  from committed_revocations_load [OF laws demo_inv dur s1 s2] s1 s2 show ?thesis
    by (auto simp: demo_attempt_def demo_revocation_def)
qed

text \<open>Witness of C33: the grant of the guest after its pass has expired, on a disk with this file.\<close>

definition grant_disk :: "(string, string) btree auth_disk" where
  "grant_disk = memory_disk\<lparr>ad_entries := (\<lambda>dir d. Some [Some demo_device]), ad_meta := (\<lambda>p d. Some (private_file 1)),
     ad_read := (\<lambda>p d. Some ''g'')\<rparr>"



end
