(* ===== verification/Peer_Requests.thy ===== *)
theory Peer_Requests
  imports Peer_Trust
begin

text \<open>
  Requests between devices, \<open>services/korrid/src/peer_rpc.rs\<close>: the encrypted and signed envelope, the
  guard against replays, \<open>authenticate\<close> and \<open>handle\<close> of the server, and the client's side of an
  exchange, with the encryption of \<open>services/korrid/src/identity.rs\<close>. The cipher, the signer and the
  printers of JSON belong to libraries and are fields of \<open>peer_env\<close>; so are the handlers behind
  \<open>dispatch\<close>. The limiter of concurrent requests and the reload of credentials are not modelled.

  A request is one step of the model. In the source two requests may interleave between the
  replay guard, the commit and the handlers, each of which is atomic.
\<close>

subsection \<open>Environment and state\<close>

datatype peer_rpc_error =
  PeerInvalid | PeerIdentity | WrongKind | Unauthorized | PeerTime | PeerReplay | PeerBinding | PeerStorage | PeerTrust

record request_envelope =
  re_version :: nat
  re_recipient :: string
  re_request_id :: string
  re_nonce :: string
  re_owner_statement :: "string option"
  re_person_pass :: "string option"
  re_revocations :: "string list"
  re_request :: rpc_request

record 'r response_envelope =
  rs_version :: nat
  rs_recipient :: string
  rs_request_id :: string
  rs_request_event_id :: string
  rs_request_nonce :: string
  rs_response :: 'r

text \<open>
  \<open>pe_encrypt\<close> and \<open>pe_decrypt\<close> are NIP-44 between the own key (first) and another; \<open>pe_sign\<close> finalizes
  an event of the own key. \<open>pe_serve\<close> are the handlers of \<open>dispatch\<close>, which may refuse; \<open>pe_provisioned\<close>
  and \<open>pe_revoked\<close> say that a response is the success of the request for a certificate.
\<close>

record ('d, 'r) peer_env =
  pe_auth :: "'d auth_env"
  pe_encrypt :: "string \<Rightarrow> string \<Rightarrow> string \<Rightarrow> string option"
  pe_decrypt :: "string \<Rightarrow> string \<Rightarrow> string \<Rightarrow> string option"
  pe_sign :: "string \<Rightarrow> nat \<Rightarrow> string list list \<Rightarrow> string \<Rightarrow> nat \<Rightarrow> nostr_event option"
  pe_as_json :: "nostr_event \<Rightarrow> string"
  pe_public_key_ok :: "string \<Rightarrow> bool"
  pe_print_request :: "request_envelope \<Rightarrow> string option"
  pe_parse_request :: "string \<Rightarrow> request_envelope option"
  pe_print_response :: "'r response_envelope \<Rightarrow> string option"
  pe_parse_response :: "string \<Rightarrow> 'r response_envelope option"
  pe_serve :: "authorization_context \<Rightarrow> rpc_request \<Rightarrow> 'd \<Rightarrow> 'r option \<times> 'd"
  pe_provisioned :: "'r \<Rightarrow> bool"
  pe_revoked :: "'r \<Rightarrow> bool"

text \<open>The identity of a device as the server and the client read it: its state, key and statement.\<close>

record device_identity =
  di_state :: identity_state
  di_device_key :: "string option"
  di_owner_statement :: "string option"

record 'd peer_state =
  ps_auth :: "'d auth_state"
  ps_seen :: "(string \<times> string, nat) btree"

type_synonym ('d, 'a) peer_step = "'d peer_state \<Rightarrow> ('a, peer_rpc_error) result \<times> 'd peer_state"

definition on_auth :: "('d, 'a) auth_step \<Rightarrow> peer_rpc_error \<Rightarrow> ('d, 'a) peer_step" where
  "on_auth f e s = (let (r, a) = f (ps_auth s) in (map_err (\<lambda>_. e) r, s\<lparr>ps_auth := a\<rparr>))"

definition on_peer_disk :: "('d \<Rightarrow> 'a \<times> 'd) \<Rightarrow> 'd peer_state \<Rightarrow> 'a \<times> 'd peer_state" where
  "on_peer_disk f s = (let (r, d) = f (as_disk (ps_auth s)) in (r, s\<lparr>ps_auth := (ps_auth s)\<lparr>as_disk := d\<rparr>\<rparr>))"

definition peer_rpc_version :: nat where
  "peer_rpc_version = 1"

definition peer_request_kind :: nat where
  "peer_request_kind = 21100"

definition peer_response_kind :: nat where
  "peer_response_kind = 21101"

definition clock_window_seconds :: nat where
  "clock_window_seconds = 120"

definition max_encrypted_payload_bytes :: nat where
  "max_encrypted_payload_bytes = 6 * 1024 * 1024"

definition max_encrypted_plaintext_bytes :: nat where
  "max_encrypted_plaintext_bytes = 4 * 1024 * 1024"

subsection \<open>Encrypted events\<close>

definition verify_encrypted_event :: "nostr \<Rightarrow> string \<Rightarrow> (nostr_event, identity_error) result" where
  "verify_encrypted_event ns json = verify_event_bounded ns json max_encrypted_payload_bytes"

definition peer_nostr :: "('d, 'r) peer_env \<Rightarrow> nostr" where
  "peer_nostr ev = ae_nostr (pe_auth ev)"

definition decrypt_event :: "('d, 'r) peer_env \<Rightarrow> device_identity \<Rightarrow> string \<Rightarrow> (string, identity_error) result" where
  "decrypt_event ev ident json =
     (if max_encrypted_payload_bytes < length json then Err DecryptionFailed
      else case from_json (peer_nostr ev) json of
          None \<Rightarrow> Err DecryptionFailed
        | Some e \<Rightarrow>
            if \<not> signature_ok (peer_nostr ev) e then Err DecryptionFailed
            else case di_device_key ident of
                None \<Rightarrow> Err NoDeviceKey
              | Some key \<Rightarrow>
                  if \<not> list_ex (\<lambda>t. t = [''p'', key]) (ne_tags e) then Err DecryptionFailed
                  else (case pe_decrypt ev key (ne_author e) (ne_content e) of
                      None \<Rightarrow> Err DecryptionFailed
                    | Some plain \<Rightarrow> Ok plain))"

definition encrypt_event ::
  "('d, 'r) peer_env \<Rightarrow> device_identity \<Rightarrow> string \<Rightarrow> nat \<Rightarrow> string \<Rightarrow> nat \<Rightarrow> (nostr_event, identity_error) result" where
  "encrypt_event ev ident recipient kind plain created =
     (if plain = [] \<or> max_encrypted_plaintext_bytes < length plain then Err EncryptionFailed
      else if \<not> pe_public_key_ok ev recipient then Err (InvalidEvent ''public key is invalid'')
      else case di_device_key ident of
          None \<Rightarrow> Err NoDeviceKey
        | Some key \<Rightarrow>
            (case pe_encrypt ev key recipient plain of
               None \<Rightarrow> Err EncryptionFailed
             | Some content \<Rightarrow>
                 (case pe_sign ev key kind [[''p'', recipient]] content created of
                    None \<Rightarrow> Err EncryptionFailed
                  | Some e \<Rightarrow> Ok e)))"

definition has_exact_recipient :: "string list list \<Rightarrow> string \<Rightarrow> bool" where
  "has_exact_recipient tags expected \<longleftrightarrow> tags = [[''p'', expected]]"

definition validate_peer_token :: "string \<Rightarrow> (unit, peer_rpc_error) result" where
  "validate_peer_token t = (if length t \<noteq> 64 \<or> \<not> list_all is_lower_hex t then Err PeerInvalid else Ok ())"

text \<open>\<open>abs_diff\<close> of two \<open>u64\<close>.\<close>

definition check_time :: "nat \<Rightarrow> nat \<Rightarrow> (unit, peer_rpc_error) result" where
  "check_time created now =
     (if clock_window_seconds < (if created < now then now - created else created - now) then Err PeerTime else Ok ())"

subsection \<open>The replay guard\<close>

definition replay_directory :: "'d auth_env \<Rightarrow> string" where
  "replay_directory ev = path_join (ae_root ev) ''identity/security-replay''"

definition replay_marker :: "'d auth_env \<Rightarrow> string \<Rightarrow> string \<Rightarrow> string" where
  "replay_marker ev sender nonce = path_join (replay_directory ev) (ae_sha256 ev (sender @ '':'' @ nonce))"

definition prepare_replay_directory :: "'d auth_env \<Rightarrow> 'd \<Rightarrow> (unit, peer_rpc_error) result \<times> 'd" where
  "prepare_replay_directory ev d =
     (let p = replay_directory ev
      in if ad_exists (ae_disk ev) p d then
           (case ad_meta (ae_disk ev) p d of
              None \<Rightarrow> (Err PeerStorage, d)
            | Some m \<Rightarrow> (if \<not> am_dir m \<or> \<not> am_private m then Err PeerStorage else Ok (), d))
         else (case ad_mkdir (ae_disk ev) p d of (made, d1) \<Rightarrow> (if made then Ok () else Err PeerStorage, d1)))"

definition remember :: "string \<Rightarrow> string \<Rightarrow> nat \<Rightarrow> nat \<Rightarrow> ('d, unit) peer_step" where
  "remember sender nonce created now s =
     (let kept = bt_retain (\<lambda>_ time. now - time \<le> clock_window_seconds) (ps_seen s)
      in (if bt_get kept (sender, nonce) = None then Ok () else Err PeerReplay,
          s\<lparr>ps_seen := bt_insert (sender, nonce) created kept\<rparr>))"

definition consume :: "('d, 'r) peer_env \<Rightarrow> string \<Rightarrow> string \<Rightarrow> nat \<Rightarrow> nat \<Rightarrow> bool \<Rightarrow> ('d, unit) peer_step" where
  "consume ev sender nonce created now persist s =
     (if persist then
        (case on_peer_disk (ad_create_new (ae_disk (pe_auth ev)) (replay_marker (pe_auth ev) sender nonce)) s of
           (Created, s1) \<Rightarrow> remember sender nonce created now s1
         | (AlreadyExists, s1) \<Rightarrow> (Err PeerReplay, s1)
         | (CreateFailed, s1) \<Rightarrow> (Err PeerStorage, s1))
      else remember sender nonce created now s)"

subsection \<open>Dispatch and trust\<close>

definition dispatch :: "('d, 'r) peer_env \<Rightarrow> authorization_context \<Rightarrow> rpc_request \<Rightarrow> 'd peer_state \<Rightarrow> 'r option \<times> 'd peer_state" where
  "dispatch ev c request s =
     (case authorize c request of
        Err _ \<Rightarrow> (None, s)
      | Ok _ \<Rightarrow> on_peer_disk (pe_serve ev c request) s)"

fun take_back :: "('d, 'r) peer_env \<Rightarrow> certificate_revocation list \<Rightarrow> ('d, unit) peer_step" where
  "take_back ev [] s = (Ok (), s)"
| "take_back ev (r # rs) s =
     (case dispatch ev TrustReconciliation (MoonlightCertificateRevoke (cr_host_uuid r) (cr_client_certificate r)) s of
        (None, s1) \<Rightarrow> (Err PeerTrust, s1)
      | (Some response, s1) \<Rightarrow>
          if \<not> pe_revoked ev response then (Err PeerTrust, s1)
          else and_then (on_auth (complete_certificate_revocation (pe_auth ev) (cr_device r)) PeerStorage s1) (\<lambda>_ s2.
               take_back ev rs s2))"

definition reconcile_certificate_trust :: "('d, 'r) peer_env \<Rightarrow> identity_state \<Rightarrow> nat \<Rightarrow> ('d, unit) peer_step" where
  "reconcile_certificate_trust ev local now s =
     and_then (on_auth (certificate_revocations (pe_auth ev) local now) PeerStorage s) (\<lambda>plan s1. take_back ev plan s1)"

subsection \<open>The server\<close>

record authenticated_request =
  aq_envelope :: request_envelope
  aq_author :: string
  aq_event_id :: string
  aq_context :: authorization_context

definition is_object_request :: "rpc_request \<Rightarrow> bool" where
  "is_object_request r \<longleftrightarrow> (case r of SaveObject \<Rightarrow> True | ReleaseObject \<Rightarrow> True | _ \<Rightarrow> False)"

text \<open>What \<open>authenticate\<close> makes of the text alone, before it looks at any state.\<close>

definition open_request :: "('d, 'r) peer_env \<Rightarrow> device_identity \<Rightarrow> string \<Rightarrow> nat \<Rightarrow> (nostr_event \<times> request_envelope, peer_rpc_error) result" where
  "open_request ev ident json now =
     (case verify_encrypted_event (peer_nostr ev) json of
        Err _ \<Rightarrow> Err PeerInvalid
      | Ok e \<Rightarrow>
          if ne_kind e \<noteq> peer_request_kind then Err WrongKind
          else case check_time (ne_created_at e) now of
              Err x \<Rightarrow> Err x
            | Ok _ \<Rightarrow>
                (case di_device_key ident of
                   None \<Rightarrow> Err PeerIdentity
                 | Some key \<Rightarrow>
                     if \<not> has_exact_recipient (ne_tags e) key then Err PeerBinding
                     else (case decrypt_event ev ident json of
                         Err _ \<Rightarrow> Err PeerInvalid
                       | Ok plain \<Rightarrow>
                           (case pe_parse_request ev plain of
                              None \<Rightarrow> Err PeerInvalid
                            | Some envelope \<Rightarrow>
                                if re_version envelope \<noteq> peer_rpc_version \<or> re_recipient envelope \<noteq> key then Err PeerBinding
                                else (case validate_peer_token (re_request_id envelope) of
                                    Err x \<Rightarrow> Err x
                                  | Ok _ \<Rightarrow>
                                      (case validate_peer_token (re_nonce envelope) of
                                         Err x \<Rightarrow> Err x
                                       | Ok _ \<Rightarrow> Ok (e, envelope)))))))"

definition authenticate ::
  "('d, 'r) peer_env \<Rightarrow> device_identity \<Rightarrow> string \<Rightarrow> nat \<Rightarrow> bool \<Rightarrow> ('d, authenticated_request) peer_step" where
  "authenticate ev ident json now object_route s =
     (case open_request ev ident json now of
        Err x \<Rightarrow> (Err x, s)
      | Ok (e, envelope) \<Rightarrow>
          and_then (on_auth (attempt_peer (pe_auth ev) (di_state ident) (ne_author e) (re_owner_statement envelope)
            (re_person_pass envelope) (re_revocations envelope) now) PeerInvalid s) (\<lambda>a s1.
          if is_object_request (re_request envelope) \<noteq> object_route then (Err WrongKind, s1)
          else case authorize (at_context a) (re_request envelope) of
              Err _ \<Rightarrow> (Err Unauthorized, s1)
            | Ok _ \<Rightarrow>
                and_then (consume ev (ne_author e) (re_nonce envelope) (ne_created_at e) now
                  (is_security_mutation (re_request envelope)) s1) (\<lambda>_ s2.
                and_then (on_auth (commit_revocations (pe_auth ev) a) PeerStorage s2) (\<lambda>_ s3.
                and_then (reconcile_certificate_trust ev (di_state ident) now s3) (\<lambda>_ s4.
                  (Ok \<lparr>aq_envelope = envelope, aq_author = ne_author e, aq_event_id = ne_id e, aq_context = at_context a\<rparr>, s4))))))"

text \<open>The certificate that a request provisions, and whether it takes one back.\<close>

definition provisioned_certificate :: "rpc_request \<Rightarrow> (string \<times> string) option" where
  "provisioned_certificate r = (case r of MoonlightCertificateProvision host certificate \<Rightarrow> Some (host, certificate) | _ \<Rightarrow> None)"

definition revoked_certificate :: "rpc_request \<Rightarrow> bool" where
  "revoked_certificate r \<longleftrightarrow> (case r of MoonlightCertificateRevoke _ _ \<Rightarrow> True | _ \<Rightarrow> False)"

definition note_certificate :: "('d, 'r) peer_env \<Rightarrow> authenticated_request \<Rightarrow> 'r \<Rightarrow> ('d, unit) peer_step" where
  "note_certificate ev q response s =
     and_then (case provisioned_certificate (re_request (aq_envelope q)) of
          None \<Rightarrow> (Ok (), s)
        | Some (host, certificate) \<Rightarrow>
            if pe_provisioned ev response then
              (case aq_context q of
                 PeerContext p \<Rightarrow> on_auth (record_certificate (pe_auth ev) p host certificate) PeerStorage s
               | _ \<Rightarrow> (Ok (), s))
            else (Ok (), s)) (\<lambda>_ s1.
     if revoked_certificate (re_request (aq_envelope q)) \<and> pe_revoked ev response
     then on_auth (remove_certificate_grant (pe_auth ev) (aq_author q)) PeerStorage s1
     else (Ok (), s1))"

definition seal_response :: "('d, 'r) peer_env \<Rightarrow> device_identity \<Rightarrow> authenticated_request \<Rightarrow> 'r \<Rightarrow> nat \<Rightarrow> (string, peer_rpc_error) result" where
  "seal_response ev ident q response now =
     (case pe_print_response ev \<lparr>rs_version = peer_rpc_version, rs_recipient = aq_author q,
            rs_request_id = re_request_id (aq_envelope q), rs_request_event_id = aq_event_id q,
            rs_request_nonce = re_nonce (aq_envelope q), rs_response = response\<rparr> of
        None \<Rightarrow> Err PeerInvalid
      | Some plain \<Rightarrow>
          (case encrypt_event ev ident (aq_author q) peer_response_kind plain now of
             Err _ \<Rightarrow> Err PeerIdentity
           | Ok e \<Rightarrow> Ok (pe_as_json ev e)))"

text \<open>\<open>now'\<close> is the clock when the response is sealed.\<close>

definition handle_peer :: "('d, 'r) peer_env \<Rightarrow> device_identity \<Rightarrow> string \<Rightarrow> nat \<Rightarrow> nat \<Rightarrow> ('d, string) peer_step" where
  "handle_peer ev ident json now now' s =
     and_then (authenticate ev ident json now False s) (\<lambda>q s1.
     and_then (case dispatch ev (aq_context q) (re_request (aq_envelope q)) s1 of
          (None, s2) \<Rightarrow> (Err Unauthorized, s2) | (Some response, s2) \<Rightarrow> (Ok response, s2)) (\<lambda>response s2.
     and_then (note_certificate ev q response s2) (\<lambda>_ s3.
       (seal_response ev ident q response now', s3))))"

text \<open>The status of the HTTP response, with the body on success.\<close>

definition peer_rpc :: "('d, 'r) peer_env \<Rightarrow> device_identity \<Rightarrow> string \<Rightarrow> nat \<Rightarrow> nat \<Rightarrow> 'd peer_state \<Rightarrow> (nat \<times> string option) \<times> 'd peer_state" where
  "peer_rpc ev ident body now now' s =
     (if \<not> utf8_valid body then ((400, None), s)
      else case handle_peer ev ident body now now' s of
          (Ok response, s1) \<Rightarrow> ((200, Some response), s1)
        | (Err e, s1) \<Rightarrow>
            ((case e of Unauthorized \<Rightarrow> 403 | PeerReplay \<Rightarrow> 409 | PeerTime \<Rightarrow> 401 | PeerTrust \<Rightarrow> 503 | PeerStorage \<Rightarrow> 503 | _ \<Rightarrow> 400, None), s1))"

text \<open>The start of a server, \<open>with_shared_authority\<close>: the authorization is loaded first.\<close>

definition start_peer_server :: "('d, 'r) peer_env \<Rightarrow> 'd \<Rightarrow> ('d peer_state, peer_rpc_error) result \<times> 'd" where
  "start_peer_server ev d =
     (case load_authorization (pe_auth ev) [] d of
        (Err _, d1) \<Rightarrow> (Err PeerStorage, d1)
      | (Ok a, d1) \<Rightarrow>
          (case prepare_replay_directory (pe_auth ev) d1 of
             (Err e, d2) \<Rightarrow> (Err e, d2)
           | (Ok _, d2) \<Rightarrow> (Ok \<lparr>ps_auth = a\<lparr>as_disk := d2\<rparr>, ps_seen = []\<rparr>, d2)))"

subsection \<open>The client\<close>

record encoded_request =
  eq_event_json :: string
  eq_event_id :: string
  eq_request_id :: string
  eq_nonce :: string
  eq_recipient :: string

definition encode_request ::
  "('d, 'r) peer_env \<Rightarrow> device_identity \<Rightarrow> string option \<Rightarrow> string list \<Rightarrow> string \<Rightarrow> rpc_request \<Rightarrow> nat \<Rightarrow> string \<Rightarrow> string \<Rightarrow>
   (encoded_request, peer_rpc_error) result" where
  "encode_request ev ident pass revocations recipient request now request_id nonce =
     (case validate_peer_token request_id of
        Err x \<Rightarrow> Err x
      | Ok _ \<Rightarrow>
          (case validate_peer_token nonce of
             Err x \<Rightarrow> Err x
           | Ok _ \<Rightarrow>
               (case di_state ident of
                  Owned _ _ _ _ \<Rightarrow>
                    (case pe_print_request ev \<lparr>re_version = peer_rpc_version, re_recipient = recipient, re_request_id = request_id,
                           re_nonce = nonce, re_owner_statement = di_owner_statement ident, re_person_pass = pass,
                           re_revocations = revocations, re_request = request\<rparr> of
                       None \<Rightarrow> Err PeerInvalid
                     | Some plain \<Rightarrow>
                         (case encrypt_event ev ident recipient peer_request_kind plain now of
                            Err _ \<Rightarrow> Err PeerIdentity
                          | Ok e \<Rightarrow> Ok \<lparr>eq_event_json = pe_as_json ev e, eq_event_id = ne_id e, eq_request_id = request_id,
                              eq_nonce = nonce, eq_recipient = recipient\<rparr>))
                | _ \<Rightarrow> Err PeerIdentity)))"

definition decode_response ::
  "('d, 'r) peer_env \<Rightarrow> device_identity \<Rightarrow> string \<Rightarrow> encoded_request \<Rightarrow> string \<Rightarrow> nat \<Rightarrow> ('r, peer_rpc_error) result" where
  "decode_response ev ident expected_peer request json now =
     (case verify_encrypted_event (peer_nostr ev) json of
        Err _ \<Rightarrow> Err PeerInvalid
      | Ok e \<Rightarrow>
          if ne_kind e \<noteq> peer_response_kind \<or> ne_author e \<noteq> expected_peer then Err WrongKind
          else case check_time (ne_created_at e) now of
              Err x \<Rightarrow> Err x
            | Ok _ \<Rightarrow>
                (case di_device_key ident of
                   None \<Rightarrow> Err PeerIdentity
                 | Some own \<Rightarrow>
                     if \<not> has_exact_recipient (ne_tags e) own then Err PeerBinding
                     else (case decrypt_event ev ident json of
                         Err _ \<Rightarrow> Err PeerInvalid
                       | Ok plain \<Rightarrow>
                           (case pe_parse_response ev plain of
                              None \<Rightarrow> Err PeerInvalid
                            | Some r \<Rightarrow>
                                if rs_version r \<noteq> peer_rpc_version \<or> rs_recipient r \<noteq> own \<or>
                                   rs_request_id r \<noteq> eq_request_id request \<or> rs_request_event_id r \<noteq> eq_event_id request \<or>
                                   rs_request_nonce r \<noteq> eq_nonce request
                                then Err PeerBinding else Ok (rs_response r)))))"

end
