(* ===== verification/Peer_Replay.thy ===== *)
theory Peer_Replay
  imports Peer_Requests
begin

text \<open>
  What the server of \<open>Peer_Requests\<close> guarantees of a request: only a signed, fresh and permitted request
  to this device is accepted, a refused one changes nothing, a security mutation is accepted once and
  for all, any request once within the life of the process, and the answer reaches the caller.
\<close>

subsection \<open>Accepted requests\<close>

lemma on_auth_seen [simp]: "ps_seen (snd (on_auth f e s)) = ps_seen s"
  by (simp add: on_auth_def case_prod_beta Let_def)

lemma on_peer_disk_frame [simp]:
  "ps_seen (snd (on_peer_disk f s)) = ps_seen s" "as_revocations (ps_auth (snd (on_peer_disk f s))) = as_revocations (ps_auth s)"
  "as_pending (ps_auth (snd (on_peer_disk f s))) = as_pending (ps_auth s)" "as_memo (ps_auth (snd (on_peer_disk f s))) = as_memo (ps_auth s)"
  by (simp_all add: on_peer_disk_def case_prod_beta Let_def)

lemma on_auth_eq: "on_auth f e s = (map_err (\<lambda>_. e) (fst (f (ps_auth s))), s\<lparr>ps_auth := snd (f (ps_auth s))\<rparr>)"
  by (simp add: on_auth_def case_prod_beta Let_def)

lemma on_peer_disk_eq:
  "on_peer_disk f s = (fst (f (as_disk (ps_auth s))), s\<lparr>ps_auth := (ps_auth s)\<lparr>as_disk := snd (f (as_disk (ps_auth s)))\<rparr>\<rparr>)"
  by (simp add: on_peer_disk_def case_prod_beta Let_def)

lemma map_err_Ok [simp]: "map_err f r = Ok a \<longleftrightarrow> r = Ok a"
  by (cases r) simp_all

lemma map_err_Err: "map_err f r = Err e \<longleftrightarrow> (\<exists>x. r = Err x \<and> e = f x)"
  by (cases r) auto

lemma open_request_Ok:
  assumes "open_request ev ident json now = Ok (e, envelope)"
  shows "signed (peer_nostr ev) json e" and "ne_kind e = peer_request_kind"
    and "ne_created_at e \<le> now + clock_window_seconds" and "now \<le> ne_created_at e + clock_window_seconds"
    and "\<exists>key plain. di_device_key ident = Some key \<and> ne_tags e = [[''p'', key]] \<and> re_version envelope = peer_rpc_version \<and>
      re_recipient envelope = key \<and> pe_decrypt ev key (ne_author e) (ne_content e) = Some plain \<and>
      pe_parse_request ev plain = Some envelope"
    and "validate_hex_32 (re_request_id envelope)" and "validate_hex_32 (re_nonce envelope)"
  using assms
  by (auto simp: open_request_def verify_encrypted_event_def verify_event_bounded_def signed_def check_time_def decrypt_event_def
      has_exact_recipient_def validate_peer_token_def validate_hex_32_def
      split: result.splits option.splits if_splits)

lemma authenticate_Ok:
  assumes "authenticate ev ident json now route s = (Ok q, s')"
  obtains e envelope a s1 s2 s3 where "open_request ev ident json now = Ok (e, envelope)"
    and "on_auth (attempt_peer (pe_auth ev) (di_state ident) (ne_author e) (re_owner_statement envelope)
      (re_person_pass envelope) (re_revocations envelope) now) PeerInvalid s = (Ok a, s1)"
    and "authorize (at_context a) (re_request envelope) = Ok ()" and "is_object_request (re_request envelope) = route"
    and "consume ev (ne_author e) (re_nonce envelope) (ne_created_at e) now (is_security_mutation (re_request envelope)) s1 = (Ok (), s2)"
    and "on_auth (commit_revocations (pe_auth ev) a) PeerStorage s2 = (Ok (), s3)"
    and "reconcile_certificate_trust ev (di_state ident) now s3 = (Ok (), s')"
    and "q = \<lparr>aq_envelope = envelope, aq_author = ne_author e, aq_event_id = ne_id e, aq_context = at_context a\<rparr>"
proof -
  obtain e envelope where o: "open_request ev ident json now = Ok (e, envelope)"
    using assms by (auto simp: authenticate_def split: result.splits)
  from assms obtain a s1 where a: "on_auth (attempt_peer (pe_auth ev) (di_state ident) (ne_author e) (re_owner_statement envelope)
      (re_person_pass envelope) (re_revocations envelope) now) PeerInvalid s = (Ok a, s1)"
    and r: "(if is_object_request (re_request envelope) \<noteq> route then (Err WrongKind, s1)
          else case authorize (at_context a) (re_request envelope) of
              Err _ \<Rightarrow> (Err Unauthorized, s1)
            | Ok _ \<Rightarrow>
                and_then (consume ev (ne_author e) (re_nonce envelope) (ne_created_at e) now
                  (is_security_mutation (re_request envelope)) s1) (\<lambda>_ s2.
                and_then (on_auth (commit_revocations (pe_auth ev) a) PeerStorage s2) (\<lambda>_ s3.
                and_then (reconcile_certificate_trust ev (di_state ident) now s3) (\<lambda>_ s4.
                  (Ok \<lparr>aq_envelope = envelope, aq_author = ne_author e, aq_event_id = ne_id e, aq_context = at_context a\<rparr>, s4))))) = (Ok q, s')"
    unfolding authenticate_def o by (auto dest!: and_then_OkD)
  from r show thesis
    by (auto intro: that [OF o a] dest!: and_then_OkD split: if_splits result.splits)
qed

lemma take_back_seen [simp]: "ps_seen (snd (take_back ev plan s)) = ps_seen s"
proof (induction ev plan s rule: take_back.induct)
  case (2 ev r rs s)
  let ?d = "dispatch ev TrustReconciliation (MoonlightCertificateRevoke (cr_host_uuid r) (cr_client_certificate r)) s"
  obtain o1 s1 where d: "?d = (o1, s1)" by fastforce
  have s1: "ps_seen s1 = ps_seen s" using arg_cong [OF d, of "ps_seen \<circ> snd"] by (auto simp: dispatch_def split: result.splits)
  let ?c = "on_auth (complete_certificate_revocation (pe_auth ev) (cr_device r)) PeerStorage s1"
  obtain r2 s2 where c: "?c = (r2, s2)" by fastforce
  have s2: "ps_seen s2 = ps_seen s" using arg_cong [OF c, of "ps_seen \<circ> snd"] s1 by simp
  from 2 [OF d [symmetric]] s1 s2 c show ?case
    by (cases o1; cases r2) (auto simp: d and_then_def split: if_splits)
qed simp

lemma and_then_snd:
  assumes "\<And>a t. x = (Ok a, t) \<Longrightarrow> P (snd (f a t))" and "P (snd x)"
  shows "P (snd (and_then x f))"
  using assms by (cases x; cases "fst x") auto

lemma reconcile_seen [simp]: "ps_seen (snd (reconcile_certificate_trust ev local now s)) = ps_seen s"
  unfolding reconcile_certificate_trust_def by (rule and_then_snd) (auto dest: arg_cong [where f = "ps_seen \<circ> snd"])

lemma remember_Ok:
  assumes "remember sender nonce created now s = (r, s')"
  shows "ps_auth s' = ps_auth s" and "bt_wf (ps_seen s) \<Longrightarrow> bt_wf (ps_seen s')"
    and "bt_get (ps_seen s') (sender, nonce) = Some created"
    and "r = Ok () \<or> r = Err PeerReplay"
    and "bt_wf (ps_seen s) \<Longrightarrow> r = Ok () \<longleftrightarrow> (\<forall>t. bt_get (ps_seen s) (sender, nonce) = Some t \<longrightarrow> t + clock_window_seconds < now)"
    and "bt_wf (ps_seen s) \<Longrightarrow> k \<noteq> (sender, nonce) \<Longrightarrow> bt_get (ps_seen s') k =
      (case bt_get (ps_seen s) k of None \<Rightarrow> None | Some t \<Rightarrow> if now - t \<le> clock_window_seconds then Some t else None)"
  using assms by (auto simp: remember_def Let_def bt_get_retain split: option.splits if_splits)

lemma consume_auth:
  "as_revocations (ps_auth (snd (consume ev sender nonce created now persist s))) = as_revocations (ps_auth s)"
  "as_pending (ps_auth (snd (consume ev sender nonce created now persist s))) = as_pending (ps_auth s)"
  "as_memo (ps_auth (snd (consume ev sender nonce created now persist s))) = as_memo (ps_auth s)"
  by (auto simp: consume_def on_peer_disk_eq remember_def Let_def split: create_outcome.splits prod.splits)

lemma consume_remember:
  assumes "consume ev sender nonce created now persist s = (Ok (), s')"
  obtains s1 where "remember sender nonce created now s1 = (Ok (), s')" and "ps_seen s1 = ps_seen s"
    and "persist \<Longrightarrow> fst (ad_create_new (ae_disk (pe_auth ev)) (replay_marker (pe_auth ev) sender nonce) (as_disk (ps_auth s))) = Created \<and>
      as_disk (ps_auth s1) = snd (ad_create_new (ae_disk (pe_auth ev)) (replay_marker (pe_auth ev) sender nonce) (as_disk (ps_auth s)))"
    and "\<not> persist \<Longrightarrow> s1 = s"
  using assms by (auto simp: consume_def on_peer_disk_eq split: if_splits create_outcome.splits prod.splits)

lemma attempt_on_auth:
  assumes "on_auth (attempt_peer ev local sender st pass events now) x s = (Ok a, s1)"
  shows "attempt_peer ev local sender st pass events now (ps_auth s) = (Ok a, ps_auth s1)" and "ps_seen s1 = ps_seen s"
  using assms by (auto simp: on_auth_eq prod_eq_iff)

lemma authenticate_seen:
  assumes "authenticate ev ident json now route s = (Ok q, s')" and "bt_wf (ps_seen s)"
  shows "\<exists>e. signed (peer_nostr ev) json e \<and> ne_author e = aq_author q \<and>
    (\<forall>t. bt_get (ps_seen s) (aq_author q, re_nonce (aq_envelope q)) = Some t \<longrightarrow> t + clock_window_seconds < now) \<and>
    bt_get (ps_seen s') (aq_author q, re_nonce (aq_envelope q)) = Some (ne_created_at e)"
proof -
  obtain e envelope a s1 s2 s3 where o: "open_request ev ident json now = Ok (e, envelope)"
    and a: "on_auth (attempt_peer (pe_auth ev) (di_state ident) (ne_author e) (re_owner_statement envelope)
      (re_person_pass envelope) (re_revocations envelope) now) PeerInvalid s = (Ok a, s1)"
    and c: "consume ev (ne_author e) (re_nonce envelope) (ne_created_at e) now (is_security_mutation (re_request envelope)) s1 = (Ok (), s2)"
    and m: "on_auth (commit_revocations (pe_auth ev) a) PeerStorage s2 = (Ok (), s3)"
    and r: "reconcile_certificate_trust ev (di_state ident) now s3 = (Ok (), s')"
    and q: "q = \<lparr>aq_envelope = envelope, aq_author = ne_author e, aq_event_id = ne_id e, aq_context = at_context a\<rparr>"
    by (rule authenticate_Ok [OF assms(1)])
  obtain s1' where t: "remember (ne_author e) (re_nonce envelope) (ne_created_at e) now s1' = (Ok (), s2)" "ps_seen s1' = ps_seen s1"
    by (rule consume_remember [OF c])
  have "ps_seen s3 = ps_seen s2" "ps_seen s' = ps_seen s3" "ps_seen s1 = ps_seen s"
    using arg_cong [OF m, of "ps_seen \<circ> snd"] arg_cong [OF r, of "ps_seen \<circ> snd"] arg_cong [OF a, of "ps_seen \<circ> snd"] by simp_all
  with remember_Ok(3,5) [OF t(1)] t(2) assms(2) open_request_Ok(1) [OF o] q show ?thesis by auto
qed

text \<open>
  C34. Only an authentic request is accepted. Its event is signed, of the kind of requests and at most two
  minutes from the clock; it is addressed to this device alone, outside and inside of the encryption;
  its caller is the one that the evidence makes of its author, with the revocations known and those it
  brings, and that caller may make this request; and no request of this author with this nonce is
  remembered from the last two minutes.
\<close>

theorem request_authenticated:
  assumes "memo_ok (peer_nostr ev) (as_memo (ps_auth s))" and "bt_wf (ps_seen s)"
    and "authenticate ev ident json now route s = (Ok q, s')"
  shows "\<exists>e key plain candidates. signed (peer_nostr ev) json e \<and> ne_kind e = peer_request_kind \<and>
    ne_created_at e \<le> now + clock_window_seconds \<and> now \<le> ne_created_at e + clock_window_seconds \<and>
    di_device_key ident = Some key \<and> ne_tags e = [[''p'', key]] \<and>
    pe_decrypt ev key (ne_author e) (ne_content e) = Some plain \<and> pe_parse_request ev plain = Some (aq_envelope q) \<and>
    re_recipient (aq_envelope q) = key \<and> aq_author q = ne_author e \<and> aq_event_id q = ne_id e \<and>
    aq_context q = PeerContext (fst (principal_for (peer_nostr ev) (di_state ident) (ne_author e) (re_owner_statement (aq_envelope q))
      (re_person_pass (aq_envelope q)) now (as_revocations (ps_auth s) @ candidates) [])) \<and>
    parse_revocations (peer_nostr ev) (re_revocations (aq_envelope q)) = Ok candidates \<and>
    authorize (aq_context q) (re_request (aq_envelope q)) = Ok () \<and> is_object_request (re_request (aq_envelope q)) = route \<and>
    (\<forall>t. bt_get (ps_seen s) (ne_author e, re_nonce (aq_envelope q)) = Some t \<longrightarrow> t + clock_window_seconds < now)"
proof -
  obtain e envelope a s1 s2 s3 where o: "open_request ev ident json now = Ok (e, envelope)"
    and a: "on_auth (attempt_peer (pe_auth ev) (di_state ident) (ne_author e) (re_owner_statement envelope)
      (re_person_pass envelope) (re_revocations envelope) now) PeerInvalid s = (Ok a, s1)"
    and z: "authorize (at_context a) (re_request envelope) = Ok ()" "is_object_request (re_request envelope) = route"
    and q: "q = \<lparr>aq_envelope = envelope, aq_author = ne_author e, aq_event_id = ne_id e, aq_context = at_context a\<rparr>"
    by (rule authenticate_Ok [OF assms(3)])
  note at = attempt_on_auth(1) [OF a]
  have cand: "parse_revocations (peer_nostr ev) (re_revocations envelope) = Ok (at_revocations a)"
    using at by (auto simp: attempt_peer_def peer_nostr_def Let_def case_prod_beta split: result.splits)
  have ctx: "at_context a = PeerContext (fst (principal_for (peer_nostr ev) (di_state ident) (ne_author e) (re_owner_statement envelope)
      (re_person_pass envelope) now (as_revocations (ps_auth s) @ at_revocations a) []))"
    using attempt_Ok(5) [OF at] principal_for_memo(1) [OF assms(1)] by (simp add: peer_nostr_def)
  from authenticate_seen [OF assms(3,2)] q
  have "\<forall>t. bt_get (ps_seen s) (ne_author e, re_nonce envelope) = Some t \<longrightarrow> t + clock_window_seconds < now" by auto
  with open_request_Ok [OF o] z q cand ctx show ?thesis by auto
qed

subsection \<open>Refused requests\<close>

lemma and_then_ErrD:
  "and_then x f = (Err e, w') \<Longrightarrow> x = (Err e, w') \<or> (\<exists>a w. x = (Ok a, w) \<and> f a w = (Err e, w'))"
  by (auto simp: and_then_def split: prod.splits result.splits)

lemma take_back_Err: "take_back ev plan s = (Err x, s') \<Longrightarrow> x \<in> {PeerTrust, PeerStorage}"
proof (induction ev plan s rule: take_back.induct)
  case (2 ev r rs s)
  obtain o1 s1 where d: "dispatch ev TrustReconciliation (MoonlightCertificateRevoke (cr_host_uuid r) (cr_client_certificate r)) s = (o1, s1)"
    by fastforce
  show ?case
  proof (cases o1)
    case (Some response)
    with 2(2) d have "\<not> pe_revoked ev response \<and> x = PeerTrust \<or>
        pe_revoked ev response \<and> and_then (on_auth (complete_certificate_revocation (pe_auth ev) (cr_device r)) PeerStorage s1)
          (\<lambda>_ s2. take_back ev rs s2) = (Err x, s')" by (auto split: if_splits)
    then show ?thesis
    proof (elim disjE conjE)
      assume rev: "pe_revoked ev response"
        and t: "and_then (on_auth (complete_certificate_revocation (pe_auth ev) (cr_device r)) PeerStorage s1) (\<lambda>_ s2. take_back ev rs s2) = (Err x, s')"
      from and_then_ErrD [OF t] show ?thesis
      proof (elim disjE exE conjE)
        fix a s2 assume "on_auth (complete_certificate_revocation (pe_auth ev) (cr_device r)) PeerStorage s1 = (Ok a, s2)" "take_back ev rs s2 = (Err x, s')"
        with 2(1) [OF d [symmetric] Some] rev show ?thesis by simp
      qed (auto simp: on_auth_eq map_err_Err)
    qed simp
  qed (use 2(2) d in simp)
qed simp

lemma reconcile_Err: "reconcile_certificate_trust ev local now s = (Err x, s') \<Longrightarrow> x \<in> {PeerTrust, PeerStorage}"
  unfolding reconcile_certificate_trust_def
  by (drule and_then_ErrD) (auto simp: on_auth_eq map_err_Err dest: take_back_Err)

lemma attempt_frame:
  "as_revocations (snd (attempt_peer ev local sender st pass events now s)) = as_revocations s"
  "as_disk (snd (attempt_peer ev local sender st pass events now s)) = as_disk s"
  "as_pending (snd (attempt_peer ev local sender st pass events now s)) = as_pending s"
  by (simp_all add: attempt_peer_def case_prod_beta Let_def split: result.splits)

definition same_but_memo :: "'d peer_state \<Rightarrow> 'd peer_state \<Rightarrow> bool" where
  "same_but_memo s t \<longleftrightarrow> as_disk (ps_auth t) = as_disk (ps_auth s) \<and> as_revocations (ps_auth t) = as_revocations (ps_auth s) \<and>
     as_pending (ps_auth t) = as_pending (ps_auth s) \<and> ps_seen t = ps_seen s"

lemma consume_Err: "consume ev sender nonce created now persist s = (Err x, s') \<Longrightarrow> x \<in> {PeerReplay, PeerStorage}"
  by (auto simp: consume_def remember_def Let_def split: if_splits create_outcome.splits prod.splits)

text \<open>
  C35. A request that is refused has no effect. Unless the refusal is a replay or a failure of storage
  or trust, which only come after the request was found permitted, the disk, the revocations and the
  remembered requests are as before, and no handler ran; and a replay never adds a revocation.
\<close>

theorem refused_request_has_no_effect:
  assumes "authenticate ev ident json now route s = (Err x, s')"
  shows "(x \<notin> {PeerReplay, PeerStorage, PeerTrust} \<longrightarrow> same_but_memo s s') \<and>
    (x = PeerReplay \<longrightarrow> as_revocations (ps_auth s') = as_revocations (ps_auth s) \<and> as_pending (ps_auth s') = as_pending (ps_auth s))"
proof (cases "open_request ev ident json now")
  case (Err y)
  with assms show ?thesis by (simp add: authenticate_def same_but_memo_def)
next
  case (Ok p)
  obtain e envelope where p: "p = (e, envelope)" by (cases p)
  let ?at = "on_auth (attempt_peer (pe_auth ev) (di_state ident) (ne_author e) (re_owner_statement envelope)
      (re_person_pass envelope) (re_revocations envelope) now) PeerInvalid s"
  obtain r s1 where a: "?at = (r, s1)" by fastforce
  have s1: "same_but_memo s s1" using arg_cong [OF a, of snd] by (auto simp: same_but_memo_def on_auth_eq attempt_frame)
  show ?thesis
  proof (cases r)
    case (Ok at)
    let ?c = "consume ev (ne_author e) (re_nonce envelope) (ne_created_at e) now (is_security_mutation (re_request envelope)) s1"
    from assms \<open>open_request ev ident json now = Ok p\<close> p a Ok
    have "(x \<in> {WrongKind, Unauthorized} \<and> s' = s1) \<or>
      and_then ?c (\<lambda>_ s2.
                and_then (on_auth (commit_revocations (pe_auth ev) at) PeerStorage s2) (\<lambda>_ s3.
                and_then (reconcile_certificate_trust ev (di_state ident) now s3) (\<lambda>_ s4.
                  (Ok \<lparr>aq_envelope = envelope, aq_author = ne_author e, aq_event_id = ne_id e, aq_context = at_context at\<rparr>, s4)))) = (Err x, s')"
      by (auto simp: authenticate_def split: if_splits result.splits)
    then show ?thesis
    proof
      assume "and_then ?c (\<lambda>_ s2.
                and_then (on_auth (commit_revocations (pe_auth ev) at) PeerStorage s2) (\<lambda>_ s3.
                and_then (reconcile_certificate_trust ev (di_state ident) now s3) (\<lambda>_ s4.
                  (Ok \<lparr>aq_envelope = envelope, aq_author = ne_author e, aq_event_id = ne_id e, aq_context = at_context at\<rparr>, s4)))) = (Err x, s')"
      then have "?c = (Err x, s') \<or> x \<in> {PeerStorage, PeerTrust}"
        by (auto dest!: and_then_ErrD reconcile_Err simp: on_auth_eq map_err_Err)
      moreover have "as_revocations (ps_auth s') = as_revocations (ps_auth s) \<and> as_pending (ps_auth s') = as_pending (ps_auth s) \<and> x \<in> {PeerReplay, PeerStorage}"
        if c: "?c = (Err x, s')"
      proof -
        have s': "s' = snd ?c" by (simp only: c snd_conv)
        have "as_revocations (ps_auth s') = as_revocations (ps_auth s1)" "as_pending (ps_auth s') = as_pending (ps_auth s1)"
          unfolding s' by (rule consume_auth)+
        with s1 consume_Err [OF c] show ?thesis by (simp add: same_but_memo_def)
      qed
      ultimately show ?thesis by auto
    qed (use s1 in \<open>auto simp: same_but_memo_def\<close>)
  next
    case (Err y)
    with assms \<open>open_request ev ident json now = Ok p\<close> p a s1 show ?thesis
      by (auto simp: authenticate_def on_auth_eq map_err_Err)
  qed
qed

subsection \<open>Runs of the server\<close>

text \<open>
  The operations of a running host: a request on either route, with the identity and the clock that it
  meets, the switch to another identity, and a new start of the process, whether it succeeds or not.
\<close>

datatype peer_op =
    CallPeer device_identity string nat nat
  | CallObject device_identity string nat
  | SwitchIdentity
  | StartAgain

fun peer_step :: "('d, 'r) peer_env \<Rightarrow> 'd peer_state \<Rightarrow> peer_op \<Rightarrow> 'd peer_state" where
  "peer_step ev s (CallPeer ident json now now') = snd (handle_peer ev ident json now now' s)"
| "peer_step ev s (CallObject ident json now) = snd (authenticate ev ident json now True s)"
| "peer_step ev s SwitchIdentity = snd (on_auth (reset_after_identity_switch (pe_auth ev)) PeerStorage s)"
| "peer_step ev s StartAgain =
     (case start_peer_server ev (as_disk (ps_auth s)) of
        (Ok t, _) \<Rightarrow> t
      | (Err _, d) \<Rightarrow> s\<lparr>ps_auth := (ps_auth s)\<lparr>as_disk := d\<rparr>\<rparr>)"

subsection \<open>Markers stay\<close>

text \<open>
  The laws of the guard's files: a marker that was created was not there before and is there
  afterwards, and it stays when anything else happens: operations on files of the two other
  directories, and the handlers. Names of files have no separators, nor do keys, which are hexadecimal.
\<close>

definition marked :: "'d auth_env \<Rightarrow> string \<Rightarrow> string \<Rightarrow> 'd \<Rightarrow> bool" where
  "marked ev sender nonce d \<longleftrightarrow> ad_node (ae_disk ev) d (replay_marker ev sender nonce) \<noteq> None"

definition other_directories :: "'d auth_env \<Rightarrow> string set" where
  "other_directories ev = {revocation_directory ev, certificate_directory ev}"

definition stays :: "('d \<Rightarrow> bool) \<Rightarrow> ('d \<Rightarrow> 'a \<times> 'd) \<Rightarrow> bool" where
  "stays P f \<longleftrightarrow> (\<forall>d. P d \<longrightarrow> P (snd (f d)))"

definition marker_laws :: "'d auth_env \<Rightarrow> bool" where
  "marker_laws ev \<longleftrightarrow>
     (\<forall>sender nonce. let dk = ae_disk ev; P = marked ev sender nonce in
        (\<forall>d d'. ad_create_new dk (replay_marker ev sender nonce) d = (Created, d') \<longrightarrow> \<not> P d \<and> P d') \<and>
        (\<forall>p c. stays P (ad_mkdir dk p) \<and> stays P (ad_create_new dk p) \<and> stays P (ad_write dk p c) \<and> stays P (ad_sync dk p) \<and>
           stays P (ad_sync_dir dk p)) \<and>
        (\<forall>dir n p. dir \<in> other_directories ev \<and> name_ok n \<longrightarrow>
           stays P (ad_rename dk (path_join dir n) p) \<and> stays P (ad_remove dk (path_join dir n)))) \<and>
     (\<forall>d. CHR ''/'' \<notin> set (ad_random (ae_disk ev) d)) \<and> (\<forall>b. CHR ''/'' \<notin> set (ae_sha256 ev b)) \<and>
     (\<forall>dir d names n. ad_entries (ae_disk ev) dir d = Some names \<and> Some n \<in> set names \<longrightarrow> name_ok n)"

definition guard_laws :: "('d, 'r) peer_env \<Rightarrow> bool" where
  "guard_laws ev \<longleftrightarrow> marker_laws (pe_auth ev) \<and>
     (\<forall>sender nonce c r. stays (marked (pe_auth ev) sender nonce) (pe_serve ev c r)) \<and>
     (\<forall>j e. signed (peer_nostr ev) j e \<longrightarrow> validate_hex_32 (ne_author e))"

lemma staysD: "stays P f \<Longrightarrow> P d \<Longrightarrow> P (snd (f d))"
  by (simp add: stays_def)

lemma stays_and_then:
  "stays P f \<Longrightarrow> (\<And>a. stays P (g a)) \<Longrightarrow> stays P (\<lambda>d. and_then (f d) g)"
  by (auto simp: stays_def intro: and_then_keeps)

lemma stays_storage: "stays P f \<Longrightarrow> stays P (\<lambda>d. storage_step (f d))"
  by (simp add: stays_def storage_step_def)

lemma temporary_name_ok: "marker_laws ev \<Longrightarrow> name_ok (temporary_name ev content d)"
  by (auto simp: marker_laws_def temporary_name_def name_ok_def)

lemma marker_lawsD:
  assumes "marker_laws ev"
  shows "ad_create_new (ae_disk ev) (replay_marker ev sender nonce) d = (Created, d') \<Longrightarrow> \<not> marked ev sender nonce d \<and> marked ev sender nonce d'"
    and "stays (marked ev sender nonce) (ad_mkdir (ae_disk ev) p)" and "stays (marked ev sender nonce) (ad_create_new (ae_disk ev) p)"
    and "stays (marked ev sender nonce) (ad_write (ae_disk ev) p c)" and "stays (marked ev sender nonce) (ad_sync (ae_disk ev) p)"
    and "stays (marked ev sender nonce) (ad_sync_dir (ae_disk ev) p)"
    and "dir \<in> other_directories ev \<Longrightarrow> name_ok n \<Longrightarrow> stays (marked ev sender nonce) (ad_rename (ae_disk ev) (path_join dir n) p)"
    and "dir \<in> other_directories ev \<Longrightarrow> name_ok n \<Longrightarrow> stays (marked ev sender nonce) (ad_remove (ae_disk ev) (path_join dir n))"
  using assms unfolding marker_laws_def Let_def by blast+

lemma stays_prepare: "marker_laws ev \<Longrightarrow> stays (marked ev sender nonce) (prepare_private_directory ev p)"
  unfolding prepare_private_directory_def
  by (rule stays_and_then) (auto simp: stays_def storage_step_def dest: marker_lawsD(2) [THEN staysD] split: option.splits)

lemma stays_write:
  assumes "marker_laws ev" and "dir \<in> other_directories ev"
  shows "stays (marked ev sender nonce) (write_private_atomically ev dir name content)"
proof -
  have temp: "stays (marked ev sender nonce) (write_temporary ev dir (path_join dir n) path content)" if "name_ok n" for n path
    unfolding write_temporary_def
    by (intro stays_and_then stays_storage marker_lawsD [OF assms(1)] assms(2) that)
      (use marker_lawsD(3) [OF assms(1)] in \<open>simp add: stays_def case_prod_beta\<close>)
  show ?thesis unfolding stays_def
  proof (intro allI impI)
    fix d assume d: "marked ev sender nonce d"
    let ?n = "temporary_name ev content d"
    have "name_ok ?n" using temporary_name_ok [OF assms(1)] .
    with staysD [OF temp d, of ?n "path_join dir name"] staysD [OF marker_lawsD(8) [OF assms(1,2)]]
    show "marked ev sender nonce (snd (write_private_atomically ev dir name content d))"
      by (auto simp: write_private_atomically_def Let_def split: prod.splits result.splits)
  qed
qed

lemma removable_names:
  "removable_entries ev dir es d = Ok ps \<Longrightarrow> p \<in> set ps \<Longrightarrow> \<exists>n. Some n \<in> set es \<and> p = path_join dir n"
  by (induction ev dir es d arbitrary: ps rule: removable_entries.induct) (fastforce split: option.splits if_splits result.splits)+

lemma stays_remove_all:
  "(\<And>p. p \<in> set ps \<Longrightarrow> stays P (ad_remove (ae_disk ev) p)) \<Longrightarrow> stays P (remove_all_files ev ps)"
proof (induction ps)
  case (Cons p ps)
  have "stays P (ad_remove (ae_disk ev) p)" "stays P (remove_all_files ev ps)" using Cons by auto
  then show ?case by (auto simp: stays_def split: prod.splits result.splits)
qed (simp add: stays_def)

lemma stays_clear:
  assumes "marker_laws ev" and "dir \<in> other_directories ev"
  shows "stays (marked ev sender nonce) (clear_private_directory ev dir)"
  unfolding clear_private_directory_def
proof (rule stays_and_then)
  show "stays (marked ev sender nonce) (\<lambda>d1. case ad_entries (ae_disk ev) dir d1 of
         None \<Rightarrow> (Err AuthorizationStorage, d1)
       | Some es \<Rightarrow>
           (case removable_entries ev dir es d1 of
              Err e \<Rightarrow> (Err e, d1)
            | Ok ps \<Rightarrow> and_then (remove_all_files ev ps d1) (\<lambda>_ d2. storage_step (ad_sync_dir (ae_disk ev) dir d2))))"
    unfolding stays_def
  proof (intro allI impI)
    fix d assume d: "marked ev sender nonce d"
    have st: "stays (marked ev sender nonce) (\<lambda>d. and_then (remove_all_files ev ps d) (\<lambda>_ d2. storage_step (ad_sync_dir (ae_disk ev) dir d2)))"
      if "ad_entries (ae_disk ev) dir d = Some es" "removable_entries ev dir es d = Ok ps" for es ps
    proof (intro stays_and_then stays_storage marker_lawsD [OF assms(1)] stays_remove_all)
      fix p assume "p \<in> set ps"
      from removable_names [OF that(2) this] obtain n where n: "Some n \<in> set es" "p = path_join dir n" by metis
      with that(1) have "name_ok n" using assms(1) unfolding marker_laws_def by blast
      with n(2) show "stays (marked ev sender nonce) (ad_remove (ae_disk ev) p)" using marker_lawsD(8) [OF assms] by simp
    qed
    from staysD [OF st d] d
    show "marked ev sender nonce (snd (case ad_entries (ae_disk ev) dir d of
         None \<Rightarrow> (Err AuthorizationStorage, d)
       | Some es \<Rightarrow>
           (case removable_entries ev dir es d of
              Err e \<Rightarrow> (Err e, d)
            | Ok ps \<Rightarrow> and_then (remove_all_files ev ps d) (\<lambda>_ d2. storage_step (ad_sync_dir (ae_disk ev) dir d2)))))"
      by (auto split: option.splits result.splits)
  qed
qed (rule stays_prepare [OF assms(1)])

lemma stays_on_disk: "stays P f \<Longrightarrow> stays (\<lambda>s. P (as_disk s)) (on_disk f)"
  by (simp add: stays_def on_disk_def case_prod_beta Let_def)

lemma stays_on_auth: "stays (\<lambda>a. P (as_disk a)) f \<Longrightarrow> stays (\<lambda>s. P (as_disk (ps_auth s))) (on_auth f e)"
  by (simp add: stays_def on_auth_eq)

lemma stays_on_peer_disk: "stays P f \<Longrightarrow> stays (\<lambda>s. P (as_disk (ps_auth s))) (on_peer_disk f)"
  by (simp add: stays_def on_peer_disk_eq)

lemma other_directories [simp]: "revocation_directory ev \<in> other_directories ev" "certificate_directory ev \<in> other_directories ev"
  by (simp_all add: other_directories_def)

lemma stays_persist:
  assumes "marker_laws ev"
  shows "stays (\<lambda>s. marked ev sender nonce (as_disk s)) (persist_revocations ev rs)"
proof (induction rs)
  case (Cons r rs)
  have w: "stays (\<lambda>s. marked ev sender nonce (as_disk s)) (on_disk (write_private_atomically ev (revocation_directory ev) n c))" for n c
    by (intro stays_on_disk stays_write assms other_directories)
  have "stays (\<lambda>s. marked ev sender nonce (as_disk s)) (\<lambda>s. persist_revocations ev rs (s\<lparr>as_pending := as_pending s - X\<rparr>))" for X
    using Cons.IH by (auto simp: stays_def)
  then have "stays (\<lambda>s. marked ev sender nonce (as_disk s)) (\<lambda>s. and_then (on_disk (write_private_atomically ev (revocation_directory ev)
      (rv_event_id r @ ''.json'') (rv_json r)) s) (\<lambda>_ s1. persist_revocations ev rs (s1\<lparr>as_pending := as_pending s1 - {rv_event_id r}\<rparr>)))"
    by (rule stays_and_then [OF w])
  with Cons.IH show ?case by (simp add: stays_def)
qed (simp add: stays_def)

lemma stays_commit: "marker_laws ev \<Longrightarrow> stays (\<lambda>s. marked ev sender nonce (as_disk s)) (commit_revocations ev a)"
proof -
  assume laws: "marker_laws ev"
  have disk: "as_disk (fold install_revocation rs s) = as_disk s" for rs and s :: "'a auth_state" using install_frame by blast
  show ?thesis unfolding stays_def commit_revocations_def Let_def
    by (intro allI impI staysD [OF stays_persist [OF laws]]) (simp add: disk)
qed

lemma stays_complete:
  assumes "marker_laws ev" and "name_ok device"
  shows "stays (\<lambda>s. marked ev sender nonce (as_disk s)) (complete_certificate_revocation ev device)"
proof -
  have "stays (marked ev sender nonce) (\<lambda>d. case ad_remove (ae_disk ev) (path_join (certificate_directory ev) device) d of
         (Ok _, d1) \<Rightarrow> storage_step (ad_sync_dir (ae_disk ev) (certificate_directory ev) d1)
       | (Err (NotFound _), d1) \<Rightarrow> (Ok (), d1)
       | (Err (OtherIo _), d1) \<Rightarrow> (Err AuthorizationStorage, d1))"
    using marker_lawsD(8) [OF assms(1) other_directories(2) assms(2), of sender nonce] marker_lawsD(6) [OF assms(1), of sender nonce]
    unfolding stays_def storage_step_def case_prod_beta by (auto split: result.splits io_error.splits)
  from stays_on_disk [OF this] show ?thesis unfolding complete_certificate_revocation_def [abs_def] .
qed

lemma stays_record: "marker_laws ev \<Longrightarrow> stays (\<lambda>s. marked ev sender nonce (as_disk s)) (record_certificate ev p host certificate)"
  using stays_on_disk [OF stays_write [of ev "certificate_directory ev" sender nonce]]
  unfolding stays_def record_certificate_def by (simp split: principal.splits option.splits)

lemma hex_name_ok: "validate_hex_32 i \<Longrightarrow> name_ok i"
proof -
  assume "validate_hex_32 i"
  then have l: "length i = 64" and h: "\<forall>c \<in> set i. is_lower_hex c" by (simp_all add: validate_hex_32_def list_all_iff)
  from h have "CHR ''/'' \<notin> set i" using lower_hex_ascii by blast
  moreover from l have "i \<notin> {[], ''.'', ''..''}" by auto
  ultimately show "name_ok i" by (simp add: name_ok_def)
qed

lemma load_entries_all:
  "load_entries f es = Ok as \<Longrightarrow> (\<And>n a. f n = Ok a \<Longrightarrow> Q a) \<Longrightarrow> \<forall>a \<in> set as. Q a"
  by (induction f es arbitrary: as rule: load_entries.induct) (auto split: result.splits)

lemma certificate_grants_names: "certificate_grants ev d = Ok gs \<Longrightarrow> \<forall>x \<in> set gs. validate_hex_32 (fst x)"
proof -
  assume "certificate_grants ev d = Ok gs"
  then obtain es xs where "load_entries (\<lambda>name. load_grant ev name d) es = Ok xs" "set gs = set xs"
    by (auto simp: certificate_grants_def split: option.splits result.splits)
  moreover have "load_grant ev n d = Ok a \<Longrightarrow> validate_hex_32 (fst a)" for n a
    by (auto simp: load_grant_def Let_def split: if_splits result.splits option.splits)
  ultimately show ?thesis using load_entries_all [where Q = "\<lambda>a. validate_hex_32 (fst a)"] by metis
qed

lemma plan_devices:
  "\<forall>r \<in> set (fst (plan_certificate_revocations ns local now rs gs memo)). cr_device r \<in> fst ` set gs"
proof (induction gs arbitrary: memo)
  case (Cons x gs)
  obtain device g where x: "x = (device, g)" by (cases x)
  from Cons.IH [of "snd (grant_holder ns local now rs device g memo)"] show ?case
    by (auto simp: x case_prod_beta Let_def)
qed simp

lemma certificate_revocations_frame:
  "as_disk (snd (certificate_revocations ev local now s)) = as_disk s"
  "certificate_revocations ev local now s = (Ok plan, s1) \<Longrightarrow> \<forall>r \<in> set plan. name_ok (cr_device r)"
proof -
  show "as_disk (snd (certificate_revocations ev local now s)) = as_disk s"
    by (simp add: certificate_revocations_def case_prod_beta Let_def split: result.splits)
  assume a: "certificate_revocations ev local now s = (Ok plan, s1)"
  then obtain gs where g: "certificate_grants ev (as_disk s) = Ok gs"
    and p: "plan = fst (plan_certificate_revocations (ae_nostr ev) local now (as_revocations s) gs (as_memo s))"
    by (auto simp: certificate_revocations_def case_prod_beta Let_def split: result.splits)
  from certificate_grants_names [OF g] plan_devices [of "ae_nostr ev" local now "as_revocations s" gs "as_memo s"]
  show "\<forall>r \<in> set plan. name_ok (cr_device r)" unfolding p by (fastforce intro: hex_name_ok)
qed

abbreviation marks :: "('d, 'r) peer_env \<Rightarrow> string \<Rightarrow> string \<Rightarrow> 'd peer_state \<Rightarrow> bool" where
  "marks ev sender nonce s \<equiv> marked (pe_auth ev) sender nonce (as_disk (ps_auth s))"

lemma stays_dispatch: "guard_laws ev \<Longrightarrow> stays (marks ev sender nonce) (dispatch ev c request)"
  using stays_on_peer_disk [of "marked (pe_auth ev) sender nonce" "pe_serve ev c request"]
  by (auto simp: guard_laws_def stays_def dispatch_def split: result.splits)

lemma stays_take_back:
  assumes "guard_laws ev"
  shows "\<forall>r \<in> set plan. name_ok (cr_device r) \<Longrightarrow> stays (marks ev sender nonce) (take_back ev plan)"
proof (induction plan)
  case (Cons r plan)
  have laws: "marker_laws (pe_auth ev)" using assms by (simp add: guard_laws_def)
  have c: "stays (marks ev sender nonce) (\<lambda>s. and_then (on_auth (complete_certificate_revocation (pe_auth ev) (cr_device r)) PeerStorage s)
      (\<lambda>_. take_back ev plan))"
    using Cons by (intro stays_and_then stays_on_auth stays_complete laws) auto
  show ?case unfolding stays_def
  proof (intro allI impI)
    fix s assume s: "marks ev sender nonce s"
    obtain o1 s1 where d: "dispatch ev TrustReconciliation (MoonlightCertificateRevoke (cr_host_uuid r) (cr_client_certificate r)) s = (o1, s1)"
      by fastforce
    have "marks ev sender nonce s1" using staysD [OF stays_dispatch [OF assms] s] d by (metis snd_conv)
    with staysD [OF c this] show "marks ev sender nonce (snd (take_back ev (r # plan) s))" by (simp add: d split: option.splits)
  qed
qed (simp add: stays_def)

lemma stays_reconcile:
  assumes "guard_laws ev"
  shows "stays (marks ev sender nonce) (reconcile_certificate_trust ev local now)"
  unfolding stays_def reconcile_certificate_trust_def
proof (intro allI impI)
  fix s assume s: "marks ev sender nonce s"
  show "marks ev sender nonce (snd (and_then (on_auth (certificate_revocations (pe_auth ev) local now) PeerStorage s) (take_back ev)))"
  proof (rule and_then_snd [where P = "marks ev sender nonce"])
    show "marks ev sender nonce (snd (on_auth (certificate_revocations (pe_auth ev) local now) PeerStorage s))"
      using s by (simp add: on_auth_eq certificate_revocations_frame(1))
    fix plan t assume a: "on_auth (certificate_revocations (pe_auth ev) local now) PeerStorage s = (Ok plan, t)"
    then have t: "certificate_revocations (pe_auth ev) local now (ps_auth s) = (Ok plan, ps_auth t)" by (auto simp: on_auth_eq prod_eq_iff)
    then have "marks ev sender nonce t" using certificate_revocations_frame(1) [of "pe_auth ev" local now "ps_auth s"] s by simp
    then show "marks ev sender nonce (snd (take_back ev plan t))"
      by (rule staysD [OF stays_take_back [OF assms certificate_revocations_frame(2) [OF t]]])
  qed
qed

lemma stays_consume: "marker_laws (pe_auth ev) \<Longrightarrow> stays (marks ev sender nonce) (consume ev author other created now persist)"
  using stays_on_peer_disk [OF marker_lawsD(3), of "pe_auth ev" sender nonce "replay_marker (pe_auth ev) author other"]
  by (auto simp: stays_def consume_def remember_def Let_def split: prod.splits create_outcome.splits)

lemma stays_authenticate:
  assumes "guard_laws ev"
  shows "stays (marks ev sender nonce) (authenticate ev ident json now route)"
  unfolding stays_def
proof (intro allI impI)
  fix s assume s: "marks ev sender nonce s"
  have laws: "marker_laws (pe_auth ev)" using assms by (simp add: guard_laws_def)
  have later: "stays (marks ev sender nonce) (\<lambda>s1. and_then (consume ev author other created now persist s1) (\<lambda>_ s2.
      and_then (on_auth (commit_revocations (pe_auth ev) a) PeerStorage s2) (\<lambda>_ s3.
      and_then (reconcile_certificate_trust ev local now s3) (\<lambda>_ s4. (Ok q, s4)))))"
    for author other created persist a local and q :: authenticated_request
    by (intro stays_and_then stays_consume stays_on_auth stays_commit stays_reconcile laws assms) (simp add: stays_def)
  show "marks ev sender nonce (snd (authenticate ev ident json now route s))"
  proof (cases "open_request ev ident json now")
    case (Ok p)
    obtain e envelope where p: "p = (e, envelope)" by (cases p)
    show ?thesis unfolding authenticate_def Ok p result.case prod.case
    proof (rule and_then_snd [where P = "marks ev sender nonce"])
      let ?a = "on_auth (attempt_peer (pe_auth ev) (di_state ident) (ne_author e) (re_owner_statement envelope)
            (re_person_pass envelope) (re_revocations envelope) now) PeerInvalid s"
      have s1: "marks ev sender nonce (snd ?a)" using s by (simp add: on_auth_eq attempt_frame)
      then show "marks ev sender nonce (snd ?a)" .
      fix a t assume "?a = (Ok a, t)"
      with s1 have "marks ev sender nonce t" by simp
      from staysD [OF later this] this
      show "marks ev sender nonce (snd (if is_object_request (re_request envelope) \<noteq> route then (Err WrongKind, t)
          else case authorize (at_context a) (re_request envelope) of
              Ok _ \<Rightarrow>
                and_then (consume ev (ne_author e) (re_nonce envelope) (ne_created_at e) now
                  (is_security_mutation (re_request envelope)) t) (\<lambda>_ s2.
                and_then (on_auth (commit_revocations (pe_auth ev) a) PeerStorage s2) (\<lambda>_ s3.
                and_then (reconcile_certificate_trust ev (di_state ident) now s3) (\<lambda>_ s4.
                  (Ok \<lparr>aq_envelope = envelope, aq_author = ne_author e, aq_event_id = ne_id e, aq_context = at_context a\<rparr>, s4))))
            | Err _ \<Rightarrow> (Err Unauthorized, t)))"
        by (simp split: result.splits)
    qed
  qed (use s in \<open>simp add: authenticate_def\<close>)
qed

lemma stays_note:
  assumes "guard_laws ev" and "name_ok (aq_author q)"
  shows "stays (marks ev sender nonce) (note_certificate ev q response)"
proof -
  have laws: "marker_laws (pe_auth ev)" using assms by (simp add: guard_laws_def)
  have "stays (marks ev sender nonce) (on_auth (record_certificate (pe_auth ev) p host certificate) PeerStorage)" for p host certificate
    by (intro stays_on_auth stays_record laws)
  moreover have "stays (marks ev sender nonce) (on_auth (remove_certificate_grant (pe_auth ev) (aq_author q)) PeerStorage)"
    unfolding remove_certificate_grant_def [abs_def] by (intro stays_on_auth stays_complete laws assms)
  ultimately show ?thesis unfolding note_certificate_def
    by (intro stays_and_then) (auto simp: stays_def split: option.splits authorization_context.splits)
qed

lemma authenticate_author:
  assumes "authenticate ev ident json now route s = (Ok q, s')"
  shows "\<exists>e. signed (peer_nostr ev) json e \<and> aq_author q = ne_author e"
  by (rule authenticate_Ok [OF assms], drule open_request_Ok(1)) (metis authenticated_request.select_convs(2))

lemma authenticate_name_ok:
  "guard_laws ev \<Longrightarrow> authenticate ev ident json now route s = (Ok q, s') \<Longrightarrow> name_ok (aq_author q)"
  by (auto simp: guard_laws_def intro: hex_name_ok dest!: authenticate_author)

lemma stays_answer:
  assumes "guard_laws ev" and "name_ok (aq_author q)"
  shows "stays (marks ev sender nonce) (\<lambda>s1. and_then (case dispatch ev (aq_context q) (re_request (aq_envelope q)) s1 of
          (None, s2) \<Rightarrow> (Err Unauthorized, s2) | (Some response, s2) \<Rightarrow> (Ok response, s2))
         (\<lambda>response s2. and_then (note_certificate ev q response s2) (\<lambda>_ s3. (seal_response ev ident q response now', s3))))"
proof (rule stays_and_then)
  show "stays (marks ev sender nonce) (\<lambda>s1. case dispatch ev (aq_context q) (re_request (aq_envelope q)) s1 of
          (None, s2) \<Rightarrow> (Err Unauthorized, s2) | (Some response, s2) \<Rightarrow> (Ok response, s2))"
    using stays_dispatch [OF assms(1)] by (auto simp: stays_def case_prod_beta split: option.splits)
qed (intro stays_and_then stays_note assms, simp add: stays_def)

lemma stays_handle:
  assumes "guard_laws ev"
  shows "stays (marks ev sender nonce) (handle_peer ev ident json now now')"
  unfolding stays_def
proof (intro allI impI)
  fix s assume s: "marks ev sender nonce s"
  note au = staysD [OF stays_authenticate [OF assms] s, of ident json now False]
  show "marks ev sender nonce (snd (handle_peer ev ident json now now' s))" unfolding handle_peer_def
  proof (rule and_then_snd [where P = "marks ev sender nonce", OF _ au])
    fix q t assume a: "authenticate ev ident json now False s = (Ok q, t)"
    with au have "marks ev sender nonce t" by simp
    from staysD [OF stays_answer [OF assms authenticate_name_ok [OF assms a]] this]
    show "marks ev sender nonce (snd (and_then (case dispatch ev (aq_context q) (re_request (aq_envelope q)) t of
          (None, s2) \<Rightarrow> (Err Unauthorized, s2) | (Some response, s2) \<Rightarrow> (Ok response, s2))
         (\<lambda>response s2. and_then (note_certificate ev q response s2) (\<lambda>_ s3. (seal_response ev ident q response now', s3)))))" .
  qed
qed

lemma stays_reset:
  "marker_laws ev \<Longrightarrow> stays (\<lambda>s. marked ev sender nonce (as_disk s)) (reset_after_identity_switch ev)"
  unfolding reset_after_identity_switch_def
  by (intro stays_and_then stays_on_disk stays_clear other_directories) (simp_all add: stays_def)

lemma stays_start:
  assumes "guard_laws ev"
  shows "stays (marked (pe_auth ev) sender nonce) (start_peer_server ev)"
    and "fst (start_peer_server ev d) = Ok t \<Longrightarrow> as_disk (ps_auth t) = snd (start_peer_server ev d) \<and> ps_seen t = []"
proof -
  let ?P = "marked (pe_auth ev) sender nonce"
  have laws: "marker_laws (pe_auth ev)" using assms by (simp add: guard_laws_def)
  have load: "stays ?P (load_authorization (pe_auth ev) [])"
    unfolding load_authorization_def by (intro stays_and_then stays_prepare laws) (simp add: stays_def)
  have guard: "stays ?P (prepare_replay_directory (pe_auth ev))"
    using marker_lawsD(2) [OF laws] unfolding stays_def prepare_replay_directory_def case_prod_beta Let_def
    by (simp split: option.splits)
  show "stays ?P (start_peer_server ev)"
    using load guard unfolding stays_def start_peer_server_def case_prod_beta by (simp split: result.splits)
  show "fst (start_peer_server ev d) = Ok t \<Longrightarrow> as_disk (ps_auth t) = snd (start_peer_server ev d) \<and> ps_seen t = []"
    by (auto simp: start_peer_server_def split: prod.splits result.splits)
qed

lemma stays_peer_step: "guard_laws ev \<Longrightarrow> marks ev sender nonce s \<Longrightarrow> marks ev sender nonce (peer_step ev s x)"
proof (cases x)
  case StartAgain
  assume laws: "guard_laws ev" and s: "marks ev sender nonce s"
  obtain r d where st: "start_peer_server ev (as_disk (ps_auth s)) = (r, d)" by fastforce
  have d: "marked (pe_auth ev) sender nonce d" using staysD [OF stays_start(1) [OF laws] s] by (simp only: st snd_conv)
  show ?thesis
  proof (cases r)
    case (Ok t)
    then have "as_disk (ps_auth t) = d" using stays_start(2) [OF laws, of "as_disk (ps_auth s)" t] st by simp
    with d show ?thesis by (simp add: StartAgain st Ok)
  qed (use d in \<open>simp add: StartAgain st\<close>)
next
  case SwitchIdentity
  assume "guard_laws ev" and s: "marks ev sender nonce s"
  then have "marker_laws (pe_auth ev)" by (simp add: guard_laws_def)
  from staysD [OF stays_on_auth [OF stays_reset [OF this]] s] SwitchIdentity show ?thesis by simp
qed (simp_all add: staysD [OF stays_handle] staysD [OF stays_authenticate])

text \<open>Under the laws, a marker is an invariant of every run.\<close>

interpretation guard: machine "peer_step ev" "\<lambda>s. guard_laws ev \<and> marks ev sender nonce s" for ev sender nonce
  by unfold_locales (simp add: stays_peer_step)

lemma authenticate_marks:
  assumes "guard_laws ev" and "authenticate ev ident json now route s = (Ok q, s')"
    and "is_security_mutation (re_request (aq_envelope q))"
  shows "\<not> marks ev (aq_author q) (re_nonce (aq_envelope q)) s" and "marks ev (aq_author q) (re_nonce (aq_envelope q)) s'"
proof -
  obtain e envelope a s1 s2 s3 where o: "open_request ev ident json now = Ok (e, envelope)"
    and a: "on_auth (attempt_peer (pe_auth ev) (di_state ident) (ne_author e) (re_owner_statement envelope)
      (re_person_pass envelope) (re_revocations envelope) now) PeerInvalid s = (Ok a, s1)"
    and c: "consume ev (ne_author e) (re_nonce envelope) (ne_created_at e) now (is_security_mutation (re_request envelope)) s1 = (Ok (), s2)"
    and m: "on_auth (commit_revocations (pe_auth ev) a) PeerStorage s2 = (Ok (), s3)"
    and r: "reconcile_certificate_trust ev (di_state ident) now s3 = (Ok (), s')"
    and q: "q = \<lparr>aq_envelope = envelope, aq_author = ne_author e, aq_event_id = ne_id e, aq_context = at_context a\<rparr>"
    by (rule authenticate_Ok [OF assms(2)])
  have laws: "marker_laws (pe_auth ev)" using assms(1) by (simp add: guard_laws_def)
  let ?m = "marked (pe_auth ev) (ne_author e) (re_nonce envelope)"
  let ?c = "ad_create_new (ae_disk (pe_auth ev)) (replay_marker (pe_auth ev) (ne_author e) (re_nonce envelope)) (as_disk (ps_auth s1))"
  have s1: "as_disk (ps_auth s1) = as_disk (ps_auth s)" using attempt_Ok(3) [OF attempt_on_auth(1) [OF a]] .
  obtain s1' where t: "remember (ne_author e) (re_nonce envelope) (ne_created_at e) now s1' = (Ok (), s2)"
    and d: "fst ?c = Created" "as_disk (ps_auth s1') = snd ?c"
    by (rule consume_remember [OF c]) (use assms(3) q in auto)
  have "\<not> ?m (as_disk (ps_auth s1)) \<and> ?m (as_disk (ps_auth s1'))"
    using marker_lawsD(1) [OF laws, of "ne_author e" "re_nonce envelope" "as_disk (ps_auth s1)" "snd ?c"] d by (simp add: prod_eq_iff)
  with s1 q show "\<not> marks ev (aq_author q) (re_nonce (aq_envelope q)) s" by simp
  have "?m (as_disk (ps_auth s2))" using \<open>\<not> ?m _ \<and> ?m _\<close> remember_Ok(1) [OF t] by simp
  moreover have "stays (marks ev (ne_author e) (re_nonce envelope)) (on_auth (commit_revocations (pe_auth ev) a) PeerStorage)"
    by (intro stays_on_auth stays_commit laws)
  ultimately have "?m (as_disk (ps_auth (snd (on_auth (commit_revocations (pe_auth ev) a) PeerStorage s2))))"
    by (rule staysD [rotated])
  with m have "?m (as_disk (ps_auth s3))" by simp
  from staysD [OF stays_reconcile [OF assms(1)] this, of "di_state ident" now] r q
  show "marks ev (aq_author q) (re_nonce (aq_envelope q)) s'" by simp
qed


subsection \<open>Within the life of a process\<close>

fun op_time :: "peer_op \<Rightarrow> nat option" where
  "op_time (CallPeer _ _ now _) = Some now"
| "op_time (CallObject _ _ now) = Some now"
| "op_time _ = None"

text \<open>The author, nonce and time of the request that an operation presents, when it can be opened.\<close>

fun op_opens :: "('d, 'r) peer_env \<Rightarrow> peer_op \<Rightarrow> ((string \<times> string) \<times> nat) option" where
  "op_opens ev (CallPeer ident json now _) =
     (case open_request ev ident json now of Ok (e, envelope) \<Rightarrow> Some ((ne_author e, re_nonce envelope), ne_created_at e) | Err _ \<Rightarrow> None)"
| "op_opens ev (CallObject ident json now) =
     (case open_request ev ident json now of Ok (e, envelope) \<Rightarrow> Some ((ne_author e, re_nonce envelope), ne_created_at e) | Err _ \<Rightarrow> None)"
| "op_opens ev _ = None"

text \<open>What the guard holds of a key, while its request could still be presented in time.\<close>

definition holding :: "(string \<times> string) \<Rightarrow> nat \<Rightarrow> nat \<Rightarrow> (string \<times> string, nat) btree \<Rightarrow> bool" where
  "holding k created now seen \<longleftrightarrow>
     bt_wf seen \<and> ((\<exists>t \<ge> created. bt_get seen k = Some t) \<or> created + clock_window_seconds < now)"

lemma holding_later: "holding k c now seen \<Longrightarrow> now \<le> now' \<Longrightarrow> holding k c now' seen"
  by (auto simp: holding_def)

lemma remember_holding:
  assumes "holding k c now (ps_seen s)" and "(sender, nonce) = k \<Longrightarrow> c \<le> created"
  shows "holding k c now (ps_seen (snd (remember sender nonce created now s)))"
proof -
  obtain r s' where r: "remember sender nonce created now s = (r, s')" by fastforce
  note rem = remember_Ok [OF r]
  show ?thesis
  proof (cases "(sender, nonce) = k")
    case True
    with rem(2,3) assms show ?thesis by (auto simp: holding_def r)
  next
    case False
    with rem(2) rem(6) [of k] assms(1) show ?thesis by (auto simp: holding_def r)
  qed
qed

lemma consume_seen_keeps:
  fixes s :: "'d peer_state"
  assumes "P (ps_seen s)" and "\<And>t :: 'd peer_state. P (ps_seen t) \<Longrightarrow> P (ps_seen (snd (remember sender nonce created now t)))"
  shows "P (ps_seen (snd (consume ev sender nonce created now persist s)))"
  using assms(1) by (auto simp: consume_def on_peer_disk_eq intro!: assms(2) split: create_outcome.splits prod.splits)

lemma authenticate_seen_keeps:
  fixes s :: "'d peer_state"
  assumes "P (ps_seen s)"
    and "\<And>e envelope (t :: 'd peer_state). open_request ev ident json now = Ok (e, envelope) \<Longrightarrow> P (ps_seen t) \<Longrightarrow>
      P (ps_seen (snd (remember (ne_author e) (re_nonce envelope) (ne_created_at e) now t)))"
  shows "P (ps_seen (snd (authenticate ev ident json now route s)))"
proof (cases "open_request ev ident json now")
  case (Ok p)
  obtain e envelope where p: "p = (e, envelope)" by (cases p)
  let ?P = "\<lambda>s. P (ps_seen s)"
  let ?a = "on_auth (attempt_peer (pe_auth ev) (di_state ident) (ne_author e) (re_owner_statement envelope)
            (re_person_pass envelope) (re_revocations envelope) now) PeerInvalid s"
  have s1: "?P (snd ?a)" using assms(1) by simp
  have c: "?P (snd (consume ev (ne_author e) (re_nonce envelope) (ne_created_at e) now persist t))" if "?P t" for persist t
    by (rule consume_seen_keeps [where P = P, OF that]) (use assms(2) Ok p in auto)
  show ?thesis unfolding authenticate_def Ok p result.case prod.case
  proof (rule and_then_snd [where P = ?P, OF _ s1])
    fix a t assume "?a = (Ok a, t)"
    with s1 have "?P t" by simp
    note c [OF this]
    moreover have "?P (snd (and_then x (\<lambda>_ s2.
                and_then (on_auth (commit_revocations (pe_auth ev) a) PeerStorage s2) (\<lambda>_ s3.
                and_then (reconcile_certificate_trust ev (di_state ident) now s3) (\<lambda>_ s4. (Ok q, s4))))))"
      if "?P (snd x)" for x :: "(unit, peer_rpc_error) result \<times> _" and q :: authenticated_request
      using that by (intro and_then_keeps [where P = ?P]) (simp_all add: and_then_keeps [where P = ?P])
    ultimately show "?P (snd (if is_object_request (re_request envelope) \<noteq> route then (Err WrongKind, t)
          else case authorize (at_context a) (re_request envelope) of
              Ok _ \<Rightarrow>
                and_then (consume ev (ne_author e) (re_nonce envelope) (ne_created_at e) now
                  (is_security_mutation (re_request envelope)) t) (\<lambda>_ s2.
                and_then (on_auth (commit_revocations (pe_auth ev) a) PeerStorage s2) (\<lambda>_ s3.
                and_then (reconcile_certificate_trust ev (di_state ident) now s3) (\<lambda>_ s4.
                  (Ok \<lparr>aq_envelope = envelope, aq_author = ne_author e, aq_event_id = ne_id e, aq_context = at_context a\<rparr>, s4))))
            | Err _ \<Rightarrow> (Err Unauthorized, t)))"
      using \<open>?P t\<close> by (simp split: result.splits)
  qed
qed (use assms(1) in \<open>simp add: authenticate_def\<close>)

lemma authenticate_holding:
  assumes "holding k c now (ps_seen s)"
    and "\<And>e envelope. open_request ev ident json now = Ok (e, envelope) \<Longrightarrow> (ne_author e, re_nonce envelope) = k \<Longrightarrow> c \<le> ne_created_at e"
  shows "holding k c now (ps_seen (snd (authenticate ev ident json now route s)))"
  using assms(1) by (rule authenticate_seen_keeps [where P = "holding k c now"]) (use remember_holding assms(2) in blast)

lemma authenticate_wf: "bt_wf (ps_seen s) \<Longrightarrow> bt_wf (ps_seen (snd (authenticate ev ident json now route s)))"
  by (rule authenticate_seen_keeps [where P = bt_wf]) (auto intro: remember_Ok(2) [OF prod.collapse [symmetric]])

lemma handle_seen: "ps_seen (snd (handle_peer ev ident json now now' s)) = ps_seen (snd (authenticate ev ident json now False s))"
proof -
  have d [simp]: "ps_seen (snd (dispatch ev c x t)) = ps_seen t" for c x t by (simp add: dispatch_def split: result.splits)
  have n: "ps_seen (snd (note_certificate ev q response t)) = ps_seen t" for q response t
    unfolding note_certificate_def
    by (rule and_then_keeps [where P = "\<lambda>u. ps_seen u = ps_seen t"])
      (auto split: option.splits authorization_context.splits)
  show ?thesis unfolding handle_peer_def
    by (rule and_then_snd) (auto split: prod.splits option.splits dest: arg_cong [where f = "ps_seen \<circ> snd"]
      intro!: and_then_keeps [where P = "\<lambda>u. ps_seen u = x" for x] simp: n)
qed

lemma step_holding:
  assumes "holding k c now (ps_seen s)" and "x \<noteq> StartAgain" and "\<forall>u. op_time x = Some u \<longrightarrow> now \<le> u"
    and "\<forall>d. op_opens ev x = Some (k, d) \<longrightarrow> c \<le> d"
  shows "holding k c (case op_time x of None \<Rightarrow> now | Some u \<Rightarrow> u) (ps_seen (peer_step ev s x))"
proof (cases x)
  case (CallPeer ident json u now')
  then have "holding k c u (ps_seen s)" using assms(1,3) holding_later by simp
  moreover have "c \<le> ne_created_at e" if "open_request ev ident json u = Ok (e, envelope)" "(ne_author e, re_nonce envelope) = k" for e envelope
    using assms(4) that CallPeer by simp
  ultimately show ?thesis using CallPeer by (simp add: handle_seen authenticate_holding)
next
  case (CallObject ident json u)
  then have "holding k c u (ps_seen s)" using assms(1,3) holding_later by simp
  moreover have "c \<le> ne_created_at e" if "open_request ev ident json u = Ok (e, envelope)" "(ne_author e, re_nonce envelope) = k" for e envelope
    using assms(4) that CallObject by simp
  ultimately show ?thesis using CallObject by (simp add: authenticate_holding)
qed (use assms in simp_all)

lemma run_holding:
  assumes "holding k c now (ps_seen s)" and "StartAgain \<notin> set xs" and "sorted (now # List.map_filter op_time xs @ [later])"
    and "\<forall>x \<in> set xs. \<forall>d. op_opens ev x = Some (k, d) \<longrightarrow> c \<le> d"
  shows "holding k c later (ps_seen (foldl (peer_step ev) s xs))"
  using assms
proof (induction xs arbitrary: s now)
  case Nil
  then show ?case by (auto intro: holding_later simp: map_filter_simps)
next
  case (Cons x xs)
  let ?u = "case op_time x of None \<Rightarrow> now | Some u \<Rightarrow> u"
  have "holding k c ?u (ps_seen (peer_step ev s x))"
    using Cons.prems by (intro step_holding) (auto simp: map_filter_simps)
  moreover have "sorted (?u # List.map_filter op_time xs @ [later])"
    using Cons.prems(3) by (cases "op_time x") (auto simp: map_filter_simps)
  ultimately show ?case using Cons.IH [of ?u "peer_step ev s x"] Cons.prems(2,4) by simp
qed

lemma open_request_same:
  assumes "open_request ev ident json now = Ok (e, envelope)" and "open_request ev ident2 json now2 = Ok (e2, envelope2)"
  shows "e2 = e \<and> envelope2 = envelope"
proof -
  have "Some e2 = Some e" using open_request_Ok(1) [OF assms(1)] open_request_Ok(1) [OF assms(2)] unfolding signed_def by metis
  then have e: "e2 = e" by simp
  obtain key plain where 1: "ne_tags e = [[''p'', key]]" "pe_decrypt ev key (ne_author e) (ne_content e) = Some plain" "pe_parse_request ev plain = Some envelope"
    using open_request_Ok(5) [OF assms(1)] by blast
  obtain key2 plain2 where 2: "ne_tags e2 = [[''p'', key2]]" "pe_decrypt ev key2 (ne_author e2) (ne_content e2) = Some plain2" "pe_parse_request ev plain2 = Some envelope2"
    using open_request_Ok(5) [OF assms(2)] by blast
  have "key2 = key" using 1(1) 2(1) by (simp add: e)
  then have "plain2 = plain" using 1(2) 2(2) by (simp add: e)
  then show ?thesis using 1(3) 2(3) by (simp add: e)
qed

lemma authenticate_opened:
  assumes "authenticate ev ident json now route s = (Ok q, s')"
  obtains e where "open_request ev ident json now = Ok (e, aq_envelope q)" and "aq_author q = ne_author e"
  by (rule authenticate_Ok [OF assms]) (use that in simp)



subsection \<open>An example\<close>

text \<open>
  A server that knows three requests: two changes of the settings by the owner's device and one by
  a stranger, all made at 200. Its disk is the list of the markers.
\<close>

definition demo_server :: string where
  "demo_server = replicate 64 CHR ''f''"

definition demo_call :: "char \<Rightarrow> string \<Rightarrow> nostr_event" where
  "demo_call x author = \<lparr>ne_id = replicate 64 x, ne_author = author, ne_created_at = 200, ne_kind = peer_request_kind,
     ne_tags = [[''p'', demo_server]], ne_content = [x]\<rparr>"

definition demo_envelope :: "char \<Rightarrow> string option \<Rightarrow> rpc_request \<Rightarrow> request_envelope" where
  "demo_envelope x st request = \<lparr>re_version = peer_rpc_version, re_recipient = demo_server, re_request_id = replicate 64 x,
     re_nonce = replicate 64 x, re_owner_statement = st, re_person_pass = None, re_revocations = [], re_request = request\<rparr>"

definition demo_peer_nostr :: nostr where
  "demo_peer_nostr = demo_nostr\<lparr>from_json := (\<lambda>j.
     if j = ''rq5'' then Some (demo_call CHR ''5'' demo_device)
     else if j = ''rq6'' then Some (demo_call CHR ''6'' demo_device)
     else if j = ''rq7'' then Some (demo_call CHR ''7'' demo_friend)
     else from_json demo_nostr j)\<rparr>"

definition marker_disk :: "string list auth_disk" where
  "marker_disk =
     \<lparr>ad_node = (\<lambda>d p. if p \<in> set d then Some (private_file 0, []) else None), ad_exists = (\<lambda>p d. True),
      ad_meta = (\<lambda>p d. Some \<lparr>am_dir = True, am_file = False, am_symlink = False, am_private = True, am_len = 0\<rparr>),
      ad_entries = (\<lambda>p d. Some []), ad_read = (\<lambda>p d. None), ad_random = (\<lambda>d. ''7''), ad_mkdir = (\<lambda>p d. (True, d)),
      ad_create_new = (\<lambda>p d. if p \<in> set d then (AlreadyExists, d) else (Created, p # d)), ad_write = (\<lambda>p c d. (False, d)),
      ad_sync = (\<lambda>p d. (True, d)), ad_rename = (\<lambda>p q d. (False, d)), ad_sync_dir = (\<lambda>p d. (True, d)),
      ad_remove = (\<lambda>p d. (Ok (), d))\<rparr>"

definition demo_peer_auth :: "string list auth_env" where
  "demo_peer_auth =
     \<lparr>ae_root = ''/r'', ae_disk = marker_disk, ae_nostr = demo_peer_nostr, ae_sha256 = filter (\<lambda>c. c \<noteq> CHR ''/''),
      ae_print_grant = (\<lambda>g. None), ae_parse_grant = (\<lambda>b. None)\<rparr>"

definition demo_peer :: "(string list, nat) peer_env" where
  "demo_peer =
     \<lparr>pe_auth = demo_peer_auth, pe_encrypt = (\<lambda>a b x. Some x), pe_decrypt = (\<lambda>a b x. Some x), pe_sign = (\<lambda>k n t c u. None),
      pe_as_json = (\<lambda>e. []), pe_public_key_ok = (\<lambda>k. True), pe_print_request = (\<lambda>e. None),
      pe_parse_request = (\<lambda>x. if x = ''5'' then Some (demo_envelope CHR ''5'' (Some ''own'') SettingsUpdate)
        else if x = ''6'' then Some (demo_envelope CHR ''6'' (Some ''own'') SettingsUpdate)
        else if x = ''7'' then Some (demo_envelope CHR ''7'' None SessionPrepare) else None),
      pe_print_response = (\<lambda>r. None), pe_parse_response = (\<lambda>x. None), pe_serve = (\<lambda>c r d. (Some 1, d)),
      pe_provisioned = (\<lambda>r. False), pe_revoked = (\<lambda>r. False)\<rparr>"

definition demo_identity :: device_identity where
  "demo_identity = \<lparr>di_state = demo_local, di_device_key = Some demo_server, di_owner_statement = None\<rparr>"

definition demo_at :: "string list \<Rightarrow> (string \<times> string, nat) btree \<Rightarrow> string list peer_state" where
  "demo_at d seen = \<lparr>ps_auth = \<lparr>as_disk = d, as_revocations = [], as_pending = {}, as_memo = []\<rparr>, ps_seen = seen\<rparr>"

lemma demo_peer_sel [simp]:
  "pe_auth demo_peer = demo_peer_auth" "peer_nostr demo_peer = demo_peer_nostr" "ae_disk demo_peer_auth = marker_disk"
  "ae_nostr demo_peer_auth = demo_peer_nostr" "di_state demo_identity = demo_local" "di_device_key demo_identity = Some demo_server"
  by (simp_all add: demo_peer_def peer_nostr_def demo_peer_auth_def demo_identity_def)

lemma demo_hex [simp]: "is_lower_hex x \<Longrightarrow> validate_peer_token (replicate 64 x) = Ok ()"
  by (simp add: validate_peer_token_def list_all_iff)

lemma demo_digits: "is_lower_hex CHR ''5''" "is_lower_hex CHR ''6''" "is_lower_hex CHR ''7''"
  by code_simp+

lemma demo_time: "200 \<le> now \<Longrightarrow> now \<le> 320 \<Longrightarrow> check_time 200 now = Ok ()"
  by (auto simp: check_time_def clock_window_seconds_def)

lemma demo_open:
  assumes "200 \<le> now" and "now \<le> 320"
  shows "open_request demo_peer demo_identity ''rq5'' now = Ok (demo_call CHR ''5'' demo_device, demo_envelope CHR ''5'' (Some ''own'') SettingsUpdate)"
    and "open_request demo_peer demo_identity ''rq6'' now = Ok (demo_call CHR ''6'' demo_device, demo_envelope CHR ''6'' (Some ''own'') SettingsUpdate)"
    and "open_request demo_peer demo_identity ''rq7'' now = Ok (demo_call CHR ''7'' demo_friend, demo_envelope CHR ''7'' None SessionPrepare)"
  using demo_time [OF assms]
  by (simp_all add: open_request_def verify_encrypted_event_def verify_event_bounded_def max_encrypted_payload_bytes_def
    demo_peer_nostr_def demo_nostr_def demo_call_def has_exact_recipient_def decrypt_event_def demo_envelope_def demo_digits)
    (simp_all add: demo_peer_def demo_envelope_def demo_digits)

definition demo_request :: "char \<Rightarrow> authenticated_request" where
  "demo_request x = \<lparr>aq_envelope = demo_envelope x (Some ''own'') SettingsUpdate, aq_author = demo_device,
     aq_event_id = replicate 64 x, aq_context = PeerContext (OwnerDevice demo_device ''own'' demo_owner)\<rparr>"

definition demo_marker :: "char \<Rightarrow> string" where
  "demo_marker x = replay_marker demo_peer_auth demo_device (replicate 64 x)"

lemma demo_caller:
  "fst (principal_for demo_peer_nostr demo_local demo_device (Some ''own'') None now [] []) = OwnerDevice demo_device ''own'' demo_owner"
  "principal_for demo_peer_nostr demo_local demo_friend None None now [] [] = (UnknownPeer demo_friend, [])"
  by code_simp+

lemma demo_settings:
  "authorize (PeerContext (OwnerDevice demo_device ''own'' demo_owner)) SettingsUpdate = Ok ()"
  "\<not> is_ok (authorize (PeerContext (UnknownPeer d)) SessionPrepare)"
  by (simp_all add: authorize_def policy_for_def scope_allows_def)

lemma demo_accepts:
  assumes "200 \<le> now" and "now \<le> 320" and "x = CHR ''5'' \<or> x = CHR ''6''" and "demo_marker x \<notin> set d"
    and "bt_get (bt_retain (\<lambda>_ t. now - t \<le> clock_window_seconds) seen) (demo_device, replicate 64 x) = None"
  shows "\<exists>memo. authenticate demo_peer demo_identity [CHR ''r'', CHR ''q'', x] now False (demo_at d seen) =
    (Ok (demo_request x), \<lparr>ps_auth = \<lparr>as_disk = demo_marker x # d, as_revocations = [], as_pending = {}, as_memo = memo\<rparr>,
       ps_seen = bt_insert (demo_device, replicate 64 x) 200 (bt_retain (\<lambda>_ t. now - t \<le> clock_window_seconds) seen)\<rparr>)"
proof -
  have o: "open_request demo_peer demo_identity [CHR ''r'', CHR ''q'', x] now =
      Ok (demo_call x demo_device, demo_envelope x (Some ''own'') SettingsUpdate)"
    using assms(3) demo_open(1,2) [OF assms(1,2)] by auto
  obtain memo where p: "principal_for demo_peer_nostr demo_local demo_device (Some ''own'') None now [] [] =
      (OwnerDevice demo_device ''own'' demo_owner, memo)" using demo_caller(1) [of now] by (metis prod.collapse)
  have "is_security_mutation SettingsUpdate" "\<not> is_object_request SettingsUpdate"
    by (simp_all add: is_security_mutation_def is_object_request_def)
  then show ?thesis
    using assms(4,5)
    by (simp add: authenticate_def o demo_envelope_def demo_call_def on_auth_eq attempt_peer_def p demo_at_def demo_settings consume_def
      on_peer_disk_eq demo_marker_def marker_disk_def remember_def Let_def commit_revocations_def reconcile_certificate_trust_def
      certificate_revocations_def certificate_grants_def demo_request_def)
qed

lemma demo_signed:
  "signed demo_peer_nostr j e \<Longrightarrow>
   j = ''rq5'' \<and> e = demo_call CHR ''5'' demo_device \<or> j = ''rq6'' \<and> e = demo_call CHR ''6'' demo_device \<or>
   j = ''rq7'' \<and> e = demo_call CHR ''7'' demo_friend \<or> signed demo_nostr j e"
  by (auto simp: signed_def demo_peer_nostr_def split: if_splits)

lemma demo_guard_laws: "guard_laws demo_peer"
proof -
  have "validate_hex_32 demo_device" "validate_hex_32 demo_friend" "validate_hex_32 demo_owner" by code_simp+
  then have "validate_hex_32 (ne_author e)" if "signed demo_peer_nostr j e" for j e
    using demo_signed [OF that]
    by (auto dest!: demo_texts simp: demo_call_def demo_statement_def demo_pass_event_def demo_event_def)
  moreover have "marker_laws demo_peer_auth"
    unfolding marker_laws_def Let_def
    by (auto simp: stays_def marked_def marker_disk_def demo_peer_auth_def)
  moreover have "stays P (pe_serve demo_peer c r)" for P c r by (simp add: stays_def demo_peer_def)
  ultimately show ?thesis by (simp add: guard_laws_def)
qed

lemma demo_handled:
  assumes "authenticate demo_peer demo_identity json now False s = (Ok (demo_request x), t)"
  shows "snd (handle_peer demo_peer demo_identity json now now' s) = t"
  using assms
  by (simp add: handle_peer_def demo_request_def dispatch_def demo_settings on_peer_disk_def demo_peer_def note_certificate_def
    demo_envelope_def provisioned_certificate_def revoked_certificate_def)

text \<open>Witness of C34: the owner's device changes the settings.\<close>

theorem request_authenticated_witness:
  "\<exists>q s'. authenticate demo_peer demo_identity ''rq5'' 210 False (demo_at [] []) = (Ok q, s') \<and>
     aq_context q = PeerContext (OwnerDevice demo_device ''own'' demo_owner)"
proof -
  obtain q s' where q: "authenticate demo_peer demo_identity ''rq5'' 210 False (demo_at [] []) = (Ok q, s')" "q = demo_request CHR ''5''"
    using demo_accepts [of 210 "CHR ''5''" "[]" "[]"] by (auto simp: bt_retain_def)
  have "memo_ok (peer_nostr demo_peer) (as_memo (ps_auth (demo_at [] [])))" "bt_wf (ps_seen (demo_at [] []))"
    by (simp_all add: demo_at_def)
  from request_authenticated [OF this q(1)] obtain candidates where
    "aq_context q = PeerContext (fst (principal_for demo_peer_nostr demo_local demo_device (Some ''own'') None 210 (candidates) []))"
    "parse_revocations demo_peer_nostr [] = Ok candidates"
    by (auto simp: q(2) demo_request_def demo_envelope_def demo_at_def)
  with demo_caller(1) q(1) show ?thesis by auto
qed

text \<open>Witness of C35: a stranger asks for a session.\<close>

theorem refused_request_has_no_effect_witness:
  "\<exists>s'. authenticate demo_peer demo_identity ''rq7'' 210 False (demo_at [] []) = (Err Unauthorized, s') \<and> same_but_memo (demo_at [] []) s'"
proof -
  have u: "authorize (PeerContext (UnknownPeer demo_friend)) SessionPrepare = Err AuthorizationDenied" by (simp add: authorize_def)
  obtain s' where r: "authenticate demo_peer demo_identity ''rq7'' 210 False (demo_at [] []) = (Err Unauthorized, s')"
    by (simp add: authenticate_def demo_open(3) on_auth_eq attempt_peer_def demo_at_def demo_call_def demo_envelope_def demo_caller(2) u
      is_object_request_def)
  from refused_request_has_no_effect [OF r] r show ?thesis by simp
qed



end
