(* ===== verification/Peer_Exchange.thy ===== *)
theory Peer_Exchange
  imports Peer_Replay
begin

text \<open>
  An exchange between two devices: the request that \<open>encode_request\<close> of \<open>services/korrid/src/peer_rpc.rs\<close>
  makes is read by the server as it was meant, and the response that the server seals is what
  \<open>decode_response\<close> gives to the caller.
\<close>

subsection \<open>The channel\<close>

text \<open>
  The laws of the libraries: a signed event is printed and read back with the fields it was made
  of, what was encrypted for a device that device decrypts, and the two envelopes are printed and
  read back.
\<close>

definition channel_laws :: "('d, 'r) peer_env \<Rightarrow> bool" where
  "channel_laws ev \<longleftrightarrow>
     (\<forall>key kind tags content created e. pe_sign ev key kind tags content created = Some e \<longrightarrow>
        signed (peer_nostr ev) (pe_as_json ev e) e \<and> ne_author e = key \<and> ne_kind e = kind \<and> ne_tags e = tags \<and>
        ne_content e = content \<and> ne_created_at e = created) \<and>
     (\<forall>own peer x y. pe_encrypt ev own peer x = Some y \<longrightarrow> pe_decrypt ev peer own y = Some x) \<and>
     (\<forall>m x. pe_print_request ev m = Some x \<longrightarrow> pe_parse_request ev x = Some m) \<and>
     (\<forall>m x. pe_print_response ev m = Some x \<longrightarrow> pe_parse_response ev x = Some m)"

lemma encrypt_event_Ok:
  assumes "channel_laws ev" and "encrypt_event ev ident recipient kind plain created = Ok e"
  shows "signed (peer_nostr ev) (pe_as_json ev e) e" and "di_device_key ident = Some (ne_author e)" and "ne_kind e = kind"
    and "ne_tags e = [[''p'', recipient]]" and "ne_created_at e = created"
    and "pe_decrypt ev recipient (ne_author e) (ne_content e) = Some plain"
proof -
  obtain key content where key: "di_device_key ident = Some key" and c: "pe_encrypt ev key recipient plain = Some content"
    and e: "pe_sign ev key kind [[''p'', recipient]] content created = Some e"
    using assms(2) by (auto simp: encrypt_event_def split: if_splits option.splits)
  have s: "signed (peer_nostr ev) (pe_as_json ev e) e \<and> ne_author e = key \<and> ne_kind e = kind \<and> ne_tags e = [[''p'', recipient]] \<and>
        ne_content e = content \<and> ne_created_at e = created"
    using assms(1) e unfolding channel_laws_def by blast
  have "pe_decrypt ev recipient key content = Some plain" using assms(1) c unfolding channel_laws_def by blast
  with s key show "signed (peer_nostr ev) (pe_as_json ev e) e" "di_device_key ident = Some (ne_author e)" "ne_kind e = kind"
    "ne_tags e = [[''p'', recipient]]" "ne_created_at e = created"
    "pe_decrypt ev recipient (ne_author e) (ne_content e) = Some plain" by simp_all
qed

lemma encode_request_Ok:
  assumes "encode_request ev ident pass revocations recipient request now i nonce = Ok q"
  obtains plain e where "pe_print_request ev \<lparr>re_version = peer_rpc_version, re_recipient = recipient, re_request_id = i,
        re_nonce = nonce, re_owner_statement = di_owner_statement ident, re_person_pass = pass,
        re_revocations = revocations, re_request = request\<rparr> = Some plain"
    and "encrypt_event ev ident recipient peer_request_kind plain now = Ok e"
    and "q = \<lparr>eq_event_json = pe_as_json ev e, eq_event_id = ne_id e, eq_request_id = i, eq_nonce = nonce, eq_recipient = recipient\<rparr>"
  using assms by (auto simp: encode_request_def split: result.splits identity_state.splits option.splits)

lemma seal_response_Ok:
  assumes "seal_response ev ident q response now = Ok json"
  obtains plain e where "pe_print_response ev \<lparr>rs_version = peer_rpc_version, rs_recipient = aq_author q,
            rs_request_id = re_request_id (aq_envelope q), rs_request_event_id = aq_event_id q,
            rs_request_nonce = re_nonce (aq_envelope q), rs_response = response\<rparr> = Some plain"
    and "encrypt_event ev ident (aq_author q) peer_response_kind plain now = Ok e" and "json = pe_as_json ev e"
  using assms by (auto simp: seal_response_def split: result.splits option.splits)

lemma handle_Ok:
  assumes "handle_peer ev ident json now now' s = (Ok answer, s')"
  obtains q s1 response where "authenticate ev ident json now False s = (Ok q, s1)"
    and "fst (dispatch ev (aq_context q) (re_request (aq_envelope q)) s1) = Some response"
    and "seal_response ev ident q response now' = Ok answer"
proof -
  obtain q s1 where q: "authenticate ev ident json now False s = (Ok q, s1)"
    and r: "and_then (case dispatch ev (aq_context q) (re_request (aq_envelope q)) s1 of
          (None, s2) \<Rightarrow> (Err Unauthorized, s2) | (Some response, s2) \<Rightarrow> (Ok response, s2)) (\<lambda>response s2.
     and_then (note_certificate ev q response s2) (\<lambda>_ s3. (seal_response ev ident q response now', s3))) = (Ok answer, s')"
    using assms unfolding handle_peer_def by (auto dest: and_then_OkD)
  obtain o1 s2 where d: "dispatch ev (aq_context q) (re_request (aq_envelope q)) s1 = (o1, s2)" by fastforce
  from r obtain response where "o1 = Some response" by (cases o1) (auto simp: d)
  with r d q that show thesis by (auto dest!: and_then_OkD)
qed

lemma authenticate_context:
  assumes "authenticate ev ident json now route s = (Ok q, s')"
  shows "\<exists>p. aq_context q = PeerContext p"
proof -
  obtain e :: nostr_event and envelope a s1 where a: "on_auth (attempt_peer (pe_auth ev) (di_state ident) (ne_author e) (re_owner_statement envelope)
      (re_person_pass envelope) (re_revocations envelope) now) PeerInvalid s = (Ok a, s1)"
    and q: "q = \<lparr>aq_envelope = envelope, aq_author = ne_author e, aq_event_id = ne_id e, aq_context = at_context a\<rparr>"
    by (rule authenticate_Ok [OF assms])
  show ?thesis using attempt_Ok(5) [OF attempt_on_auth(1) [OF a]] by (simp add: q)
qed

lemma open_own:
  assumes "channel_laws ev" and "open_request ev server json now = Ok (e, envelope)" and "signed (peer_nostr ev) json f"
    and "pe_decrypt ev key (ne_author f) (ne_content f) = Some plain" and "ne_tags f = [[''p'', key]]"
    and "pe_print_request ev m = Some plain"
  shows "e = f \<and> envelope = m"
proof -
  have ef: "e = f" using open_request_Ok(1) [OF assms(2)] assms(3) by (simp add: signed_def)
  obtain k p where k: "ne_tags e = [[''p'', k]]" "pe_decrypt ev k (ne_author e) (ne_content e) = Some p" "pe_parse_request ev p = Some envelope"
    using open_request_Ok(5) [OF assms(2)] by blast
  have "k = key" using k(1) assms(5) by (simp add: ef)
  then have "p = plain" using k(2) assms(4) by (simp add: ef)
  moreover have "pe_parse_request ev plain = Some m" using assms(1,6) unfolding channel_laws_def by blast
  ultimately show ?thesis using k(3) ef by simp
qed

lemma decode_sealed:
  assumes "channel_laws ev" and "encrypt_event ev server (aq_author q) peer_response_kind plain sealed = Ok e"
    and "pe_print_response ev \<lparr>rs_version = peer_rpc_version, rs_recipient = aq_author q, rs_request_id = eq_request_id request,
            rs_request_event_id = eq_event_id request, rs_request_nonce = eq_nonce request, rs_response = response\<rparr> = Some plain"
    and "di_device_key client = Some (aq_author q)" and "di_device_key server = Some peer"
    and "length (pe_as_json ev e) \<le> max_encrypted_payload_bytes"
    and "sealed \<le> now + clock_window_seconds" and "now \<le> sealed + clock_window_seconds"
  shows "decode_response ev client peer request (pe_as_json ev e) now = Ok response"
proof -
  note e = encrypt_event_Ok [OF assms(1,2)]
  have v: "verify_encrypted_event (peer_nostr ev) (pe_as_json ev e) = Ok e"
    using e(1) assms(6) by (simp add: verify_encrypted_event_def verify_event_bounded_def signed_def)
  have d: "decrypt_event ev client (pe_as_json ev e) = Ok plain"
    using e(1,4,6) assms(4,6) by (simp add: decrypt_event_def signed_def)
  have t: "check_time sealed now = Ok ()" using assms(7,8) by (auto simp: check_time_def)
  have p: "pe_parse_response ev plain = Some \<lparr>rs_version = peer_rpc_version, rs_recipient = aq_author q, rs_request_id = eq_request_id request,
            rs_request_event_id = eq_event_id request, rs_request_nonce = eq_nonce request, rs_response = response\<rparr>"
    using assms(1,3) unfolding channel_laws_def by blast
  show ?thesis
    using e(2,3,4,5) assms(4,5) by (simp add: decode_response_def v d t p has_exact_recipient_def)
qed

subsection \<open>The exchange\<close>

text \<open>
  C38. The answer reaches the caller. When a device encodes a request for another one and the other
  handles it with success, the other served exactly this request, for a caller that may make it, and
  from the text it returned the device decodes exactly the response of the handlers, provided that the
  two clocks differ by at most two minutes and the text has the size of a body.
\<close>

theorem exchange_delivers:
  assumes "channel_laws ev" and "di_device_key server = Some peer"
    and "encode_request ev client pass revocations peer request now i nonce = Ok sent"
    and "handle_peer ev server (eq_event_json sent) arrived sealed s = (Ok answer, s')"
    and "length answer \<le> max_encrypted_payload_bytes"
    and "sealed \<le> received + clock_window_seconds" and "received \<le> sealed + clock_window_seconds"
  shows "\<exists>p response t. authorize (PeerContext p) request = Ok () \<and>
    fst (dispatch ev (PeerContext p) request t) = Some response \<and>
    decode_response ev client peer sent answer received = Ok response"
proof -
  obtain plain e where pr: "pe_print_request ev \<lparr>re_version = peer_rpc_version, re_recipient = peer, re_request_id = i,
        re_nonce = nonce, re_owner_statement = di_owner_statement client, re_person_pass = pass,
        re_revocations = revocations, re_request = request\<rparr> = Some plain"
    and en: "encrypt_event ev client peer peer_request_kind plain now = Ok e"
    and sent: "sent = \<lparr>eq_event_json = pe_as_json ev e, eq_event_id = ne_id e, eq_request_id = i, eq_nonce = nonce, eq_recipient = peer\<rparr>"
    by (rule encode_request_Ok [OF assms(3)])
  note e = encrypt_event_Ok [OF assms(1) en]
  obtain q s1 response where au: "authenticate ev server (eq_event_json sent) arrived False s = (Ok q, s1)"
    and d: "fst (dispatch ev (aq_context q) (re_request (aq_envelope q)) s1) = Some response"
    and se: "seal_response ev server q response sealed = Ok answer"
    by (rule handle_Ok [OF assms(4)])
  obtain f envelope and a :: authorization_attempt
    where o: "open_request ev server (eq_event_json sent) arrived = Ok (f, envelope)"
    and z: "authorize (at_context a) (re_request envelope) = Ok ()"
    and q: "q = \<lparr>aq_envelope = envelope, aq_author = ne_author f, aq_event_id = ne_id f, aq_context = at_context a\<rparr>"
    by (rule authenticate_Ok [OF au])
  obtain p where p: "aq_context q = PeerContext p" using authenticate_context [OF au] by blast
  have "f = e \<and> envelope = \<lparr>re_version = peer_rpc_version, re_recipient = peer, re_request_id = i,
        re_nonce = nonce, re_owner_statement = di_owner_statement client, re_person_pass = pass,
        re_revocations = revocations, re_request = request\<rparr>"
    by (rule open_own [OF assms(1) o _ e(6,4) pr]) (use e(1) sent in simp)
  then have q': "aq_author q = ne_author e" "aq_event_id q = ne_id e" "re_request (aq_envelope q) = request"
    "re_request_id (aq_envelope q) = i" "re_nonce (aq_envelope q) = nonce" "aq_context q = at_context a" "re_request envelope = request"
    by (simp_all add: q)
  obtain body g where rp: "pe_print_response ev \<lparr>rs_version = peer_rpc_version, rs_recipient = aq_author q,
            rs_request_id = re_request_id (aq_envelope q), rs_request_event_id = aq_event_id q,
            rs_request_nonce = re_nonce (aq_envelope q), rs_response = response\<rparr> = Some body"
    and g: "encrypt_event ev server (aq_author q) peer_response_kind body sealed = Ok g" "answer = pe_as_json ev g"
    by (rule seal_response_Ok [OF se])
  have "decode_response ev client peer sent (pe_as_json ev g) received = Ok response"
    by (rule decode_sealed [OF assms(1) g(1)]) (use rp sent q' e(2) assms(2,5-7) g(2) in simp_all)
  moreover have "fst (dispatch ev (PeerContext p) request s1) = Some response" using d p q'(3) by simp
  moreover have "authorize (PeerContext p) request = Ok ()" using z p q'(6,7) by simp
  ultimately show ?thesis unfolding g(2) by blast
qed

subsection \<open>An example\<close>

text \<open>
  The server of the example, and a channel that signs and prints one request and one response:
  their texts are \<open>''rq5''\<close>, which it also reads, and \<open>''rs5''\<close>. The cipher changes nothing.
\<close>

definition demo_answer :: nostr_event where
  "demo_answer = \<lparr>ne_id = replicate 64 CHR ''9'', ne_author = demo_server, ne_created_at = 211, ne_kind = peer_response_kind,
     ne_tags = [[''p'', demo_device]], ne_content = ''a''\<rparr>"

definition demo_response :: "nat response_envelope" where
  "demo_response = \<lparr>rs_version = peer_rpc_version, rs_recipient = demo_device, rs_request_id = replicate 64 CHR ''5'',
     rs_request_event_id = replicate 64 CHR ''5'', rs_request_nonce = replicate 64 CHR ''5'', rs_response = 1\<rparr>"

definition demo_line_nostr :: nostr where
  "demo_line_nostr = demo_peer_nostr\<lparr>from_json := (\<lambda>j. if j = ''rs5'' then Some demo_answer else from_json demo_peer_nostr j)\<rparr>"

definition demo_sign :: "string \<Rightarrow> nat \<Rightarrow> string list list \<Rightarrow> string \<Rightarrow> nat \<Rightarrow> nostr_event option" where
  "demo_sign key kind tags content created =
     (if (key, kind, tags, content, created) = (demo_device, peer_request_kind, [[''p'', demo_server]], ''5'', 200)
      then Some (demo_call CHR ''5'' demo_device)
      else if (key, kind, tags, content, created) = (demo_server, peer_response_kind, [[''p'', demo_device]], ''a'', 211)
      then Some demo_answer else None)"

definition demo_line :: "(string list, nat) peer_env" where
  "demo_line = demo_peer\<lparr>pe_auth := demo_peer_auth\<lparr>ae_nostr := demo_line_nostr\<rparr>, pe_sign := demo_sign,
     pe_as_json := (\<lambda>e. if ne_kind e = peer_request_kind then ''rq5'' else ''rs5''),
     pe_print_request := (\<lambda>m. if m = demo_envelope CHR ''5'' (Some ''own'') SettingsUpdate then Some ''5'' else None),
     pe_print_response := (\<lambda>r. if r = demo_response then Some ''a'' else None),
     pe_parse_response := (\<lambda>x. if x = ''a'' then Some demo_response else None)\<rparr>"

definition demo_client :: device_identity where
  "demo_client = \<lparr>di_state = Owned demo_device demo_owner (replicate 64 CHR ''1'') 100, di_device_key = Some demo_device,
     di_owner_statement = Some ''own''\<rparr>"

lemma demo_line_sel [simp]:
  "pe_auth demo_line = demo_peer_auth\<lparr>ae_nostr := demo_line_nostr\<rparr>" "peer_nostr demo_line = demo_line_nostr"
  "pe_sign demo_line = demo_sign" "pe_encrypt demo_line a b x = Some x" "pe_decrypt demo_line a b x = Some x"
  "pe_public_key_ok demo_line k"
  by (simp_all add: demo_line_def demo_peer_def peer_nostr_def)

lemma demo_channel: "channel_laws demo_line"
proof -
  have kinds: "peer_response_kind \<noteq> peer_request_kind" by (simp add: peer_request_kind_def peer_response_kind_def)
  have "signed demo_line_nostr (pe_as_json demo_line e) e \<and> ne_author e = key \<and> ne_kind e = kind \<and> ne_tags e = tags \<and>
        ne_content e = content \<and> ne_created_at e = created" if "demo_sign key kind tags content created = Some e" for key kind tags content created e
    using that kinds by (auto simp: demo_sign_def demo_line_def demo_line_nostr_def demo_peer_nostr_def demo_nostr_def signed_def
      demo_answer_def demo_call_def split: if_splits)
  then show ?thesis
    by (auto simp: channel_laws_def) (auto simp: demo_line_def demo_peer_def split: if_splits)
qed

lemma demo_line_open:
  "open_request demo_line demo_identity ''rq5'' 210 = Ok (demo_call CHR ''5'' demo_device, demo_envelope CHR ''5'' (Some ''own'') SettingsUpdate)"
  using demo_time [of 210]
  by (simp add: open_request_def verify_encrypted_event_def verify_event_bounded_def max_encrypted_payload_bytes_def demo_line_nostr_def
    demo_peer_nostr_def demo_nostr_def demo_call_def has_exact_recipient_def decrypt_event_def demo_envelope_def demo_digits)
    (simp add: demo_line_def demo_peer_def demo_envelope_def demo_digits)

lemma demo_line_accepts:
  "\<exists>t. authenticate demo_line demo_identity ''rq5'' 210 False (demo_at [] []) = (Ok (demo_request CHR ''5''), t)"
proof -
  have "fst (principal_for demo_line_nostr demo_local demo_device (Some ''own'') None 210 [] []) = OwnerDevice demo_device ''own'' demo_owner"
    by code_simp
  then obtain memo where p: "principal_for demo_line_nostr demo_local demo_device (Some ''own'') None 210 [] [] =
      (OwnerDevice demo_device ''own'' demo_owner, memo)" by (metis prod.collapse)
  have "is_security_mutation SettingsUpdate" "\<not> is_object_request SettingsUpdate"
    by (simp_all add: is_security_mutation_def is_object_request_def)
  then show ?thesis
    by (simp add: authenticate_def demo_line_open demo_envelope_def demo_call_def on_auth_eq attempt_peer_def p demo_at_def demo_settings consume_def
      on_peer_disk_eq marker_disk_def remember_def Let_def commit_revocations_def reconcile_certificate_trust_def bt_retain_def
      certificate_revocations_def certificate_grants_def demo_request_def)
qed

definition demo_sent :: encoded_request where
  "demo_sent = \<lparr>eq_event_json = ''rq5'', eq_event_id = replicate 64 CHR ''5'', eq_request_id = replicate 64 CHR ''5'',
     eq_nonce = replicate 64 CHR ''5'', eq_recipient = demo_server\<rparr>"

lemma demo_line_encode:
  "encode_request demo_line demo_client None [] demo_server SettingsUpdate 200 (replicate 64 CHR ''5'') (replicate 64 CHR ''5'') = Ok demo_sent"
proof -
  have "pe_print_request demo_line \<lparr>re_version = peer_rpc_version, re_recipient = demo_server, re_request_id = replicate 64 CHR ''5'',
      re_nonce = replicate 64 CHR ''5'', re_owner_statement = Some ''own'', re_person_pass = None, re_revocations = [],
      re_request = SettingsUpdate\<rparr> = Some ''5''"
    unfolding demo_envelope_def [symmetric] by (simp add: demo_line_def demo_envelope_def)
  moreover have "encrypt_event demo_line demo_client demo_server peer_request_kind ''5'' 200 = Ok (demo_call CHR ''5'' demo_device)"
    by (simp add: encrypt_event_def max_encrypted_plaintext_bytes_def demo_client_def demo_sign_def)
  moreover have "pe_as_json demo_line (demo_call CHR ''5'' demo_device) = ''rq5''" by (simp add: demo_line_def demo_call_def)
  ultimately show ?thesis
    by (simp add: encode_request_def demo_digits demo_client_def demo_sent_def demo_call_def del: demo_line_sel)
qed

lemma demo_line_handle:
  "\<exists>s'. handle_peer demo_line demo_identity ''rq5'' 210 211 (demo_at [] []) = (Ok ''rs5'', s')"
proof -
  obtain t where a: "authenticate demo_line demo_identity ''rq5'' 210 False (demo_at [] []) = (Ok (demo_request CHR ''5''), t)"
    using demo_line_accepts by blast
  have kinds: "peer_response_kind \<noteq> peer_request_kind" by (simp add: peer_request_kind_def peer_response_kind_def)
  have "pe_print_response demo_line demo_response = Some ''a''" by (simp add: demo_line_def)
  moreover have "encrypt_event demo_line demo_identity demo_device peer_response_kind ''a'' 211 = Ok demo_answer"
    using kinds by (simp add: encrypt_event_def max_encrypted_plaintext_bytes_def demo_sign_def)
  moreover have "pe_as_json demo_line demo_answer = ''rs5''" using kinds by (simp add: demo_line_def demo_answer_def)
  ultimately have "seal_response demo_line demo_identity (demo_request CHR ''5'') 1 211 = Ok ''rs5''"
    by (simp add: seal_response_def demo_response_def demo_request_def demo_envelope_def del: demo_line_sel)
  then show ?thesis
    by (simp add: handle_peer_def a dispatch_def demo_settings on_peer_disk_eq note_certificate_def provisioned_certificate_def
      revoked_certificate_def demo_request_def demo_envelope_def) (simp add: demo_line_def demo_peer_def)
qed

text \<open>Witness of C38: the owner's device changes the settings of the server and reads its answer.\<close>

theorem exchange_delivers_witness:
  "\<exists>response. decode_response demo_line demo_client demo_server demo_sent ''rs5'' 212 = Ok response"
proof -
  obtain s' where h: "handle_peer demo_line demo_identity (eq_event_json demo_sent) 210 211 (demo_at [] []) = (Ok ''rs5'', s')"
    using demo_line_handle by (auto simp: demo_sent_def)
  have "di_device_key demo_identity = Some demo_server" by simp
  from exchange_delivers [OF demo_channel this demo_line_encode h, of 212] show ?thesis
    by (auto simp: max_encrypted_payload_bytes_def clock_window_seconds_def)
qed

end
