(* ===== verification/Spec2Isabelle.thy ===== *)
theory Spec2Isabelle
  imports Shortcuts Hold Seat_Pool Seat_Uinput Receiver_Safety Limits_Daemon Invites Launch_Reservation Acquisition_Download
    Save_Retention Peer_Exchange
begin

text \<open>
  A verification development for Korri, the parts of it that decide who may act and when: the
  input daemon, which turns gamepads into virtual seats for a running game, the limits daemon,
  which writes power limits for it, and the parts of the host daemon \<open>korrid\<close> that start and cancel
  launches, show invitations, talk to the servers of content providers, keep the history of saves and
  decide what other devices may ask for. The sources are Rust,
  under \<open>src/services\<close> and \<open>src/contracts\<close>.

  \<^bold>\<open>The program and its model\<close>

  \<^item> Input policies. \<open>Controls\<close> is \<open>inputd/core/src/controls.rs\<close>: the controls of a gamepad and their
    events. \<open>Shortcuts\<close> is \<open>shortcuts.rs\<close>: the record \<open>shortcut_policy\<close> is \<open>ShortcutPolicy\<close>, with one
    definition per method (\<open>press\<close>, \<open>release\<close>, \<open>handle\<close>, and so on). \<open>Hold\<close> is \<open>hold.rs\<close>: holding a
    control to confirm.
  \<^item> Seats. \<open>Input_Contract\<close> is \<open>contracts/input/src/lib.rs\<close>, the state of a gamepad as it is sent
    between processes. \<open>Seat_Backend\<close> is the trait \<open>SeatBackend\<close> of \<open>inputd/src/input_seat.rs\<close>, as a
    record of operations that the pool takes as an argument. \<open>Seat_Pool\<close> is \<open>seat_pool.rs\<close>: the
    assignment of sources to a bounded number of seats. \<open>Seat_Uinput\<close> is
    \<open>input_seat_uinput.rs\<close>: the backend that writes kernel events. \<open>Seat_Runtime\<close> is the
    runtime of \<open>input_seat.rs\<close>: tokens, packets, sources, the route and the expiry of silent
    sources. \<open>Seat_Safety\<close> holds what is proved about it.
  \<^item> The receiver process. \<open>Seat_Receiver\<close> is \<open>input_seat_receiver.rs\<close>: its command line, its packet
    formats, its files and the whole event loop around a \<open>Seat_Runtime\<close>. \<open>Receiver_Safety\<close> holds
    what is proved about it.
  \<^item> Power limits. \<open>Limits_Daemon\<close> is \<open>limitsd/src/lib.rs\<close>: discovery of the hardware, sessions,
    rollback and the handling of one connection, over the file system of \<open>Host_Files\<close>.
  \<^item> Launches. \<open>Launch_Reservation\<close> is \<open>korrid/src/host/launch_reservation.rs\<close>. A reservation is
    shared between a table and a worker, so that objects live in a store; the only race inside an
    operation, between \<open>cancel\<close> and \<open>commit\<close>, is an argument of the loop of \<open>cancel\<close>.
  \<^item> Invitations. \<open>Invites\<close> is \<open>korrid/src/invites/cache.rs\<close>.
  \<^item> Content providers. \<open>Acquisition_Policy\<close> is \<open>korrid/src/acquisition/policy.rs\<close>: addresses,
    URLs, redirects, file names. \<open>Acquisition_Claims\<close> is \<open>claims.rs\<close>: the admission of a plugin's
    answers. \<open>Acquisition_Turns\<close> is \<open>turns.rs\<close> and the transport of \<open>download.rs\<close>: how a plugin that
    performs no I/O gets its requests fetched. \<open>Acquisition_Download\<close> is the rest of \<open>download.rs\<close> and
    \<open>space.rs\<close>: the download of pinned artifacts, with resumption and retries, and of games, above
    a floor of free space.
  \<^item> Saves. \<open>Save_Record\<close> is \<open>korrid/src/saves/record.rs\<close> and \<open>types.rs\<close>: immutable records of
    snapshots and their ids. \<open>Save_History\<close> is \<open>history.rs\<close>: joining heads. \<open>Save_Ancestry\<close> has the
    decisions of \<open>store.rs\<close> that do no I/O, \<open>Save_Store\<close> its operations on the disk: reading and
    publishing records and objects, choosing what a launch continues, resolving a split, pruning.
    \<open>Save_Retention\<close> holds what pruning removes.
  \<^item> Other devices. \<open>Peer_Policy\<close> and \<open>Peer_Evidence\<close> are the part of \<open>korrid/src/authorization.rs\<close> that
    does no I/O, with the reading of signed events of \<open>identity.rs\<close>: who may make which request, and what a
    device has to show. \<open>Peer_Authorization\<close> is its state: revocations and the certificates that were
    granted. \<open>Peer_Requests\<close> is \<open>peer_rpc.rs\<close>: the encrypted request and response, the guard against
    replays, the server and the client. \<open>Peer_Trust\<close>, \<open>Peer_Replay\<close> and \<open>Peer_Exchange\<close> hold what is proved.

  The theories \<open>Korri_Prelude\<close>, \<open>Ordered_Map\<close>, \<open>Rust_Text\<close>, \<open>Utf8\<close> and \<open>Host_Files\<close> are shared. The
  first has Rust's \<open>Result\<close>, byte predicates and the locale \<open>machine\<close>, a step function with an
  invariant, whose lemmas every stateful component gets by interpretation. \<open>Ordered_Map\<close> is
  \<open>BTreeMap\<close> with the locale \<open>finite_map\<close>. \<open>Rust_Text\<close> and \<open>Utf8\<close> are the functions on \<open>str\<close> that the
  sources use.

  \<^bold>\<open>Conventions\<close>

  Structs are records and enums are datatypes with the names of the source, where they do not
  clash. Strings are lists of bytes. Mutation is explicit: an operation takes the state and returns
  its result with the new state, also on every error path. Numbers that can wrap are words;
  counters and clocks, which are only compared and subtracted with saturation, are natural numbers.
  Loops are structural recursion or functions with a measure, and nothing has fuel, with three
  exceptions that mirror bounds of the sources: a poll with a deadline is a list of polls, the
  event loop of the receiver is a list of turns, and the turns and hops of a provider operation and
  the attempts of a download are the lists of their numbers (four calls, six hops, six attempts),
  as the loops of the source have them. The search for a free file name in a join has one round
  more than there are files, and \<open>free_name_is_free\<close> shows that this is enough. The body of a response is the finite list of chunks and
  timer ticks that the transfer loop sees.

  Code outside the sources is a parameter: the kernel and file system, sockets and signals, the
  clock, random bytes, JSON codecs, the SHA-256 digest, the crates \<open>url\<close>, \<open>reqwest\<close> and \<open>nostr\<close> (events, signatures and encryption), the plugin
  process. A parameter is an argument of the definitions, and nothing is assumed about it except
  where a property names what it needs; such a property has a witness with a concrete parameter.
  The one place where an order is chosen is the iteration over hash maps, here by key.

  \<^bold>\<open>What is shown\<close>

  \<^item> \<open>Shortcuts\<close>, \<open>Hold\<close>: a destructive shortcut fires only when exactly its controls are held on one
    source after all of them were seen released; an action fires once per hold; a tap is reported
    unless it was consumed; each hold has exactly one outcome and its progress stays in range.
  \<^item> \<open>Seat_Pool\<close>, \<open>Seat_Uinput\<close>: through every sequence of requests and every failure of a backend
    the pool is sound and a source keeps its slot for a session; the kernel device shows the state
    that the pool believes it shows, or the pool knows that it does not know.
  \<^item> \<open>Seat_Safety\<close>: input that is held while the route changes reaches no seat before it was
    released; seats follow the route; tokens are compared exactly; inverting an axis saturates.
  \<^item> \<open>Receiver_Safety\<close>: authority follows the lease between any two turns, it is withdrawn however
    the process ends, only authenticated peers act, and every turn is a sequence of operations of
    the runtime.
  \<^item> \<open>Limits_Daemon\<close>: limits that are set arrive in the hardware and defaults come back, writes stay
    under the permitted roots, sessions refine an abstract contract, and only one bounded line of
    the permitted user is executed.
  \<^item> \<open>Launch_Reservation\<close>: cancel and commit agree on who won in every interleaving, both are final,
    the loop ends, and a reservation belongs to the caller and person that made it.
  \<^item> \<open>Invites\<close>: a dismissal lasts until the device announces another launch, the list is exactly
    what was announced and is not dismissed, and ids name one launch.
  \<^item> \<open>Acquisition_Policy\<close>, \<open>Acquisition_Turns\<close>: the address check is exactly a list of blocks;
    every request of a provider operation, including all redirects, goes to a declared host at
    public addresses without privileged headers; an operation ends within fixed bounds; what it
    returns is admitted.
  \<^item> \<open>Acquisition_Download\<close>: a pinned file that is returned has the pinned digest on the disk; a game
    download leaves the whole game above the free-space floor, or no file. Both rest on
    \<open>disk_laws\<close>, what file operations do when they succeed.
  \<^item> \<open>Save_Record\<close>, \<open>Save_History\<close>: validation gives well-formed records; the id of a record is the
    id of its content; a join loses neither progress nor screenshots and does not depend on the
    order of the heads.
  \<^item> \<open>Save_Ancestry\<close>, \<open>Save_Store\<close>, \<open>Save_Retention\<close>: the walk over ancestors is the closure of the parent relation; a
    launch continues only a line that is stored and not split; resolving a split appends and
    loses nothing; pruning removes an object only when no record needs it.
  \<^item> \<open>Peer_Policy\<close>, \<open>Peer_Evidence\<close>: a peer has exactly the rights of its evidence, which is signed, current
    and not revoked, and the memo of statements changes nothing.
  \<^item> \<open>Peer_Trust\<close>: a revocation takes effect when it is committed and lasts, it is read back at the next
    start, and certificates are taken back exactly from those who lost their right; but a write that
    is cut short blocks every later start.
  \<^item> \<open>Peer_Replay\<close>, \<open>Peer_Exchange\<close>: only authentic and permitted requests are accepted, others change
    nothing; a change of security is accepted once, any request once while the process runs, unless
    its author reuses the nonce; the client decodes what the handlers answered. These rest on laws of
    the libraries and of the disk, \<open>storage_laws\<close>, \<open>guard_laws\<close> and \<open>channel_laws\<close>.

  \<^bold>\<open>Not modelled\<close>

  The session state machine and the units of \<open>korrid/src/host\<close>, the plugin host, relays,
  upstreams and the federation of devices, the key files of the identity and external signers, the
  handlers behind \<open>dispatch\<close>, the limiter of requests and the reading of the authorization while the
  host is offline (\<open>open_offline\<close>), discovery, the catalog, configuration and launch settings of
  \<open>korrid\<close>; the unpacking and placement of files in \<open>korrid/src/acquisition\<close>; capturing and materializing the
  working files of a game in \<open>saves/store.rs\<close>, and the transfer of saves between devices; the D-Bus
  service, device capture and bundles of \<open>inputd\<close>; clients, surfaces, plugins and packaging. They
  are large or mostly I/O and serialisation, and no theorem here speaks about them. Derived code
  (JSON encodings, \<open>Debug\<close>, \<open>Clone\<close>) and code that only tests use is left out everywhere.
\<close>

end
